(* ===== verification/Prelude.thy ===== *)
theory Prelude
  imports Main "HOL-Library.Word" "HOL-Library.Signed_Division"
begin

unbundle bit_operations_syntax

text \<open>
  Shared vocabulary of the development: the machine types of the RV32 target, the faults with
  which kernel code can fail to return, the error composition \<open>bindE\<close>, byte addressed memory
  with the little-endian loads and stores the compiled C performs, and the C integer
  conversions the code relies on.
\<close>

section \<open>Machine types\<close>

type_synonym u8 = "8 word"
type_synonym u16 = "16 word"
type_synonym u32 = "32 word"
type_synonym u64 = "64 word"

named_theorems fault_simps \<open>rewrite rules of the error composition\<close>
named_theorems mem_simps \<open>loads after stores and copies\<close>

section \<open>Faults and error composition\<close>

text \<open>
  Code stops in one of seven ways that are not a return: a failed \<^verbatim>\<open>assert\<close> and an
  explicit \<^verbatim>\<open>panic\<close> (both disable interrupts and halt), a dereference of a null or of a
  pointer outside its array, a use of a variable that nothing was written to, a division by
  zero, an overflow of signed arithmetic (all four undefined behaviour), and a loop that never ends.
\<close>

datatype kfault = AssertFail | Panic | BadPointer | Hang | Uninit | DivByZero | Overflow

definition bindE :: "'e + 'a \<Rightarrow> ('a \<Rightarrow> 'e + 'b) \<Rightarrow> 'e + 'b" where
  "bindE m f = (case m of Inl e \<Rightarrow> Inl e | Inr x \<Rightarrow> f x)"

definition assertE :: "bool \<Rightarrow> kfault + unit" where
  "assertE b = (if b then Inr () else Inl AssertFail)"

lemma bindE_simps [simp, fault_simps]:
  "bindE (Inl e) f = Inl e"
  "bindE (Inr x) f = f x"
  by (simp_all add: bindE_def)

lemma bindE_Inr_iff [fault_simps]:
  "bindE m f = Inr y \<longleftrightarrow> (\<exists>x. m = Inr x \<and> f x = Inr y)"
  by (cases m) auto

lemma bindE_Inl_iff [fault_simps]:
  "bindE m f = Inl e \<longleftrightarrow> m = Inl e \<or> (\<exists>x. m = Inr x \<and> f x = Inl e)"
  by (cases m) auto

lemma bindE_assoc: "bindE (bindE m f) g = bindE m (\<lambda>x. bindE (f x) g)"
  by (cases m) auto

lemma assertE_simps [simp, fault_simps]:
  "assertE True = Inr ()"
  "assertE False = Inl AssertFail"
  "assertE b = Inr u \<longleftrightarrow> b"
  by (auto simp: assertE_def)

section \<open>C integer conversions\<close>

text \<open>
  \<^verbatim>\<open>short\<close> and \<^verbatim>\<open>unsigned short\<close> conversions of an \<^verbatim>\<open>int\<close>, and \<^verbatim>\<open>%\<close> on signed operands, which
  truncates towards zero.
\<close>

definition to_short :: "int \<Rightarrow> int" where
  "to_short i = sint (word_of_int i :: u16)"

definition to_ushort :: "int \<Rightarrow> nat" where
  "to_ushort i = unat (word_of_int i :: u16)"

definition c_mod :: "int \<Rightarrow> int \<Rightarrow> int" where
  "c_mod a b = a smod b"

lemma sint_word_of_int_eq_self:
  "- (2 ^ (LENGTH('a) - 1)) \<le> i \<Longrightarrow> i < 2 ^ (LENGTH('a) - 1) \<Longrightarrow> sint (word_of_int i :: 'a::len word) = i"
  by (simp add: signed_take_bit_int_eq_self sint_sbintrunc')

lemma to_short_small [simp]: "- 32768 \<le> i \<Longrightarrow> i < 32768 \<Longrightarrow> to_short i = i"
  unfolding to_short_def by (simp add: sint_word_of_int_eq_self)

lemma to_ushort_small [simp]: "0 \<le> i \<Longrightarrow> i < 65536 \<Longrightarrow> to_ushort i = nat i"
  unfolding to_ushort_def by (simp add: unat_eq_nat_uint uint_word_of_int)

lemma c_mod_nonneg: "0 \<le> a \<Longrightarrow> 0 < b \<Longrightarrow> c_mod a b = a mod b"
  by (cases "a = 0") (simp_all add: c_mod_def smod_int_alt_def)

section \<open>Memory\<close>

type_synonym mem = "u32 \<Rightarrow> u8"

definition load8 :: "mem \<Rightarrow> u32 \<Rightarrow> u8" where
  "load8 m a = m a"

definition load16 :: "mem \<Rightarrow> u32 \<Rightarrow> u16" where
  "load16 m a = ucast (m a) OR push_bit 8 (ucast (m (a + 1)))"

definition load32 :: "mem \<Rightarrow> u32 \<Rightarrow> u32" where
  "load32 m a = ucast (m a) OR push_bit 8 (ucast (m (a + 1))) OR
     push_bit 16 (ucast (m (a + 2))) OR push_bit 24 (ucast (m (a + 3)))"

definition store8 :: "mem \<Rightarrow> u32 \<Rightarrow> u8 \<Rightarrow> mem" where
  "store8 m a v = m(a := v)"

definition store32 :: "mem \<Rightarrow> u32 \<Rightarrow> u32 \<Rightarrow> mem" where
  "store32 m a v = m(a := ucast v, a + 1 := ucast (drop_bit 8 v),
     a + 2 := ucast (drop_bit 16 v), a + 3 := ucast (drop_bit 24 v))"

text \<open>\<^verbatim>\<open>memcpy(dst, src, n)\<close> of the C library: \<open>n\<close> bytes, read before any is written.\<close>

definition memcpy :: "mem \<Rightarrow> u32 \<Rightarrow> u32 \<Rightarrow> nat \<Rightarrow> mem" where
  "memcpy m dst src n = (\<lambda>a. if unat (a - dst) < n then m (src + (a - dst)) else m a)"

text \<open>Two byte ranges do not meet, on the circular address space.\<close>

definition disjnt_rng :: "u32 \<Rightarrow> nat \<Rightarrow> u32 \<Rightarrow> nat \<Rightarrow> bool" where
  "disjnt_rng a n b k \<longleftrightarrow> n \<le> unat (b - a) \<and> k \<le> unat (a - b)"

lemma word_bytes_join:
  fixes v :: u32
  shows "(ucast (ucast v :: u8) :: u32) OR push_bit 8 (ucast (ucast (drop_bit 8 v) :: u8)) OR
     push_bit 16 (ucast (ucast (drop_bit 16 v) :: u8)) OR
     push_bit 24 (ucast (ucast (drop_bit 24 v) :: u8)) = v"
proof (rule bit_word_eqI)
  fix n assume "n < LENGTH(32)"
  then consider "n < 8" | "8 \<le> n \<and> n < 16" | "16 \<le> n \<and> n < 24" | "24 \<le> n \<and> n < 32"
    by fastforce
  then show "bit ((ucast (ucast v :: u8) :: u32) OR push_bit 8 (ucast (ucast (drop_bit 8 v) :: u8)) OR
     push_bit 16 (ucast (ucast (drop_bit 16 v) :: u8)) OR
     push_bit 24 (ucast (ucast (drop_bit 24 v) :: u8))) n = bit v n"
    by cases (auto simp add: bit_simps)
qed

lemma add_small_neq:
  fixes a :: u32
  shows "a + 1 \<noteq> a" "a + 2 \<noteq> a" "a + 3 \<noteq> a" "a + 2 \<noteq> a + 1" "a + 3 \<noteq> a + 1" "a + 3 \<noteq> a + 2"
    "a \<noteq> a + 1" "a \<noteq> a + 2" "a \<noteq> a + 3" "a + 1 \<noteq> a + 2" "a + 1 \<noteq> a + 3" "a + 2 \<noteq> a + 3"
  by simp_all

lemma unat_lt32: "unat (x :: u32) < 4294967296"
proof -
  have "uint x < 4294967296" using uint_bounded [of x] by simp
  then show ?thesis unfolding unat_eq_nat_uint by (subst nat_less_iff) simp_all
qed

lemma unat_offset: "k < 4294967296 \<Longrightarrow> unat (d + of_nat k - d :: u32) = k"
  by (simp add: unat_of_nat take_bit_nat_eq_self)

lemma memcpy_in:
  assumes "k < n" "n \<le> 4294967296"
  shows "memcpy m d s n (d + of_nat k) = m (s + of_nat k)"
  using assms by (simp add: memcpy_def unat_offset [of k d, simplified])

lemma memcpy_out: "n \<le> unat (a - d) \<Longrightarrow> memcpy m d s n a = m a"
  by (simp add: memcpy_def)

lemma load32_memcpy_in:
  assumes "k + 4 \<le> n" "n \<le> 4294967296"
  shows "load32 (memcpy m d s n) (d + of_nat k) = load32 m (s + of_nat k)"
proof -
  have "memcpy m d s n (d + of_nat k + of_nat j) = m (s + of_nat k + of_nat j)" if "j < 4" for j
    using that assms memcpy_in [of "k + j" n m d s] by (simp add: add.assoc)
  from this [of 0] this [of 1] this [of 2] this [of 3] show ?thesis
    by (simp add: load32_def)
qed

lemma unat_uminus_nonzero:
  fixes x :: u32
  assumes "x \<noteq> 0"
  shows "unat (- x) = 4294967296 - unat x"
proof -
  have "0 < uint x"
    using assms uint_lt_0 [of x] by (simp add: word_neq_0_conv word_less_def)
  moreover have "uint x < 4294967296"
    using uint_bounded [of x] by simp
  ultimately have "(- uint x) mod 4294967296 = 4294967296 - uint x"
    by (subst zmod_zminus1_eq_if) simp
  moreover have "uint (- x) = (- uint x) mod 4294967296"
    by (simp add: uint_word_ariths)
  ultimately show ?thesis
    unfolding unat_eq_nat_uint by (simp add: nat_diff_distrib)
qed

lemma disjnt_rng_offset:
  assumes "disjnt_rng a k d n" "j < k"
  shows "n \<le> unat (a + of_nat j - d)"
proof -
  let ?x = "a - d"
  have x: "n \<le> unat ?x" "k \<le> unat (- ?x)" using assms by (auto simp: disjnt_rng_def)
  with assms(2) have "?x \<noteq> 0" by auto
  then have "unat (- ?x) = 4294967296 - unat ?x"
    by (rule unat_uminus_nonzero)
  with x assms(2) have lt: "unat ?x + j < 4294967296" by linarith
  then have "unat (?x + of_nat j) = unat ?x + j"
    by (simp add: unat_word_ariths unat_of_nat take_bit_nat_eq_self)
  with x show ?thesis by (simp add: algebra_simps)
qed

lemma load32_memcpy_out [mem_simps]:
  assumes "disjnt_rng a 4 d n"
  shows "load32 (memcpy m d s n) a = load32 m a"
proof -
  have "memcpy m d s n (a + of_nat j) = m (a + of_nat j)" if "j < 4" for j
    using that assms by (intro memcpy_out disjnt_rng_offset)
  from this [of 0] this [of 1] this [of 2] this [of 3] show ?thesis
    by (simp add: load32_def)
qed

lemma store32_apply:
  "store32 m a v b = (if b = a + 3 then ucast (drop_bit 24 v) else if b = a + 2 then ucast (drop_bit 16 v)
     else if b = a + 1 then ucast (drop_bit 8 v) else if b = a then ucast v else m b)"
  by (simp add: store32_def)

lemma store32_out: "4 \<le> unat (b - a) \<Longrightarrow> store32 m a v b = m b"
  by (auto simp: store32_apply)

lemma load32_store32_out [mem_simps]:
  assumes "disjnt_rng b 4 a 4"
  shows "load32 (store32 m a v) b = load32 m b"
proof -
  have "store32 m a v (b + of_nat j) = m (b + of_nat j)" if "j < 4" for j
    using that assms by (intro store32_out disjnt_rng_offset)
  from this [of 0] this [of 1] this [of 2] this [of 3] show ?thesis
    by (simp add: load32_def)
qed

lemma load32_store32_same [simp, mem_simps]: "load32 (store32 m a v) a = v"
  unfolding load32_def store32_def using word_bytes_join [of v] by (simp add: add_small_neq)

text \<open>Arrays of words: the element loop \<^verbatim>\<open>to[i] = from[i]\<close>, and the elements read back.\<close>

fun store_words :: "mem \<Rightarrow> u32 \<Rightarrow> u32 list \<Rightarrow> mem" where
  "store_words m a [] = m"
| "store_words m a (w # ws) = store_words (store32 m a w) (a + 4) ws"

definition load_words :: "mem \<Rightarrow> u32 \<Rightarrow> nat \<Rightarrow> u32 list" where
  "load_words m a n = map (\<lambda>i. load32 m (a + 4 * of_nat i)) [0..<n]"

lemma length_load_words [simp]: "length (load_words m a n) = n"
  by (simp add: load_words_def)

lemma unat_sub_ge:
  fixes x :: u32
  assumes "k \<le> unat x"
  shows "unat (x - of_nat k) = unat x - k"
proof -
  have "k < 4294967296" using assms unat_lt32 [of x] by simp
  then have k: "unat (of_nat k :: u32) = k" by (simp add: unat_of_nat take_bit_nat_eq_self)
  with assms have "(of_nat k :: u32) \<le> x" by (simp add: word_le_nat_alt)
  then show ?thesis by (simp add: unat_sub k)
qed

lemma store_words_out: "4 * length ws \<le> unat (b - a) \<Longrightarrow> store_words m a ws b = m b"
proof (induction ws arbitrary: m a)
  case Nil
  then show ?case by simp
next
  case (Cons w ws)
  have "b - (a + 4) = (b - a) - of_nat 4" by simp
  then have "unat (b - (a + 4)) = unat (b - a) - 4"
    using Cons.prems unat_sub_ge [of 4 "b - a"] by (metis add_leE length_Cons mult_Suc_right)
  with Cons.prems have "store_words m a (w # ws) b = store32 m a w b"
    by (simp add: Cons.IH)
  with Cons.prems show ?case by (simp add: store32_out)
qed

lemma load32_store_words_out [mem_simps]:
  assumes "disjnt_rng b 4 a (4 * length ws)"
  shows "load32 (store_words m a ws) b = load32 m b"
proof -
  have "store_words m a ws (b + of_nat j) = m (b + of_nat j)" if "j < 4" for j
    using that assms by (intro store_words_out disjnt_rng_offset)
  from this [of 0] this [of 1] this [of 2] this [of 3] show ?thesis
    by (simp add: load32_def)
qed

lemma load32_store_words_in:
  "i < length ws \<Longrightarrow> 4 * length ws \<le> 4294967296 \<Longrightarrow>
   load32 (store_words m a ws) (a + 4 * of_nat i) = ws ! i"
proof (induction ws arbitrary: m a i)
  case Nil
  then show ?case by simp
next
  case (Cons w ws)
  show ?case
  proof (cases i)
    case 0
    have "store_words m a (w # ws) (a + of_nat j) = store32 m a w (a + of_nat j)" if "j < 4" for j
    proof -
      from that have "j = 0 \<or> j = 1 \<or> j = 2 \<or> j = 3" by arith
      then have "unat (a + of_nat j - (a + 4)) = 4294967292 + j"
        using unat_uminus_nonzero [of 1] by auto
      then show ?thesis using Cons.prems(2) that by (simp add: store_words_out)
    qed
    from this [of 0] this [of 1] this [of 2] this [of 3]
    have "load32 (store_words m a (w # ws)) a = load32 (store32 m a w) a"
      by (simp add: load32_def)
    with 0 show ?thesis by (simp add: load32_store32_same)
  next
    case (Suc k)
    with Cons.prems Cons.IH [of k "store32 m a w" "a + 4"] show ?thesis
      by (simp add: algebra_simps)
  qed
qed

lemma load_words_store_words:
  assumes "4 * length ws \<le> 4294967296"
  shows "load_words (store_words m a ws) a (length ws) = ws"
  using assms by (auto simp: load_words_def load32_store_words_in intro: nth_equalityI)

lemma disjnt_rng_sub:
  assumes "disjnt_rng a n b k" "i + l \<le> n" "i < n"
  shows "disjnt_rng (a + of_nat i) l b k"
proof -
  have "n \<le> unat (b - a)" using assms(1) by (simp add: disjnt_rng_def)
  with assms(2,3) have "unat ((b - a) - of_nat i) = unat (b - a) - i" by (intro unat_sub_ge) simp
  moreover have "(b - a) - of_nat i = b - (a + of_nat i)" by simp
  ultimately have "l \<le> unat (b - (a + of_nat i))"
    using assms(2) \<open>n \<le> unat (b - a)\<close> by (metis add_leE diff_le_mono le_diff_conv2 order_trans add.commute)
  with disjnt_rng_offset [OF assms(1,3)] show ?thesis by (simp add: disjnt_rng_def)
qed

text \<open>A counting loop that stops at the first index with a property.\<close>

lemma find_upt_Some:
  "List.find P [a..<b] = Some k \<longleftrightarrow> a \<le> k \<and> k < b \<and> P k \<and> (\<forall>i. a \<le> i \<longrightarrow> i < k \<longrightarrow> \<not> P i)"
proof
  assume "List.find P [a..<b] = Some k"
  then obtain n where n: "n < b - a" "k = a + n" "P k" "\<And>j. j < n \<Longrightarrow> \<not> P (a + j)"
    by (auto simp: find_Some_iff)
  have "\<not> P i" if "a \<le> i" "i < k" for i using n(4) [of "i - a"] n(2) that by simp
  with n show "a \<le> k \<and> k < b \<and> P k \<and> (\<forall>i. a \<le> i \<longrightarrow> i < k \<longrightarrow> \<not> P i)" by simp
next
  assume "a \<le> k \<and> k < b \<and> P k \<and> (\<forall>i. a \<le> i \<longrightarrow> i < k \<longrightarrow> \<not> P i)"
  then show "List.find P [a..<b] = Some k"
    by (auto simp: find_Some_iff intro!: exI [of _ "k - a"])
qed

lemma load32_store32_offset:
  assumes "unat (b - a) = 4 * k" "k \<noteq> 0" "4 * k + 4 \<le> 4294967296"
  shows "load32 (store32 m a v) b = load32 m b"
proof (rule load32_store32_out)
  have "b - a \<noteq> 0" using assms(1,2) by auto
  then have "unat (a - b) = 4294967296 - 4 * k"
    using unat_uminus_nonzero [of "b - a"] assms(1) by simp
  then show "disjnt_rng b 4 a 4" using assms by (simp add: disjnt_rng_def)
qed

text \<open>The bytes and halfwords of a word, and bounded quantifiers as tests of a list.\<close>

lemma load8_of_load32:
  "load8 m a = ucast (load32 m a)" "load8 m (a + 1) = ucast (drop_bit 8 (load32 m a))"
  "load8 m (a + 2) = ucast (drop_bit 16 (load32 m a))" "load8 m (a + 3) = ucast (drop_bit 24 (load32 m a))"
  by (rule bit_word_eqI; fastforce simp: load8_def load32_def bit_simps dest: bit_imp_le_length)+

lemma load16_of_load32: "load16 m a = ucast (load32 m a)" "load16 m (a + 2) = ucast (drop_bit 16 (load32 m a))"
  by (rule bit_word_eqI; fastforce simp: load16_def load32_def bit_simps add.assoc dest: bit_imp_le_length)+

lemma All_less_upt: "(\<forall>i<n. P i) \<longleftrightarrow> list_all P [0..<n]"
  by (auto simp: list_all_iff)

text \<open>Sorting by a key commutes with a map.\<close>

lemma map_sort_key: "map f (sort_key (\<lambda>x. g (f x)) xs) = sort_key g (map f xs)"
proof -
  have "map f (insort_key (\<lambda>x. g (f x)) x xs) = insort_key g (f x) (map f xs)" for x xs
    by (induction xs) simp_all
  then show ?thesis by (induction xs) simp_all
qed

end
