(* ===== verification/KTypes.thy ===== *)
theory KTypes
  imports Prelude
begin

text \<open>
  The data of the kernel, from \<^verbatim>\<open>kernel/process.h\<close> and \<^verbatim>\<open>kernel/global.h\<close>: register frames, IPC
  messages, open files, processes and the process manager, and the machine state that kernel
  code runs on.  Signed C integers that are compared are \<open>int\<close>, addresses and register images are
  32-bit words, the process state flags are a 16-bit word because the code sets and clears bits
  of it.  A pointer to a process is the index of its slot in \<open>proc_table\<close>.
\<close>

section \<open>Constants\<close>

definition PROC_NUM_MAX :: nat where "PROC_NUM_MAX = 64"
definition PROC_FD_MAX :: nat where "PROC_FD_MAX = 16"

definition PROC_STATE_RUNNING :: u16 where "PROC_STATE_RUNNING = 0b000000"
definition PROC_STATE_SENDING :: u16 where "PROC_STATE_SENDING = 0b000010"
definition PROC_STATE_RECEIVING :: u16 where "PROC_STATE_RECEIVING = 0b000100"
definition PROC_STATE_TERMINATE :: u16 where "PROC_STATE_TERMINATE = 0b010000"
definition PROC_STATE_READY :: u16 where "PROC_STATE_READY = 0b100000"
definition PROC_STATE_UNDEF :: u16 where "PROC_STATE_UNDEF = 0b111111"

definition IPC_SEND :: int where "IPC_SEND = 74"
definition IPC_RECEIVE :: int where "IPC_RECEIVE = 75"
definition IPC_TARGET_ANY :: int where "IPC_TARGET_ANY = - 363"
definition IPC_TARGET_NONE :: int where "IPC_TARGET_NONE = - 364"

definition REGS_SAVE_ADDR :: u32 where "REGS_SAVE_ADDR = 0x10000000"
definition KPROC_PID_FS :: nat where "KPROC_PID_FS = 5"
definition KPROC_PID_TTY0 :: nat where "KPROC_PID_TTY0 = 7"
definition KPROC_PID_FSS0 :: nat where "KPROC_PID_FSS0 = 10"

lemmas proc_consts = PROC_NUM_MAX_def PROC_FD_MAX_def IPC_SEND_def IPC_RECEIVE_def
  IPC_TARGET_ANY_def IPC_TARGET_NONE_def KPROC_PID_FS_def KPROC_PID_TTY0_def KPROC_PID_FSS0_def

lemmas state_consts = PROC_STATE_RUNNING_def PROC_STATE_SENDING_def PROC_STATE_RECEIVING_def
  PROC_STATE_TERMINATE_def PROC_STATE_READY_def PROC_STATE_UNDEF_def

section \<open>Register frames\<close>

record StackFrame =
  reg_a0 :: u32
  reg_a1 :: u32
  reg_a2 :: u32
  reg_a3 :: u32
  reg_a4 :: u32
  reg_a5 :: u32
  reg_a6 :: u32
  reg_a7 :: u32
  reg_s0 :: u32
  reg_s1 :: u32
  reg_s2 :: u32
  reg_s3 :: u32
  reg_s4 :: u32
  reg_s5 :: u32
  reg_s6 :: u32
  reg_s7 :: u32
  reg_s8 :: u32
  reg_s9 :: u32
  reg_s10 :: u32
  reg_s11 :: u32
  reg_t0 :: u32
  reg_t1 :: u32
  reg_t2 :: u32
  reg_t3 :: u32
  reg_t4 :: u32
  reg_t5 :: u32
  reg_t6 :: u32
  reg_ra :: u32
  reg_sp :: u32
  reg_gp :: u32
  reg_tp :: u32

text \<open>The \<^verbatim>\<open>int*\<close> view of a frame: its fields in declaration order, and back.\<close>

definition sf_words :: "StackFrame \<Rightarrow> u32 list" where
  "sf_words r = [reg_a0 r, reg_a1 r, reg_a2 r, reg_a3 r, reg_a4 r, reg_a5 r, reg_a6 r, reg_a7 r, reg_s0 r,
     reg_s1 r, reg_s2 r, reg_s3 r, reg_s4 r, reg_s5 r, reg_s6 r, reg_s7 r, reg_s8 r, reg_s9 r,
     reg_s10 r, reg_s11 r, reg_t0 r, reg_t1 r, reg_t2 r, reg_t3 r, reg_t4 r, reg_t5 r, reg_t6
     r, reg_ra r, reg_sp r, reg_gp r, reg_tp r]"

definition sf_of_words :: "u32 list \<Rightarrow> StackFrame" where
  "sf_of_words xs = \<lparr>reg_a0 = xs ! 0, reg_a1 = xs ! 1, reg_a2 = xs ! 2, reg_a3 = xs ! 3, reg_a4 = xs ! 4,
     reg_a5 = xs ! 5, reg_a6 = xs ! 6, reg_a7 = xs ! 7, reg_s0 = xs ! 8, reg_s1 = xs ! 9,
     reg_s2 = xs ! 10, reg_s3 = xs ! 11, reg_s4 = xs ! 12, reg_s5 = xs ! 13, reg_s6 = xs ! 14,
     reg_s7 = xs ! 15, reg_s8 = xs ! 16, reg_s9 = xs ! 17, reg_s10 = xs ! 18, reg_s11 = xs !
     19, reg_t0 = xs ! 20, reg_t1 = xs ! 21, reg_t2 = xs ! 22, reg_t3 = xs ! 23, reg_t4 = xs !
     24, reg_t5 = xs ! 25, reg_t6 = xs ! 26, reg_ra = xs ! 27, reg_sp = xs ! 28, reg_gp = xs !
     29, reg_tp = xs ! 30\<rparr>"

lemma length_sf_words [simp]: "length (sf_words r) = 31"
  by (simp add: sf_words_def)

lemma sf_of_words_sf_words [simp]: "sf_of_words (sf_words r) = r"
  by (simp add: sf_of_words_def sf_words_def)

lemma sf_words_sf_of_words:
  assumes "length xs = 31"
  shows "sf_words (sf_of_words xs) = xs"
proof (rule nth_equalityI)
  show "length (sf_words (sf_of_words xs)) = length xs" using assms by simp
next
  fix i assume "i < length (sf_words (sf_of_words xs))"
  then have "i \<in> {0..<31}" by simp
  then have "i \<in> set [0..<31]" by simp
  then show "sf_words (sf_of_words xs) ! i = xs ! i"
    by (simp add: upt_rec [of _ 31] upt_conv_Cons)
      (auto simp: sf_words_def sf_of_words_def numeral_eq_Suc)
qed

section \<open>Messages\<close>

text \<open>
  \<^verbatim>\<open>Message\<close> is ten 32-bit words: the function, the source and eight parameters.  Kernel code reads
  and writes messages in place, in the memory of the process that owns them.
\<close>

record Message =
  msg_function :: u32
  msg_source :: u32
  msg_param :: "u32 list"

definition sizeof_Message :: nat where "sizeof_Message = 40"

definition read_msg :: "mem \<Rightarrow> u32 \<Rightarrow> Message" where
  "read_msg m a = \<lparr>msg_function = load32 m a, msg_source = load32 m (a + 4),
     msg_param = map (\<lambda>i. load32 m (a + 8 + 4 * of_nat i)) [0..<8]\<rparr>"

definition zero_msg :: Message where
  "zero_msg = \<lparr>msg_function = 0, msg_source = 0, msg_param = replicate 8 0\<rparr>"

section \<open>Files, processes, the process manager\<close>

record KFILE =
  kf_fd :: int
  kf_name :: string
  kf_seek :: u32
  kf_size :: u32

record Process =
  pid :: int
  p_name :: string
  p_state :: u16
  p_pc :: u32
  p_regs :: StackFrame
  p_sendto :: int
  p_recvfrom :: int
  p_msg :: u32
  queue_sending :: "nat option"
  queue_sending_next :: "nat option"
  fdmap :: "nat \<Rightarrow> KFILE"

record ProcManager =
  proc_table :: "nat \<Rightarrow> Process"
  proc_number :: nat
  proc_running :: nat
  proc_max :: nat
  do_start :: int

text \<open>
  The machine as kernel code sees it: the process manager and the tick counter (the globals),
  the memory, and the machine CSRs that the trap code reads and writes.
\<close>

record kstate =
  procmanager :: ProcManager
  ticks :: u32
  kmem :: mem
  mepc :: u32
  mcause :: u32
  mstatus :: u32
  mtvec :: u32
  mscratch :: u32
  mie :: u32

text \<open>Updating one slot of the process table.\<close>

definition upd_proc :: "nat \<Rightarrow> (Process \<Rightarrow> Process) \<Rightarrow> ProcManager \<Rightarrow> ProcManager" where
  "upd_proc i f pm = pm\<lparr>proc_table := (proc_table pm)(i := f (proc_table pm i))\<rparr>"

lemma upd_proc_simps [simp]:
  "proc_table (upd_proc i f pm) j = (if j = i then f (proc_table pm i) else proc_table pm j)"
  "proc_running (upd_proc i f pm) = proc_running pm"
  "proc_max (upd_proc i f pm) = proc_max pm"
  "proc_number (upd_proc i f pm) = proc_number pm"
  "do_start (upd_proc i f pm) = do_start pm"
  by (simp_all add: upd_proc_def)

text \<open>
  A table slot reached through a pointer or an index: outside the array the access is undefined.
\<close>

definition slot :: "int \<Rightarrow> kfault + nat" where
  "slot i = (if 0 \<le> i \<and> i < int PROC_NUM_MAX then Inr (nat i) else Inl BadPointer)"

lemma slot_Inr_iff [fault_simps]: "slot i = Inr k \<longleftrightarrow> 0 \<le> i \<and> i < 64 \<and> k = nat i"
  by (auto simp: slot_def proc_consts)

lemma slot_of_nat [simp]: "k < 64 \<Longrightarrow> slot (int k) = Inr k"
  by (simp add: slot_def proc_consts)

text \<open>A message reads the same after stores outside it, and its source field can be set on its own.\<close>

lemma read_msg_cong:
  assumes "\<And>i. i < 10 \<Longrightarrow> load32 m' (a + of_nat (4 * i)) = load32 m (a + of_nat (4 * i))"
  shows "read_msg m' a = read_msg m a"
proof -
  have "load32 m' (a + 8 + 4 * of_nat i) = load32 m (a + 8 + 4 * of_nat i)" if "i < 8" for i
    using assms [of "i + 2"] that by (simp add: algebra_simps)
  then show ?thesis using assms [of 0] assms [of 1] by (simp add: read_msg_def)
qed

lemma read_msg_store_words_out:
  assumes "disjnt_rng a sizeof_Message b (4 * length ws)"
  shows "read_msg (store_words m b ws) a = read_msg m a"
  by (rule read_msg_cong, rule load32_store_words_out, rule disjnt_rng_sub [OF assms])
    (simp_all add: sizeof_Message_def)

lemma read_msg_set_source:
  "read_msg (store32 m (a + 4) v) a = (read_msg m a)\<lparr>msg_source := v\<rparr>"
proof -
  have "load32 (store32 m (a + 4) v) (a + 8 + 4 * of_nat i) = load32 m (a + 8 + 4 * of_nat i)" if "i < 8" for i
  proof (rule load32_store32_offset [where k = "i + 1"])
    have "a + 8 + 4 * of_nat i - (a + 4) = of_nat (4 * (i + 1))" by simp
    then show "unat (a + 8 + 4 * of_nat i - (a + 4)) = 4 * (i + 1)"
      using that by (simp only: unat_of_nat) (simp add: take_bit_nat_eq_self)
  qed (use that in simp_all)
  moreover have "load32 (store32 m (a + 4) v) a = load32 m a"
  proof (rule load32_store32_offset [where k = "1073741823"])
    show "unat (a - (a + 4)) = 4 * 1073741823" by simp
  qed simp_all
  ultimately show ?thesis by (simp add: read_msg_def)
qed

end
