(* ===== verification/Sched.thy ===== *)
theory Sched
  imports KTypes
begin

text \<open>
  Process management and scheduling, from \<^verbatim>\<open>kernel/process.c\<close>: the initial process table, the
  context switch through the register save area at \<open>REGS_SAVE_ADDR\<close>, the round-robin choice of
  the next process, and pid allocation.  The function pointers of \<^verbatim>\<open>ProcManager\<close> are set once, by
  \<^verbatim>\<open>ProcManagerInit\<close>, and the calls through them are direct calls here.
\<close>

section \<open>Operations\<close>

definition pid2proc :: "int \<Rightarrow> kfault + nat" where
  "pid2proc p = slot (to_short p)"

definition proc2pid :: "ProcManager \<Rightarrow> nat \<Rightarrow> int" where
  "proc2pid pm p = pid (proc_table pm p)"

function avail_from :: "ProcManager \<Rightarrow> nat \<Rightarrow> int" where
  "avail_from pm i =
     (if i < PROC_NUM_MAX then (if pid (proc_table pm i) = - 1 then int i else avail_from pm (Suc i))
      else - 1)"
  by pat_completeness auto
termination by (relation "measure (\<lambda>(pm, i). PROC_NUM_MAX - i)") auto

declare avail_from.simps [simp del]

definition getavailpid :: "ProcManager \<Rightarrow> int" where
  "getavailpid pm = avail_from pm 1"

definition stackframe_save :: "mem \<Rightarrow> u32 \<Rightarrow> StackFrame" where
  "stackframe_save m stack = sf_of_words (load_words m stack 31)"

definition stackframe_load :: "StackFrame \<Rightarrow> mem \<Rightarrow> u32 \<Rightarrow> mem" where
  "stackframe_load regs m stack = store_words m stack (sf_words regs)"

text \<open>The two loops of \<^verbatim>\<open>_proc_getnext\<close>: the first ready process with an index in a range.\<close>

definition is_ready :: "ProcManager \<Rightarrow> nat \<Rightarrow> bool" where
  "is_ready pm i \<longleftrightarrow> pid (proc_table pm i) \<noteq> - 1 \<and> p_state (proc_table pm i) = PROC_STATE_READY"

function scan_ready :: "ProcManager \<Rightarrow> nat \<Rightarrow> nat \<Rightarrow> kfault + nat option" where
  "scan_ready pm i hi =
     (if i < hi
      then bindE (slot (int i)) (\<lambda>k. if is_ready pm k then Inr (Some i) else scan_ready pm (Suc i) hi)
      else Inr None)"
  by pat_completeness auto
termination by (relation "measure (\<lambda>(pm, i, hi). hi - i)") auto

declare scan_ready.simps [simp del]

definition proc_getnext :: "ProcManager \<Rightarrow> kfault + int" where
  "proc_getnext pm =
     bindE (scan_ready pm (proc_running pm + 1) (proc_max pm)) (\<lambda>r. case r of
       Some i \<Rightarrow> Inr (to_short (int i))
     | None \<Rightarrow> bindE (scan_ready pm 0 (proc_running pm)) (\<lambda>r. case r of
         Some i \<Rightarrow> Inr (to_short (int i))
       | None \<Rightarrow> Inr (to_short (int (proc_running pm)))))"

text \<open>The two halves of the context switch in \<^verbatim>\<open>_proc_schedule\<close>.\<close>

definition switch_from :: "nat \<Rightarrow> kstate \<Rightarrow> kstate" where
  "switch_from p s = s\<lparr>procmanager := upd_proc p (\<lambda>P. P\<lparr>
       p_regs := stackframe_save (kmem s) REGS_SAVE_ADDR,
       p_state := (if p_state P = PROC_STATE_RUNNING then PROC_STATE_READY else p_state P),
       p_pc := mepc s\<rparr>) (procmanager s)\<rparr>"

definition switch_to :: "nat \<Rightarrow> kstate \<Rightarrow> kstate" where
  "switch_to p s = (let P = proc_table (procmanager s) p in
     s\<lparr>kmem := stackframe_load (p_regs P) (kmem s) REGS_SAVE_ADDR,
       mepc := p_pc P,
       procmanager := (upd_proc p (\<lambda>P. P\<lparr>p_state := PROC_STATE_RUNNING\<rparr>) (procmanager s))
         \<lparr>proc_running := to_ushort (pid P)\<rparr>\<rparr>)"

definition proc_schedule :: "kstate \<Rightarrow> kfault + kstate" where
  "proc_schedule s =
     (if do_start (procmanager s) \<noteq> 0 then
        bindE (pid2proc 1) (\<lambda>p_to.
          Inr (switch_to p_to (s\<lparr>procmanager := (procmanager s)\<lparr>do_start := 0\<rparr>\<rparr>)))
      else
        bindE (proc_getnext (procmanager s)) (\<lambda>pid_to.
        bindE (pid2proc (int (proc_running (procmanager s)))) (\<lambda>p_from.
        bindE (pid2proc pid_to) (\<lambda>p_to.
          Inr (switch_to p_to (switch_from p_from s))))))"

text \<open>The table \<^verbatim>\<open>ProcManagerInit\<close> leaves; the entry addresses of its three processes are parameters.\<close>

definition clear_fdmap :: "(nat \<Rightarrow> KFILE) \<Rightarrow> nat \<Rightarrow> KFILE" where
  "clear_fdmap fm = foldl (\<lambda>f j. f(j := (f j)\<lparr>kf_fd := - 1\<rparr>)) fm [0..<PROC_FD_MAX]"

definition clear_proc :: "Process \<Rightarrow> Process" where
  "clear_proc P = P\<lparr>pid := - 1, p_name := '''', p_state := PROC_STATE_UNDEF, p_msg := 0,
     p_recvfrom := IPC_TARGET_NONE, p_sendto := IPC_TARGET_NONE,
     queue_sending := None, queue_sending_next := None, fdmap := clear_fdmap (fdmap P)\<rparr>"

definition start_proc :: "int \<Rightarrow> u32 \<Rightarrow> u32 \<Rightarrow> u16 \<Rightarrow> Process \<Rightarrow> Process" where
  "start_proc n pc sp st P = P\<lparr>pid := n, p_pc := pc, p_regs := (p_regs P)\<lparr>reg_sp := sp\<rparr>, p_state := st\<rparr>"

definition ProcManagerInit :: "u32 \<Rightarrow> u32 \<Rightarrow> u32 \<Rightarrow> ProcManager \<Rightarrow> ProcManager" where
  "ProcManagerInit proc1 proc2 proc3 pm =
     (let pm = foldl (\<lambda>pm i. upd_proc i clear_proc pm) pm [0..<PROC_NUM_MAX];
          pm = pm\<lparr>proc_max := PROC_NUM_MAX, proc_number := 3, proc_running := 1, do_start := 1\<rparr>;
          pm = upd_proc 1 (start_proc 1 proc1 0x2010fffc PROC_STATE_RUNNING) pm;
          pm = upd_proc 2 (start_proc 2 proc2 0x2010effc PROC_STATE_READY) pm
      in upd_proc 3 (start_proc 3 proc3 0x2010dffc PROC_STATE_READY) pm)"

section \<open>Invariants of the process table\<close>

text \<open>
  \<open>pm_wf\<close>: every used slot holds its own index as pid, and the running process is a used slot.
  \<open>sched_ok\<close>: outside the running slot no used process is in state RUNNING.
\<close>

definition pm_wf :: "ProcManager \<Rightarrow> bool" where
  "pm_wf pm \<longleftrightarrow> proc_max pm = PROC_NUM_MAX \<and> proc_running pm < PROC_NUM_MAX \<and>
     (\<forall>i<PROC_NUM_MAX. pid (proc_table pm i) = - 1 \<or> pid (proc_table pm i) = int i) \<and>
     pid (proc_table pm (proc_running pm)) = int (proc_running pm) \<and>
     (do_start pm \<noteq> 0 \<longrightarrow> proc_running pm = 1)"

definition sched_ok :: "ProcManager \<Rightarrow> bool" where
  "sched_ok pm \<longleftrightarrow> pm_wf pm \<and>
     (\<forall>i<PROC_NUM_MAX. i \<noteq> proc_running pm \<longrightarrow> pid (proc_table pm i) \<noteq> - 1 \<longrightarrow>
        p_state (proc_table pm i) \<noteq> PROC_STATE_RUNNING)"

text \<open>The order in which \<^verbatim>\<open>_proc_getnext\<close> visits the table: cyclically, from the slot after the running one.\<close>

definition rr_order :: "nat \<Rightarrow> nat list" where
  "rr_order r = map (\<lambda>d. (r + d) mod PROC_NUM_MAX) [1..<PROC_NUM_MAX]"

definition next_ready :: "ProcManager \<Rightarrow> nat" where
  "next_ready pm = (case List.find (is_ready pm) (rr_order (proc_running pm)) of
     Some i \<Rightarrow> i | None \<Rightarrow> proc_running pm)"

section \<open>Choice of the next process\<close>

lemma scan_ready_find:
  "hi \<le> 64 \<Longrightarrow> scan_ready pm i hi = Inr (List.find (is_ready pm) [i..<hi])"
proof (induction pm i hi rule: scan_ready.induct)
  case (1 pm i hi)
  show ?case
  proof (cases "i < hi")
    case True
    with "1.prems" "1.IH" [OF True, of i] show ?thesis
      by (subst scan_ready.simps) (auto simp: upt_rec [of i])
  next
    case False
    then show ?thesis by (subst scan_ready.simps) simp
  qed
qed

lemma rr_order_split: "r < 64 \<Longrightarrow> rr_order r = [r + 1..<64] @ [0..<r]"
proof (rule nth_equalityI)
  show "r < 64 \<Longrightarrow> length (rr_order r) = length ([r + 1..<64] @ [0..<r])"
    by (simp add: rr_order_def proc_consts)
next
  fix i assume "r < 64" "i < length (rr_order r)"
  then show "rr_order r ! i = ([r + 1..<64] @ [0..<r]) ! i"
    by (auto simp: rr_order_def proc_consts nth_append mod_if)
qed

lemma find_append: "List.find P (xs @ ys) = (case List.find P xs of Some x \<Rightarrow> Some x | None \<Rightarrow> List.find P ys)"
  by (induction xs) auto

lemma next_ready_lt: "pm_wf pm \<Longrightarrow> next_ready pm < 64"
  by (auto simp: next_ready_def pm_wf_def proc_consts rr_order_def find_Some_iff split: option.splits)

lemma getnext_eq: "pm_wf pm \<Longrightarrow> proc_getnext pm = Inr (int (next_ready pm))"
proof -
  assume wf: "pm_wf pm"
  then have r: "proc_running pm < 64" "proc_max pm = 64" by (auto simp: pm_wf_def proc_consts)
  have lt: "List.find (is_ready pm) [a..<b] = Some i \<Longrightarrow> b \<le> 64 \<Longrightarrow> i < 64" for a b i
    by (auto simp: find_Some_iff)
  show ?thesis
    using r lt [of "proc_running pm + 1" 64] lt [of 0 "proc_running pm"]
    by (auto simp: proc_getnext_def scan_ready_find next_ready_def rr_order_split find_append
        split: option.splits)
qed

lemma next_ready_cases:
  assumes "pm_wf pm"
  obtains (found) d where "1 \<le> d" "d < 64" "next_ready pm = (proc_running pm + d) mod 64"
      "is_ready pm (next_ready pm)" "\<And>e. 1 \<le> e \<Longrightarrow> e < d \<Longrightarrow> \<not> is_ready pm ((proc_running pm + e) mod 64)"
    | (stay) "next_ready pm = proc_running pm" "\<And>i. i < 64 \<Longrightarrow> i \<noteq> proc_running pm \<Longrightarrow> \<not> is_ready pm i"
proof (cases "List.find (is_ready pm) (rr_order (proc_running pm))")
  case None
  moreover have "proc_running pm < 64" using assms by (simp add: pm_wf_def proc_consts)
  ultimately have "\<And>i. i < 64 \<Longrightarrow> i \<noteq> proc_running pm \<Longrightarrow> \<not> is_ready pm i"
    by (auto simp: find_None_iff rr_order_split) (metis Suc_leI linorder_neqE_nat)
  with None stay show thesis by (simp add: next_ready_def)
next
  case (Some j)
  then obtain i where i: "i < 63" "is_ready pm j" "j = (proc_running pm + Suc i) mod 64"
    and least: "\<And>k. k < i \<Longrightarrow> \<not> is_ready pm ((proc_running pm + Suc k) mod 64)"
    by (auto simp: find_Some_iff rr_order_def proc_consts)
  have "\<not> is_ready pm ((proc_running pm + e) mod 64)" if "1 \<le> e" "e < Suc i" for e
    using that least [of "e - 1"] by simp
  with i Some found [of "Suc i"] show thesis by (simp add: next_ready_def)
qed

section \<open>The context switch\<close>

lemma pid2proc_small [simp]: "i < 64 \<Longrightarrow> pid2proc (int i) = Inr i"
  by (simp add: pid2proc_def)

lemma schedule_eq:
  assumes "pm_wf (procmanager s)" "do_start (procmanager s) = 0"
  shows "proc_schedule s =
    Inr (switch_to (next_ready (procmanager s)) (switch_from (proc_running (procmanager s)) s))"
  using assms next_ready_lt [OF assms(1)]
  by (simp add: proc_schedule_def getnext_eq pm_wf_def proc_consts)

lemma schedule_start:
  assumes "do_start (procmanager s) \<noteq> 0"
  shows "proc_schedule s = Inr (switch_to 1 (s\<lparr>procmanager := (procmanager s)\<lparr>do_start := 0\<rparr>\<rparr>))"
  using assms pid2proc_small [of 1] by (simp add: proc_schedule_def)

lemma load_words_stackframe_load:
  "load_words (stackframe_load r m a) a 31 = sf_words r"
  using load_words_store_words [of "sf_words r" m a] by (simp add: stackframe_load_def)

lemma sf_words_stackframe_save: "sf_words (stackframe_save m a) = load_words m a 31"
  by (simp add: stackframe_save_def sf_words_sf_of_words)

lemma switch_to_simps [simp]:
  "proc_table (procmanager (switch_to p s)) i = (proc_table (procmanager s) i)
     \<lparr>p_state := (if i = p then PROC_STATE_RUNNING else p_state (proc_table (procmanager s) i))\<rparr>"
  "proc_running (procmanager (switch_to p s)) = to_ushort (pid (proc_table (procmanager s) p))"
  "proc_max (procmanager (switch_to p s)) = proc_max (procmanager s)"
  "do_start (procmanager (switch_to p s)) = do_start (procmanager s)"
  "mepc (switch_to p s) = p_pc (proc_table (procmanager s) p)"
  "kmem (switch_to p s) = stackframe_load (p_regs (proc_table (procmanager s) p)) (kmem s) REGS_SAVE_ADDR"
  by (auto simp: switch_to_def Let_def)

lemma switch_from_simps [simp]:
  "proc_table (procmanager (switch_from p s)) i = (if i = p then (proc_table (procmanager s) p)\<lparr>
       p_regs := stackframe_save (kmem s) REGS_SAVE_ADDR,
       p_state := (if p_state (proc_table (procmanager s) p) = PROC_STATE_RUNNING
          then PROC_STATE_READY else p_state (proc_table (procmanager s) p)),
       p_pc := mepc s\<rparr> else proc_table (procmanager s) i)"
  "proc_running (procmanager (switch_from p s)) = proc_running (procmanager s)"
  "proc_max (procmanager (switch_from p s)) = proc_max (procmanager s)"
  "do_start (procmanager (switch_from p s)) = do_start (procmanager s)"
  "kmem (switch_from p s) = kmem s"
  by (auto simp: switch_from_def)

lemma upd_simp_state: "P\<lparr>p_state := p_state P\<rparr> = P"
  by simp

lemma cyc_neq: "r < 64 \<Longrightarrow> 1 \<le> d \<Longrightarrow> d < 64 \<Longrightarrow> (r + d) mod (64 :: nat) \<noteq> r"
  by (cases "r + d < 64") (simp_all add: le_mod_geq)

lemma next_ready_pid:
  assumes "pm_wf pm"
  shows "pid (proc_table pm (next_ready pm)) = int (next_ready pm)"
  using assms
proof (cases rule: next_ready_cases)
  case (found d)
  have "pid (proc_table pm (next_ready pm)) \<noteq> - 1" using found(4) by (simp add: is_ready_def)
  then show ?thesis using assms next_ready_lt [OF assms] by (auto simp: pm_wf_def proc_consts)
next
  case stay
  then show ?thesis using assms by (simp add: pm_wf_def)
qed

lemma schedule_running:
  assumes "pm_wf (procmanager s)" "do_start (procmanager s) = 0" "proc_schedule s = Inr s'"
  shows "proc_running (procmanager s') = next_ready (procmanager s)"
    and "do_start (procmanager s') = 0"
  using assms next_ready_pid [OF assms(1)] next_ready_lt [OF assms(1)]
  by (auto simp: schedule_eq)

lemma schedule_total_wf:
  assumes wf: "pm_wf (procmanager s)"
  shows "\<exists>s'. proc_schedule s = Inr s' \<and> pm_wf (procmanager s') \<and> do_start (procmanager s') = 0 \<and>
    p_state (proc_table (procmanager s') (proc_running (procmanager s'))) = PROC_STATE_RUNNING"
proof (cases "do_start (procmanager s) = 0")
  case True
  then show ?thesis
    using wf next_ready_pid [OF wf] next_ready_lt [OF wf]
    by (auto simp: schedule_eq pm_wf_def proc_consts)
next
  case False
  with wf show ?thesis by (auto simp: schedule_start pm_wf_def proc_consts)
qed

lemma ready_not_running: "is_ready pm i \<Longrightarrow> p_state (proc_table pm i) \<noteq> PROC_STATE_RUNNING"
  by (simp add: is_ready_def state_consts)

lemma schedule_sched_ok:
  assumes ok: "sched_ok (procmanager s)" and eq: "proc_schedule s = Inr s'"
  shows "sched_ok (procmanager s')"
proof -
  from ok have wf: "pm_wf (procmanager s)" by (simp add: sched_ok_def)
  have wf': "pm_wf (procmanager s')" using schedule_total_wf [OF wf] eq by auto
  show ?thesis
  proof (cases "do_start (procmanager s) = 0")
    case True
    with wf eq have s': "s' = switch_to (next_ready (procmanager s)) (switch_from (proc_running (procmanager s)) s)"
      by (simp add: schedule_eq)
    with ok wf' next_ready_pid [OF wf] next_ready_lt [OF wf] show ?thesis
      by (auto simp: sched_ok_def proc_consts state_consts)
  next
    case False
    with ok eq wf' show ?thesis
      by (auto simp: sched_ok_def schedule_start pm_wf_def)
  qed
qed

section \<open>Properties\<close>

text \<open>
  C1: Scheduling always returns, keeps the process table well formed, and leaves exactly one
  process of the table in state RUNNING: the one \<^verbatim>\<open>proc_running\<close> names.
\<close>

theorem schedule_one_running:
  assumes "sched_ok (procmanager s)"
  shows "\<exists>s'. proc_schedule s = Inr s' \<and> sched_ok (procmanager s') \<and>
    {i. i < PROC_NUM_MAX \<and> pid (proc_table (procmanager s') i) \<noteq> - 1 \<and>
        p_state (proc_table (procmanager s') i) = PROC_STATE_RUNNING} = {proc_running (procmanager s')}"
proof -
  from assms have wf: "pm_wf (procmanager s)" by (simp add: sched_ok_def)
  then obtain s' where s': "proc_schedule s = Inr s'"
    "p_state (proc_table (procmanager s') (proc_running (procmanager s'))) = PROC_STATE_RUNNING"
    using schedule_total_wf by blast
  moreover have ok: "sched_ok (procmanager s')" using assms s'(1) by (rule schedule_sched_ok)
  ultimately show ?thesis by (auto simp: sched_ok_def pm_wf_def)
qed

text \<open>
  C16: \<^verbatim>\<open>_proc_getnext\<close> is round robin: on a well-formed table it returns the first ready process in
  cyclic order after the running one, and the running process itself when no other is ready.
\<close>

theorem getnext_round_robin:
  assumes "pm_wf pm"
  shows "proc_getnext pm = Inr (int (case List.find (is_ready pm) (rr_order (proc_running pm)) of
    Some i \<Rightarrow> i | None \<Rightarrow> proc_running pm))"
  using getnext_eq [OF assms] by (simp add: next_ready_def)

text \<open>
  C12: The context switch preserves a process's context.  When a process A is switched out and,
  in any later state in which A's saved registers and pc are as the switch left them, A is
  chosen again, the save area and \<^verbatim>\<open>mepc\<close> hold the 31 registers and the pc A was interrupted with.
\<close>

theorem context_switch_roundtrip:
  assumes "pm_wf (procmanager s)" "do_start (procmanager s) = 0" "proc_schedule s = Inr s1"
    and "proc_running (procmanager s) = A" "proc_running (procmanager s1) \<noteq> A"
    and "pm_wf (procmanager t)" "do_start (procmanager t) = 0" "proc_schedule t = Inr t1"
    and "p_regs (proc_table (procmanager t) A) = p_regs (proc_table (procmanager s1) A)"
    and "p_pc (proc_table (procmanager t) A) = p_pc (proc_table (procmanager s1) A)"
    and "proc_running (procmanager t) \<noteq> A" "proc_running (procmanager t1) = A"
  shows "load_words (kmem t1) REGS_SAVE_ADDR 31 = load_words (kmem s) REGS_SAVE_ADDR 31 \<and> mepc t1 = mepc s"
proof -
  have A: "A \<noteq> next_ready (procmanager s)" "A = next_ready (procmanager t)"
    using assms schedule_running by metis+
  then have regs: "p_regs (proc_table (procmanager s1) A) = stackframe_save (kmem s) REGS_SAVE_ADDR"
    and pc: "p_pc (proc_table (procmanager s1) A) = mepc s"
    using assms(1-4) by (auto simp: schedule_eq)
  from A(2) assms(6-8,11) have "kmem t1 = stackframe_load (p_regs (proc_table (procmanager t) A)) (kmem t) REGS_SAVE_ADDR"
    and "mepc t1 = p_pc (proc_table (procmanager t) A)"
    by (auto simp: schedule_eq)
  with regs pc assms(9,10) show ?thesis
    by (simp add: load_words_stackframe_load sf_words_stackframe_save)
qed

text \<open>
  The scheduler does not look at why the current process stopped: when no other process is
  ready it puts the current one back into state RUNNING, even if it has just been blocked
  in a send or a receive that has not happened.
\<close>

theorem schedule_resumes_blocked:
  assumes "pm_wf (procmanager s)" "do_start (procmanager s) = 0" "proc_schedule s = Inr s'"
    and "\<And>i. i < PROC_NUM_MAX \<Longrightarrow> i \<noteq> proc_running (procmanager s) \<Longrightarrow> \<not> is_ready (procmanager s) i"
  shows "proc_running (procmanager s') = proc_running (procmanager s) \<and>
    p_state (proc_table (procmanager s') (proc_running (procmanager s))) = PROC_STATE_RUNNING \<and>
    p_msg (proc_table (procmanager s') (proc_running (procmanager s))) =
      p_msg (proc_table (procmanager s) (proc_running (procmanager s)))"
  using assms(1)
proof (cases rule: next_ready_cases)
  case (found d)
  moreover have "next_ready (procmanager s) \<noteq> proc_running (procmanager s)"
    using found(1-3) assms(1) cyc_neq by (simp add: pm_wf_def proc_consts)
  ultimately show ?thesis using assms(4) next_ready_lt [OF assms(1)] by (simp add: proc_consts)
next
  case stay
  with assms(1-3) show ?thesis by (auto simp: schedule_eq pm_wf_def proc_consts)
qed

section \<open>Fairness\<close>

text \<open>Repeated scheduling, as the timer does when no process makes a call in between.\<close>

fun schedule_n :: "nat \<Rightarrow> kstate \<Rightarrow> kfault + kstate" where
  "schedule_n 0 s = Inr s"
| "schedule_n (Suc n) s = bindE (proc_schedule s) (schedule_n n)"

lemma ready_after_schedule:
  assumes "pm_wf (procmanager s)" "do_start (procmanager s) = 0" "proc_schedule s = Inr s'"
    and "is_ready (procmanager s) j" "j \<noteq> proc_running (procmanager s)" "j \<noteq> next_ready (procmanager s)"
  shows "is_ready (procmanager s') j"
  using assms by (auto simp: schedule_eq is_ready_def)

lemma schedule_reaches:
  assumes "pm_wf (procmanager s)" "do_start (procmanager s) = 0"
    and "is_ready (procmanager s) ((proc_running (procmanager s) + k) mod 64)" "1 \<le> k" "k < 64"
  shows "\<exists>n s'. n \<le> k \<and> schedule_n n s = Inr s' \<and>
    proc_running (procmanager s') = (proc_running (procmanager s) + k) mod 64"
  using assms
proof (induction k arbitrary: s rule: less_induct)
  case (less k)
  let ?r = "proc_running (procmanager s)"
  let ?j = "(?r + k) mod 64"
  obtain s1 where s1: "proc_schedule s = Inr s1" "pm_wf (procmanager s1)" "do_start (procmanager s1) = 0"
    using schedule_total_wf [OF less.prems(1)] by blast
  have r1: "proc_running (procmanager s1) = next_ready (procmanager s)"
    using schedule_running(1) [OF less.prems(1,2) s1(1)] .
  have rlt: "?r < 64" using less.prems(1) by (simp add: pm_wf_def proc_consts)
  have jr: "?j \<noteq> ?r" "?j < 64" using rlt less.prems(4,5) by (auto simp: mod_if)
  from less.prems(1) show ?case
  proof (cases rule: next_ready_cases)
    case stay
    with jr less.prems(3) show ?thesis by blast
  next
    case (found d)
    show ?thesis
    proof (cases "next_ready (procmanager s) = ?j")
      case True
      with s1 r1 less.prems(4) show ?thesis by (intro exI [of _ 1] exI [of _ s1]) simp
    next
      case False
      have dk: "d < k"
        using found(5) [of k] less.prems(3,4) found(3) False
        by (metis linorder_neqE_nat)
      then have "?r + d + (k - d) = ?r + k" by simp
      then have j': "?j = (proc_running (procmanager s1) + (k - d)) mod 64"
        unfolding r1 found(3) mod_add_left_eq by simp
      have rdy: "is_ready (procmanager s1) ?j"
        using ready_after_schedule [OF less.prems(1,2) s1(1) less.prems(3)] jr False by simp
      have "k - d < k" "1 \<le> k - d" "k - d < 64" using dk found(1) less.prems(5) by auto
      with less.IH [of "k - d" s1] s1 rdy j' obtain n s' where
        "n \<le> k - d" "schedule_n n s1 = Inr s'" "proc_running (procmanager s') = ?j"
        by auto
      with s1(1) dk found(1) show ?thesis by (intro exI [of _ "Suc n"] exI [of _ s']) simp
    qed
  qed
qed

text \<open>
  C13: No ready process starves: from a well-formed table, whatever else is ready, a ready process
  is dispatched after at most 63 invocations of the scheduler.
\<close>

theorem schedule_fair:
  assumes "pm_wf (procmanager s)" "do_start (procmanager s) = 0"
    and "j < PROC_NUM_MAX" "is_ready (procmanager s) j" "j \<noteq> proc_running (procmanager s)"
  shows "\<exists>n s'. n < PROC_NUM_MAX \<and> schedule_n n s = Inr s' \<and> proc_running (procmanager s') = j"
proof -
  let ?r = "proc_running (procmanager s)"
  let ?k = "(j + 64 - ?r) mod 64"
  have r: "?r < 64" using assms(1) by (simp add: pm_wf_def proc_consts)
  with assms(3,5) have k: "(?r + ?k) mod 64 = j" "1 \<le> ?k" "?k < 64"
    by (auto simp: proc_consts mod_if split: if_splits)
  with assms(4) have "is_ready (procmanager s) ((?r + ?k) mod 64)" by simp
  from schedule_reaches [OF assms(1,2) this k(2,3)] obtain n s' where
    "n \<le> ?k" "schedule_n n s = Inr s'" "proc_running (procmanager s') = j"
    using k(1) by auto
  with k(3) show ?thesis by (intro exI [of _ n] exI [of _ s']) (simp add: proc_consts)
qed

section \<open>The initial table\<close>

lemma foldl_upd_proc:
  "distinct is \<Longrightarrow> proc_table (foldl (\<lambda>pm i. upd_proc i f pm) pm is) j =
     (if j \<in> set is then f (proc_table pm j) else proc_table pm j)"
  by (induction "is" arbitrary: pm) auto

lemma init_table:
  "proc_table (ProcManagerInit e1 e2 e3 pm) i =
     (if i = 1 then start_proc 1 e1 0x2010fffc PROC_STATE_RUNNING (clear_proc (proc_table pm 1))
      else if i = 2 then start_proc 2 e2 0x2010effc PROC_STATE_READY (clear_proc (proc_table pm 2))
      else if i = 3 then start_proc 3 e3 0x2010dffc PROC_STATE_READY (clear_proc (proc_table pm 3))
      else if i < 64 then clear_proc (proc_table pm i) else proc_table pm i)"
  by (simp add: ProcManagerInit_def Let_def foldl_upd_proc proc_consts)

lemma init_simps [simp]:
  "proc_running (ProcManagerInit e1 e2 e3 pm) = 1"
  "proc_max (ProcManagerInit e1 e2 e3 pm) = PROC_NUM_MAX"
  "do_start (ProcManagerInit e1 e2 e3 pm) = 1"
  by (simp_all add: ProcManagerInit_def Let_def)

lemma init_sched_ok: "sched_ok (ProcManagerInit e1 e2 e3 pm)"
  by (auto simp: sched_ok_def pm_wf_def init_table start_proc_def clear_proc_def proc_consts state_consts)

lemma clear_fdmap_all: "j < PROC_FD_MAX \<Longrightarrow> kf_fd (clear_fdmap fm j) = - 1"
proof -
  have "kf_fd (foldl (\<lambda>f j. f(j := (f j)\<lparr>kf_fd := - 1\<rparr>)) fm js j) =
      (if j \<in> set js then - 1 else kf_fd (fm j))" for js
    by (induction js arbitrary: fm) auto
  then show "j < PROC_FD_MAX \<Longrightarrow> ?thesis" by (simp add: clear_fdmap_def)
qed

lemma avail_from_spec:
  "i \<le> 64 \<Longrightarrow> avail_from pm i = (case List.find (\<lambda>k. pid (proc_table pm k) = - 1) [i..<64] of
     Some k \<Rightarrow> int k | None \<Rightarrow> - 1)"
proof (induction pm i rule: avail_from.induct)
  case (1 pm i)
  show ?case
  proof (cases "i < 64")
    case True
    with "1" show ?thesis
      by (subst avail_from.simps) (auto simp: proc_consts upt_rec [of i])
  next
    case False
    then show ?thesis by (subst avail_from.simps) (simp add: proc_consts)
  qed
qed

text \<open>
  \<^verbatim>\<open>_getavailpid\<close> returns a free slot other than slot 0 whenever there is one, and the least
  such; it returns -1 exactly when slots 1 to 63 are all in use.
\<close>

theorem getavailpid_spec:
  "getavailpid pm = (if \<forall>k\<in>set [1..<PROC_NUM_MAX]. pid (proc_table pm k) \<noteq> - 1 then - 1
     else int (LEAST k. 1 \<le> k \<and> pid (proc_table pm k) = - 1))"
proof (cases "List.find (\<lambda>k. pid (proc_table pm k) = - 1) [1..<64]")
  case None
  then have "getavailpid pm = - 1" by (simp add: getavailpid_def avail_from_spec)
  with None show ?thesis by (auto simp: find_None_iff proc_consts)
next
  case (Some k)
  then obtain i where i: "i < 63" "k = Suc i" "pid (proc_table pm k) = - 1"
    "\<And>j. j < i \<Longrightarrow> pid (proc_table pm (Suc j)) \<noteq> - 1"
    by (auto simp: find_Some_iff)
  have least: "(LEAST k. 1 \<le> k \<and> pid (proc_table pm k) = - 1) = k"
  proof (rule Least_equality)
    show "1 \<le> k \<and> pid (proc_table pm k) = - 1" using i by simp
  next
    fix j assume "1 \<le> j \<and> pid (proc_table pm j) = - 1"
    then show "k \<le> j" using i(2) i(4) [of "j - 1"] by (cases j) (auto simp: not_less [symmetric])
  qed
  have "getavailpid pm = int k"
    using Some by (simp add: getavailpid_def avail_from_spec)
  with least i(1-3) show ?thesis by (auto simp: proc_consts intro!: bexI [of _ k])
qed

section \<open>Concrete runs\<close>

text \<open>
  A machine state just after \<^verbatim>\<open>ProcManagerInit\<close> on zeroed memory, and the states that repeated
  scheduler invocations lead to: the initial load of process 1, then 2, 3 and 1 again.
\<close>

definition blank_proc :: Process where
  "blank_proc = \<lparr>pid = 0, p_name = [], p_state = 0, p_pc = 0, p_regs = sf_of_words (replicate 31 0),
     p_sendto = 0, p_recvfrom = 0, p_msg = 0, queue_sending = None, queue_sending_next = None,
     fdmap = (\<lambda>_. \<lparr>kf_fd = 0, kf_name = [], kf_seek = 0, kf_size = 0\<rparr>)\<rparr>"

definition blank_pm :: ProcManager where
  "blank_pm = \<lparr>proc_table = (\<lambda>_. blank_proc), proc_number = 0, proc_running = 0, proc_max = 0, do_start = 0\<rparr>"

definition boot_state :: kstate where
  "boot_state = \<lparr>procmanager = ProcManagerInit 0x20001000 0x20002000 0x20003000 blank_pm, ticks = 0,
     kmem = (\<lambda>_. 0), mepc = 0, mcause = 0, mstatus = 0, mtvec = 0, mscratch = 0, mie = 0\<rparr>"

definition run_state :: "nat \<Rightarrow> kstate" where
  "run_state n = (case schedule_n n boot_state of Inr s \<Rightarrow> s | Inl _ \<Rightarrow> boot_state)"

lemma boot_sched_ok: "sched_ok (procmanager boot_state)"
  by (simp add: boot_state_def init_sched_ok)

lemma schedule_n_snoc: "schedule_n (Suc n) s = bindE (schedule_n n s) proc_schedule"
proof (induction n arbitrary: s)
  case 0
  show ?case by (cases "proc_schedule s") simp_all
next
  case (Suc n)
  then show ?case by (cases "proc_schedule s") simp_all
qed

lemma run_state_0: "run_state 0 = boot_state"
  by (simp add: run_state_def)

lemma run_state_Suc:
  "schedule_n n boot_state = Inr (run_state n) \<and> sched_ok (procmanager (run_state n))
   \<and> proc_schedule (run_state n) = Inr (run_state (Suc n))"
proof (induction n)
  case 0
  obtain s' where "proc_schedule boot_state = Inr s'"
    using boot_sched_ok schedule_total_wf sched_ok_def by blast
  then show ?case by (simp add: run_state_def boot_sched_ok)
next
  case (Suc n)
  then have run: "schedule_n (Suc n) boot_state = Inr (run_state (Suc n))"
    by (simp only: schedule_n_snoc) simp
  have ok: "sched_ok (procmanager (run_state (Suc n)))"
    using Suc schedule_sched_ok by blast
  obtain s' where s': "proc_schedule (run_state (Suc n)) = Inr s'"
    using ok schedule_total_wf sched_ok_def by blast
  with run have "schedule_n (Suc (Suc n)) boot_state = Inr s'"
    by (simp only: schedule_n_snoc [of "Suc n"]) simp
  then have "run_state (Suc (Suc n)) = s'" by (simp only: run_state_def) simp
  with run ok s' show ?case by simp
qed

lemma next_readyI:
  assumes "1 \<le> d" "d < 64" "is_ready pm ((proc_running pm + d) mod 64)"
    and "\<And>e. 1 \<le> e \<Longrightarrow> e < d \<Longrightarrow> \<not> is_ready pm ((proc_running pm + e) mod 64)"
  shows "next_ready pm = (proc_running pm + d) mod 64"
proof -
  have "List.find (is_ready pm) (rr_order (proc_running pm)) = Some ((proc_running pm + d) mod 64)"
    unfolding find_Some_iff using assms
    by (intro exI [of _ "d - 1"]) (auto simp: rr_order_def proc_consts)
  then show ?thesis by (simp add: next_ready_def)
qed

definition three_procs :: "nat \<Rightarrow> ProcManager \<Rightarrow> bool" where
  "three_procs r pm \<longleftrightarrow> proc_running pm = r \<and> r \<in> {1, 2, 3} \<and>
     (\<forall>i<64. if i \<in> {1, 2, 3} then pid (proc_table pm i) = int i \<and>
        (if i = r then p_state (proc_table pm i) = PROC_STATE_RUNNING
         else p_state (proc_table pm i) = PROC_STATE_READY)
      else pid (proc_table pm i) = - 1)"

lemma three_procs_ready:
  assumes "three_procs r pm" "i < 64"
  shows "is_ready pm i \<longleftrightarrow> i \<in> {1, 2, 3} \<and> i \<noteq> r"
proof -
  from assms have "if i \<in> {1, 2, 3} then pid (proc_table pm i) = int i \<and>
        (if i = r then p_state (proc_table pm i) = PROC_STATE_RUNNING
         else p_state (proc_table pm i) = PROC_STATE_READY)
      else pid (proc_table pm i) = - 1"
    unfolding three_procs_def by blast
  then show ?thesis
    by (cases "i \<in> {1, 2, 3}"; cases "i = r") (simp_all add: is_ready_def state_consts)
qed

lemma three_procs_next:
  assumes "three_procs r pm"
  shows "next_ready pm = (if r = 1 then 2 else if r = 2 then 3 else 1)"
proof -
  from assms have r: "proc_running pm = r" "r \<in> {1, 2, 3}" by (auto simp: three_procs_def)
  let ?d = "if r = 3 then 62 else 1"
  have "\<not> is_ready pm ((proc_running pm + e) mod 64)" if "1 \<le> e" "e < ?d" for e
  proof -
    from that have "r = 3" "e < 62" by (auto split: if_splits)
    moreover from this that have "(proc_running pm + e) mod 64 \<notin> {1, 2, 3}"
      using r(1) by (cases "e = 61") (auto simp: mod_less)
    ultimately show ?thesis using three_procs_ready [OF assms, of "(proc_running pm + e) mod 64"] by simp
  qed
  moreover have "is_ready pm ((proc_running pm + ?d) mod 64)"
    using r three_procs_ready [OF assms, of "(proc_running pm + ?d) mod 64"] by auto
  ultimately have "next_ready pm = (proc_running pm + ?d) mod 64"
    by (intro next_readyI) auto
  with r show ?thesis by auto
qed

lemma run_state_1:
  "three_procs 1 (procmanager (run_state 1)) \<and> do_start (procmanager (run_state 1)) = 0"
proof -
  have "do_start (procmanager boot_state) \<noteq> 0" by (simp add: boot_state_def)
  from schedule_start [OF this] run_state_Suc [of 0] have
    "run_state 1 = switch_to 1 (boot_state\<lparr>procmanager := (procmanager boot_state)\<lparr>do_start := 0\<rparr>\<rparr>)"
    unfolding run_state_0 One_nat_def by (metis sum.inject(2))
  then show ?thesis
    by (auto simp: three_procs_def boot_state_def init_table start_proc_def clear_proc_def)
qed

lemma run_state_step:
  assumes "three_procs r (procmanager (run_state n))" "do_start (procmanager (run_state n)) = 0"
  shows "three_procs (if r = 1 then 2 else if r = 2 then 3 else 1) (procmanager (run_state (Suc n))) \<and>
    do_start (procmanager (run_state (Suc n))) = 0 \<and>
    (\<forall>i. i \<noteq> r \<longrightarrow> p_regs (proc_table (procmanager (run_state (Suc n))) i) = p_regs (proc_table (procmanager (run_state n)) i) \<and>
      p_pc (proc_table (procmanager (run_state (Suc n))) i) = p_pc (proc_table (procmanager (run_state n)) i))"
proof -
  have wf: "pm_wf (procmanager (run_state n))" using run_state_Suc sched_ok_def by blast
  have "run_state (Suc n) = switch_to (next_ready (procmanager (run_state n)))
      (switch_from (proc_running (procmanager (run_state n))) (run_state n))"
    using run_state_Suc [of n] schedule_eq [OF wf assms(2)] by simp
  then show ?thesis
    using assms three_procs_next [OF assms(1)] by (auto simp: three_procs_def)
qed

lemma run_states:
  "three_procs 2 (procmanager (run_state 2)) \<and> do_start (procmanager (run_state 2)) = 0"
  "three_procs 3 (procmanager (run_state 3)) \<and> do_start (procmanager (run_state 3)) = 0"
  "three_procs 1 (procmanager (run_state 4)) \<and> do_start (procmanager (run_state 4)) = 0"
  "p_regs (proc_table (procmanager (run_state 3)) 1) = p_regs (proc_table (procmanager (run_state 2)) 1)"
  "p_pc (proc_table (procmanager (run_state 3)) 1) = p_pc (proc_table (procmanager (run_state 2)) 1)"
  using run_state_1 run_state_step [of 1 1] run_state_step [of 2 2] run_state_step [of 3 3]
  by (simp_all add: numeral_eq_Suc)

lemma run_state_running:
  "proc_running (procmanager (run_state 1)) = 1" "proc_running (procmanager (run_state 2)) = 2"
  "proc_running (procmanager (run_state 3)) = 3" "proc_running (procmanager (run_state 4)) = 1"
  using run_state_1 run_states by (simp_all add: three_procs_def)

lemma run_state_wf: "pm_wf (procmanager (run_state n))"
  using run_state_Suc sched_ok_def by blast

lemma run_state_sched:
  "proc_schedule (run_state 1) = Inr (run_state 2)" "proc_schedule (run_state 2) = Inr (run_state 3)"
  "proc_schedule (run_state 3) = Inr (run_state 4)"
  using run_state_Suc [of 1] run_state_Suc [of 2] run_state_Suc [of 3] by (simp_all add: numeral_eq_Suc)

section \<open>Witnesses\<close>

theorem schedule_one_running_witness:
  "\<exists>s'. proc_schedule boot_state = Inr s' \<and> sched_ok (procmanager s') \<and>
    {i. i < PROC_NUM_MAX \<and> pid (proc_table (procmanager s') i) \<noteq> - 1 \<and>
        p_state (proc_table (procmanager s') i) = PROC_STATE_RUNNING} = {proc_running (procmanager s')}"
  by (rule schedule_one_running [OF boot_sched_ok])

theorem getnext_round_robin_witness: "proc_getnext (procmanager (run_state 3)) = Inr 1"
  using getnext_round_robin [OF run_state_wf, of 3] three_procs_next [of 3 "procmanager (run_state 3)"]
    run_states(2) by (simp add: next_ready_def)

theorem context_switch_roundtrip_witness:
  "load_words (kmem (run_state 4)) REGS_SAVE_ADDR 31 = load_words (kmem (run_state 1)) REGS_SAVE_ADDR 31 \<and>
   mepc (run_state 4) = mepc (run_state 1)"
  by (rule context_switch_roundtrip [of "run_state 1" "run_state 2" 1 "run_state 3"])
    (use run_states run_state_1 run_state_wf run_state_sched run_state_running in simp_all)

text \<open>A table whose only process, the running one, is blocked in a send.\<close>

definition lone_sender :: kstate where
  "lone_sender = boot_state\<lparr>procmanager := blank_pm\<lparr>
     proc_table := (\<lambda>i. if i = 1 then blank_proc\<lparr>pid := 1, p_state := PROC_STATE_SENDING, p_msg := 0x20001000\<rparr>
       else blank_proc\<lparr>pid := - 1\<rparr>), proc_running := 1, proc_max := PROC_NUM_MAX\<rparr>\<rparr>"

lemma lone_sender_facts:
  "pm_wf (procmanager lone_sender)" "do_start (procmanager lone_sender) = 0"
  "proc_running (procmanager lone_sender) = 1" "is_ready (procmanager lone_sender) i = False"
  by (auto simp: lone_sender_def pm_wf_def blank_pm_def blank_proc_def proc_consts is_ready_def state_consts)

theorem schedule_resumes_blocked_witness:
  "\<exists>s'. proc_schedule lone_sender = Inr s' \<and>
     p_state (proc_table (procmanager lone_sender) 1) = PROC_STATE_SENDING \<and>
     p_state (proc_table (procmanager s') 1) = PROC_STATE_RUNNING"
proof -
  obtain s' where s': "proc_schedule lone_sender = Inr s'"
    using schedule_total_wf [OF lone_sender_facts(1)] by blast
  from schedule_resumes_blocked [OF lone_sender_facts(1,2) s'] s' show ?thesis
    by (auto simp: lone_sender_facts) (simp add: lone_sender_def)
qed

theorem schedule_fair_witness:
  "\<exists>n s'. n < PROC_NUM_MAX \<and> schedule_n n (run_state 1) = Inr s' \<and> proc_running (procmanager s') = 3"
  by (rule schedule_fair)
    (use run_state_1 run_state_wf three_procs_ready [of 1 "procmanager (run_state 1)" 3] run_state_running
      in \<open>simp_all add: proc_consts\<close>)

theorem getavailpid_spec_witness: "getavailpid (procmanager boot_state) = 4"
proof -
  have pid: "pid (proc_table (procmanager boot_state) k) = (if k \<in> {1, 2, 3} then int k else if k < 64 then - 1 else 0)" for k
    by (simp add: boot_state_def init_table start_proc_def clear_proc_def blank_pm_def blank_proc_def)
  have "(LEAST k. 1 \<le> k \<and> pid (proc_table (procmanager boot_state) k) = - 1) = 4"
    by (rule Least_equality) (auto simp: pid split: if_splits)
  moreover have "4 \<in> set [1..<PROC_NUM_MAX]" "pid (proc_table (procmanager boot_state) 4) = - 1"
    by (simp_all add: PROC_NUM_MAX_def pid)
  ultimately show ?thesis using getavailpid_spec [of "procmanager boot_state"] by auto
qed

end
