(* ===== verification/IPC.thy ===== *)
theory IPC
  imports Sched
begin

text \<open>
  Synchronous message passing between processes, from \<^verbatim>\<open>kernel/process.c\<close>: \<^verbatim>\<open>_msg_send\<close>,
  \<^verbatim>\<open>_msg_receive\<close>, \<^verbatim>\<open>sendrec\<close> and \<^verbatim>\<open>sendrec_nonblock\<close>.  Every assertion of the code is a step that can
  end in \<open>AssertFail\<close>.  The processes blocked on a send to a process form a list linked through
  \<open>queue_sending\<close> (the head, in the receiver) and \<open>queue_sending_next\<close> (in the senders).
\<close>

section \<open>Operations\<close>

text \<open>
  The loop that looks for the end of the sender list tests the field of the destination, not of
  the list cell it is at.  The test never changes, so \<open>PROC_NUM_MAX + 1\<close> rounds decide it: the
  walk has left the list through its null end by then, or it goes round a cycle for ever.
\<close>

definition walk_fuel :: nat where "walk_fuel = PROC_NUM_MAX + 1"

fun append_walk :: "nat \<Rightarrow> ProcManager \<Rightarrow> nat \<Rightarrow> nat option \<Rightarrow> kfault + nat option" where
  "append_walk 0 pm p_dest p = Inl Hang"
| "append_walk (Suc n) pm p_dest p =
     (if queue_sending_next (proc_table pm p_dest) \<noteq> None
      then (case p of None \<Rightarrow> Inl BadPointer
            | Some k \<Rightarrow> append_walk n pm p_dest (queue_sending_next (proc_table pm k)))
      else Inr p)"

definition enqueue_sender :: "nat \<Rightarrow> nat \<Rightarrow> ProcManager \<Rightarrow> kfault + ProcManager" where
  "enqueue_sender p_send p_dest pm =
     (case queue_sending (proc_table pm p_dest) of
        Some p \<Rightarrow> bindE (append_walk walk_fuel pm p_dest (Some p)) (\<lambda>p. case p of
            None \<Rightarrow> Inl BadPointer
          | Some k \<Rightarrow> Inr (upd_proc k (\<lambda>P. P\<lparr>queue_sending_next := Some p_send\<rparr>) pm))
      | None \<Rightarrow> Inr (upd_proc p_dest (\<lambda>P. P\<lparr>queue_sending := Some p_send\<rparr>) pm))"

definition send_direct :: "nat \<Rightarrow> u32 \<Rightarrow> kstate \<Rightarrow> kstate" where
  "send_direct p_dest msg s = s\<lparr>
     kmem := memcpy (kmem s) (p_msg (proc_table (procmanager s) p_dest)) msg sizeof_Message,
     procmanager := upd_proc p_dest (\<lambda>D. D\<lparr>p_msg := 0,
       p_state := (p_state D AND NOT PROC_STATE_RECEIVING) OR PROC_STATE_READY,
       p_recvfrom := IPC_TARGET_NONE\<rparr>) (procmanager s)\<rparr>"

definition send_block :: "nat \<Rightarrow> nat \<Rightarrow> int \<Rightarrow> u32 \<Rightarrow> kstate \<Rightarrow> kfault + kstate" where
  "send_block p_send p_dest dest msg s =
     (let pm = upd_proc p_send (\<lambda>S. S\<lparr>p_state := p_state S OR PROC_STATE_SENDING\<rparr>) (procmanager s) in
      bindE (assertE (p_state (proc_table pm p_send) = PROC_STATE_SENDING)) (\<lambda>_.
      bindE (enqueue_sender p_send p_dest
          (upd_proc p_send (\<lambda>S. S\<lparr>p_sendto := dest, p_msg := msg\<rparr>) pm)) (\<lambda>pm.
      bindE (assertE (p_state (proc_table pm p_send) = PROC_STATE_SENDING)) (\<lambda>_.
      bindE (assertE (p_msg (proc_table pm p_send) \<noteq> 0)) (\<lambda>_.
      bindE (assertE (p_recvfrom (proc_table pm p_send) = IPC_TARGET_NONE)) (\<lambda>_.
      bindE (assertE (p_sendto (proc_table pm p_send) = dest)) (\<lambda>_.
        Inr (s\<lparr>procmanager := pm\<rparr>))))))))"

definition msg_send :: "nat \<Rightarrow> int \<Rightarrow> u32 \<Rightarrow> int \<Rightarrow> kstate \<Rightarrow> kfault + int \<times> kstate" where
  "msg_send p_send dest msg nonblocking s =
     bindE (pid2proc dest) (\<lambda>p_dest.
       let S = proc_table (procmanager s) p_send; D = proc_table (procmanager s) p_dest in
       bindE (assertE (pid S \<noteq> pid D)) (\<lambda>_.
       if p_state D = PROC_STATE_RECEIVING \<and> (p_recvfrom D = pid S \<or> p_recvfrom D = IPC_TARGET_ANY)
       then Inr (0, send_direct p_dest msg s)
       else if nonblocking = 1 then Inr (- 1, s)
       else bindE (send_block p_send p_dest dest msg s) (\<lambda>s. Inr (0, s))))"

text \<open>
  Looking a given sender up in the list: the pair is (\<^verbatim>\<open>p_from\<close>, \<^verbatim>\<open>prev\<close>).  A list that is not
  cyclic has at most \<open>PROC_NUM_MAX\<close> cells, so running out of fuel means the C loop does not end.
\<close>

fun find_sender :: "nat \<Rightarrow> ProcManager \<Rightarrow> int \<Rightarrow> nat option \<Rightarrow> nat option \<Rightarrow> nat \<Rightarrow> kfault + nat \<times> nat option" where
  "find_sender 0 pm src p prev p_from = Inl Hang"
| "find_sender (Suc n) pm src p prev p_from =
     (case p of None \<Rightarrow> Inr (p_from, prev)
      | Some k \<Rightarrow> if pid (proc_table pm k) = src then Inr (k, prev)
          else find_sender n pm src (queue_sending_next (proc_table pm k)) (Some k) p_from)"

text \<open>The transfer itself: unlink the sender, copy the message, make the sender ready.\<close>

definition recv_unlink :: "nat \<Rightarrow> nat \<Rightarrow> nat option \<Rightarrow> ProcManager \<Rightarrow> kfault + ProcManager" where
  "recv_unlink p_recv p_from prev pm =
     (if queue_sending (proc_table pm p_recv) = Some p_from
      then bindE (assertE (prev = None)) (\<lambda>_.
        Inr (upd_proc p_from (\<lambda>F. F\<lparr>queue_sending_next := None\<rparr>)
          (upd_proc p_recv (\<lambda>R. R\<lparr>queue_sending := queue_sending_next (proc_table pm p_from)\<rparr>) pm)))
      else (case prev of None \<Rightarrow> Inl AssertFail
        | Some k \<Rightarrow> Inr (upd_proc p_from (\<lambda>F. F\<lparr>queue_sending := None\<rparr>)
            (upd_proc k (\<lambda>P. P\<lparr>queue_sending := queue_sending (proc_table pm p_from)\<rparr>) pm))))"

definition recv_finish :: "nat \<Rightarrow> nat \<Rightarrow> nat option \<Rightarrow> u32 \<Rightarrow> kstate \<Rightarrow> kfault + kstate" where
  "recv_finish p_recv p_from prev msg s =
     bindE (recv_unlink p_recv p_from prev (procmanager s)) (\<lambda>pm.
     bindE (assertE (msg \<noteq> 0)) (\<lambda>_.
     bindE (assertE (p_msg (proc_table pm p_from) \<noteq> 0)) (\<lambda>_.
       Inr (s\<lparr>kmem := memcpy (kmem s) msg (p_msg (proc_table pm p_from)) sizeof_Message,
         procmanager := upd_proc p_from (\<lambda>F. F\<lparr>p_msg := 0, p_sendto := IPC_TARGET_NONE,
           p_state := (p_state F AND NOT PROC_STATE_SENDING) OR PROC_STATE_READY\<rparr>) pm\<rparr>))))"

definition recv_block :: "nat \<Rightarrow> int \<Rightarrow> u32 \<Rightarrow> kstate \<Rightarrow> kfault + kstate" where
  "recv_block p_recv from msg s =
     (let pm = upd_proc p_recv (\<lambda>R. R\<lparr>p_state := p_state R OR PROC_STATE_RECEIVING,
        p_msg := msg, p_recvfrom := from\<rparr>) (procmanager s);
        R = proc_table pm p_recv in
      bindE (assertE (p_state R = PROC_STATE_RECEIVING)) (\<lambda>_.
      bindE (assertE (p_msg R \<noteq> 0)) (\<lambda>_.
      bindE (assertE (p_recvfrom R \<noteq> IPC_TARGET_NONE)) (\<lambda>_.
      bindE (assertE (p_sendto R = IPC_TARGET_NONE)) (\<lambda>_.
        Inr (s\<lparr>procmanager := pm\<rparr>))))))"

definition receive_any :: "nat \<Rightarrow> u32 \<Rightarrow> kstate \<Rightarrow> kfault + kstate" where
  "receive_any p_recv msg s =
     (let pm = procmanager s; R = proc_table pm p_recv in
      case queue_sending R of
        None \<Rightarrow> recv_block p_recv IPC_TARGET_ANY msg s
      | Some p_from \<Rightarrow> let F = proc_table pm p_from in
          bindE (assertE (p_msg R = 0)) (\<lambda>_.
          bindE (assertE (p_recvfrom R = IPC_TARGET_NONE)) (\<lambda>_.
          bindE (assertE (p_sendto R = IPC_TARGET_NONE)) (\<lambda>_.
          bindE (assertE (p_msg F \<noteq> 0)) (\<lambda>_.
          bindE (assertE (p_recvfrom F = IPC_TARGET_NONE)) (\<lambda>_.
          bindE (assertE (p_sendto F = pid R)) (\<lambda>_.
            recv_finish p_recv p_from None msg s)))))))"

definition receive_from :: "nat \<Rightarrow> int \<Rightarrow> u32 \<Rightarrow> kstate \<Rightarrow> kfault + kstate" where
  "receive_from p_recv src msg s =
     (let pm = procmanager s; R = proc_table pm p_recv in
      bindE (pid2proc src) (\<lambda>p_from. let F = proc_table pm p_from in
        if p_state F AND word_of_int IPC_SEND \<noteq> 0 \<and> p_sendto F = pid R
        then bindE (assertE (queue_sending R \<noteq> None)) (\<lambda>_.
          bindE (find_sender walk_fuel pm src (queue_sending R) None p_from) (\<lambda>(p_from, prev).
          bindE (assertE (p_state R = PROC_STATE_RUNNING)) (\<lambda>_.
          bindE (assertE (p_msg R = 0)) (\<lambda>_.
          bindE (assertE (p_recvfrom R = IPC_TARGET_NONE)) (\<lambda>_.
          bindE (assertE (p_sendto R = IPC_TARGET_NONE)) (\<lambda>_.
          bindE (assertE (p_recvfrom (proc_table pm p_from) = IPC_TARGET_NONE)) (\<lambda>_.
            recv_finish p_recv p_from prev msg s)))))))
        else recv_block p_recv (pid F) msg s))"

definition msg_receive :: "nat \<Rightarrow> int \<Rightarrow> u32 \<Rightarrow> kstate \<Rightarrow> kfault + int \<times> kstate" where
  "msg_receive p_recv src msg s =
     bindE (assertE (pid (proc_table (procmanager s) p_recv) \<noteq> src)) (\<lambda>_.
     bindE (if src = IPC_TARGET_ANY then receive_any p_recv msg s else receive_from p_recv src msg s)
       (\<lambda>s. Inr (0, s)))"

text \<open>The entry points used by the system call handler, acting for the running process.\<close>

definition stamp_source :: "int \<Rightarrow> u32 \<Rightarrow> kstate \<Rightarrow> kstate" where
  "stamp_source caller msg s = s\<lparr>kmem := store32 (kmem s) (msg + 4) (word_of_int caller)\<rparr>"

definition sendrec :: "int \<Rightarrow> int \<Rightarrow> u32 \<Rightarrow> kstate \<Rightarrow> kfault + int \<times> kstate" where
  "sendrec func src_dest msg s =
     bindE (pid2proc (int (proc_running (procmanager s)))) (\<lambda>proc.
       let caller = pid (proc_table (procmanager s) proc); s = stamp_source caller msg s in
       bindE (assertE (caller \<noteq> src_dest)) (\<lambda>_.
       if func = IPC_SEND then msg_send proc src_dest msg 0 s
       else if func = IPC_RECEIVE then msg_receive proc src_dest msg s
       else Inr (- 1, s)))"

definition sendrec_nonblock :: "int \<Rightarrow> int \<Rightarrow> u32 \<Rightarrow> kstate \<Rightarrow> kfault + int \<times> kstate" where
  "sendrec_nonblock func src_dest msg s =
     bindE (pid2proc (int (proc_running (procmanager s)))) (\<lambda>proc.
       let caller = pid (proc_table (procmanager s) proc); s = stamp_source caller msg s in
       bindE (assertE (caller \<noteq> src_dest)) (\<lambda>_.
       if func = IPC_SEND then msg_send proc src_dest msg 1 s
       else Inr (- 1, s)))"

section \<open>The invariant of the process table\<close>

text \<open>
  \<open>proc_ok\<close>: a process blocked in a send or a receive has a message buffer and a partner, and the
  list links stay inside the table.  \<open>kernel_inv\<close> adds that of the used processes exactly the
  current one is in state RUNNING; \<open>ipc_inv\<close> is what holds inside a trap, where the current
  process may just have been blocked.
\<close>

definition link_ok :: "nat option \<Rightarrow> bool" where
  "link_ok p \<longleftrightarrow> (case p of None \<Rightarrow> True | Some k \<Rightarrow> k < PROC_NUM_MAX)"

definition proc_ok :: "Process \<Rightarrow> bool" where
  "proc_ok P \<longleftrightarrow>
     (p_state P = PROC_STATE_SENDING \<longrightarrow> p_msg P \<noteq> 0 \<and> p_sendto P \<noteq> IPC_TARGET_NONE) \<and>
     (p_state P = PROC_STATE_RECEIVING \<longrightarrow> p_msg P \<noteq> 0 \<and> p_recvfrom P \<noteq> IPC_TARGET_NONE) \<and>
     link_ok (queue_sending P) \<and> link_ok (queue_sending_next P)"

definition ipc_inv :: "ProcManager \<Rightarrow> bool" where
  "ipc_inv pm \<longleftrightarrow> sched_ok pm \<and> (\<forall>i<PROC_NUM_MAX. proc_ok (proc_table pm i))"

definition kernel_inv :: "ProcManager \<Rightarrow> bool" where
  "kernel_inv pm \<longleftrightarrow> ipc_inv pm \<and> p_state (proc_table pm (proc_running pm)) = PROC_STATE_RUNNING"

lemma link_ok_simps [simp]: "link_ok None" "link_ok (Some k) \<longleftrightarrow> k < PROC_NUM_MAX"
  by (simp_all add: link_ok_def)

lemma ipc_invD:
  assumes "ipc_inv pm"
  shows "pm_wf pm" "sched_ok pm" "proc_running pm < 64" "i < 64 \<Longrightarrow> proc_ok (proc_table pm i)"
    "i < 64 \<Longrightarrow> link_ok (queue_sending (proc_table pm i))"
    "i < 64 \<Longrightarrow> link_ok (queue_sending_next (proc_table pm i))"
  using assms by (auto simp: ipc_inv_def sched_ok_def pm_wf_def proc_ok_def proc_consts)

lemma pm_wf_upd [intro]:
  "pm_wf pm \<Longrightarrow> (\<And>P. pid (f P) = pid P) \<Longrightarrow> pm_wf (upd_proc i f pm)"
  by (auto simp: pm_wf_def)

text \<open>Changing one process keeps the invariant when it keeps the pid, the process stays \<open>proc_ok\<close> and is not made RUNNING.\<close>

lemma ipc_inv_upd:
  assumes "ipc_inv pm" "\<And>P. pid (f P) = pid P" "proc_ok (proc_table pm i) \<Longrightarrow> proc_ok (f (proc_table pm i))"
    and "i \<noteq> proc_running pm \<Longrightarrow> p_state (f (proc_table pm i)) \<noteq> PROC_STATE_RUNNING
          \<or> p_state (f (proc_table pm i)) = p_state (proc_table pm i)"
  shows "ipc_inv (upd_proc i f pm)"
  using assms by (auto simp: ipc_inv_def sched_ok_def)

lemma ipc_inv_upd_link:
  assumes "ipc_inv pm" "link_ok q"
  shows "ipc_inv (upd_proc i (\<lambda>P. P\<lparr>queue_sending := q\<rparr>) pm)"
    and "ipc_inv (upd_proc i (\<lambda>P. P\<lparr>queue_sending_next := q\<rparr>) pm)"
  using assms by (auto intro!: ipc_inv_upd simp: proc_ok_def)

lemma ready_bits [simp]:
  "(x AND y) OR PROC_STATE_READY \<noteq> PROC_STATE_RUNNING"
  "(x AND y) OR PROC_STATE_READY \<noteq> PROC_STATE_SENDING"
  "(x AND y) OR PROC_STATE_READY \<noteq> PROC_STATE_RECEIVING"
proof -
  have b: "bit ((x AND y) OR PROC_STATE_READY) 5" "\<not> bit PROC_STATE_RUNNING 5"
    "\<not> bit PROC_STATE_SENDING 5" "\<not> bit PROC_STATE_RECEIVING 5"
    by (simp_all add: state_consts bit_simps)
  then show "(x AND y) OR PROC_STATE_READY \<noteq> PROC_STATE_RUNNING"
    "(x AND y) OR PROC_STATE_READY \<noteq> PROC_STATE_SENDING"
    "(x AND y) OR PROC_STATE_READY \<noteq> PROC_STATE_RECEIVING"
    by metis+
qed

lemma state_distinct [simp]:
  "PROC_STATE_RUNNING \<noteq> PROC_STATE_SENDING" "PROC_STATE_RUNNING \<noteq> PROC_STATE_RECEIVING"
  "PROC_STATE_SENDING \<noteq> PROC_STATE_RECEIVING" "PROC_STATE_SENDING \<noteq> PROC_STATE_RUNNING"
  "PROC_STATE_RECEIVING \<noteq> PROC_STATE_RUNNING" "PROC_STATE_RECEIVING \<noteq> PROC_STATE_SENDING"
  "PROC_STATE_READY \<noteq> PROC_STATE_RUNNING" "PROC_STATE_READY \<noteq> PROC_STATE_SENDING"
  "PROC_STATE_READY \<noteq> PROC_STATE_RECEIVING"
  by (simp_all add: state_consts)

lemma pid2proc_lt: "pid2proc d = Inr k \<Longrightarrow> k < 64"
  by (auto simp: pid2proc_def fault_simps)

lemma pid2proc_not_none: "pid2proc d = Inr k \<Longrightarrow> d \<noteq> IPC_TARGET_NONE \<and> d \<noteq> IPC_TARGET_ANY"
  by (auto simp: pid2proc_def fault_simps proc_consts)

lemma append_walk_lt:
  "append_walk n pm d p = Inr (Some k) \<Longrightarrow> ipc_inv pm \<Longrightarrow> link_ok p \<Longrightarrow> k < 64"
proof (induction n pm d p rule: append_walk.induct)
  case (2 n pm p_dest p)
  then show ?case
    by (auto split: if_splits option.splits simp: ipc_invD proc_consts)
qed simp

lemma find_sender_lt:
  "find_sender n pm src p prev f = Inr (k, q) \<Longrightarrow> ipc_inv pm \<Longrightarrow> link_ok p \<Longrightarrow> link_ok prev \<Longrightarrow> f < 64
   \<Longrightarrow> k < 64 \<and> link_ok q"
proof (induction n pm src p prev f rule: find_sender.induct)
  case (2 n pm src p prev f)
  then show ?case
    by (auto split: if_splits option.splits simp: ipc_invD proc_consts)
qed simp

lemma send_direct_inv:
  assumes "ipc_inv (procmanager s)"
  shows "ipc_inv (procmanager (send_direct d msg s))"
  using assms by (auto simp: send_direct_def proc_ok_def intro!: ipc_inv_upd)

lemma enqueue_sender_inv:
  assumes "ipc_inv pm" "enqueue_sender p d pm = Inr pm'" "p < 64"
  shows "ipc_inv pm'"
  using assms by (auto simp: enqueue_sender_def fault_simps proc_consts
      split: option.splits intro!: ipc_inv_upd_link)

lemma enqueue_sender_frame:
  assumes "enqueue_sender p d pm = Inr pm'"
  shows "pid (proc_table pm' i) = pid (proc_table pm i)" "p_state (proc_table pm' i) = p_state (proc_table pm i)"
    "p_msg (proc_table pm' i) = p_msg (proc_table pm i)" "proc_running pm' = proc_running pm"
    "p_sendto (proc_table pm' i) = p_sendto (proc_table pm i)"
    "p_recvfrom (proc_table pm' i) = p_recvfrom (proc_table pm i)"
  using assms by (auto simp: enqueue_sender_def fault_simps split: option.splits)

lemma upd_proc_twice: "upd_proc i g (upd_proc i f pm) = upd_proc i (\<lambda>P. g (f P)) pm"
  by (simp add: upd_proc_def)

lemma send_block_inv:
  assumes "ipc_inv (procmanager s)" "send_block p d dest msg s = Inr s'" "p < 64" "dest \<noteq> IPC_TARGET_NONE"
  shows "ipc_inv (procmanager s')"
proof -
  let ?pm = "upd_proc p (\<lambda>S. S\<lparr>p_state := p_state S OR PROC_STATE_SENDING, p_sendto := dest, p_msg := msg\<rparr>) (procmanager s)"
  from assms(2) obtain pm' where enq: "enqueue_sender p d ?pm = Inr pm'"
    and st: "p_state (proc_table (procmanager s) p) OR PROC_STATE_SENDING = PROC_STATE_SENDING"
    and msg: "p_msg (proc_table pm' p) \<noteq> 0" and s': "procmanager s' = pm'"
    by (auto simp: send_block_def Let_def fault_simps upd_proc_twice)
  from msg enqueue_sender_frame(3) [OF enq, of p] have "msg \<noteq> 0" by simp
  with assms(1,4) st have "ipc_inv ?pm"
    by (intro ipc_inv_upd) (auto simp: proc_ok_def)
  with enq assms(3) s' show ?thesis using enqueue_sender_inv by blast
qed

lemma send_block_frame:
  assumes "send_block p d dest msg s = Inr s'"
  shows "proc_running (procmanager s') = proc_running (procmanager s)"
    "kmem s' = kmem s" "ticks s' = ticks s" "mepc s' = mepc s"
  using assms by (auto simp: send_block_def Let_def fault_simps dest: enqueue_sender_frame(4))

lemma recv_unlink_inv:
  assumes "ipc_inv pm" "recv_unlink r f prev pm = Inr pm'" "f < 64" "r < 64" "link_ok prev"
  shows "ipc_inv pm'"
  using assms by (auto simp: recv_unlink_def fault_simps split: if_splits option.splits
      intro!: ipc_inv_upd_link) (auto dest: ipc_invD(5,6) simp: proc_consts)

lemma recv_finish_inv:
  assumes "ipc_inv (procmanager s)" "recv_finish r f prev msg s = Inr s'" "f < 64" "r < 64" "link_ok prev"
  shows "ipc_inv (procmanager s')"
proof -
  from assms(2) obtain pm where "recv_unlink r f prev (procmanager s) = Inr pm"
    and s': "procmanager s' = upd_proc f (\<lambda>F. F\<lparr>p_msg := 0, p_sendto := IPC_TARGET_NONE,
           p_state := (p_state F AND NOT PROC_STATE_SENDING) OR PROC_STATE_READY\<rparr>) pm"
    by (auto simp: recv_finish_def fault_simps)
  with assms have "ipc_inv pm" using recv_unlink_inv by blast
  then show ?thesis unfolding s' by (intro ipc_inv_upd) (auto simp: proc_ok_def)
qed

lemma recv_block_inv:
  assumes "ipc_inv (procmanager s)" "recv_block r from msg s = Inr s'"
  shows "ipc_inv (procmanager s')"
  using assms by (auto simp: recv_block_def Let_def fault_simps proc_ok_def intro!: ipc_inv_upd)

lemma msg_send_inv:
  assumes "ipc_inv (procmanager s)" "msg_send p dest msg nb s = Inr (r, s')" "p < 64"
  shows "ipc_inv (procmanager s')"
  using assms by (auto simp: msg_send_def Let_def fault_simps send_direct_inv send_block_inv
      dest!: pid2proc_not_none split: if_splits)

lemma receive_any_inv:
  assumes "ipc_inv (procmanager s)" "receive_any r msg s = Inr s'" "r < 64"
  shows "ipc_inv (procmanager s')"
proof (cases "queue_sending (proc_table (procmanager s) r)")
  case None
  with assms show ?thesis by (auto simp: receive_any_def intro: recv_block_inv)
next
  case (Some f)
  with assms(1,3) have "f < 64" using ipc_invD(5) [OF assms(1,3)] by (simp add: proc_consts)
  with Some assms show ?thesis
    by (auto simp: receive_any_def Let_def fault_simps intro: recv_finish_inv)
qed

lemma receive_from_inv:
  assumes "ipc_inv (procmanager s)" "receive_from r src msg s = Inr s'" "r < 64"
  shows "ipc_inv (procmanager s')"
proof -
  from assms(2) obtain f where f: "pid2proc src = Inr f" by (auto simp: receive_from_def Let_def fault_simps)
  then have "f < 64" by (rule pid2proc_lt)
  show ?thesis
  proof (cases "p_state (proc_table (procmanager s) f) AND word_of_int IPC_SEND \<noteq> 0 \<and>
      p_sendto (proc_table (procmanager s) f) = pid (proc_table (procmanager s) r)")
    case True
    with assms(2) f obtain g prev where
      find: "find_sender walk_fuel (procmanager s) src (queue_sending (proc_table (procmanager s) r)) None f = Inr (g, prev)"
      and fin: "recv_finish r g prev msg s = Inr s'"
      by (auto simp: receive_from_def Let_def fault_simps)
    have "g < 64 \<and> link_ok prev"
      using find_sender_lt [OF find assms(1) ipc_invD(5) [OF assms(1,3)]] \<open>f < 64\<close> by simp
    then show ?thesis using recv_finish_inv [OF assms(1) fin] assms(3) by blast
  next
    case False
    with assms(2) f have "recv_block r (pid (proc_table (procmanager s) f)) msg s = Inr s'"
      by (auto simp: receive_from_def Let_def)
    then show ?thesis using recv_block_inv assms(1) by blast
  qed
qed

lemma msg_receive_inv:
  assumes "ipc_inv (procmanager s)" "msg_receive r src msg s = Inr (v, s')" "r < 64"
  shows "ipc_inv (procmanager s')"
  using assms by (auto simp: msg_receive_def fault_simps split: if_splits
      intro: receive_any_inv receive_from_inv)

lemma stamp_source_simps [simp]:
  "procmanager (stamp_source c msg s) = procmanager s"
  "ticks (stamp_source c msg s) = ticks s"
  "mepc (stamp_source c msg s) = mepc s"
  by (simp_all add: stamp_source_def)

lemma sendrec_inv:
  assumes "ipc_inv (procmanager s)"
  shows "sendrec func d msg s = Inr (r, s') \<Longrightarrow> ipc_inv (procmanager s')"
    and "sendrec_nonblock func d msg s = Inr (r, s') \<Longrightarrow> ipc_inv (procmanager s')"
proof -
  have st: "ipc_inv (procmanager (stamp_source c msg s))" for c using assms by simp
  have r: "pid2proc (int (proc_running (procmanager s))) = Inr (proc_running (procmanager s))"
    and rlt: "proc_running (procmanager s) < 64"
    using ipc_invD(3) [OF assms] by simp_all
  show "sendrec func d msg s = Inr (r, s') \<Longrightarrow> ipc_inv (procmanager s')"
    using msg_send_inv [OF st _ rlt] msg_receive_inv [OF st _ rlt] st
    by (auto simp: sendrec_def Let_def fault_simps r split: if_splits)
  show "sendrec_nonblock func d msg s = Inr (r, s') \<Longrightarrow> ipc_inv (procmanager s')"
    using msg_send_inv [OF st _ rlt] st
    by (auto simp: sendrec_nonblock_def Let_def fault_simps r split: if_splits)
qed

end
