(* ===== verification/Rendezvous.thy ===== *)
theory Rendezvous
  imports IPC
begin

text \<open>
  What message passing does: delivery in both orders of arrival, the list of blocked senders,
  and the behaviour of that list when more than two senders wait or when a sender that is not
  the first is received from.
\<close>

section \<open>Message buffers and sender lists\<close>

lemma read_msg_memcpy:
  "read_msg (memcpy m d s sizeof_Message) d = read_msg m s"
proof -
  have w: "load32 (memcpy m d s 40) (d + of_nat k) = load32 m (s + of_nat k)" if "k + 4 \<le> 40" for k
    using that by (intro load32_memcpy_in) auto
  have "load32 (memcpy m d s 40) (d + 8 + 4 * of_nat i) = load32 m (s + 8 + 4 * of_nat i)" if "i < 8" for i
    using w [of "8 + 4 * i"] that by (simp add: algebra_simps)
  then show ?thesis
    using w [of 0] w [of 4] by (simp add: read_msg_def sizeof_Message_def)
qed

primrec chain :: "ProcManager \<Rightarrow> nat option \<Rightarrow> nat list \<Rightarrow> bool" where
  "chain pm p [] \<longleftrightarrow> p = None"
| "chain pm p (x # xs) \<longleftrightarrow> p = Some x \<and> chain pm (queue_sending_next (proc_table pm x)) xs"

definition sendq :: "ProcManager \<Rightarrow> nat \<Rightarrow> nat list \<Rightarrow> bool" where
  "sendq pm d xs \<longleftrightarrow> chain pm (queue_sending (proc_table pm d)) xs"

lemma chain_cong:
  "(\<And>x. x \<in> set xs \<Longrightarrow> queue_sending_next (proc_table pm' x) = queue_sending_next (proc_table pm x))
   \<Longrightarrow> chain pm' p xs = chain pm p xs"
  by (induction xs arbitrary: p) auto

lemma chain_upd:
  "i \<notin> set xs \<or> (\<forall>P. queue_sending_next (f P) = queue_sending_next P) \<Longrightarrow> chain (upd_proc i f pm) p xs = chain pm p xs"
  by (rule chain_cong) auto

text \<open>A process blocked in a send to process \<open>d\<close>, and one that is running with no IPC pending.\<close>

definition waiting_on :: "Process \<Rightarrow> int \<Rightarrow> bool" where
  "waiting_on P d \<longleftrightarrow> p_state P = PROC_STATE_SENDING \<and> p_msg P \<noteq> 0 \<and>
     p_recvfrom P = IPC_TARGET_NONE \<and> p_sendto P = d"

definition idle :: "Process \<Rightarrow> bool" where
  "idle P \<longleftrightarrow> p_state P = PROC_STATE_RUNNING \<and> p_msg P = 0 \<and>
     p_recvfrom P = IPC_TARGET_NONE \<and> p_sendto P = IPC_TARGET_NONE"

definition receiving_from :: "Process \<Rightarrow> int \<Rightarrow> bool" where
  "receiving_from D p \<longleftrightarrow> p_state D = PROC_STATE_RECEIVING \<and> (p_recvfrom D = p \<or> p_recvfrom D = IPC_TARGET_ANY)"

lemma ready_after_clear [simp]:
  "(PROC_STATE_RECEIVING AND NOT PROC_STATE_RECEIVING) OR PROC_STATE_READY = PROC_STATE_READY"
  "(PROC_STATE_SENDING AND NOT PROC_STATE_SENDING) OR PROC_STATE_READY = PROC_STATE_READY"
  "PROC_STATE_RUNNING OR PROC_STATE_SENDING = PROC_STATE_SENDING"
  "PROC_STATE_RUNNING OR PROC_STATE_RECEIVING = PROC_STATE_RECEIVING"
  "PROC_STATE_SENDING AND word_of_int IPC_SEND \<noteq> 0"
  by (simp_all add: state_consts IPC_SEND_def)

section \<open>Properties\<close>

text \<open>
  C11: A send to a process that is waiting for the sender, or for anyone, completes at once: the
  message arrives in the receiver's buffer, the receiver becomes ready with nothing pending,
  and no other process changes.
\<close>

theorem send_direct_delivers:
  assumes "d < PROC_NUM_MAX" "pid (proc_table (procmanager s) p) \<noteq> pid (proc_table (procmanager s) d)"
    and "receiving_from (proc_table (procmanager s) d) (pid (proc_table (procmanager s) p))"
  shows "\<exists>s'. msg_send p (int d) msg nb s = Inr (0, s') \<and>
    read_msg (kmem s') (p_msg (proc_table (procmanager s) d)) = read_msg (kmem s) msg \<and>
    p_state (proc_table (procmanager s') d) = PROC_STATE_READY \<and>
    p_msg (proc_table (procmanager s') d) = 0 \<and>
    p_recvfrom (proc_table (procmanager s') d) = IPC_TARGET_NONE \<and>
    (\<forall>i. i \<noteq> d \<longrightarrow> proc_table (procmanager s') i = proc_table (procmanager s) i)"
  using assms
  by (auto simp: msg_send_def proc_consts receiving_from_def send_direct_def read_msg_memcpy)

text \<open>A send that cannot be delivered, nonblocking and blocking.\<close>

text \<open>
  A nonblocking send to a process that is not waiting for the sender fails with -1 and
  changes nothing.
\<close>

theorem send_nonblock_fails:
  assumes "d < PROC_NUM_MAX" "pid (proc_table (procmanager s) p) \<noteq> pid (proc_table (procmanager s) d)"
    and "\<not> receiving_from (proc_table (procmanager s) d) (pid (proc_table (procmanager s) p))"
  shows "msg_send p (int d) msg 1 s = Inr (- 1, s)"
  using assms by (auto simp: msg_send_def proc_consts receiving_from_def)

lemma walk_fuel_Suc: "walk_fuel = Suc (Suc 63)"
  by (simp add: walk_fuel_def proc_consts)

lemma append_walk_first:
  "queue_sending_next (proc_table pm d) = None \<Longrightarrow> append_walk walk_fuel pm d p = Inr p"
  unfolding walk_fuel_Suc append_walk.simps by simp

lemma append_walk_stuck:
  "queue_sending_next (proc_table pm d) \<noteq> None \<Longrightarrow> append_walk n pm d p \<noteq> Inr q"
  by (induction n pm d p rule: append_walk.induct) (auto split: option.splits)

text \<open>The state a blocking send leaves when the destination is not itself in a list of senders.\<close>

lemma send_block_eq:
  assumes "d < 64" "pid (proc_table (procmanager s) p) \<noteq> pid (proc_table (procmanager s) d)" "p \<noteq> d"
    and "\<not> receiving_from (proc_table (procmanager s) d) (pid (proc_table (procmanager s) p))"
    and "idle (proc_table (procmanager s) p)" "msg \<noteq> 0"
    and "queue_sending_next (proc_table (procmanager s) d) = None"
    and q: "queue_sending (proc_table (procmanager s) d) = None \<or> queue_sending (proc_table (procmanager s) d) = Some h"
  defines "pm1 \<equiv> upd_proc p (\<lambda>S. S\<lparr>p_state := p_state S OR PROC_STATE_SENDING, p_sendto := int d, p_msg := msg\<rparr>)
      (procmanager s)"
  shows "msg_send p (int d) msg 0 s = Inr (0, s\<lparr>procmanager :=
     (case queue_sending (proc_table (procmanager s) d) of
        None \<Rightarrow> upd_proc d (\<lambda>P. P\<lparr>queue_sending := Some p\<rparr>) pm1
      | Some h \<Rightarrow> upd_proc h (\<lambda>P. P\<lparr>queue_sending_next := Some p\<rparr>) pm1)\<rparr>)"
  using assms
  by (auto simp: msg_send_def receiving_from_def send_block_def Let_def upd_proc_twice enqueue_sender_def
      append_walk_first idle_def split: option.splits)

text \<open>
  C31: A blocking send that cannot be delivered blocks the sender and appends it to the receiver's
  list of senders.  This is proved for a sender that runs with no message passing pending, is linked
  in no list and has a message that is not at the null address; a destination that is another
  process of the table, is not waiting for the sender and has at most one sender waiting, neither of
  the two being on that list itself; and, what the code relies on without testing it, a
  destination that is not linked behind another waiting sender: with a sender waiting, the send
  would never return (\<open>send_to_queued_process_diverges\<close>).
\<close>

theorem send_blocks_fifo:
  assumes "d < PROC_NUM_MAX" "pid (proc_table (procmanager s) p) \<noteq> pid (proc_table (procmanager s) d)" "p \<noteq> d"
    and "\<not> receiving_from (proc_table (procmanager s) d) (pid (proc_table (procmanager s) p))"
    and "idle (proc_table (procmanager s) p)" "msg \<noteq> 0"
    and "queue_sending_next (proc_table (procmanager s) d) = None"
    and "queue_sending_next (proc_table (procmanager s) p) = None"
    and "sendq (procmanager s) d xs" "length xs \<le> 1" "p \<notin> set xs" "d \<notin> set xs"
  shows "\<exists>s'. msg_send p (int d) msg 0 s = Inr (0, s') \<and> sendq (procmanager s') d (xs @ [p]) \<and>
    waiting_on (proc_table (procmanager s') p) (int d)"
proof (cases xs)
  case Nil
  with assms send_block_eq [of d s p msg] show ?thesis
    by (auto simp: sendq_def proc_consts waiting_on_def idle_def)
next
  case (Cons h ys)
  with assms(10) have "xs = [h]" by simp
  with assms send_block_eq [of d s p msg h] show ?thesis
    by (auto simp: sendq_def proc_consts waiting_on_def idle_def)
qed

text \<open>
  C40: With two or more processes already waiting for the receiver, a further blocking send leaves
  only the first of them and the new sender on the receiver's list: all the others are dropped, and
  each of them stays blocked in state SENDING.  As for a send that is appended, the sender runs with
  nothing pending, is linked in no list and has a message that is not at the null address; the
  destination is another process of the table that is not waiting for the sender and is not linked
  behind another waiting sender (the send would never return); neither of the two is on the list,
  and the first process occurs there once.
\<close>

theorem third_sender_drops_others:
  assumes "d < PROC_NUM_MAX" "pid (proc_table (procmanager s) p) \<noteq> pid (proc_table (procmanager s) d)" "p \<noteq> d"
    and "\<not> receiving_from (proc_table (procmanager s) d) (pid (proc_table (procmanager s) p))"
    and "idle (proc_table (procmanager s) p)" "msg \<noteq> 0"
    and "queue_sending_next (proc_table (procmanager s) d) = None"
    and "queue_sending_next (proc_table (procmanager s) p) = None"
    and "sendq (procmanager s) d (x # y # ys)" "p \<notin> set (x # y # ys)" "d \<notin> set (x # y # ys)"
    and "\<forall>z\<in>set (y # ys). waiting_on (proc_table (procmanager s) z) (int d)" "x \<notin> set (y # ys)"
  shows "\<exists>s'. msg_send p (int d) msg 0 s = Inr (0, s') \<and> sendq (procmanager s') d [x, p] \<and>
    waiting_on (proc_table (procmanager s') p) (int d) \<and>
    (\<forall>z\<in>set (y # ys). waiting_on (proc_table (procmanager s') z) (int d))"
proof -
  let ?pm = "upd_proc x (\<lambda>P. P\<lparr>queue_sending_next := Some p\<rparr>)
    (upd_proc p (\<lambda>S. S\<lparr>p_state := p_state S OR PROC_STATE_SENDING, p_sendto := int d, p_msg := msg\<rparr>) (procmanager s))"
  have "queue_sending (proc_table (procmanager s) d) = Some x" using assms(9) by (simp add: sendq_def)
  then have "msg_send p (int d) msg 0 s = Inr (0, s\<lparr>procmanager := ?pm\<rparr>)"
    using assms send_block_eq [of d s p msg x] by (simp add: proc_consts)
  moreover have "sendq ?pm d [x, p]" "waiting_on (proc_table ?pm p) (int d)"
    using assms(3,5,6,8-11) by (auto simp: sendq_def waiting_on_def idle_def)
  moreover have "waiting_on (proc_table ?pm z) (int d)" if "z \<in> set (y # ys)" for z
  proof -
    have "z \<noteq> p" "z \<noteq> x" using that assms(10,13) by auto
    moreover have "waiting_on (proc_table (procmanager s) z) (int d)" using that assms(12) by blast
    ultimately show ?thesis by simp
  qed
  ultimately show ?thesis by (intro exI [of _ "s\<lparr>procmanager := ?pm\<rparr>"]) simp
qed

text \<open>
  A blocking send never returns when the destination has waiting senders and is itself
  linked behind another sender: the search for the end of the list leaves the list or loops.
\<close>

theorem send_to_queued_process_diverges:
  assumes "queue_sending_next (proc_table (procmanager s) d) \<noteq> None"
    and "queue_sending (proc_table (procmanager s) d) \<noteq> None" "d < PROC_NUM_MAX" "p \<noteq> d"
    and "\<not> receiving_from (proc_table (procmanager s) d) (pid (proc_table (procmanager s) p))"
  shows "\<exists>e. msg_send p (int d) msg 0 s = Inl e"
proof -
  have "enqueue_sender p d pm \<noteq> Inr pm'" if "queue_sending_next (proc_table pm d) \<noteq> None"
      "queue_sending (proc_table pm d) \<noteq> None" for pm pm'
    using that append_walk_stuck by (auto simp: enqueue_sender_def fault_simps)
  with assms have "msg_send p (int d) msg 0 s \<noteq> Inr r" for r
    by (auto simp: msg_send_def proc_consts receiving_from_def send_block_def Let_def fault_simps upd_proc_twice)
  then show ?thesis by (cases "msg_send p (int d) msg 0 s") auto
qed

text \<open>
  C32: A receive, from anyone or from the first waiting sender by name, takes the first process
  off the list of senders, delivers its message and makes it ready with nothing pending.
\<close>

theorem receive_takes_first:
  assumes "idle (proc_table (procmanager s) d)" "pid (proc_table (procmanager s) d) = int d"
    and "sendq (procmanager s) d (f # fs)" "f \<noteq> d" "f \<notin> set fs" "f < PROC_NUM_MAX" "d < PROC_NUM_MAX"
    and "waiting_on (proc_table (procmanager s) f) (int d)" "pid (proc_table (procmanager s) f) = int f"
    and "buf \<noteq> 0" "src = IPC_TARGET_ANY \<or> src = int f"
  shows "\<exists>s'. msg_receive d src buf s = Inr (0, s') \<and>
    read_msg (kmem s') buf = read_msg (kmem s) (p_msg (proc_table (procmanager s) f)) \<and>
    sendq (procmanager s') d fs \<and>
    p_state (proc_table (procmanager s') f) = PROC_STATE_READY \<and>
    p_msg (proc_table (procmanager s') f) = 0 \<and> p_sendto (proc_table (procmanager s') f) = IPC_TARGET_NONE \<and>
    idle (proc_table (procmanager s') d)"
proof -
  let ?F = "proc_table (procmanager s) f"
  have hd: "queue_sending (proc_table (procmanager s) d) = Some f"
    and tl: "chain (procmanager s) (queue_sending_next ?F) fs"
    using assms(3) by (auto simp: sendq_def)
  have "find_sender walk_fuel (procmanager s) (int f) (Some f) None f = Inr (f, None)"
    unfolding walk_fuel_Suc find_sender.simps using assms(9) by simp
  then have "msg_receive d src buf s = bindE (recv_finish d f None buf s) (\<lambda>s. Inr (0, s))"
    using assms hd by (auto simp: msg_receive_def receive_any_def receive_from_def Let_def idle_def
        waiting_on_def PROC_NUM_MAX_def IPC_TARGET_ANY_def)
  moreover have "\<exists>s'. recv_finish d f None buf s = Inr s' \<and>
      kmem s' = memcpy (kmem s) buf (p_msg ?F) sizeof_Message \<and>
      procmanager s' = upd_proc f (\<lambda>F. F\<lparr>p_msg := 0, p_sendto := IPC_TARGET_NONE,
           p_state := (p_state F AND NOT PROC_STATE_SENDING) OR PROC_STATE_READY\<rparr>)
        (upd_proc f (\<lambda>F. F\<lparr>queue_sending_next := None\<rparr>)
          (upd_proc d (\<lambda>R. R\<lparr>queue_sending := queue_sending_next ?F\<rparr>) (procmanager s)))"
    using assms(4,8,10) hd by (auto simp: recv_finish_def recv_unlink_def waiting_on_def)
  ultimately show ?thesis
    using assms tl by (auto simp: read_msg_memcpy sendq_def chain_upd idle_def waiting_on_def)
qed

text \<open>
  Receiving by name from a process that is second on the list delivers its message but
  leaves it on the list.
\<close>

theorem receive_second_stays_linked:
  assumes "idle (proc_table (procmanager s) d)" "pid (proc_table (procmanager s) d) = int d"
    and "sendq (procmanager s) d [x, y]" "x \<noteq> y" "x \<noteq> d" "y \<noteq> d" "y < PROC_NUM_MAX"
    and "pid (proc_table (procmanager s) x) = int x" "pid (proc_table (procmanager s) y) = int y"
    and "waiting_on (proc_table (procmanager s) y) (int d)" "buf \<noteq> 0"
  shows "\<exists>s'. msg_receive d (int y) buf s = Inr (0, s') \<and>
    read_msg (kmem s') buf = read_msg (kmem s) (p_msg (proc_table (procmanager s) y)) \<and>
    p_msg (proc_table (procmanager s') y) = 0 \<and> p_state (proc_table (procmanager s') y) = PROC_STATE_READY \<and>
    sendq (procmanager s') d [x, y] \<and> idle (proc_table (procmanager s') d)"
proof -
  let ?Y = "proc_table (procmanager s) y"
  have q: "queue_sending (proc_table (procmanager s) d) = Some x"
    "queue_sending_next (proc_table (procmanager s) x) = Some y" "queue_sending_next ?Y = None"
    using assms(3) by (auto simp: sendq_def)
  have "find_sender walk_fuel (procmanager s) (int y) (Some x) None y = Inr (y, Some x)"
    unfolding walk_fuel_Suc find_sender.simps using assms(4,8,9) q by simp
  then have "msg_receive d (int y) buf s = bindE (recv_finish d y (Some x) buf s) (\<lambda>s. Inr (0, s))"
    using assms q by (auto simp: msg_receive_def receive_from_def Let_def idle_def waiting_on_def
        PROC_NUM_MAX_def IPC_TARGET_ANY_def)
  then show ?thesis
    using assms q by (auto simp: recv_finish_def recv_unlink_def read_msg_memcpy sendq_def idle_def
        waiting_on_def Let_def)
qed

text \<open>
  A process that is first on the list of senders without a message, as the second sender is
  after it was received from by name and the first was taken off, makes the next
  receive from anyone stop the kernel with an assertion failure.
\<close>

theorem stale_sender_stops_kernel:
  assumes "sendq (procmanager s) d (y # ys)" "p_msg (proc_table (procmanager s) y) = 0"
    and "idle (proc_table (procmanager s) d)" "pid (proc_table (procmanager s) d) \<noteq> IPC_TARGET_ANY"
  shows "msg_receive d IPC_TARGET_ANY buf s = Inl AssertFail"
  using assms by (auto simp: msg_receive_def receive_any_def sendq_def idle_def)

section \<open>Witnesses\<close>

text \<open>
  Concrete tables: process 1 is running and idle, every other process is as the list gives it,
  and processes not on the list are idle.
\<close>

definition dproc :: "nat \<Rightarrow> u16 \<Rightarrow> u32 \<Rightarrow> int \<Rightarrow> int \<Rightarrow> nat option \<Rightarrow> nat option \<Rightarrow> Process" where
  "dproc n st msg rf sd q qn = blank_proc\<lparr>pid := int n, p_state := st, p_msg := msg, p_recvfrom := rf,
     p_sendto := sd, queue_sending := q, queue_sending_next := qn\<rparr>"

definition idle_proc :: "nat \<Rightarrow> nat option \<Rightarrow> nat option \<Rightarrow> Process" where
  "idle_proc n q qn = dproc n PROC_STATE_RUNNING 0 IPC_TARGET_NONE IPC_TARGET_NONE q qn"

definition sending_proc :: "nat \<Rightarrow> u32 \<Rightarrow> nat \<Rightarrow> nat option \<Rightarrow> Process" where
  "sending_proc n msg d qn = dproc n PROC_STATE_SENDING msg IPC_TARGET_NONE (int d) None qn"

definition demo_state :: "(nat \<rightharpoonup> Process) \<Rightarrow> kstate" where
  "demo_state f = boot_state\<lparr>procmanager := blank_pm\<lparr>
     proc_table := (\<lambda>i. case f i of Some P \<Rightarrow> P | None \<Rightarrow> idle_proc i None None),
     proc_running := 1, proc_max := PROC_NUM_MAX\<rparr>\<rparr>"

lemma demo_table [simp]:
  "proc_table (procmanager (demo_state f)) i = (case f i of Some P \<Rightarrow> P | None \<Rightarrow> idle_proc i None None)"
  by (simp add: demo_state_def)

lemmas demo_simps = idle_proc_def sending_proc_def dproc_def blank_proc_def idle_def waiting_on_def
  receiving_from_def sendq_def

theorem send_direct_delivers_witness:
  "\<exists>s'. msg_send 1 (int 2) 0x20005000 0 (demo_state [2 \<mapsto> dproc 2 PROC_STATE_RECEIVING 0x20006000 IPC_TARGET_ANY IPC_TARGET_NONE None None])
     = Inr (0, s') \<and> p_state (proc_table (procmanager s') 2) = PROC_STATE_READY"
  using send_direct_delivers [of 2 "demo_state [2 \<mapsto> dproc 2 PROC_STATE_RECEIVING 0x20006000 IPC_TARGET_ANY IPC_TARGET_NONE None None]" 1 "0x20005000" 0]
  by (auto simp: demo_simps proc_consts)

theorem send_nonblock_fails_witness:
  "msg_send 1 (int 2) 0x20005000 1 (demo_state Map.empty) = Inr (- 1, demo_state Map.empty)"
  by (rule send_nonblock_fails) (auto simp: demo_simps proc_consts)

theorem send_blocks_fifo_witness:
  "\<exists>s'. msg_send 1 (int 2) 0x20005000 0 (demo_state [2 \<mapsto> idle_proc 2 (Some 3) None, 3 \<mapsto> sending_proc 3 0x20007000 2 None])
     = Inr (0, s') \<and> sendq (procmanager s') 2 [3, 1]"
  using send_blocks_fifo [of 2 "demo_state [2 \<mapsto> idle_proc 2 (Some 3) None, 3 \<mapsto> sending_proc 3 0x20007000 2 None]"
      1 "0x20005000" "[3]"]
  by (auto simp: demo_simps proc_consts)

definition two_waiting :: kstate where
  "two_waiting = demo_state [2 \<mapsto> idle_proc 2 (Some 3) None, 3 \<mapsto> sending_proc 3 0x20007000 2 (Some 4),
     4 \<mapsto> sending_proc 4 0x20008000 2 None]"

definition three_waiting :: kstate where
  "three_waiting = demo_state [2 \<mapsto> idle_proc 2 (Some 3) None, 3 \<mapsto> sending_proc 3 0x20007000 2 (Some 4),
     4 \<mapsto> sending_proc 4 0x20008000 2 (Some 6), 6 \<mapsto> sending_proc 6 0x20009000 2 None]"

theorem third_sender_drops_others_witness:
  "sendq (procmanager three_waiting) 2 [3, 4, 6] \<and>
   (\<exists>s'. msg_send 1 (int 2) 0x20005000 0 three_waiting = Inr (0, s') \<and> sendq (procmanager s') 2 [3, 1] \<and>
     waiting_on (proc_table (procmanager s') 1) (int 2) \<and>
     (\<forall>z\<in>set [4, 6]. waiting_on (proc_table (procmanager s') z) (int 2)))"
proof
  show "sendq (procmanager three_waiting) 2 [3, 4, 6]" by (simp add: three_waiting_def demo_simps)
  show "\<exists>s'. msg_send 1 (int 2) 0x20005000 0 three_waiting = Inr (0, s') \<and> sendq (procmanager s') 2 [3, 1] \<and>
     waiting_on (proc_table (procmanager s') 1) (int 2) \<and>
     (\<forall>z\<in>set [4, 6]. waiting_on (proc_table (procmanager s') z) (int 2))"
    by (rule third_sender_drops_others [where x = 3])
      (simp_all add: three_waiting_def demo_simps proc_consts)
qed

theorem send_to_queued_process_diverges_witness:
  "\<exists>e. msg_send 1 (int 2) 0x20005000 0 (demo_state [2 \<mapsto> idle_proc 2 (Some 3) (Some 5),
     3 \<mapsto> sending_proc 3 0x20007000 2 None]) = Inl e"
  by (rule send_to_queued_process_diverges) (simp_all add: demo_simps proc_consts)

theorem receive_takes_first_witness:
  "\<exists>s'. msg_receive 2 IPC_TARGET_ANY 0x20005000 two_waiting = Inr (0, s') \<and> sendq (procmanager s') 2 [4] \<and>
     p_state (proc_table (procmanager s') 3) = PROC_STATE_READY"
  using receive_takes_first [of two_waiting 2 3 "[4]" "0x20005000" IPC_TARGET_ANY]
  by (auto simp: two_waiting_def demo_simps proc_consts)

theorem receive_second_stays_linked_witness:
  "\<exists>s'. msg_receive 2 (int 4) 0x20005000 two_waiting = Inr (0, s') \<and> sendq (procmanager s') 2 [3, 4] \<and>
     p_msg (proc_table (procmanager s') 4) = 0"
  using receive_second_stays_linked [of two_waiting 2 3 4 "0x20005000"]
  by (auto simp: two_waiting_def demo_simps proc_consts)

theorem stale_sender_stops_kernel_witness:
  "msg_receive 2 IPC_TARGET_ANY 0x20005000 (demo_state [2 \<mapsto> idle_proc 2 (Some 4) None]) = Inl AssertFail"
  by (rule stale_sender_stops_kernel [where y = 4 and ys = "[]"]) (simp_all add: demo_simps proc_consts)

end
