(* ===== verification/Trap.thy ===== *)
theory Trap
  imports Rendezvous
begin

text \<open>
  Traps: the system call handler of \<^verbatim>\<open>kernel/syscall.c\<close>, the interrupt service routine of
  \<^verbatim>\<open>kernel/isr.c\<close>, and the registration of the first processes in \<^verbatim>\<open>sdboot.c\<close>; then the
  reachable states of the kernel under any sequence of traps, and what is invariant there.
  Console output is not modelled.  The GPIO registers the routine writes are words of memory;
  the interrupt source read from the interrupt unit is a parameter.
\<close>

section \<open>Start-up of the process table\<close>

definition register_kproc :: "nat \<Rightarrow> string \<Rightarrow> u32 \<Rightarrow> u32 \<Rightarrow> ProcManager \<Rightarrow> ProcManager" where
  "register_kproc n nm pc sp pm = upd_proc n (\<lambda>P. P\<lparr>pid := int n, p_name := nm, p_pc := pc,
     p_regs := (p_regs P)\<lparr>reg_sp := sp\<rparr>, p_state := PROC_STATE_READY\<rparr>) pm"

definition prepare_processes :: "u32 \<Rightarrow> u32 \<Rightarrow> u32 \<Rightarrow> u32 \<Rightarrow> u32 \<Rightarrow> u32 \<Rightarrow> ProcManager \<Rightarrow> ProcManager" where
  "prepare_processes proc1 proc2 proc3 fs_proc_main proc_tty uarttty0 pm =
     (let pm = ProcManagerInit proc1 proc2 proc3 pm;
          pm = register_kproc KPROC_PID_FS ''KPROC_FS'' fs_proc_main 0x20100ffc pm;
          pm = register_kproc KPROC_PID_TTY0 ''KPROC_TTY0'' proc_tty 0x20104ffc pm
      in upd_proc KPROC_PID_TTY0 (\<lambda>P. P\<lparr>p_regs := (p_regs P)\<lparr>reg_a0 := 0, reg_a1 := uarttty0\<rparr>\<rparr>) pm)"

section \<open>The system call handler\<close>

definition SYS_ioctl :: u32 where "SYS_ioctl = 29"
definition SYS_openat :: u32 where "SYS_openat = 56"
definition SYS_close :: u32 where "SYS_close = 57"
definition SYS_readv :: u32 where "SYS_readv = 65"
definition SYS_writev :: u32 where "SYS_writev = 66"
definition OS_fs_resume :: u32 where "OS_fs_resume = 65534"
definition OS_justamsg :: u32 where "OS_justamsg = 65533"
definition OS_send_nonblk :: u32 where "OS_send_nonblk = 65532"

lemmas sys_consts = SYS_ioctl_def SYS_openat_def SYS_close_def SYS_readv_def SYS_writev_def
  OS_fs_resume_def OS_justamsg_def OS_send_nonblk_def

definition is_fs_call :: "u32 \<Rightarrow> bool" where
  "is_fs_call f \<longleftrightarrow> f \<in> {SYS_openat, SYS_close, SYS_ioctl, SYS_writev, SYS_readv}"

definition syscall_target :: "int \<Rightarrow> u32 \<Rightarrow> int" where
  "syscall_target src_dest func =
     (if src_dest = - 1 \<and> is_fs_call func then int KPROC_PID_FS else src_dest)"

definition syscall_handler :: "kstate \<Rightarrow> kfault + kstate" where
  "syscall_handler s =
     (let s = s\<lparr>mepc := mepc s + 4\<rparr>;
          sendorrecv = sint (load32 (kmem s) REGS_SAVE_ADDR);
          msg = load32 (kmem s) (REGS_SAVE_ADDR + 8);
          func = load32 (kmem s) msg;
          src_dest = syscall_target (sint (load32 (kmem s) (REGS_SAVE_ADDR + 4))) func in
      bindE (if src_dest \<noteq> - 1
             then (if func \<noteq> OS_send_nonblk then sendrec sendorrecv src_dest msg s
                   else sendrec_nonblock sendorrecv src_dest msg s)
             else Inr (- 1, s))
        (\<lambda>(status, s). proc_schedule s))"

section \<open>The interrupt service routine\<close>

definition isr_timer_i_handler :: "kstate \<Rightarrow> kfault + kstate" where
  "isr_timer_i_handler s =
     (let s = s\<lparr>ticks := ticks s + 1\<rparr> in
      if ticks s mod 5 = 0 then proc_schedule s else Inr s)"

text \<open>
  The UART, GPIO and PS/2 handlers only read device registers and print them.
\<close>

definition isr_external_i_handler :: "int \<Rightarrow> kstate \<Rightarrow> kfault + kstate" where
  "isr_external_i_handler irq_dev s =
     (if irq_dev = 2 then Inr s
      else if irq_dev = 5 then Inr s
      else if irq_dev = 6 then Inr s
      else Inl Panic)"

definition gpio_leds :: "kstate \<Rightarrow> kstate" where
  "gpio_leds s = s\<lparr>kmem :=
     store32 (store32 (kmem s) 0x92000024 (if ticks s mod 2 \<noteq> 0 then 8 else 0))
       0x92000020 (if ticks s mod 2 \<noteq> 0 then 0 else 8)\<rparr>"

definition interrupt_service_routine :: "int \<Rightarrow> kstate \<Rightarrow> kfault + kstate" where
  "interrupt_service_routine irq_dev s =
     (let s = gpio_leds s in
      if mcause s = 0x80000001 then Inl Panic
      else if mcause s = 0x80000007 then isr_timer_i_handler s
      else if mcause s = 0x8000000b then isr_external_i_handler irq_dev s
      else if mcause s = 0x00000002 then Inl Panic
      else if mcause s = 0x00000003 then Inl Panic
      else if mcause s = 0x0000000b then syscall_handler s
      else Inr s)"

section \<open>Invariance\<close>

lemma gpio_leds_simps [simp]:
  "procmanager (gpio_leds s) = procmanager s" "ticks (gpio_leds s) = ticks s"
  "mcause (gpio_leds s) = mcause s" "mepc (gpio_leds s) = mepc s"
  by (simp_all add: gpio_leds_def)

lemma proc_ok_switch_to:
  "proc_ok (proc_table (procmanager s) i) \<Longrightarrow> proc_ok (proc_table (procmanager (switch_to k s)) i)"
  by (cases "i = k") (simp_all add: proc_ok_def)

lemma proc_ok_switch_from:
  "proc_ok (proc_table (procmanager s) i) \<Longrightarrow> proc_ok (proc_table (procmanager (switch_from k s)) i)"
  by (cases "i = k"; cases "p_state (proc_table (procmanager s) k) = PROC_STATE_RUNNING")
    (simp_all add: proc_ok_def)

lemmas proc_ok_switch = proc_ok_switch_to proc_ok_switch_from

lemma schedule_kernel_inv:
  assumes inv: "ipc_inv (procmanager s)" and eq: "proc_schedule s = Inr s'"
  shows "kernel_inv (procmanager s')"
proof -
  note wf = ipc_invD(1) [OF inv]
  have ok: "sched_ok (procmanager s')"
    using schedule_sched_ok [OF ipc_invD(2) [OF inv] eq] .
  have run: "p_state (proc_table (procmanager s') (proc_running (procmanager s'))) = PROC_STATE_RUNNING"
    using schedule_total_wf [OF wf] eq by auto
  have "proc_ok (proc_table (procmanager s') i)" if "i < 64" for i
  proof (cases "do_start (procmanager s) = 0")
    case True
    with eq wf have "s' = switch_to (next_ready (procmanager s)) (switch_from (proc_running (procmanager s)) s)"
      by (simp add: schedule_eq)
    then show ?thesis
      using ipc_invD(4) [OF inv that] by (simp add: proc_ok_switch del: switch_to_simps switch_from_simps)
  next
    case False
    with eq have "s' = switch_to 1 (s\<lparr>procmanager := (procmanager s)\<lparr>do_start := 0\<rparr>\<rparr>)"
      by (simp add: schedule_start)
    then show ?thesis
      using ipc_invD(4) [OF inv that] by (simp add: proc_ok_switch del: switch_to_simps)
  qed
  with ok run show ?thesis by (simp add: kernel_inv_def ipc_inv_def proc_consts)
qed

section \<open>What a trap does\<close>

text \<open>Message passing leaves the CSRs, the choice of the running process and the start flag alone.\<close>

definition same_control :: "kstate \<Rightarrow> kstate \<Rightarrow> bool" where
  "same_control s s' \<longleftrightarrow> proc_running (procmanager s') = proc_running (procmanager s) \<and>
     do_start (procmanager s') = do_start (procmanager s) \<and> mepc s' = mepc s \<and> ticks s' = ticks s \<and>
     mcause s' = mcause s"

lemma same_control_refl [simp]: "same_control s s"
  by (simp add: same_control_def)

lemma same_control_pm:
  "proc_running pm = proc_running (procmanager s) \<Longrightarrow> do_start pm = do_start (procmanager s)
   \<Longrightarrow> same_control s (s\<lparr>procmanager := pm\<rparr>)"
  by (simp add: same_control_def)

lemma enqueue_sender_start: "enqueue_sender p d pm = Inr pm' \<Longrightarrow> do_start pm' = do_start pm"
  by (auto simp: enqueue_sender_def fault_simps split: option.splits)

lemma msg_send_control: "msg_send p d msg nb s = Inr (r, s') \<Longrightarrow> same_control s s'"
  by (auto simp: msg_send_def Let_def fault_simps send_direct_def send_block_def same_control_def
      split: if_splits dest: enqueue_sender_frame(4) enqueue_sender_start)

lemma recv_finish_control: "recv_finish r f prev msg s = Inr s' \<Longrightarrow> same_control s s'"
  by (auto simp: recv_finish_def recv_unlink_def fault_simps same_control_def split: if_splits option.splits)

lemma recv_block_control: "recv_block r from msg s = Inr s' \<Longrightarrow> same_control s s'"
  by (auto simp: recv_block_def Let_def fault_simps same_control_def)

lemma msg_receive_control: "msg_receive r src msg s = Inr (v, s') \<Longrightarrow> same_control s s'"
  by (auto simp: msg_receive_def receive_any_def receive_from_def Let_def fault_simps
      split: if_splits option.splits intro: recv_finish_control recv_block_control)

lemma same_control_stamp: "same_control (stamp_source c msg s) s' \<Longrightarrow> same_control s s'"
  by (simp add: same_control_def stamp_source_def)

lemma same_control_stamped [simp]: "same_control s (stamp_source c msg s)"
  by (simp add: same_control_def stamp_source_def)

lemma sendrec_control:
  "sendrec f d msg s = Inr (r, s') \<Longrightarrow> same_control s s'"
  "sendrec_nonblock f d msg s = Inr (r, s') \<Longrightarrow> same_control s s'"
  by (auto simp: sendrec_def sendrec_nonblock_def Let_def fault_simps same_control_stamp split: if_splits
      dest!: msg_send_control msg_receive_control)

lemma syscall_handler_cases:
  assumes "syscall_handler s = Inr t" "ipc_inv (procmanager s)"
  obtains s1 where "proc_schedule s1 = Inr t" "same_control (s\<lparr>mepc := mepc s + 4\<rparr>) s1" "ipc_inv (procmanager s1)"
proof -
  have pc: "ipc_inv (procmanager (s\<lparr>mepc := mepc s + 4\<rparr>))" using assms by simp
  obtain status s1 where s1: "proc_schedule s1 = Inr t" and
    or: "(\<exists>f d msg. sendrec f d msg (s\<lparr>mepc := mepc s + 4\<rparr>) = Inr (status, s1)) \<or>
      (\<exists>f d msg. sendrec_nonblock f d msg (s\<lparr>mepc := mepc s + 4\<rparr>) = Inr (status, s1)) \<or>
      s1 = s\<lparr>mepc := mepc s + 4\<rparr>"
    using assms(1) by (auto simp: syscall_handler_def Let_def bindE_Inr_iff split: if_splits) blast+
  from or have "ipc_inv (procmanager s1)" using pc sendrec_inv [OF pc] by blast
  moreover from or have "same_control (s\<lparr>mepc := mepc s + 4\<rparr>) s1"
    by (auto intro: sendrec_control)
  ultimately show thesis using s1 that by blast
qed

lemma syscall_kernel_inv:
  assumes "ipc_inv (procmanager s)" "syscall_handler s = Inr t"
  shows "kernel_inv (procmanager t)"
  using assms(2,1) by (rule syscall_handler_cases) (rule schedule_kernel_inv)

lemma isr_kernel_inv:
  assumes "kernel_inv (procmanager s)" "interrupt_service_routine irq s = Inr t"
  shows "kernel_inv (procmanager t)"
proof -
  have inv: "ipc_inv (procmanager (gpio_leds s))" "ipc_inv (procmanager ((gpio_leds s)\<lparr>ticks := n\<rparr>))" for n
    using assms(1) by (simp_all add: kernel_inv_def)
  show ?thesis
    using assms syscall_kernel_inv [OF inv(1)] schedule_kernel_inv [OF inv(2)]
    by (auto simp: interrupt_service_routine_def Let_def isr_timer_i_handler_def isr_external_i_handler_def
        split: if_splits)
qed

lemma init_kernel_inv: "kernel_inv (ProcManagerInit e1 e2 e3 pm)"
proof -
  have "proc_ok (proc_table (ProcManagerInit e1 e2 e3 pm) i)" if "i < 64" for i
    using that by (auto simp: init_table start_proc_def clear_proc_def proc_ok_def state_consts)
  then show ?thesis
    by (simp add: kernel_inv_def ipc_inv_def init_sched_ok init_table start_proc_def proc_consts)
qed

lemma kernel_inv_upd_ready:
  assumes "kernel_inv pm" "n \<noteq> proc_running pm" "pid (f (proc_table pm n)) = int n"
    and "p_state (f (proc_table pm n)) = PROC_STATE_READY"
    and "queue_sending (f (proc_table pm n)) = queue_sending (proc_table pm n) \<or> queue_sending (f (proc_table pm n)) = None"
    and "queue_sending_next (f (proc_table pm n)) = queue_sending_next (proc_table pm n) \<or> queue_sending_next (f (proc_table pm n)) = None"
  shows "kernel_inv (upd_proc n f pm)"
  using assms by (auto simp: kernel_inv_def ipc_inv_def sched_ok_def pm_wf_def proc_ok_def)

lemma prepare_kernel_inv: "kernel_inv (prepare_processes e1 e2 e3 fs tty u pm)"
  unfolding prepare_processes_def Let_def register_kproc_def
  by (intro kernel_inv_upd_ready init_kernel_inv) (simp_all add: proc_consts)

section \<open>Reachable kernel states\<close>

text \<open>
  Between traps user processes and daemons run.  They may change memory and the CSRs (the
  hardware sets \<^verbatim>\<open>mcause\<close> and \<^verbatim>\<open>mepc\<close> on a trap) and, as the file system daemon does, the open-file
  tables; there is no memory protection, so that they leave the rest of the process manager
  alone is an assumption of this step relation.
\<close>

definition same_but_files :: "ProcManager \<Rightarrow> ProcManager \<Rightarrow> bool" where
  "same_but_files pm pm' \<longleftrightarrow> proc_running pm' = proc_running pm \<and> proc_max pm' = proc_max pm \<and>
     do_start pm' = do_start pm \<and>
     (\<forall>i. proc_table pm' i = (proc_table pm i)\<lparr>fdmap := fdmap (proc_table pm' i)\<rparr>)"

inductive kstep :: "kstate \<Rightarrow> kstate \<Rightarrow> bool" where
  user: "same_but_files (procmanager s) (procmanager t) \<Longrightarrow> ticks t = ticks s \<Longrightarrow> kstep s t"
| trap: "interrupt_service_routine irq s = Inr t \<Longrightarrow> kstep s t"

inductive_cases kstepE: "kstep s t"

inductive kreachable :: "kstate \<Rightarrow> bool" where
  boot: "procmanager s = prepare_processes e1 e2 e3 fs tty u pm \<Longrightarrow> kreachable s"
| step: "kreachable s \<Longrightarrow> kstep s t \<Longrightarrow> kreachable t"

lemma same_but_files_inv:
  assumes "kernel_inv pm" "same_but_files pm pm'"
  shows "kernel_inv pm'"
proof -
  have g: "pid P = pid Q \<and> p_state P = p_state Q \<and> proc_ok P = proc_ok Q" if "P = Q\<lparr>fdmap := fm\<rparr>" for P Q fm
    using that by (simp add: proc_ok_def)
  from assms(2) have "proc_table pm' i = (proc_table pm i)\<lparr>fdmap := fdmap (proc_table pm' i)\<rparr>" for i
    unfolding same_but_files_def by blast
  note f = g [OF this]
  show ?thesis
    using assms by (simp add: kernel_inv_def ipc_inv_def sched_ok_def pm_wf_def f same_but_files_def)
qed

text \<open>
  C2: Every trap that completes preserves the kernel invariant: pids match their slots, exactly
  the current process is in state RUNNING, and every process blocked in a send or a receive has
  a message buffer and a partner.
\<close>

theorem trap_preserves_kernel_inv:
  assumes "kernel_inv (procmanager s)" "interrupt_service_routine irq s = Inr t"
  shows "kernel_inv (procmanager t)"
  by (rule isr_kernel_inv [OF assms])

text \<open>
  C17: In every state the kernel reaches from \<^verbatim>\<open>prepare_processes\<close>, by any sequence of interrupts,
  system calls and user computation, the kernel invariant holds.
\<close>

theorem reachable_kernel_inv:
  assumes "kreachable s"
  shows "kernel_inv (procmanager s)"
  using assms
proof (induction rule: kreachable.induct)
  case (boot s)
  then show ?case by (simp add: prepare_kernel_inv)
next
  case (step s t)
  from step.hyps(2) show ?case
    by (rule kstepE) (use step.IH same_but_files_inv isr_kernel_inv in blast)+
qed

text \<open>
  A system call that completes saves, as the pc its caller resumes at, the address of the
  instruction after the \<^verbatim>\<open>ecall\<close>, whatever the call did and whichever process runs next.
\<close>

theorem ecall_saved_pc:
  assumes "kernel_inv (procmanager s)" "do_start (procmanager s) = 0"
    and "mcause s = 0xb" "interrupt_service_routine irq s = Inr t"
  shows "p_pc (proc_table (procmanager t) (proc_running (procmanager s))) = mepc s + 4"
proof -
  have "syscall_handler (gpio_leds s) = Inr t"
    using assms(3,4) by (simp add: interrupt_service_routine_def Let_def)
  moreover have "ipc_inv (procmanager (gpio_leds s))" using assms(1) by (simp add: kernel_inv_def)
  ultimately obtain s1 where s1: "proc_schedule s1 = Inr t"
    "same_control ((gpio_leds s)\<lparr>mepc := mepc (gpio_leds s) + 4\<rparr>) s1" "ipc_inv (procmanager s1)"
    by (rule syscall_handler_cases)
  then have c: "proc_running (procmanager s1) = proc_running (procmanager s)"
    "do_start (procmanager s1) = 0" "mepc s1 = mepc s + 4"
    using assms(2) by (simp_all add: same_control_def)
  from s1(1) have "t = switch_to (next_ready (procmanager s1)) (switch_from (proc_running (procmanager s1)) s1)"
    using schedule_eq [OF ipc_invD(1) [OF s1(3)] c(2)] by simp
  with c show ?thesis by simp
qed

section \<open>Preemption\<close>

definition timer_trap :: "kstate \<Rightarrow> kfault + kstate" where
  "timer_trap s = interrupt_service_routine 0 (s\<lparr>mcause := 0x80000007\<rparr>)"

primrec timer_traps :: "nat \<Rightarrow> kstate \<Rightarrow> kfault + kstate" where
  "timer_traps 0 s = Inr s"
| "timer_traps (Suc n) s = bindE (timer_trap s) (timer_traps n)"

lemma timer_trap_eq:
  "timer_trap s = (let s' = (gpio_leds (s\<lparr>mcause := 0x80000007\<rparr>))\<lparr>ticks := ticks s + 1\<rparr> in
     if (ticks s + 1) mod 5 = 0 then proc_schedule s' else Inr s')"
  by (simp add: timer_trap_def interrupt_service_routine_def isr_timer_i_handler_def Let_def)

lemma tick_multiple_of_5:
  fixes w :: u32
  obtains k :: nat where "1 \<le> k" "k \<le> 5" "(w + of_nat k) mod 5 = 0"
proof (cases "unat w + 5 < 2 ^ 32")
  case True
  define k where "k = 5 - unat w mod 5"
  have k: "k \<in> {1..5}" by (auto simp: k_def)
  have "unat (of_nat k :: u32) = k" using k by (simp add: unat_of_nat)
  then have u: "unat (w + of_nat k) = unat w + k"
    using True k by (subst unat_add_lem [THEN iffD1]) simp_all
  have "(unat w + k) mod 5 = 0" unfolding k_def by presburger
  with u have "unat ((w + of_nat k) mod 5) = 0" by (simp add: unat_mod_distrib)
  then have "(w + of_nat k) mod 5 = 0" by (simp only: unat_eq_0)
  with k show ?thesis using that [of k] by simp
next
  case False
  then have "1 \<le> 2 ^ 32 - unat w" "2 ^ 32 - unat w \<le> 5" using unat_lt32 [of w] by auto
  moreover have "w + of_nat (2 ^ 32 - unat w) = 0"
    using unat_lt32 [of w] by (simp add: of_nat_diff)
  ultimately show ?thesis using that [of "2 ^ 32 - unat w"] by simp
qed

lemma timer_traps_reach:
  assumes "kernel_inv (procmanager s)" "do_start (procmanager s) = 0"
    and "(ticks s + of_nat k) mod 5 = 0" "1 \<le> k"
  shows "\<exists>n s'. 1 \<le> n \<and> n \<le> k \<and> timer_traps n s = Inr s' \<and> kernel_inv (procmanager s') \<and>
    proc_running (procmanager s') = next_ready (procmanager s)"
  using assms
proof (induction k arbitrary: s)
  case (Suc k)
  let ?s1 = "(gpio_leds (s\<lparr>mcause := 0x80000007\<rparr>))\<lparr>ticks := ticks s + 1\<rparr>"
  have pm: "procmanager ?s1 = procmanager s" by simp
  show ?case
  proof (cases "(ticks s + 1) mod 5 = 0")
    case True
    have wf: "pm_wf (procmanager ?s1)" using Suc.prems(1) by (simp add: kernel_inv_def ipc_invD)
    then obtain t where t: "proc_schedule ?s1 = Inr t" using schedule_total_wf by blast
    have "kernel_inv (procmanager t)"
      using schedule_kernel_inv [OF _ t] Suc.prems(1) by (simp add: kernel_inv_def)
    moreover have "proc_running (procmanager t) = next_ready (procmanager s)"
      using schedule_running(1) [OF wf _ t] Suc.prems(2) by simp
    ultimately show ?thesis using t True
      by (intro exI [of _ 1] exI [of _ t]) (simp add: timer_trap_eq Let_def)
  next
    case False
    then have "1 \<le> k" using Suc.prems(3) by (cases k) auto
    then obtain n s' where "1 \<le> n" "n \<le> k" "timer_traps n ?s1 = Inr s'" "kernel_inv (procmanager s')"
      "proc_running (procmanager s') = next_ready (procmanager s)"
      using Suc.IH [of ?s1] Suc.prems by (auto simp: ac_simps)
    with False show ?thesis
      by (intro exI [of _ "Suc n"] exI [of _ s']) (simp add: timer_trap_eq Let_def)
  qed
qed simp

text \<open>
  C35: The timer preempts: in a state that satisfies the kernel invariant, within five timer
  interrupts with nothing in between, also when the tick counter wraps round, the running
  process gives way to the next ready one.
\<close>

theorem timer_preempts:
  assumes "kernel_inv (procmanager s)" "do_start (procmanager s) = 0"
  shows "\<exists>n s'. 1 \<le> n \<and> n \<le> 5 \<and> timer_traps n s = Inr s' \<and> kernel_inv (procmanager s') \<and>
    proc_running (procmanager s') = next_ready (procmanager s)"
proof -
  obtain k where k: "1 \<le> k" "k \<le> 5" "(ticks s + of_nat k) mod 5 = 0"
    by (rule tick_multiple_of_5)
  obtain n s' where "1 \<le> n" "n \<le> k" "timer_traps n s = Inr s'" "kernel_inv (procmanager s')"
    "proc_running (procmanager s') = next_ready (procmanager s)"
    using timer_traps_reach [OF assms k(3,1)] by blast
  with k(2) show ?thesis by (intro exI [of _ n] exI [of _ s']) simp
qed

section \<open>System calls reach the file system daemon\<close>

lemma same_flags_ready:
  "p_state P \<in> {PROC_STATE_READY, PROC_STATE_RUNNING} \<Longrightarrow>
   (if b then PROC_STATE_RUNNING else if p_state P = PROC_STATE_RUNNING then PROC_STATE_READY else p_state P)
     \<in> {PROC_STATE_READY, PROC_STATE_RUNNING}"
  by auto

text \<open>
  C18: A file system call (a send with target -1 and one of the five file functions) made while
  the file system daemon waits for a request hands the daemon the caller's message, stamped with
  the caller's pid whatever the caller wrote there, and leaves the daemon ready or running.
\<close>

theorem fs_call_delivered:
  assumes "kernel_inv (procmanager s)" "do_start (procmanager s) = 0"
    and "proc_running (procmanager s) = p" "p \<noteq> KPROC_PID_FS"
    and "pid (proc_table (procmanager s) KPROC_PID_FS) = int KPROC_PID_FS"
    and "receiving_from (proc_table (procmanager s) KPROC_PID_FS) (int p)"
    and "load_words (kmem s) REGS_SAVE_ADDR 3 = [74, - 1, msg]" "is_fs_call (load32 (kmem s) msg)"
    and "disjnt_rng (p_msg (proc_table (procmanager s) KPROC_PID_FS)) sizeof_Message REGS_SAVE_ADDR 124"
  shows "\<exists>t. syscall_handler s = Inr t \<and>
    read_msg (kmem t) (p_msg (proc_table (procmanager s) KPROC_PID_FS)) =
      (read_msg (kmem s) msg)\<lparr>msg_source := of_nat p\<rparr> \<and>
    p_msg (proc_table (procmanager t) KPROC_PID_FS) = 0 \<and>
    p_state (proc_table (procmanager t) KPROC_PID_FS) \<in> {PROC_STATE_READY, PROC_STATE_RUNNING}"
proof -
  let ?buf = "p_msg (proc_table (procmanager s) KPROC_PID_FS)"
  let ?s0 = "stamp_source (int p) msg (s\<lparr>mepc := mepc s + 4\<rparr>)"
  have regs: "load32 (kmem s) REGS_SAVE_ADDR = 74" "load32 (kmem s) (REGS_SAVE_ADDR + 4) = - 1"
    "load32 (kmem s) (REGS_SAVE_ADDR + 8) = msg"
    using assms(7) by (simp_all add: load_words_def numeral_eq_Suc)
  have inv: "ipc_inv (procmanager s)" using assms(1) by (simp add: kernel_inv_def)
  have p: "p < 64" "pid (proc_table (procmanager s) p) = int p"
    using ipc_invD(1) [OF inv] assms(3) by (auto simp: pm_wf_def proc_consts)
  let ?s1 = "send_direct KPROC_PID_FS msg ?s0"
  have nb: "load32 (kmem s) msg \<noteq> OS_send_nonblk" using assms(8) by (auto simp: is_fs_call_def sys_consts)
  have "msg_send p 5 msg 0 ?s0 = Inr (0, ?s1)"
    using p assms(3-6) pid2proc_small [of 5]
    by (auto simp: msg_send_def receiving_from_def proc_consts)
  then have "sendrec 74 5 msg (s\<lparr>mepc := mepc s + 4\<rparr>) = Inr (0, ?s1)"
    using p assms(3,4) by (simp add: sendrec_def proc_consts)
  then have sys: "syscall_handler s = proc_schedule ?s1"
    using assms(8) regs nb
    by (simp add: syscall_handler_def syscall_target_def Let_def) (simp add: proc_consts)
  have inv1: "ipc_inv (procmanager ?s1)" using inv by (simp add: send_direct_inv)
  obtain t where t: "proc_schedule ?s1 = Inr t" using schedule_total_wf [OF ipc_invD(1) [OF inv1]] by blast
  have "do_start (procmanager ?s1) = 0" using assms(2) by (simp add: send_direct_def)
  then have t': "t = switch_to (next_ready (procmanager ?s1)) (switch_from (proc_running (procmanager ?s1)) ?s1)"
    using schedule_eq [OF ipc_invD(1) [OF inv1]] t by simp
  have run: "proc_running (procmanager ?s1) = p" using assms(3) by (simp add: send_direct_def)
  have st1: "p_state (proc_table (procmanager ?s1) KPROC_PID_FS) = PROC_STATE_READY"
    "p_msg (proc_table (procmanager ?s1) KPROC_PID_FS) = 0"
    using assms(6) by (simp_all add: send_direct_def receiving_from_def)
  have "kmem ?s1 = memcpy (store32 (kmem s) (msg + 4) (of_nat p)) ?buf msg sizeof_Message"
    by (simp add: send_direct_def stamp_source_def)
  then have "read_msg (kmem ?s1) ?buf = (read_msg (kmem s) msg)\<lparr>msg_source := of_nat p\<rparr>"
    by (simp add: read_msg_memcpy read_msg_set_source)
  moreover have "read_msg (kmem t) ?buf = read_msg (kmem ?s1) ?buf"
    using assms(9) unfolding t' by (simp add: stackframe_load_def read_msg_store_words_out)
  ultimately show ?thesis
    using sys t st1 assms(4) run unfolding t' by (intro exI [of _ t]) (simp add: t')
qed

section \<open>Witnesses\<close>

definition booted :: kstate where
  "booted = boot_state\<lparr>procmanager := prepare_processes 0x20001000 0x20002000 0x20003000 0x20010000 0x20020000
     0x93000000 blank_pm, mcause := 0x80000007, ticks := 4\<rparr>"

lemma booted_inv: "kernel_inv (procmanager booted)"
  by (simp add: booted_def prepare_kernel_inv)

lemma booted_timer: "\<exists>t. interrupt_service_routine 0 booted = Inr t"
proof -
  let ?s = "(gpio_leds booted)\<lparr>ticks := 5\<rparr>"
  have "pm_wf (procmanager ?s)" using booted_inv by (simp add: kernel_inv_def ipc_invD)
  then obtain t where "proc_schedule ?s = Inr t" using schedule_total_wf by blast
  then show ?thesis
    by (simp add: interrupt_service_routine_def isr_timer_i_handler_def Let_def) (simp add: booted_def)
qed

theorem trap_preserves_kernel_inv_witness:
  "\<exists>t. interrupt_service_routine 0 booted = Inr t \<and> kernel_inv (procmanager t)"
  using booted_timer trap_preserves_kernel_inv [OF booted_inv] by blast

theorem reachable_kernel_inv_witness:
  "\<exists>t. kreachable t \<and> kstep booted t \<and> kernel_inv (procmanager t)"
proof -
  obtain t where t: "kstep booted t" using booted_timer kstep.trap by blast
  have "kreachable booted" by (rule kreachable.boot) (simp add: booted_def)
  then have "kreachable t" using t by (rule kreachable.step)
  with t reachable_kernel_inv show ?thesis by blast
qed

definition table_of :: "(nat \<rightharpoonup> Process) \<Rightarrow> ProcManager" where
  "table_of f = blank_pm\<lparr>proc_table := (\<lambda>i. case f i of Some P \<Rightarrow> P | None \<Rightarrow> blank_proc\<lparr>pid := - 1,
     p_state := PROC_STATE_UNDEF\<rparr>), proc_running := 1, proc_max := PROC_NUM_MAX\<rparr>"

definition call_state :: kstate where
  "call_state = boot_state\<lparr>mcause := 0xb, mepc := 0x20001000,
     procmanager := table_of [1 \<mapsto> idle_proc 1 None None,
       5 \<mapsto> dproc 5 PROC_STATE_RECEIVING 0x20006000 IPC_TARGET_ANY IPC_TARGET_NONE None None],
     kmem := store32 (store_words (\<lambda>_. 0) REGS_SAVE_ADDR [74, - 1, 0x20005000]) 0x20005000 56\<rparr>"

lemma call_state_simps:
  "proc_table (procmanager call_state) i = (if i = 1 then idle_proc 1 None None else if i = 5 then
     dproc 5 PROC_STATE_RECEIVING 0x20006000 IPC_TARGET_ANY IPC_TARGET_NONE None None
     else blank_proc\<lparr>pid := - 1, p_state := PROC_STATE_UNDEF\<rparr>)"
  "proc_running (procmanager call_state) = 1" "proc_max (procmanager call_state) = 64"
  "do_start (procmanager call_state) = 0"
  "mcause call_state = 0xb" "mepc call_state = 0x20001000"
  by (simp_all add: call_state_def table_of_def blank_pm_def proc_consts)

lemma call_state_inv: "kernel_inv (procmanager call_state)"
  by (simp add: kernel_inv_def ipc_inv_def sched_ok_def pm_wf_def proc_ok_def call_state_simps demo_simps
      proc_consts state_consts)

lemma call_state_mem:
  "load_words (kmem call_state) REGS_SAVE_ADDR 3 = [74, - 1, 0x20005000]"
  "load32 (kmem call_state) 0x20005000 = 56"
  by (simp_all add: call_state_def load_words_def numeral_eq_Suc REGS_SAVE_ADDR_def)
    (simp_all add: load32_store32_out disjnt_rng_def load32_store32_same)

theorem fs_call_delivered_witness:
  "\<exists>t. syscall_handler call_state = Inr t \<and>
     read_msg (kmem t) 0x20006000 = (read_msg (kmem call_state) 0x20005000)\<lparr>msg_source := 1\<rparr>"
  using fs_call_delivered [OF call_state_inv, of 1 "0x20005000"] call_state_mem
  by (auto simp: call_state_simps demo_simps proc_consts is_fs_call_def sys_consts sizeof_Message_def
      disjnt_rng_def REGS_SAVE_ADDR_def)

text \<open>The same state with zeroed registers: the call is neither a send nor a receive.\<close>

definition null_call :: kstate where
  "null_call = call_state\<lparr>kmem := (\<lambda>_. 0)\<rparr>"

lemma null_call_returns: "\<exists>t. interrupt_service_routine 0 null_call = Inr t"
proof -
  let ?s = "(gpio_leds null_call)\<lparr>mepc := 0x20001004\<rparr>"
  have l: "load32 (kmem (gpio_leds null_call)) a = 0" if "a \<in> {REGS_SAVE_ADDR, REGS_SAVE_ADDR + 4, REGS_SAVE_ADDR + 8, 0}" for a
    using that by (auto simp: gpio_leds_def null_call_def REGS_SAVE_ADDR_def load32_store32_out disjnt_rng_def)
      (simp_all add: load32_def)
  have inv: "ipc_inv (procmanager ?s)"
    using call_state_inv by (simp add: kernel_inv_def null_call_def)
  have "sendrec 0 0 0 ?s = Inr (- 1, stamp_source 1 0 ?s)"
    using pid2proc_small [of 1]
    by (simp add: sendrec_def null_call_def call_state_simps proc_consts demo_simps)
  moreover have "interrupt_service_routine 0 null_call = bindE (sendrec 0 0 0 ?s) (\<lambda>(status, s). proc_schedule s)"
    using l by (simp add: interrupt_service_routine_def syscall_handler_def Let_def syscall_target_def sys_consts)
      (simp add: null_call_def call_state_simps)
  moreover obtain t where "proc_schedule (stamp_source 1 0 ?s) = Inr t"
    using schedule_total_wf [of "stamp_source 1 0 ?s"] ipc_invD(1) [OF inv] by auto
  ultimately show ?thesis by simp
qed

theorem ecall_saved_pc_witness:
  "\<exists>t. interrupt_service_routine 0 null_call = Inr t \<and> p_pc (proc_table (procmanager t) 1) = 0x20001004"
proof -
  obtain t where t: "interrupt_service_routine 0 null_call = Inr t" using null_call_returns by blast
  have "p_pc (proc_table (procmanager t) (proc_running (procmanager null_call))) = mepc null_call + 4"
    by (rule ecall_saved_pc [OF _ _ _ t]) (simp_all add: null_call_def call_state_inv call_state_simps)
  with t show ?thesis by (simp add: null_call_def call_state_simps)
qed

lemma run_1_inv: "kernel_inv (procmanager (run_state 1))"
proof -
  have "ipc_inv (procmanager (run_state 0))"
    using init_kernel_inv by (simp add: run_state_0 boot_state_def kernel_inv_def)
  then show ?thesis using schedule_kernel_inv run_state_Suc [of 0] by auto
qed

theorem timer_preempts_witness:
  "\<exists>n s'. 1 \<le> n \<and> n \<le> 5 \<and> timer_traps n (run_state 1) = Inr s' \<and> proc_running (procmanager s') = 2"
  using timer_preempts [OF run_1_inv] run_state_1 three_procs_next [of 1 "procmanager (run_state 1)"] by auto

end
