(* ===== verification/Blk.thy ===== *)
theory Blk
  imports Prelude
begin

text \<open>
  The block device layer, \<^verbatim>\<open>kernel/blk.h\<close> and \<^verbatim>\<open>kernel/blk.c\<close>.  A device is a state and the
  table of function pointers of \<^verbatim>\<open>Blk\<close>; the private data behind \<^verbatim>\<open>obj\<close> is a type parameter.
  The 512 byte cache is read a word at a time through \<open>op_cache\<close>: the pointer is volatile, so a
  read may let the device make progress.  The locale \<open>block_device\<close> is the contract under which
  a byte range read through the layer is the byte range of the disk.
\<close>

section \<open>Devices\<close>

record 'o Blk =
  blk_sector :: u32
  blk_obtained :: int
  blk_obj :: 'o

record 'o BlkOps =
  op_obtain :: "'o Blk \<Rightarrow> int \<times> 'o Blk"
  op_release :: "'o Blk \<Rightarrow> int \<times> 'o Blk"
  op_ioctl :: "int \<Rightarrow> u32 \<Rightarrow> 'o Blk \<Rightarrow> int \<times> 'o Blk"
  op_load :: "'o Blk \<Rightarrow> int \<times> 'o Blk"
  op_writeback :: "'o Blk \<Rightarrow> int \<times> 'o Blk"
  op_isready :: "'o Blk \<Rightarrow> int \<times> 'o Blk"
  op_isdirty :: "'o Blk \<Rightarrow> int \<times> 'o Blk"
  op_cache :: "nat \<Rightarrow> 'o Blk \<Rightarrow> u32 \<times> 'o Blk"

section \<open>Reading a byte range\<close>

text \<open>The inner loop: bytes \<open>byte\<close> to \<open>byte_end - 1\<close> of the cache.\<close>

function copy_bytes :: "'o BlkOps \<Rightarrow> nat \<Rightarrow> nat \<Rightarrow> 'o Blk \<Rightarrow> u8 list \<times> 'o Blk" where
  "copy_bytes ops byte byte_end blk =
     (if byte < byte_end
      then let (w, blk) = op_cache ops (byte div 4) blk;
               (bs, blk) = copy_bytes ops (Suc byte) byte_end blk
           in (ucast (signed_drop_bit ((byte mod 4) * 8) w) # bs, blk)
      else ([], blk))"
  by pat_completeness auto
termination by (relation "measure (\<lambda>(ops, b, e, blk). e - b)") auto

declare copy_bytes.simps [simp del]

text \<open>The outer loop over the sectors, and the whole read; sector numbers are 32-bit.\<close>

function copy_sectors :: "'o BlkOps \<Rightarrow> nat \<Rightarrow> nat \<Rightarrow> nat \<Rightarrow> nat \<Rightarrow> nat \<Rightarrow> 'o Blk \<Rightarrow> u8 list \<times> 'o Blk" where
  "copy_sectors ops sector_start sector_end bytes_start bytes_end sec blk =
     (if sec \<le> sector_end
      then let (_, blk) = op_ioctl ops 0 (of_nat sec) blk;
               (_, blk) = op_load ops blk;
               curr_bytes_start = (if sec = sector_start then bytes_start else 0);
               curr_bytes_end = (if sec = sector_end then bytes_end else 0x200);
               (bs, blk) = copy_bytes ops curr_bytes_start curr_bytes_end blk;
               (bs', blk) = copy_sectors ops sector_start sector_end bytes_start bytes_end (Suc sec) blk
           in (bs @ bs', blk)
      else ([], blk))"
  by pat_completeness auto
termination by (relation "measure (\<lambda>(ops, s, e, bs, be, sec, blk). Suc e - sec)") auto

declare copy_sectors.simps [simp del]

lemma copy_sectors_done: "e < sec \<Longrightarrow> copy_sectors ops s e bs be sec b = ([], b)"
  by (subst copy_sectors.simps) simp

definition blk_seek_and_read :: "'o BlkOps \<Rightarrow> u32 \<Rightarrow> u32 \<Rightarrow> 'o Blk \<Rightarrow> int \<times> u8 list \<times> 'o Blk" where
  "blk_seek_and_read ops seek bytes blk =
     (if blk_obtained blk = 0 then (- 1, [], blk)
      else let sector_start = unat (seek div 0x200);
               sector_end = unat ((seek + bytes) div 0x200);
               bytes_start = unat (seek mod 0x200);
               bytes_end = unat ((seek + bytes) mod 0x200);
               (dirty, blk) = op_isdirty ops blk;
               blk = (if dirty \<noteq> 0 then snd (op_writeback ops blk) else blk);
               (bs, blk) = copy_sectors ops sector_start sector_end bytes_start bytes_end sector_start blk
           in (int (length bs), bs, blk))"

section \<open>Disk contents\<close>

definition disk_slice :: "(nat \<Rightarrow> u8) \<Rightarrow> nat \<Rightarrow> nat \<Rightarrow> u8 list" where
  "disk_slice d a n = map d [a..<a + n]"

definition le_word :: "(nat \<Rightarrow> u8) \<Rightarrow> nat \<Rightarrow> u32" where
  "le_word d a = ucast (d a) OR push_bit 8 (ucast (d (a + 1))) OR
     push_bit 16 (ucast (d (a + 2))) OR push_bit 24 (ucast (d (a + 3)))"

lemma length_disk_slice [simp]: "length (disk_slice d a n) = n"
  by (simp add: disk_slice_def)

lemma disk_slice_append: "disk_slice d a n @ disk_slice d (a + n) k = disk_slice d a (n + k)"
  by (simp add: disk_slice_def) (metis add.assoc le_add1 map_append upt_add_eq_append)

lemma disk_slice_split: "a + n = b \<Longrightarrow> n + k = l \<Longrightarrow> disk_slice d a n @ disk_slice d b k = disk_slice d a l"
  using disk_slice_append by blast

lemma sector_arith:
  fixes c sec e be :: nat
  assumes "c \<le> 0x200" "sec < e"
  shows "0x200 * sec + c + (0x200 - c) = 0x200 * Suc sec"
    and "(0x200 - c) + (0x200 * e + be - 0x200 * Suc sec) = 0x200 * e + be - (0x200 * sec + c)"
proof -
  show "0x200 * sec + c + (0x200 - c) = 0x200 * Suc sec" using assms(1) by simp
  obtain k where "e = Suc sec + k" using assms(2) by (metis Suc_leI le_Suc_ex)
  then show "(0x200 - c) + (0x200 * e + be - 0x200 * Suc sec) = 0x200 * e + be - (0x200 * sec + c)"
    using assms(1) by simp
qed

lemma byte_of_word:
  "k < 4 \<Longrightarrow> (ucast (signed_drop_bit (k * 8) (le_word d a)) :: u8) = d (a + k)"
proof -
  assume "k < 4"
  then consider "k = 0" | "k = 1" | "k = 2" | "k = 3" by linarith
  then show ?thesis
  proof cases
    case 1
    then show ?thesis by (intro bit_word_eqI) (auto simp: le_word_def bit_simps dest: bit_imp_le_length)
  next
    case 2
    then show ?thesis by (intro bit_word_eqI) (auto simp: le_word_def bit_simps dest: bit_imp_le_length)
  next
    case 3
    then show ?thesis by (intro bit_word_eqI) (auto simp: le_word_def bit_simps dest: bit_imp_le_length)
  next
    case 4
    then show ?thesis by (intro bit_word_eqI) (auto simp: le_word_def bit_simps dest: bit_imp_le_length)
  qed
qed

text \<open>A byte count that is negative in two's complement, as a subtraction can leave it, copies nothing.\<close>

lemma read_negative:
  assumes "unat d \<le> unat a"
  shows "fst (snd (blk_seek_and_read ops a (- d) b)) = []"
proof -
  have le: "a - d \<le> a" using assms by (simp add: word_le_nat_alt unat_sub word_le_nat_alt)
  then have n: "unat (a - d) \<le> unat a" by (simp add: word_le_nat_alt)
  then have s: "unat (a - d) div 0x200 \<le> unat a div 0x200" by (rule div_le_mono)
  have m: "unat (a - d) mod 0x200 \<le> unat a mod 0x200" if "unat (a - d) div 0x200 = unat a div 0x200"
    using n that by (metis add_le_cancel_left div_mult_mod_eq)
  have nil: "copy_bytes ops i e b = ([], b)" if "e \<le> i" for i e b
    using that by (subst copy_bytes.simps) simp
  have "fst (copy_sectors ops (unat a div 0x200) (unat (a - d) div 0x200) (unat a mod 0x200)
      (unat (a - d) mod 0x200) (unat a div 0x200) b) = []" for b
    using s m by (subst copy_sectors.simps)
      (auto simp: nil copy_sectors_done split_beta Let_def)
  then show ?thesis
    by (simp add: blk_seek_and_read_def Let_def split_beta unat_div_distrib unat_mod_distrib)
qed

section \<open>The contract of a block device\<close>

text \<open>
  \<open>good\<close> is the state in which the layer may use the device, \<open>holds\<close> says that its cache is that
  of a sector, \<open>disk\<close> is the medium.
\<close>

locale block_device =
  fixes ops :: "'o BlkOps"
    and good :: "'o Blk \<Rightarrow> bool"
    and holds :: "'o Blk \<Rightarrow> nat \<Rightarrow> bool"
    and disk :: "'o Blk \<Rightarrow> nat \<Rightarrow> u8"
  assumes sync: "good b \<Longrightarrow> let (d, b1) = op_isdirty ops b; b2 = (if d \<noteq> 0 then snd (op_writeback ops b1) else b1)
      in good b2 \<and> disk b2 = disk b"
    and load: "good b \<Longrightarrow> sec < 2 ^ 23 \<Longrightarrow> let b2 = snd (op_load ops (snd (op_ioctl ops 0 (of_nat sec) b)))
      in holds b2 sec \<and> disk b2 = disk b"
    and cache: "holds b sec \<Longrightarrow> i < 128 \<Longrightarrow> fst (op_cache ops i b) = le_word (disk b) (0x200 * sec + 4 * i) \<and>
      holds (snd (op_cache ops i b)) sec \<and> disk (snd (op_cache ops i b)) = disk b"
    and holds_good: "holds b sec \<Longrightarrow> good b"
    and obtained: "good b \<Longrightarrow> blk_obtained b \<noteq> 0"
begin

lemma copy_bytes_correct:
  assumes "holds b sec" "e \<le> 0x200" "i \<le> e"
  shows "\<exists>b'. copy_bytes ops i e b = (disk_slice (disk b) (0x200 * sec + i) (e - i), b') \<and> holds b' sec \<and> disk b' = disk b"
  using assms
proof (induction "e - i" arbitrary: i b)
  case 0
  then show ?case by (subst copy_bytes.simps) (simp add: disk_slice_def)
next
  case (Suc n)
  then have i: "i < e" "i div 4 < 128" and n: "n = e - Suc i" by auto
  obtain w b1 where c: "op_cache ops (i div 4) b = (w, b1)" by (cases "op_cache ops (i div 4) b")
  from cache [OF Suc.prems(1) i(2)] c have
    w: "w = le_word (disk b) (0x200 * sec + 4 * (i div 4))" and b1: "holds b1 sec" "disk b1 = disk b" by simp_all
  have "ucast (signed_drop_bit ((i mod 4) * 8) w) = disk b (0x200 * sec + 4 * (i div 4) + i mod 4)"
    unfolding w by (rule byte_of_word) simp
  then have byte: "ucast (signed_drop_bit ((i mod 4) * 8) w) = disk b (0x200 * sec + i)"
    by (simp add: add.assoc)
  obtain b2 where "copy_bytes ops (Suc i) e b1 = (disk_slice (disk b1) (0x200 * sec + Suc i) (e - Suc i), b2)"
    "holds b2 sec" "disk b2 = disk b1"
    using Suc.hyps(1) [of "Suc i" b1] Suc.hyps(2) Suc.prems(2) b1(1) i(1) n by auto
  moreover have "disk_slice (disk b) (0x200 * sec + i) (e - i) = disk b (0x200 * sec + i) # disk_slice (disk b) (0x200 * sec + Suc i) (e - Suc i)"
    using i(1) by (simp add: disk_slice_def upt_rec [of "0x200 * sec + i"])
  ultimately show ?case
    using i(1) c byte b1(2) by (subst copy_bytes.simps) simp
qed

lemma copy_sectors_correct:
  assumes "good b" "s \<le> e" "e < 2 ^ 23" "bs < 0x200" "be < 0x200" "s = e \<longrightarrow> bs \<le> be"
    and "s \<le> sec" "sec \<le> e"
  shows "\<exists>b'. copy_sectors ops s e bs be sec b =
      (disk_slice (disk b) (0x200 * sec + (if sec = s then bs else 0))
         (0x200 * e + be - (0x200 * sec + (if sec = s then bs else 0))), b')
    \<and> good b' \<and> disk b' = disk b"
  using assms(1,7,8)
proof (induction "e - sec" arbitrary: sec b)
  case (0 sec b)
  then have se: "sec = e" by simp
  then have st: "(if sec = s then bs else 0) \<le> be" using assms(6) by simp
  define b2 where "b2 = snd (op_load ops (snd (op_ioctl ops 0 (of_nat sec) b)))"
  have b2: "holds b2 sec" "disk b2 = disk b"
    using load [OF 0(2), of sec] assms(3) se by (simp_all add: b2_def Let_def)
  obtain b3 where "copy_bytes ops (if sec = s then bs else 0) be b2 =
      (disk_slice (disk b2) (0x200 * sec + (if sec = s then bs else 0)) (be - (if sec = s then bs else 0)), b3)"
    "holds b3 sec" "disk b3 = disk b2"
    using copy_bytes_correct [OF b2(1) _ st] assms(5) by auto
  moreover have "copy_sectors ops s e bs be (Suc sec) b3 = ([], b3)"
    using se by (subst copy_sectors.simps) simp
  ultimately show ?case
    using b2(2) se holds_good
    by (subst copy_sectors.simps) (auto simp: split_beta b2_def Let_def)
next
  case (Suc n sec b)
  then have lt: "sec < e" and n: "n = e - Suc sec" by simp_all
  let ?st = "if sec = s then bs else 0"
  have st: "?st \<le> 0x200" using assms(4) by simp
  define b2 where "b2 = snd (op_load ops (snd (op_ioctl ops 0 (of_nat sec) b)))"
  have b2: "holds b2 sec" "disk b2 = disk b"
    using load [OF Suc.prems(1), of sec] assms(3) lt by (simp_all add: b2_def Let_def)
  obtain b3 where b3: "copy_bytes ops ?st 0x200 b2 = (disk_slice (disk b2) (0x200 * sec + ?st) (0x200 - ?st), b3)"
    "holds b3 sec" "disk b3 = disk b2"
    using copy_bytes_correct [OF b2(1) _ st] by auto
  have g3: "good b3" using b3(2) by (rule holds_good)
  obtain b4 where b4: "copy_sectors ops s e bs be (Suc sec) b3 = (disk_slice (disk b3) (0x200 * Suc sec)
      (0x200 * e + be - 0x200 * Suc sec), b4)" "good b4" "disk b4 = disk b3"
    using Suc.hyps(1) [of "Suc sec" b3] n Suc.prems lt g3 by auto
  have "copy_sectors ops s e bs be sec b = (disk_slice (disk b) (0x200 * sec + ?st) (0x200 - ?st) @
      disk_slice (disk b) (0x200 * Suc sec) (0x200 * e + be - 0x200 * Suc sec), b4)"
    using lt b3 b4 b2(2) by (subst copy_sectors.simps) (simp add: split_beta b2_def [symmetric] Let_def)
  also have "disk_slice (disk b) (0x200 * sec + ?st) (0x200 - ?st) @ disk_slice (disk b) (0x200 * Suc sec) (0x200 * e + be - 0x200 * Suc sec)
      = disk_slice (disk b) (0x200 * sec + ?st) (0x200 * e + be - (0x200 * sec + ?st))"
    using lt st by (intro disk_slice_split sector_arith)
  finally have "copy_sectors ops s e bs be sec b =
    (disk_slice (disk b) (0x200 * sec + ?st) (0x200 * e + be - (0x200 * sec + ?st)), b4)" .
  moreover have "disk b4 = disk b" using b4(3) b3(3) b2(2) by (simp only:)
  ultimately show ?case using b4(2) by blast
qed

lemma read_correct:
  assumes "good b" "unat seek + unat bytes < 2 ^ 32"
  shows "\<exists>b'. blk_seek_and_read ops seek bytes b = (int (unat bytes), disk_slice (disk b) (unat seek) (unat bytes), b') \<and>
    good b' \<and> disk b' = disk b"
proof -
  obtain d b1 where d: "op_isdirty ops b = (d, b1)" by (cases "op_isdirty ops b")
  define b2 where "b2 = (if d \<noteq> 0 then snd (op_writeback ops b1) else b1)"
  have b2: "good b2" "disk b2 = disk b" using sync [OF assms(1)] d by (simp_all add: b2_def Let_def)
  let ?fin = "unat seek + unat bytes"
  have add: "unat (seek + bytes) = ?fin"
    using assms(2) by (simp add: unat_add_lem [THEN iffD1])
  have u: "unat (seek div 0x200) = unat seek div 0x200" "unat (seek mod 0x200) = unat seek mod 0x200"
    "unat ((seek + bytes) div 0x200) = ?fin div 0x200" "unat ((seek + bytes) mod 0x200) = ?fin mod 0x200"
    by (simp_all add: unat_div_distrib unat_mod_distrib add)
  let ?s = "unat seek div 0x200" and ?e = "?fin div 0x200"
  have se: "?s \<le> ?e" by (rule div_le_mono) simp
  have eq: "?s = ?e \<longrightarrow> unat seek mod 0x200 \<le> ?fin mod 0x200"
  proof
    assume "?s = ?e"
    moreover have "unat seek = 0x200 * ?s + unat seek mod 0x200" "?fin = 0x200 * ?e + ?fin mod 0x200" by simp_all
    ultimately show "unat seek mod 0x200 \<le> ?fin mod 0x200" by linarith
  qed
  have "?e < 2 ^ 23" using assms(2) by (simp add: less_mult_imp_div_less)
  from copy_sectors_correct [OF b2(1) se this _ _ eq, of ?s] se obtain b3 where
    "copy_sectors ops ?s ?e (unat seek mod 0x200) (?fin mod 0x200) ?s b2 =
       (disk_slice (disk b2) (unat seek) (0x200 * ?e + ?fin mod 0x200 - unat seek), b3)"
    "good b3" "disk b3 = disk b2"
    by auto
  moreover have "0x200 * ?e + ?fin mod 0x200 - unat seek = unat bytes" by simp
  ultimately show ?thesis
    using obtained [OF assms(1)] b2 d by (simp add: blk_seek_and_read_def u Let_def b2_def [symmetric] split_beta)
qed

end

end
