(* ===== verification/SDBlk.thy ===== *)
theory SDBlk
  imports Blk
begin

text \<open>
  The two block devices: the SD card behind memory mapped registers
  (\<^verbatim>\<open>mmio_drivers/sdcard.c\<close>, \<^verbatim>\<open>mmio_drivers/sdcard_blk.c\<close>) and the disk image file of the host
  test program (\<^verbatim>\<open>host/fd_blk.c\<close>).  Both are instances of \<open>block_device\<close>, the SD card as long as a
  transfer completes before the driver's next register access.

  The register interface is that of the controller \<^verbatim>\<open>pCPU/src/rtl/sdcard.v\<close>: writes to the address
  and command registers have an effect only while it is ready, and a transfer moves a sector
  between the card and the 128-word cache.  How long it takes is a parameter of the device,
  \<open>sd_latency\<close>, counted in register accesses; the transfer is modelled as one step at its end.  The
  real controller never completes a transfer before the next access, so latency 0, which the
  instance of \<open>block_device\<close> needs, is the case that the block layer is written for and not what
  the board does; \<open>sd_read_stale\<close> shows what happens there.  The loaders of \<open>SDLoad\<close> poll, and are
  proved for every latency.
\<close>

section \<open>The SD card controller\<close>

datatype sd_op = SD_Read | SD_Write

record SDCard =
  mm_cache :: "u32 list"
  mm_address :: u32
  mm_busy :: nat
  mm_op :: sd_op
  mm_dirty :: bool
  sd_latency :: nat
  sd_disk :: "nat \<Rightarrow> u8"

definition read_sector :: "(nat \<Rightarrow> u8) \<Rightarrow> nat \<Rightarrow> u32 list" where
  "read_sector d sec = map (\<lambda>i. le_word d (0x200 * sec + 4 * i)) [0..<128]"

definition write_sector :: "u32 list \<Rightarrow> nat \<Rightarrow> (nat \<Rightarrow> u8) \<Rightarrow> nat \<Rightarrow> u8" where
  "write_sector ws sec d a = (if a div 0x200 = sec
     then ucast (drop_bit (8 * (a mod 4)) (ws ! (a mod 0x200 div 4))) else d a)"

definition sd_complete :: "SDCard \<Rightarrow> SDCard" where
  "sd_complete sd = (case mm_op sd of
     SD_Read \<Rightarrow> sd\<lparr>mm_busy := 0, mm_cache := read_sector (sd_disk sd) (unat (mm_address sd))\<rparr>
   | SD_Write \<Rightarrow> sd\<lparr>mm_busy := 0, mm_dirty := False,
       sd_disk := write_sector (mm_cache sd) (unat (mm_address sd)) (sd_disk sd)\<rparr>)"

definition sd_tick :: "SDCard \<Rightarrow> SDCard" where
  "sd_tick sd = (if mm_busy sd = 0 then sd
     else if mm_busy sd = 1 then sd_complete sd else sd\<lparr>mm_busy := mm_busy sd - 1\<rparr>)"

definition sd_write_address :: "u32 \<Rightarrow> SDCard \<Rightarrow> SDCard" where
  "sd_write_address w sd = (let sd = sd_tick sd in if mm_busy sd = 0 then sd\<lparr>mm_address := w\<rparr> else sd)"

definition sd_start :: "sd_op \<Rightarrow> SDCard \<Rightarrow> SDCard" where
  "sd_start op sd = (let sd = sd_tick sd in
     if mm_busy sd = 0
     then (let sd = sd\<lparr>mm_op := op\<rparr> in if sd_latency sd = 0 then sd_complete sd else sd\<lparr>mm_busy := sd_latency sd\<rparr>)
     else sd)"

section \<open>The SD card as a block device\<close>

definition sd_blk_obtain :: "SDCard Blk \<Rightarrow> int \<times> SDCard Blk" where
  "sd_blk_obtain self = (0, self\<lparr>blk_obtained := 1\<rparr>)"

definition sd_blk_release :: "SDCard Blk \<Rightarrow> int \<times> SDCard Blk" where
  "sd_blk_release self = (0, self\<lparr>blk_obtained := 0\<rparr>)"

definition sd_blk_ioctl :: "int \<Rightarrow> u32 \<Rightarrow> SDCard Blk \<Rightarrow> int \<times> SDCard Blk" where
  "sd_blk_ioctl op param self =
     (if op = 0 then (0, self\<lparr>blk_obj := sd_write_address param (blk_obj self)\<rparr>) else (- 1, self))"

definition sd_blk_load :: "SDCard Blk \<Rightarrow> int \<times> SDCard Blk" where
  "sd_blk_load self = (0, self\<lparr>blk_obj := sd_start SD_Read (blk_obj self)\<rparr>)"

definition sd_blk_writeback :: "SDCard Blk \<Rightarrow> int \<times> SDCard Blk" where
  "sd_blk_writeback self = (0, self\<lparr>blk_obj := sd_start SD_Write (blk_obj self)\<rparr>)"

definition sd_blk_isdirty :: "SDCard Blk \<Rightarrow> int \<times> SDCard Blk" where
  "sd_blk_isdirty self = (let sd = sd_tick (blk_obj self) in
     (if mm_dirty sd then 1 else 0, self\<lparr>blk_obj := sd\<rparr>))"

definition sd_blk_isready :: "SDCard Blk \<Rightarrow> int \<times> SDCard Blk" where
  "sd_blk_isready self = (let sd = sd_tick (blk_obj self) in
     (if mm_busy sd = 0 then 1 else 0, self\<lparr>blk_obj := sd\<rparr>))"

definition sd_blk_cache :: "nat \<Rightarrow> SDCard Blk \<Rightarrow> u32 \<times> SDCard Blk" where
  "sd_blk_cache i self = (let sd = sd_tick (blk_obj self) in (mm_cache sd ! i, self\<lparr>blk_obj := sd\<rparr>))"

definition sd_ops :: "SDCard BlkOps" where
  "sd_ops = \<lparr>op_obtain = sd_blk_obtain, op_release = sd_blk_release, op_ioctl = sd_blk_ioctl, op_load = sd_blk_load,
       op_writeback = sd_blk_writeback, op_isready = sd_blk_isready, op_isdirty = sd_blk_isdirty,
       op_cache = sd_blk_cache\<rparr>"

definition get_sd_blk :: "SDCard \<Rightarrow> SDCard BlkOps \<times> SDCard Blk" where
  "get_sd_blk sd = (sd_ops, \<lparr>blk_sector = - 1, blk_obtained = 0, blk_obj = sd\<rparr>)"

section \<open>A file as a block device\<close>

text \<open>
  \<^verbatim>\<open>main\<close> of the host program opens the image for reading only, so that \<^verbatim>\<open>fwrite\<close> has no effect;
  \<open>fd_writable\<close> is the mode of the stream.  A read past the end of the file is one of zero bytes
  of a short \<^verbatim>\<open>fread\<close>: words beyond the length keep the old contents of the cache.
\<close>

record FDData =
  fd_file :: "nat \<Rightarrow> u8"
  fd_length :: nat
  fd_writable :: bool
  fd_cache :: "u32 list"

definition fd_obtain :: "FDData Blk \<Rightarrow> int \<times> FDData Blk" where
  "fd_obtain fdblk = (0, fdblk\<lparr>blk_obtained := 1\<rparr>)"

definition fd_release :: "FDData Blk \<Rightarrow> int \<times> FDData Blk" where
  "fd_release fdblk = (0, fdblk\<lparr>blk_obtained := 0\<rparr>)"

definition fd_ioctl :: "int \<Rightarrow> u32 \<Rightarrow> FDData Blk \<Rightarrow> int \<times> FDData Blk" where
  "fd_ioctl op param fdblk = (if op = 0 then (0, fdblk\<lparr>blk_sector := param\<rparr>) else (1, fdblk))"

text \<open>The file position \<^verbatim>\<open>0x200 * fdblk->sector\<close> is computed in 32 bits.\<close>

definition fd_pos :: "FDData Blk \<Rightarrow> nat" where
  "fd_pos fdblk = unat (0x200 * blk_sector fdblk)"

definition fd_load :: "FDData Blk \<Rightarrow> int \<times> FDData Blk" where
  "fd_load fdblk = (let d = blk_obj fdblk; p = fd_pos fdblk in
     (0, fdblk\<lparr>blk_obj := d\<lparr>fd_cache := map (\<lambda>i. if p + 4 * i + 4 \<le> fd_length d
       then le_word (fd_file d) (p + 4 * i) else fd_cache d ! i) [0..<128]\<rparr>\<rparr>))"

definition fd_writeback :: "FDData Blk \<Rightarrow> int \<times> FDData Blk" where
  "fd_writeback fdblk = (let d = blk_obj fdblk in
     (0, if fd_writable d then fdblk\<lparr>blk_obj := d\<lparr>
        fd_file := write_sector (fd_cache d) (fd_pos fdblk div 0x200) (fd_file d),
        fd_length := max (fd_length d) (fd_pos fdblk + 0x200)\<rparr>\<rparr> else fdblk))"

definition fd_isdirty :: "FDData Blk \<Rightarrow> int \<times> FDData Blk" where
  "fd_isdirty fdblk = (1, fdblk)"

definition fd_isready :: "FDData Blk \<Rightarrow> int \<times> FDData Blk" where
  "fd_isready fdblk = (1, fdblk)"

definition fd_read_cache :: "nat \<Rightarrow> FDData Blk \<Rightarrow> u32 \<times> FDData Blk" where
  "fd_read_cache i fdblk = (fd_cache (blk_obj fdblk) ! i, fdblk)"

definition fd_ops :: "FDData BlkOps" where
  "fd_ops = \<lparr>op_obtain = fd_obtain, op_release = fd_release, op_ioctl = fd_ioctl, op_load = fd_load,
       op_writeback = fd_writeback, op_isready = fd_isready, op_isdirty = fd_isdirty, op_cache = fd_read_cache\<rparr>"

definition get_fd_blk :: "FDData \<Rightarrow> FDData BlkOps \<times> FDData Blk" where
  "get_fd_blk fddata = (fd_ops, \<lparr>blk_sector = - 1, blk_obtained = 0, blk_obj = fddata\<rparr>)"

section \<open>Both satisfy the contract\<close>

definition sd_good :: "SDCard Blk \<Rightarrow> bool" where
  "sd_good b \<longleftrightarrow> blk_obtained b \<noteq> 0 \<and> mm_busy (blk_obj b) = 0 \<and> sd_latency (blk_obj b) = 0 \<and> \<not> mm_dirty (blk_obj b)"

definition sd_holds :: "SDCard Blk \<Rightarrow> nat \<Rightarrow> bool" where
  "sd_holds b sec \<longleftrightarrow> sd_good b \<and> mm_cache (blk_obj b) = read_sector (sd_disk (blk_obj b)) sec"

interpretation sd: block_device sd_ops sd_good sd_holds "\<lambda>b. sd_disk (blk_obj b)"
proof unfold_locales
  fix b :: "SDCard Blk" and sec :: nat
  assume g: "sd_good b" and "sec < 2 ^ 23"
  then have u: "unat (of_nat sec :: u32) = sec" by (simp add: unat_of_nat take_bit_nat_eq_self)
  then show "let b2 = snd (op_load sd_ops (snd (op_ioctl sd_ops 0 (word_of_nat sec) b)))
      in sd_holds b2 sec \<and> sd_disk (blk_obj b2) = sd_disk (blk_obj b)"
    using g by (simp add: sd_ops_def sd_blk_load_def sd_blk_ioctl_def sd_write_address_def sd_start_def
        sd_tick_def sd_complete_def sd_holds_def sd_good_def Let_def)
qed (auto simp: sd_ops_def sd_blk_isdirty_def sd_blk_writeback_def sd_blk_cache_def sd_tick_def
      sd_holds_def sd_good_def Let_def read_sector_def)

definition fd_good :: "FDData Blk \<Rightarrow> bool" where
  "fd_good b \<longleftrightarrow> blk_obtained b \<noteq> 0 \<and> \<not> fd_writable (blk_obj b) \<and> fd_length (blk_obj b) \<ge> 2 ^ 32"

definition fd_holds :: "FDData Blk \<Rightarrow> nat \<Rightarrow> bool" where
  "fd_holds b sec \<longleftrightarrow> fd_good b \<and> fd_cache (blk_obj b) = read_sector (fd_file (blk_obj b)) sec"

interpretation fd: block_device fd_ops fd_good fd_holds "\<lambda>b. fd_file (blk_obj b)"
proof unfold_locales
  fix b :: "FDData Blk" and sec :: nat
  assume g: "fd_good b" and sec: "sec < 2 ^ 23"
  have "(0x200 * of_nat sec :: u32) = of_nat (0x200 * sec)" by simp
  then have u: "unat (0x200 * of_nat sec :: u32) = 0x200 * sec"
    using sec by (simp only: unat_of_nat) (simp add: take_bit_nat_eq_self)
  have "0x200 * sec + 4 * i + 4 \<le> fd_length (blk_obj b)" if "i < 128" for i
    using g sec that by (simp add: fd_good_def)
  with u show "let b2 = snd (op_load fd_ops (snd (op_ioctl fd_ops 0 (word_of_nat sec) b)))
      in fd_holds b2 sec \<and> fd_file (blk_obj b2) = fd_file (blk_obj b)"
    using g by (simp add: fd_ops_def fd_load_def fd_ioctl_def fd_holds_def fd_good_def Let_def
        read_sector_def fd_pos_def)
qed (auto simp: fd_ops_def fd_isdirty_def fd_writeback_def fd_read_cache_def fd_holds_def fd_good_def
      Let_def read_sector_def)

section \<open>Properties\<close>

text \<open>
  C5: On an SD card whose transfers finish before the next register access, reading a byte range
  through the block layer returns that range of the card, whatever sectors it spans, and
  leaves the card unchanged.
\<close>

theorem sd_read_correct:
  assumes "sd_good b" "unat seek + unat bytes < 2 ^ 32"
  shows "\<exists>b'. blk_seek_and_read sd_ops seek bytes b =
      (int (unat bytes), disk_slice (sd_disk (blk_obj b)) (unat seek) (unat bytes), b') \<and>
    sd_good b' \<and> sd_disk (blk_obj b') = sd_disk (blk_obj b)"
  by (rule sd.read_correct [OF assms])

text \<open>A card that is still transferring: time passes, the cache does not change.\<close>

lemma sd_tick_busy: "1 < mm_busy sd \<Longrightarrow> sd_tick sd = sd\<lparr>mm_busy := mm_busy sd - 1\<rparr>"
  by (simp add: sd_tick_def)

lemma copy_bytes_busy:
  assumes "e - i < mm_busy (blk_obj b)"
  shows "fst (copy_bytes sd_ops i e b) =
    map (\<lambda>k. ucast (signed_drop_bit ((k mod 4) * 8) (mm_cache (blk_obj b) ! (k div 4)))) [i..<e]"
  using assms
proof (induction "e - i" arbitrary: i b)
  case 0
  then show ?case by (subst copy_bytes.simps) simp
next
  case (Suc n)
  then have i: "i < e" and n: "n = e - Suc i" by simp_all
  let ?b = "b\<lparr>blk_obj := sd_tick (blk_obj b)\<rparr>"
  have t: "sd_tick (blk_obj b) = (blk_obj b)\<lparr>mm_busy := mm_busy (blk_obj b) - 1\<rparr>"
    using Suc.prems i by (intro sd_tick_busy) simp
  have "e - Suc i < mm_busy (blk_obj ?b)" using Suc.prems i by (simp add: t)
  from Suc.hyps(1) [OF n this] i show ?case
    by (subst copy_bytes.simps)
      (simp add: sd_ops_def sd_blk_cache_def Let_def split_beta t upt_rec [of i])
qed

text \<open>
  The block layer does not wait for the device, although its interface says that it will:
  on a card whose transfer takes more register accesses than the bytes requested, a read within
  one sector reports success and returns bytes of whatever was in the cache before.
\<close>

theorem sd_read_stale:
  assumes "blk_obtained b \<noteq> 0" "mm_busy (blk_obj b) = 0" "\<not> mm_dirty (blk_obj b)"
    and "unat bytes < sd_latency (blk_obj b)" "unat seek mod 0x200 + unat bytes < 0x200"
    and "unat seek + unat bytes < 2 ^ 32"
  shows "\<exists>b'. blk_seek_and_read sd_ops seek bytes b = (int (unat bytes),
    map (\<lambda>k. ucast (signed_drop_bit ((k mod 4) * 8) (mm_cache (blk_obj b) ! (k div 4))))
      [unat seek mod 0x200..<unat seek mod 0x200 + unat bytes], b')"
proof -
  let ?s = "unat seek div 0x200" and ?o = "unat seek mod 0x200" and ?fin = "unat seek + unat bytes"
  have add: "unat (seek + bytes) = ?fin" using assms(6) by (simp add: unat_add_lem [THEN iffD1])
  have "?fin = 0x200 * ?s + (?o + unat bytes)" by simp
  then have "?fin div 0x200 = ?s" "?fin mod 0x200 = ?o + unat bytes"
    using div_mult_self4 [of "0x200" ?s "?o + unat bytes"] mod_mult_self4 [of "0x200" ?s "?o + unat bytes"]
      div_less [OF assms(5)] mod_less [OF assms(5)]
    by (simp_all only: zero_neq_numeral add_0_right not_False_eq_True)
  then have u: "unat (seek div 0x200) = ?s" "unat (seek mod 0x200) = ?o"
    "unat ((seek + bytes) div 0x200) = ?s" "unat ((seek + bytes) mod 0x200) = ?o + unat bytes"
    by (simp_all add: unat_div_distrib unat_mod_distrib add)
  let ?b = "snd (sd_blk_load (snd (sd_blk_ioctl 0 (of_nat ?s) b)))"
  have busy: "mm_busy (blk_obj ?b) = sd_latency (blk_obj b)" "mm_cache (blk_obj ?b) = mm_cache (blk_obj b)"
    using assms(2,4) by (simp_all add: sd_blk_load_def sd_blk_ioctl_def sd_start_def sd_write_address_def
        sd_tick_def Let_def)
  have "fst (copy_bytes sd_ops ?o (?o + unat bytes) ?b) = map (\<lambda>k. ucast (signed_drop_bit ((k mod 4) * 8)
      (mm_cache (blk_obj b) ! (k div 4)))) [?o..<?o + unat bytes]"
    using copy_bytes_busy [of "?o + unat bytes" ?o ?b] assms(4) by (simp add: busy)
  then obtain b' where "copy_bytes sd_ops ?o (?o + unat bytes) ?b = (map (\<lambda>k. ucast (signed_drop_bit ((k mod 4) * 8)
      (mm_cache (blk_obj b) ! (k div 4)))) [?o..<?o + unat bytes], b')"
    by (cases "copy_bytes sd_ops ?o (?o + unat bytes) ?b") simp
  moreover have "copy_sectors sd_ops ?s ?s ?o (?o + unat bytes) ?s b =
      (let (bs, b') = copy_bytes sd_ops ?o (?o + unat bytes) ?b in (bs, b'))"
    by (subst copy_sectors.simps) (simp add: copy_sectors_done sd_ops_def split_beta Let_def)
  moreover have "op_isdirty sd_ops b = (0, b)"
    using assms(2,3) by (simp add: sd_ops_def sd_blk_isdirty_def sd_tick_def Let_def)
  ultimately show ?thesis
    using assms(1) by (simp add: blk_seek_and_read_def u Let_def split_beta)
qed

section \<open>Witnesses\<close>

definition card :: "nat \<Rightarrow> SDCard Blk" where
  "card lat = \<lparr>blk_sector = - 1, blk_obtained = 1, blk_obj = \<lparr>mm_cache = replicate 128 0, mm_address = 0,
     mm_busy = 0, mm_op = SD_Read, mm_dirty = False, sd_latency = lat, sd_disk = of_nat\<rparr>\<rparr>"

theorem sd_read_correct_witness:
  "\<exists>b'. blk_seek_and_read sd_ops 510 4 (card 0) = (4, [254, 255, 0, 1], b')"
proof -
  have "disk_slice of_nat 510 4 = ([254, 255, 0, 1] :: u8 list)"
    by (simp add: disk_slice_def upt_rec [of _ 514])
  then show ?thesis using sd_read_correct [of "card 0" 510 4] by (auto simp: card_def sd_good_def)
qed

theorem sd_read_stale_witness:
  "\<exists>b'. blk_seek_and_read sd_ops 5 2 (card 1000) = (2, [0, 0], b') \<and>
     disk_slice (sd_disk (blk_obj (card 1000))) 5 2 = [5, 6]"
  using sd_read_stale [of "card 1000" 2 5]
  by (auto simp: card_def disk_slice_def upt_rec [of _ 7])

end
