(* ===== verification/FAT32.thy ===== *)
theory FAT32
  imports SDBlk
begin

text \<open>
  The FAT32 driver, \<^verbatim>\<open>fs/fat32.c\<close>: mounting a partition and reading a file of the root directory
  by its 8.3 name.  The driver is generic in the block device; its theorems are proved once for
  every device that satisfies \<open>block_device\<close> and stated for the SD card.  Integer widths are those
  of the RV32 target: \<^verbatim>\<open>unsigned long\<close> has 32 bits, so the 64-bit byte addresses the driver
  computes are cut to 32 bits when they are passed to \<^verbatim>\<open>blk_seek_and_read\<close>.
\<close>

section \<open>On-disk structures\<close>

definition le16_at :: "u8 list \<Rightarrow> nat \<Rightarrow> u16" where
  "le16_at bs i = ucast (bs ! i) OR push_bit 8 (ucast (bs ! (i + 1)))"

definition le32_at :: "u8 list \<Rightarrow> nat \<Rightarrow> u32" where
  "le32_at bs i = ucast (bs ! i) OR push_bit 8 (ucast (bs ! (i + 1))) OR
     push_bit 16 (ucast (bs ! (i + 2))) OR push_bit 24 (ucast (bs ! (i + 3)))"

record PartitionTable =
  first_byte :: u8
  start_chs :: "u8 list"
  partition_type :: u8
  end_chs :: "u8 list"
  start_sector :: u32
  length_sectors :: u32

definition sizeof_PartitionTable :: nat where "sizeof_PartitionTable = 16"

definition partition_of_bytes :: "u8 list \<Rightarrow> PartitionTable" where
  "partition_of_bytes bs = \<lparr>first_byte = bs ! 0, start_chs = take 3 (drop 1 bs), partition_type = bs ! 4,
     end_chs = take 3 (drop 5 bs), start_sector = le32_at bs 8, length_sectors = le32_at bs 12\<rparr>"

record Fat32BootSector =
  bs_jmp :: "u8 list"
  bs_oem :: "u8 list"
  bytes_per_sector :: u16
  bs_sectors_per_cluster :: u8
  number_of_reserved_sectors :: u16
  number_of_fats :: u8
  root_dir_entries :: u16
  total_sectors_short :: u16
  media_descriptor :: u8
  fat_size_sectors :: u16
  sectors_per_track :: u16
  number_of_heads :: u16
  hidden_sectors :: u32
  sectors_in_partition :: u32
  sectors_per_fat :: u32
  bs_flags :: u16
  bs_version :: u16
  bs_root_dir_first_cluster :: u32
  sector_number_fs_info :: u16
  sector_number_backupboot :: u16
  bs_reserved :: "u8 list"
  logic_drive_number :: u8
  bs_unused :: u8
  extented_signature :: u8
  serial_number :: u32
  volume_label :: "u8 list"
  fs_type :: "u8 list"
  boot_code :: "u8 list"
  boot_sector_signature :: u16

definition sizeof_Fat32BootSector :: nat where "sizeof_Fat32BootSector = 512"

definition boot_sector_of_bytes :: "u8 list \<Rightarrow> Fat32BootSector" where
  "boot_sector_of_bytes b = \<lparr>bs_jmp = take 3 b, bs_oem = take 8 (drop 3 b), bytes_per_sector = le16_at b 11,
     bs_sectors_per_cluster = b ! 13, number_of_reserved_sectors = le16_at b 14, number_of_fats = b ! 16,
     root_dir_entries = le16_at b 17, total_sectors_short = le16_at b 19, media_descriptor = b ! 21,
     fat_size_sectors = le16_at b 22, sectors_per_track = le16_at b 24, number_of_heads = le16_at b 26,
     hidden_sectors = le32_at b 28, sectors_in_partition = le32_at b 32, sectors_per_fat = le32_at b 36,
     bs_flags = le16_at b 40, bs_version = le16_at b 42, bs_root_dir_first_cluster = le32_at b 44,
     sector_number_fs_info = le16_at b 48, sector_number_backupboot = le16_at b 50,
     bs_reserved = take 12 (drop 52 b), logic_drive_number = b ! 64, bs_unused = b ! 65,
     extented_signature = b ! 66, serial_number = le32_at b 67, volume_label = take 11 (drop 71 b),
     fs_type = take 8 (drop 82 b), boot_code = take 420 (drop 90 b), boot_sector_signature = le16_at b 510\<rparr>"

record DirectoryRecord =
  shortname :: "u8 list"
  attrib_r :: bool
  attrib_h :: bool
  attrib_s :: bool
  attrib_v :: bool
  attrib_d :: bool
  attrib_a :: bool
  file_cluster_high :: u16
  file_cluster_low :: u16
  file_size :: u32

definition sizeof_DirectoryRecord :: nat where "sizeof_DirectoryRecord = 32"

definition record_of_bytes :: "u8 list \<Rightarrow> DirectoryRecord" where
  "record_of_bytes b = \<lparr>shortname = take 11 b, attrib_r = bit (b ! 11) 0, attrib_h = bit (b ! 11) 1,
     attrib_s = bit (b ! 11) 2, attrib_v = bit (b ! 11) 3, attrib_d = bit (b ! 11) 4, attrib_a = bit (b ! 11) 5,
     file_cluster_high = le16_at b 20, file_cluster_low = le16_at b 26, file_size = le32_at b 28\<rparr>"

record FAT32 =
  fat_bs :: Fat32BootSector
  fat_sectors_per_cluster :: u8
  fat_begin_lba :: u64
  cluster_begin_lba :: u64
  root_dir_first_cluster :: u64
  lba_addr_root :: u64

record 'o FSDrv =
  fsdrv_blk :: "'o Blk"
  fsdrv_part :: int
  fsdrv_obj :: FAT32

section \<open>Mounting\<close>

text \<open>
  The driver does not look at what \<^verbatim>\<open>blk_seek_and_read\<close> returns.  Where the read does not fill the
  structure, what the driver uses next is not initialised.
\<close>

definition blk_read_struct :: "'o BlkOps \<Rightarrow> u32 \<Rightarrow> nat \<Rightarrow> 'o Blk \<Rightarrow> kfault + u8 list \<times> 'o Blk" where
  "blk_read_struct ops seek n blk =
     (let (cnt, bs, blk) = blk_seek_and_read ops seek (of_nat n) blk in
      if length bs = n then Inr (bs, blk) else Inl Uninit)"

definition FAT32_Init :: "'o BlkOps \<Rightarrow> 'o FSDrv \<Rightarrow> kfault + int \<times> 'o FSDrv" where
  "FAT32_Init ops self =
     bindE (blk_read_struct ops 0x1BE (4 * sizeof_PartitionTable) (fsdrv_blk self)) (\<lambda>(bytes, blk).
     let pt = map (\<lambda>i. partition_of_bytes (take 16 (drop (16 * i) bytes))) [0..<4] in
     bindE (if 1 \<le> fsdrv_part self \<and> fsdrv_part self \<le> 4 then Inr (pt ! nat (fsdrv_part self - 1))
        else Inl BadPointer) (\<lambda>p.
     bindE (blk_read_struct ops (0x200 * start_sector p) sizeof_Fat32BootSector blk) (\<lambda>(bytes, blk).
     let bs = boot_sector_of_bytes bytes;
         fat_begin = start_sector p + ucast (number_of_reserved_sectors bs);
         cluster_begin = start_sector p + ucast (number_of_reserved_sectors bs) +
           ucast (number_of_fats bs) * sectors_per_fat bs;
         root = ucast (bs_root_dir_first_cluster bs) :: u64 in
     Inr (0, self\<lparr>fsdrv_blk := blk, fsdrv_obj := \<lparr>fat_bs = bs,
         fat_sectors_per_cluster = bs_sectors_per_cluster bs,
         fat_begin_lba = ucast fat_begin, cluster_begin_lba = ucast cluster_begin,
         root_dir_first_cluster = root,
         lba_addr_root = ucast cluster_begin + (root - 2) * ucast (bs_sectors_per_cluster bs)\<rparr>\<rparr>))))"

definition FSDrv_FAT32 :: "'o FSDrv \<Rightarrow> 'o Blk \<Rightarrow> FAT32 \<Rightarrow> int \<Rightarrow> int \<times> 'o FSDrv" where
  "FSDrv_FAT32 fsdrv blk fat32 part =
     (if part = - 1 then (- 1, fsdrv)
      else (0, fsdrv\<lparr>fsdrv_blk := blk, fsdrv_part := part, fsdrv_obj := fat32\<rparr>))"

definition FAT32_Stat :: "'o FSDrv \<Rightarrow> int \<Rightarrow> int" where
  "FAT32_Stat self op = 0"

section \<open>File names\<close>

text \<open>C strings are byte lists without the terminating zero.\<close>

definition c_str :: "u8 list \<Rightarrow> u8 list" where
  "c_str bs = takeWhile (\<lambda>b. b \<noteq> 0) bs"

definition strncpy :: "nat \<Rightarrow> u8 list \<Rightarrow> u8 list" where
  "strncpy n src = (let s = c_str (take n src) in s @ replicate (n - length s) 0)"

text \<open>The search for the last dot, from index \<open>i\<close> down to 1: the name before it and the extension.\<close>

fun split_name :: "u8 list \<Rightarrow> nat \<Rightarrow> u8 list \<times> u8 list" where
  "split_name file 0 = (drop 1 file, [])"
| "split_name file (Suc k) =
     (if file ! Suc k = 0x2e then (take k (drop 1 file), drop (k + 2) file) else split_name file k)"

text \<open>Trailing spaces become zeros, from index \<open>i - 1\<close> down.\<close>

fun trim_spaces :: "nat \<Rightarrow> u8 list \<Rightarrow> u8 list" where
  "trim_spaces 0 s = s"
| "trim_spaces (Suc i) s = (if s ! i = 0x20 then trim_spaces i (s[i := 0]) else s)"

definition is_valid_file :: "DirectoryRecord \<Rightarrow> bool" where
  "is_valid_file r \<longleftrightarrow> \<not> (shortname r ! 0 = 0 \<or> shortname r ! 0 = 0xe5 \<or> attrib_d r \<or>
     (attrib_r r \<and> attrib_h r \<and> attrib_s r \<and> attrib_v r))"

text \<open>
  The name and extension of a record.  \<^verbatim>\<open>rec_ext\<close> is trimmed from index 3, one past the three
  bytes copied: \<open>junk\<close> is what that byte of the stack holds.  For the first record examined that
  is whatever was there; the assignment that ends each round leaves a zero in it for the next.
\<close>

definition rec_name :: "DirectoryRecord \<Rightarrow> u8 list" where
  "rec_name r = c_str (trim_spaces 8 (strncpy 8 (shortname r)))"

definition rec_ext :: "u8 \<Rightarrow> DirectoryRecord \<Rightarrow> u8 list" where
  "rec_ext junk r = c_str ((trim_spaces 4 (strncpy 3 (drop 8 (shortname r)) @ [junk]))[3 := 0])"

definition rec_matches :: "u8 \<Rightarrow> u8 list \<Rightarrow> u8 list \<Rightarrow> DirectoryRecord \<Rightarrow> bool" where
  "rec_matches junk name ext r \<longleftrightarrow> is_valid_file r \<and> rec_name r = name \<and> rec_ext junk r = ext"

section \<open>Addresses\<close>

definition dir_seek :: "FAT32 \<Rightarrow> u32 \<Rightarrow> nat \<Rightarrow> u32" where
  "dir_seek fat fat_entry record_cnt = ucast (0x200 * (cluster_begin_lba fat +
     ucast ((fat_entry - 2) * ucast (fat_sectors_per_cluster fat))) +
     ucast (of_nat record_cnt * of_nat sizeof_DirectoryRecord :: u32))"

definition fat_seek :: "FAT32 \<Rightarrow> u32 \<Rightarrow> u32" where
  "fat_seek fat fat_entry = ucast (0x200 * fat_begin_lba fat + ucast (fat_entry * 4))"

definition data_seek :: "FAT32 \<Rightarrow> u32 \<Rightarrow> u32 \<Rightarrow> u32" where
  "data_seek fat file_cluster seek = ucast (0x200 * (cluster_begin_lba fat +
     ucast (ucast (fat_sectors_per_cluster fat) * (file_cluster - 2))) + ucast seek)"

definition rec_cluster :: "DirectoryRecord \<Rightarrow> u32" where
  "rec_cluster r = push_bit 16 (ucast (file_cluster_high r)) + ucast (file_cluster_low r)"

definition EOC :: u32 where "EOC = 0x0fffffff"

section \<open>Reading a file\<close>

text \<open>
  The records of one directory cluster, up to a match or to the end mark.  Only the first record of
  the whole search is compared with the uninitialised \<open>junk\<close> byte; every later round, also in
  the next cluster, finds the zero that the round before stored there.
\<close>

fun scan_dir :: "nat \<Rightarrow> 'o BlkOps \<Rightarrow> FAT32 \<Rightarrow> u8 \<Rightarrow> u8 list \<Rightarrow> u8 list \<Rightarrow> u32 \<Rightarrow> nat \<Rightarrow> 'o Blk \<Rightarrow>
    kfault + DirectoryRecord option \<times> 'o Blk" where
  "scan_dir 0 ops fat junk name ext fat_entry cnt blk = Inl Hang"
| "scan_dir (Suc n) ops fat junk name ext fat_entry cnt blk =
     bindE (blk_read_struct ops (dir_seek fat fat_entry cnt) sizeof_DirectoryRecord blk) (\<lambda>(bs, blk).
     let r = record_of_bytes bs in
     if rec_matches junk name ext r then Inr (Some r, blk)
     else if shortname r ! 0 = 0 then Inr (None, blk)
     else scan_dir n ops fat 0 name ext fat_entry (Suc cnt) blk)"

fun find_file :: "nat \<Rightarrow> 'o BlkOps \<Rightarrow> FAT32 \<Rightarrow> u8 \<Rightarrow> u8 list \<Rightarrow> u8 list \<Rightarrow> u32 \<Rightarrow> 'o Blk \<Rightarrow>
    kfault + DirectoryRecord option \<times> 'o Blk" where
  "find_file 0 ops fat junk name ext fat_entry blk = Inl Hang"
| "find_file (Suc n) ops fat junk name ext fat_entry blk =
     (if fat_entry < EOC
      then bindE (scan_dir (Suc n) ops fat junk name ext fat_entry 0 blk) (\<lambda>(r, blk). case r of
          Some r \<Rightarrow> Inr (Some r, blk)
        | None \<Rightarrow> bindE (blk_read_struct ops (fat_seek fat fat_entry) 4 blk) (\<lambda>(bs, blk).
            find_file n ops fat 0 name ext (le32_at bs 0) blk))
      else Inr (None, blk))"

text \<open>The walk over the file's clusters: \<open>False\<close> when they are not consecutive.\<close>

function check_chain :: "'o BlkOps \<Rightarrow> FAT32 \<Rightarrow> u32 \<Rightarrow> 'o Blk \<Rightarrow> kfault + bool \<times> 'o Blk" where
  "check_chain ops fat fat_entry blk =
     (if fat_entry < EOC
      then bindE (blk_read_struct ops (fat_seek fat fat_entry) 4 blk) (\<lambda>(bs, blk).
        let fat_entry_next = le32_at bs 0 in
        if fat_entry_next < EOC \<and> fat_entry_next \<noteq> fat_entry + 1 then Inr (False, blk)
        else check_chain ops fat fat_entry_next blk)
      else Inr (True, blk))"
  by pat_completeness auto

lemma chain_measure:
  fixes e n :: u32
  assumes "e < EOC" "n < EOC \<longrightarrow> n = e + 1"
  shows "unat EOC - unat n < unat EOC - unat e"
proof (cases "n < EOC")
  case True
  with assms have n: "n = e + 1" by simp
  have "unat e < unat EOC" using assms(1) by (simp add: word_less_nat_alt)
  then have "unat e + 1 < 2 ^ 32" by (simp add: EOC_def)
  then have "unat n = unat e + 1" unfolding n by (subst unat_add_lem [THEN iffD1]) simp_all
  with True show ?thesis by (simp add: word_less_nat_alt)
next
  case False
  with assms(1) show ?thesis by (simp add: word_less_nat_alt)
qed

termination check_chain
  by (relation "measure (\<lambda>(ops, fat, e, blk). unat EOC - unat e)") (auto intro: chain_measure)

declare check_chain.simps [simp del]

definition read_found :: "'o BlkOps \<Rightarrow> FAT32 \<Rightarrow> DirectoryRecord \<Rightarrow> u32 \<Rightarrow> u32 \<Rightarrow> 'o Blk \<Rightarrow>
    kfault + int \<times> u8 list \<times> 'o Blk" where
  "read_found ops fat r seek n_bytes blk =
     bindE (check_chain ops fat (rec_cluster r) blk) (\<lambda>(ok, blk).
     if \<not> ok then Inr (- 1, [], blk)
     else let n_bytes = (if file_size r < seek + n_bytes then file_size r - seek else n_bytes);
              (_, bs, blk) = blk_seek_and_read ops (data_seek fat (rec_cluster r) seek) n_bytes blk
          in Inr (sint n_bytes, bs, blk))"

definition FAT32_Read :: "nat \<Rightarrow> u8 \<Rightarrow> 'o BlkOps \<Rightarrow> 'o FSDrv \<Rightarrow> u8 list \<Rightarrow> u32 \<Rightarrow> u32 \<Rightarrow>
    kfault + int \<times> u8 list \<times> 'o FSDrv" where
  "FAT32_Read fuel junk ops self file seek n_bytes =
     (if file = [] \<or> hd file \<noteq> 0x2f then Inr (- 1, [], self)
      else if length (drop 1 file) > 12 then Inr (- 1, [], self)
      else let (name, ext) = split_name file (length file - 1) in
      if length name > 8 then Inr (- 1, [], self)
      else if length ext > 3 then Inr (- 1, [], self)
      else bindE (find_file fuel ops (fsdrv_obj self) junk name ext
             (ucast (root_dir_first_cluster (fsdrv_obj self))) (fsdrv_blk self)) (\<lambda>(r, blk). case r of
          Some r \<Rightarrow> bindE (read_found ops (fsdrv_obj self) r seek n_bytes blk) (\<lambda>(ret, bs, blk).
            Inr (ret, bs, self\<lparr>fsdrv_blk := blk\<rparr>))
        | None \<Rightarrow> Inr (- 1, [], self\<lparr>fsdrv_blk := blk\<rparr>)))"

section \<open>What is on the disk\<close>

text \<open>
  The directory record and the FAT entry at an index, a path that the name checks accept, a file
  that is record \<open>n\<close> of the first root directory cluster, and a run of consecutive clusters.
  Byte addresses are the 32-bit ones of the driver; the conditions keep a read below 4 GB.
\<close>

definition dir_entry :: "(nat \<Rightarrow> u8) \<Rightarrow> FAT32 \<Rightarrow> u32 \<Rightarrow> nat \<Rightarrow> DirectoryRecord" where
  "dir_entry d fat e k = record_of_bytes (disk_slice d (unat (dir_seek fat e k)) 32)"

definition fat_next :: "(nat \<Rightarrow> u8) \<Rightarrow> FAT32 \<Rightarrow> u32 \<Rightarrow> u32" where
  "fat_next d fat e = le32_at (disk_slice d (unat (fat_seek fat e)) 4) 0"

definition good_path :: "u8 list \<Rightarrow> u8 list \<Rightarrow> u8 list \<Rightarrow> bool" where
  "good_path file name ext \<longleftrightarrow> file \<noteq> [] \<and> hd file = 0x2f \<and> length (drop 1 file) \<le> 12 \<and>
     split_name file (length file - 1) = (name, ext) \<and> length name \<le> 8 \<and> length ext \<le> 3"

definition root_cluster :: "FAT32 \<Rightarrow> u32" where
  "root_cluster fat = ucast (root_dir_first_cluster fat)"

definition stale_byte :: "u8 \<Rightarrow> nat \<Rightarrow> u8" where
  "stale_byte junk k = (if k = 0 then junk else 0)"

definition in_root :: "(nat \<Rightarrow> u8) \<Rightarrow> u8 \<Rightarrow> FAT32 \<Rightarrow> u8 list \<Rightarrow> u8 list \<Rightarrow> nat \<Rightarrow> bool" where
  "in_root d junk fat name ext n \<longleftrightarrow> root_cluster fat < EOC \<and>
     (\<forall>k\<le>n. unat (dir_seek fat (root_cluster fat) k) + 32 < 2 ^ 32) \<and>
     (\<forall>k<n. \<not> rec_matches (stale_byte junk k) name ext (dir_entry d fat (root_cluster fat) k) \<and>
        shortname (dir_entry d fat (root_cluster fat) k) ! 0 \<noteq> 0) \<and>
     rec_matches (stale_byte junk n) name ext (dir_entry d fat (root_cluster fat) n)"

definition chain_run :: "(nat \<Rightarrow> u8) \<Rightarrow> FAT32 \<Rightarrow> u32 \<Rightarrow> nat \<Rightarrow> bool" where
  "chain_run d fat c len \<longleftrightarrow> unat c + len < unat EOC \<and>
     (\<forall>j<len. fat_next d fat (c + of_nat j) = c + of_nat j + 1) \<and>
     (\<forall>j\<le>len. unat (fat_seek fat (c + of_nat j)) + 4 < 2 ^ 32)"

lemma unat_EOC: "unat EOC = 0x0fffffff"
  by (simp add: EOC_def)

lemma unat_add_nat:
  fixes c :: u32
  assumes "unat c + j < 2 ^ 32"
  shows "unat (c + of_nat j) = unat c + j"
proof -
  have "unat (of_nat j :: u32) = j" using assms by (simp add: unat_of_nat take_bit_nat_eq_self)
  then show ?thesis using assms by (simp add: unat_add_lem [THEN iffD1])
qed

lemma chain_run_lt: "chain_run d fat c len \<Longrightarrow> c + of_nat len < EOC"
  using unat_add_nat [of c len] by (simp add: chain_run_def word_less_nat_alt unat_EOC)

lemma chain_run_Suc:
  assumes "chain_run d fat c (Suc len)"
  shows "c < EOC" "fat_next d fat c = c + 1" "unat (fat_seek fat c) + 4 < 2 ^ 32" "chain_run d fat (c + 1) len"
proof -
  show "c < EOC" "fat_next d fat c = c + 1" "unat (fat_seek fat c) + 4 < 2 ^ 32"
    using assms spec [where x = 0 and P = "\<lambda>j. j < Suc len \<longrightarrow> fat_next d fat (c + of_nat j) = c + of_nat j + 1"]
      spec [where x = 0 and P = "\<lambda>j. j \<le> Suc len \<longrightarrow> unat (fat_seek fat (c + of_nat j)) + 4 < 2 ^ 32"]
    by (auto simp: chain_run_def word_less_nat_alt unat_EOC)
  have u: "unat (c + 1) = unat c + 1"
    using assms unat_add_nat [of c 1] by (simp add: chain_run_def unat_EOC)
  have s: "c + 1 + of_nat j = c + of_nat (Suc j)" for j by simp
  from assms show "chain_run d fat (c + 1) len"
    unfolding chain_run_def s u by auto
qed

context block_device
begin

lemma read_struct:
  assumes "good b" "unat seek + n < 2 ^ 32"
  shows "\<exists>b'. blk_read_struct ops seek n b = Inr (disk_slice (disk b) (unat seek) n, b') \<and> good b' \<and> disk b' = disk b"
proof -
  have n: "unat (of_nat n :: u32) = n" using assms(2) by (simp add: unat_of_nat take_bit_nat_eq_self)
  with read_correct [OF assms(1), of seek "of_nat n"] assms(2) show ?thesis
    by (auto simp: blk_read_struct_def)
qed

lemma scan_dir_found:
  assumes "good b" "\<And>k. cnt \<le> k \<Longrightarrow> k \<le> n \<Longrightarrow> unat (dir_seek fat e k) + 32 < 2 ^ 32"
    and "\<And>k. cnt \<le> k \<Longrightarrow> k < n \<Longrightarrow> \<not> rec_matches (stale_byte junk (k - cnt)) name ext (dir_entry (disk b) fat e k) \<and>
      shortname (dir_entry (disk b) fat e k) ! 0 \<noteq> 0"
    and "rec_matches (stale_byte junk (n - cnt)) name ext (dir_entry (disk b) fat e n)" "cnt \<le> n" "n - cnt < fuel"
  shows "\<exists>b'. scan_dir fuel ops fat junk name ext e cnt b = Inr (Some (dir_entry (disk b) fat e n), b') \<and>
    good b' \<and> disk b' = disk b"
  using assms
proof (induction fuel arbitrary: cnt junk b)
  case (Suc fuel)
  obtain b1 where b1: "blk_read_struct ops (dir_seek fat e cnt) sizeof_DirectoryRecord b =
      Inr (disk_slice (disk b) (unat (dir_seek fat e cnt)) 32, b1)" "good b1" "disk b1 = disk b"
    using read_struct [OF Suc.prems(1), of "dir_seek fat e cnt" 32] Suc.prems(2) [of cnt] Suc.prems(5)
    by (auto simp: sizeof_DirectoryRecord_def)
  show ?case
  proof (cases "cnt = n")
    case True
    with b1 Suc.prems(4) show ?thesis by (simp add: dir_entry_def stale_byte_def Let_def)
  next
    case False
    then have lt: "cnt < n" using Suc.prems(5) by simp
    have later: "stale_byte junk (k - cnt) = 0" if "Suc cnt \<le> k" for k
      using that by (simp add: stale_byte_def)
    have "\<exists>b'. scan_dir fuel ops fat 0 name ext e (Suc cnt) b1 = Inr (Some (dir_entry (disk b1) fat e n), b') \<and>
        good b' \<and> disk b' = disk b1"
    proof (rule Suc.IH)
      show "good b1" "Suc cnt \<le> n" "n - Suc cnt < fuel" using b1(2) lt Suc.prems(6) by auto
      show "unat (dir_seek fat e k) + 32 < 2 ^ 32" if "Suc cnt \<le> k" "k \<le> n" for k
        using Suc.prems(2) that by simp
      show "\<not> rec_matches (stale_byte 0 (k - Suc cnt)) name ext (dir_entry (disk b1) fat e k) \<and>
          shortname (dir_entry (disk b1) fat e k) ! 0 \<noteq> 0" if "Suc cnt \<le> k" "k < n" for k
        using Suc.prems(3) [of k] later [of k] that b1(3) by (simp add: stale_byte_def)
      show "rec_matches (stale_byte 0 (n - Suc cnt)) name ext (dir_entry (disk b1) fat e n)"
        using Suc.prems(4) later [of n] lt b1(3) by (simp add: stale_byte_def)
    qed
    with b1 Suc.prems(3) [OF order_refl lt] show ?thesis by (simp add: dir_entry_def stale_byte_def Let_def)
  qed
qed simp

lemma check_chain_run:
  "good b \<Longrightarrow> chain_run (disk b) fat c len \<Longrightarrow>
   \<exists>b'. check_chain ops fat c b = check_chain ops fat (c + of_nat len) b' \<and> good b' \<and> disk b' = disk b"
proof (induction len arbitrary: c b)
  case (Suc len)
  note run = chain_run_Suc [OF Suc.prems(2)]
  obtain b1 where b1: "blk_read_struct ops (fat_seek fat c) 4 b =
      Inr (disk_slice (disk b) (unat (fat_seek fat c)) 4, b1)" "good b1" "disk b1 = disk b"
    using read_struct [OF Suc.prems(1) run(3)] by blast
  have "check_chain ops fat c b = check_chain ops fat (c + 1) b1"
    using b1(1) run(1,2) by (subst check_chain.simps) (simp add: fat_next_def)
  with Suc.IH [of b1 "c + 1"] b1 run(4) show ?case by (simp add: ac_simps)
qed auto

lemma check_chain_end:
  assumes "good b" "chain_run (disk b) fat c len"
    and "EOC \<le> fat_next (disk b) fat (c + of_nat len) \<or> fat_next (disk b) fat (c + of_nat len) \<noteq> c + of_nat len + 1"
  shows "\<exists>b'. check_chain ops fat c b = Inr (EOC \<le> fat_next (disk b) fat (c + of_nat len), b') \<and>
    good b' \<and> disk b' = disk b"
proof -
  obtain b1 where b1: "check_chain ops fat c b = check_chain ops fat (c + of_nat len) b1" "good b1" "disk b1 = disk b"
    using check_chain_run [OF assms(1,2)] by blast
  have "unat (fat_seek fat (c + of_nat len)) + 4 < 2 ^ 32" using assms(2) by (simp add: chain_run_def)
  then obtain b2 where b2: "blk_read_struct ops (fat_seek fat (c + of_nat len)) 4 b1 =
      Inr (disk_slice (disk b1) (unat (fat_seek fat (c + of_nat len))) 4, b2)" "good b2" "disk b2 = disk b1"
    using read_struct [OF b1(2)] by blast
  have e: "check_chain ops fat x b' = Inr (True, b')" if "EOC \<le> x" for x b'
    using leD [OF that] by (subst check_chain.simps) simp
  have "check_chain ops fat (c + of_nat len) b1 = Inr (EOC \<le> fat_next (disk b) fat (c + of_nat len), b2)"
    using b2 b1(3) chain_run_lt [OF assms(2)] assms(3) e
    by (subst check_chain.simps) (auto simp: fat_next_def Let_def not_less)
  with b1 b2 show ?thesis by auto
qed

lemma FAT32_Read_found:
  assumes "good (fsdrv_blk self)" "good_path file name ext"
    and "in_root (disk (fsdrv_blk self)) junk (fsdrv_obj self) name ext n" "n < fuel"
  shows "\<exists>b'. FAT32_Read fuel junk ops self file seek sz =
      bindE (read_found ops (fsdrv_obj self)
        (dir_entry (disk (fsdrv_blk self)) (fsdrv_obj self) (root_cluster (fsdrv_obj self)) n) seek sz b')
      (\<lambda>(ret, bs, blk). Inr (ret, bs, self\<lparr>fsdrv_blk := blk\<rparr>)) \<and> good b' \<and> disk b' = disk (fsdrv_blk self)"
proof -
  let ?fat = "fsdrv_obj self" and ?b = "fsdrv_blk self"
  let ?r = "dir_entry (disk ?b) ?fat (root_cluster ?fat) n"
  obtain b' where b': "scan_dir fuel ops ?fat junk name ext (root_cluster ?fat) 0 ?b = Inr (Some ?r, b')"
    "good b'" "disk b' = disk ?b"
    using scan_dir_found [OF assms(1), of 0 n ?fat "root_cluster ?fat" junk name ext fuel] assms(3,4)
    by (auto simp: in_root_def)
  moreover obtain k where "fuel = Suc k" using assms(4) by (cases fuel) auto
  ultimately have "find_file fuel ops ?fat junk name ext (root_cluster ?fat) ?b = Inr (Some ?r, b')"
    using assms(3) by (simp add: in_root_def)
  then show ?thesis using assms(2) b'(2,3)
    by (intro exI [of _ b']) (simp add: FAT32_Read_def good_path_def root_cluster_def)
qed

end

section \<open>Reading a file of the root directory\<close>

context block_device
begin

lemma FAT32_Read_chain:
  assumes "good (fsdrv_blk self)" "good_path file name ext"
    and "in_root (disk (fsdrv_blk self)) junk (fsdrv_obj self) name ext n" "n < fuel"
    and r: "r = dir_entry (disk (fsdrv_blk self)) (fsdrv_obj self) (root_cluster (fsdrv_obj self)) n"
    and "chain_run (disk (fsdrv_blk self)) (fsdrv_obj self) (rec_cluster r) len"
    and nx: "nx = fat_next (disk (fsdrv_blk self)) (fsdrv_obj self) (rec_cluster r + of_nat len)"
    and "EOC \<le> nx \<or> nx \<noteq> rec_cluster r + of_nat len + 1"
  shows "\<exists>b'. FAT32_Read fuel junk ops self file seek sz =
     (if EOC \<le> nx then
        let sz' = (if file_size r < seek + sz then file_size r - seek else sz);
            (_, bs, blk) = blk_seek_and_read ops (data_seek (fsdrv_obj self) (rec_cluster r) seek) sz' b'
        in Inr (sint sz', bs, self\<lparr>fsdrv_blk := blk\<rparr>)
      else Inr (- 1, [], self\<lparr>fsdrv_blk := b'\<rparr>)) \<and> good b' \<and> disk b' = disk (fsdrv_blk self)"
proof -
  obtain b1 where b1: "FAT32_Read fuel junk ops self file seek sz =
      bindE (read_found ops (fsdrv_obj self) r seek sz b1) (\<lambda>(ret, bs, blk). Inr (ret, bs, self\<lparr>fsdrv_blk := blk\<rparr>))"
    "good b1" "disk b1 = disk (fsdrv_blk self)"
    using FAT32_Read_found [OF assms(1-4)] r by metis
  obtain b2 where b2: "check_chain ops (fsdrv_obj self) (rec_cluster r) b1 = Inr (EOC \<le> nx, b2)"
    "good b2" "disk b2 = disk b1"
    using check_chain_end [OF b1(2), of "fsdrv_obj self" "rec_cluster r" len] assms(6,8) b1(3) nx by auto
  show ?thesis
    using b1 b2 by (intro exI [of _ b2]) (auto simp: read_found_def Let_def split_beta)
qed

lemma FAT32_Read_data:
  assumes "good (fsdrv_blk self)" "good_path file name ext"
    and "in_root (disk (fsdrv_blk self)) junk (fsdrv_obj self) name ext n" "n < fuel"
    and "r = dir_entry (disk (fsdrv_blk self)) (fsdrv_obj self) (root_cluster (fsdrv_obj self)) n"
    and "chain_run (disk (fsdrv_blk self)) (fsdrv_obj self) (rec_cluster r) len"
    and "EOC \<le> fat_next (disk (fsdrv_blk self)) (fsdrv_obj self) (rec_cluster r + of_nat len)"
    and seek: "unat seek \<le> unat (file_size r)" "unat seek + unat sz < 2 ^ 32" "unat sz < 2 ^ 31"
    and k: "k = min (unat sz) (unat (file_size r) - unat seek)"
    and "unat (data_seek (fsdrv_obj self) (rec_cluster r) seek) + k < 2 ^ 32"
  shows "\<exists>b'. FAT32_Read fuel junk ops self file seek sz = Inr (int k,
      disk_slice (disk (fsdrv_blk self)) (unat (data_seek (fsdrv_obj self) (rec_cluster r) seek)) k,
      self\<lparr>fsdrv_blk := b'\<rparr>) \<and> good b' \<and> disk b' = disk (fsdrv_blk self)"
proof -
  let ?sz = "if file_size r < seek + sz then file_size r - seek else sz"
  obtain b1 where b1: "FAT32_Read fuel junk ops self file seek sz =
     (let (_, bs, blk) = blk_seek_and_read ops (data_seek (fsdrv_obj self) (rec_cluster r) seek) ?sz b1
      in Inr (sint ?sz, bs, self\<lparr>fsdrv_blk := blk\<rparr>))" "good b1" "disk b1 = disk (fsdrv_blk self)"
    using FAT32_Read_chain [OF assms(1-6) refl, of seek sz] assms(7) by (auto simp: Let_def)
  have "unat (seek + sz) = unat seek + unat sz" using seek(2) by (simp add: unat_add_lem [THEN iffD1])
  moreover have "unat (file_size r - seek) = unat (file_size r) - unat seek"
    using seek(1) by (simp add: unat_sub word_le_nat_alt)
  ultimately have sz: "unat ?sz = k" using k by (auto simp: word_less_nat_alt min_def)
  have "sint ?sz = int k"
  proof -
    have "?sz = word_of_int (int k)" unfolding sz [symmetric] by simp
    moreover have "int k < 2 ^ 31" using k seek(3) by simp
    ultimately show ?thesis by (simp only:) (rule sint_word_of_int_eq_self, simp_all)
  qed
  moreover obtain b2 where "blk_seek_and_read ops (data_seek (fsdrv_obj self) (rec_cluster r) seek) ?sz b1 =
      (int (unat ?sz), disk_slice (disk b1) (unat (data_seek (fsdrv_obj self) (rec_cluster r) seek)) (unat ?sz), b2)"
    "good b2" "disk b2 = disk b1"
    using read_correct [OF b1(2), of "data_seek (fsdrv_obj self) (rec_cluster r) seek" ?sz] assms(12) sz by auto
  ultimately show ?thesis using b1 sz by auto
qed

end

section \<open>Where a volume keeps its parts\<close>

text \<open>
  Byte positions on a FAT32 volume: the entry of a cluster in the allocation table, and the data of a
  cluster, of which the first has number 2.  While they fit in 32 bits, the addresses the driver
  computes are these.
\<close>

definition fat_entry_pos :: "FAT32 \<Rightarrow> nat \<Rightarrow> nat" where
  "fat_entry_pos fat c = 0x200 * unat (fat_begin_lba fat) + 4 * c"

definition cluster_pos :: "FAT32 \<Rightarrow> nat \<Rightarrow> nat" where
  "cluster_pos fat c = 0x200 * (unat (cluster_begin_lba fat) + unat (fat_sectors_per_cluster fat) * (c - 2))"

lemma word_of_nat_unat64: "(of_nat (unat x) :: u64) = ucast (x :: u32)"
  by (simp add: word_unat_eq_iff unat_of_nat unsigned_ucast_eq)

lemma unat_seek64:
  fixes lba :: u64 and w off :: u32
  assumes "0x200 * (unat lba + unat w) + unat off < 2 ^ 32"
  shows "unat (ucast (0x200 * (lba + ucast w) + ucast off :: u64) :: u32) = 0x200 * (unat lba + unat w) + unat off"
proof -
  let ?n = "0x200 * (unat lba + unat w) + unat off"
  have "(0x200 * (lba + ucast w) + ucast off :: u64) = of_nat ?n"
    using word_of_nat_unat64 [of w] word_of_nat_unat64 [of off] by simp
  moreover have "unat (ucast (of_nat n :: u64) :: u32) = n" if "n < 2 ^ 32" for n
    using that by (simp add: unsigned_ucast_eq unat_of_nat take_bit_nat_eq_self)
  ultimately show ?thesis using assms by (simp only:)
qed

lemma unat_spc_mult:
  assumes "2 \<le> unat c" "unat spc * (unat c - 2) < 2 ^ 32"
  shows "unat (ucast (spc :: u8) * (c - 2) :: u32) = unat spc * (unat c - 2)"
proof -
  have "unat (c - 2) = unat c - 2" using unat_sub_ge [of 2 c] assms(1) by simp
  moreover have "unat (ucast spc :: u32) = unat spc"
    using unsigned_less [of spc, where ?'a = nat] by (simp add: unsigned_ucast_eq take_bit_nat_eq_self)
  ultimately show ?thesis using assms(2) by (simp add: unat_word_ariths)
qed

lemma data_seek_pos:
  assumes "2 \<le> unat c" "cluster_pos fat (unat c) + unat seek < 2 ^ 32"
  shows "unat (data_seek fat c seek) = cluster_pos fat (unat c) + unat seek"
  using unat_spc_mult [OF assms(1), of "fat_sectors_per_cluster fat"] assms(2)
    unat_seek64 [of "cluster_begin_lba fat" "ucast (fat_sectors_per_cluster fat) * (c - 2)" seek]
  by (simp add: data_seek_def cluster_pos_def)

lemma dir_seek_pos:
  assumes "2 \<le> unat c" "cluster_pos fat (unat c) + 32 * k < 2 ^ 32"
  shows "unat (dir_seek fat c k) = cluster_pos fat (unat c) + 32 * k"
proof -
  have "unat (of_nat k * of_nat sizeof_DirectoryRecord :: u32) = 32 * k"
    using assms(2) by (simp add: sizeof_DirectoryRecord_def unat_word_ariths unat_of_nat take_bit_nat_eq_self)
  then show ?thesis
    using unat_spc_mult [OF assms(1), of "fat_sectors_per_cluster fat"] assms(2)
      unat_seek64 [of "cluster_begin_lba fat" "ucast (fat_sectors_per_cluster fat) * (c - 2)"
        "of_nat k * of_nat sizeof_DirectoryRecord"]
    by (simp add: dir_seek_def cluster_pos_def mult.commute)
qed

lemma fat_seek_pos:
  assumes "fat_entry_pos fat (unat c) < 2 ^ 32"
  shows "unat (fat_seek fat c) = fat_entry_pos fat (unat c)"
proof -
  have "unat (c * 4) = 4 * unat c" using assms by (simp add: fat_entry_pos_def unat_word_ariths)
  then show ?thesis
    using unat_seek64 [of "fat_begin_lba fat" 0 "c * 4"] assms by (simp add: fat_seek_def fat_entry_pos_def)
qed

section \<open>Properties\<close>

text \<open>
  C3: Reading a file of the root directory returns the bytes of the file from the requested offset
  on, cut at the end of the file, and their number, and the card is not changed.  What this needs:
  (1) the card is obtained and holds no unsaved sector, and its controller is idle and ends each
  transfer before the next register access (\<open>sd_good\<close>); (2) the path is \<^verbatim>\<open>/NAME.EXT\<close> within
  8 and 3 characters; (3) the record is in the first cluster run of the root directory, after no end
  mark, and is the first one that the code's own comparison accepts: that comparison trims the
  extension from the byte after it, which is stack garbage for record 0 and zero afterwards, so
  that a record with an extension of less than three characters is in general not accepted;
  (4) the file's clusters are consecutive and their chain ends in an entry of at least 0x0fffffff
  (the end marks 0x0ffffff8 to 0x0ffffffe, though legal, make the code refuse the file);
  (5) the offset is at most the file size, the size asked for is below 2^31, offset and size add up
  to less than 2^32, the first cluster is at least 2, and every position read is below 4 GB; the
  directory scan is given more rounds than the number of the record.
\<close>

theorem fat32_read_correct:
  assumes "sd_good (fsdrv_blk self)" "good_path file name ext" "D = sd_disk (blk_obj (fsdrv_blk self))"
    and "in_root D junk (fsdrv_obj self) name ext n" "n < fuel"
    and "r = dir_entry D (fsdrv_obj self) (root_cluster (fsdrv_obj self)) n"
    and "chain_run D (fsdrv_obj self) (rec_cluster r) len"
    and "EOC \<le> fat_next D (fsdrv_obj self) (rec_cluster r + of_nat len)"
    and "unat seek \<le> unat (file_size r)" "unat seek + unat sz < 2 ^ 32" "unat sz < 2 ^ 31"
    and "k = min (unat sz) (unat (file_size r) - unat seek)"
    and "2 \<le> unat (rec_cluster r)" "pos = cluster_pos (fsdrv_obj self) (unat (rec_cluster r)) + unat seek"
    and "pos + k < 2 ^ 32"
  shows "\<exists>b'. FAT32_Read fuel junk sd_ops self file seek sz =
      Inr (int k, disk_slice D pos k, self\<lparr>fsdrv_blk := b'\<rparr>) \<and>
    sd_good b' \<and> sd_disk (blk_obj b') = D"
proof -
  have e: "unat (data_seek (fsdrv_obj self) (rec_cluster r) seek) = pos"
    using data_seek_pos [OF assms(13), of "fsdrv_obj self" seek] assms(14,15) by simp
  have "unat (data_seek (fsdrv_obj self) (rec_cluster r) seek) + k < 2 ^ 32" unfolding e by (rule assms(15))
  then show ?thesis
    unfolding e [symmetric] using sd.FAT32_Read_data [OF assms(1,2) _ assms(5)] assms(3,4,6-12) by simp
qed

text \<open>
  Reading from an offset past the end of the file reads nothing and returns the (negative)
  distance back to the end of the file.
\<close>

theorem fat32_read_past_end:
  assumes "sd_good (fsdrv_blk self)" "good_path file name ext" "D = sd_disk (blk_obj (fsdrv_blk self))"
    and "in_root D junk (fsdrv_obj self) name ext n" "n < fuel"
    and "r = dir_entry D (fsdrv_obj self) (root_cluster (fsdrv_obj self)) n"
    and "chain_run D (fsdrv_obj self) (rec_cluster r) len"
    and "EOC \<le> fat_next D (fsdrv_obj self) (rec_cluster r + of_nat len)"
    and "unat (file_size r) < unat seek" "unat seek + unat sz < 2 ^ 32"
    and "unat seek - unat (file_size r) < 2 ^ 31"
    and "unat seek - unat (file_size r) \<le> unat (data_seek (fsdrv_obj self) (rec_cluster r) seek)"
  shows "\<exists>self'. FAT32_Read fuel junk sd_ops self file seek sz =
    Inr (int (unat (file_size r)) - int (unat seek), [], self')"
proof -
  let ?sz = "file_size r - seek"
  have "unat (seek + sz) = unat seek + unat sz" using assms(10) by (simp add: unat_add_lem [THEN iffD1])
  then have lt: "file_size r < seek + sz" using assms(9) by (simp add: word_less_nat_alt)
  obtain b1 where b1: "FAT32_Read fuel junk sd_ops self file seek sz =
     (let (_, bs, blk) = blk_seek_and_read sd_ops (data_seek (fsdrv_obj self) (rec_cluster r) seek) ?sz b1
      in Inr (sint ?sz, bs, self\<lparr>fsdrv_blk := blk\<rparr>))"
    using sd.FAT32_Read_chain [OF assms(1,2) _ assms(5) _ _ refl, of junk r len seek sz] assms(3-8) lt
    by (auto simp: Let_def)
  have "unat (seek - file_size r) = unat seek - unat (file_size r)"
    using assms(9) by (simp add: unat_sub word_le_nat_alt)
  then have "fst (snd (blk_seek_and_read sd_ops (data_seek (fsdrv_obj self) (rec_cluster r) seek) ?sz b1)) = []"
    using read_negative [of "seek - file_size r"] assms(12) by simp
  moreover have "sint ?sz = int (unat (file_size r)) - int (unat seek)"
  proof -
    have "?sz = word_of_int (int (unat (file_size r)) - int (unat seek))" by simp
    moreover have "- (2 ^ 31) \<le> int (unat (file_size r)) - int (unat seek)"
    proof -
      have "unat seek - unat (file_size r) < 2147483648" using assms(11) by simp
      then have "int (unat seek) < int (unat (file_size r)) + 2147483648" by linarith
      then show ?thesis by simp
    qed
    moreover have "int (unat (file_size r)) - int (unat seek) < 2 ^ 31"
      using assms(9) by (simp only: of_nat_less_iff [symmetric, where ?'a = int]) simp
    ultimately show ?thesis by (simp only:) (rule sint_word_of_int_eq_self, simp_all)
  qed
  ultimately show ?thesis using b1 by (simp add: split_beta Let_def)
qed

text \<open>
  A file whose cluster chain has an entry other than the next cluster number and below
  0x0fffffff is refused with -1.  That covers fragmented files, and also consecutive files whose
  chain ends in one of the end marks 0x0ffffff8 to 0x0ffffffe that FAT32 allows.
\<close>

theorem fat32_read_refuses_gap:
  assumes "sd_good (fsdrv_blk self)" "good_path file name ext" "D = sd_disk (blk_obj (fsdrv_blk self))"
    and "in_root D junk (fsdrv_obj self) name ext n" "n < fuel"
    and "r = dir_entry D (fsdrv_obj self) (root_cluster (fsdrv_obj self)) n"
    and "chain_run D (fsdrv_obj self) (rec_cluster r) len"
    and "nx = fat_next D (fsdrv_obj self) (rec_cluster r + of_nat len)"
    and "nx < EOC" "nx \<noteq> rec_cluster r + of_nat len + 1"
  shows "\<exists>b'. FAT32_Read fuel junk sd_ops self file seek sz = Inr (- 1, [], self\<lparr>fsdrv_blk := b'\<rparr>)"
  using sd.FAT32_Read_chain [OF assms(1,2) _ assms(5) _ _ refl, of junk r len seek sz] assms(3-10)
  by (auto simp: Let_def)

section \<open>Short names\<close>

lemma c_str_id: "0 \<notin> set bs \<Longrightarrow> c_str bs = bs"
  by (simp add: c_str_def takeWhile_eq_all_conv) metis

lemma c_str_append0: "0 \<notin> set bs \<Longrightarrow> c_str (bs @ 0 # xs) = bs"
  unfolding c_str_def by (subst takeWhile_append2) auto

lemma strncpy_id: "0 \<notin> set (take n bs) \<Longrightarrow> n \<le> length bs \<Longrightarrow> strncpy n bs = take n bs"
  by (simp add: strncpy_def c_str_id Let_def)

lemma trim_stop: "s ! i \<noteq> 0x20 \<Longrightarrow> trim_spaces (Suc i) s = s"
  by simp

lemma rec_ext_untrimmed:
  assumes "length (shortname r) = 11" "0 \<notin> set (shortname r)" "junk \<noteq> 0x20"
  shows "rec_ext junk r = drop 8 (shortname r)"
proof -
  have l: "length (drop 8 (shortname r)) = 3" using assms(1) by simp
  have z: "0 \<notin> set (drop 8 (shortname r))" using assms(2) by (meson in_set_dropD)
  have "strncpy 3 (drop 8 (shortname r)) = drop 8 (shortname r)"
    using strncpy_id [of 3 "drop 8 (shortname r)"] z l by simp
  moreover have "trim_spaces 4 (drop 8 (shortname r) @ [junk]) = drop 8 (shortname r) @ [junk]"
    using trim_stop [of "drop 8 (shortname r) @ [junk]" 3] l assms(3)
    by (simp add: nth_append numeral_eq_Suc)
  moreover have "(drop 8 (shortname r) @ [junk])[3 := 0] = drop 8 (shortname r) @ [0]"
    using l by (simp add: list_update_append)
  ultimately show ?thesis using c_str_append0 [OF z, of "[]"] by (simp add: rec_ext_def)
qed

text \<open>
  The extension of a directory record is not trimmed unless the stack byte after it happens to
  be a space, which it never is after the first record examined: a record whose extension is
  padded with spaces, as for any file with an extension of less than three characters, is then
  not found under its name.
\<close>

theorem fat32_short_ext_not_matched:
  assumes "length (shortname r) = 11" "0 \<notin> set (shortname r)" "shortname r ! 10 = 0x20"
    and "junk \<noteq> 0x20" "0x20 \<notin> set ext"
  shows "\<not> rec_matches junk name ext r"
proof -
  have "drop 8 (shortname r) ! 2 = 0x20" "2 < length (drop 8 (shortname r))" using assms(1,3) by simp_all
  then have "0x20 \<in> set (drop 8 (shortname r))" by (metis nth_mem)
  with rec_ext_untrimmed [OF assms(1,2,4)] assms(5) show ?thesis by (auto simp: rec_matches_def)
qed

lemma trim_padding:
  "n \<le> length xs \<Longrightarrow> xs \<noteq> [] \<longrightarrow> last (take n xs) \<noteq> 0x20 \<or> n = 0 \<Longrightarrow> trim_spaces n xs = xs"
proof (cases n)
  case (Suc k)
  assume "n \<le> length xs" and l: "xs \<noteq> [] \<longrightarrow> last (take n xs) \<noteq> 0x20 \<or> n = 0"
  with Suc have "take n xs = take k xs @ [xs ! k]" "xs \<noteq> []" by (auto simp: take_Suc_conv_app_nth)
  with l Suc show "trim_spaces n xs = xs" by simp
qed simp

lemma replicate_update_last: "(replicate (Suc p) x)[p := y] = replicate p x @ [y]"
  by (induction p) simp_all

lemma trim_pad:
  "nm \<noteq> [] \<Longrightarrow> last nm \<noteq> 0x20 \<Longrightarrow>
   trim_spaces (length nm + p) (nm @ replicate p 0x20 @ zs) = nm @ replicate p 0 @ zs"
proof (induction p arbitrary: zs)
  case 0
  then show ?case using trim_padding [of "length nm" "nm @ zs"] by simp
next
  case (Suc p)
  have at: "(nm @ replicate (Suc p) 0x20 @ zs) ! (length nm + p) = 0x20"
    by (simp add: nth_append del: replicate_Suc)
  have "(nm @ replicate (Suc p) 0x20 @ zs)[length nm + p := 0] = nm @ replicate p 0x20 @ 0 # zs"
    by (simp add: list_update_append replicate_update_last del: replicate_Suc)
  with at Suc.IH [OF Suc.prems, of "0 # zs"] show ?case
    by (simp add: replicate_app_Cons_same del: replicate_Suc) (simp add: replicate_app_Cons_same)
qed

lemma split_name_dot:
  assumes "0x2e \<notin> set ext"
  shows "split_name (0x2f # nm @ 0x2e # ext) (length nm + 1 + length ext) = (nm, ext)"
proof -
  have "split_name (0x2f # nm @ 0x2e # ext) (length nm + 1 + j) = (nm, ext)" if "j \<le> length ext" for j
    using that
  proof (induction j)
    case 0
    then show ?case by simp
  next
    case (Suc j)
    then have "ext ! j \<noteq> 0x2e" using assms by (metis Suc_le_lessD nth_mem)
    moreover have "(0x2f # nm @ 0x2e # ext) ! (Suc (length nm + 1 + j)) = ext ! j"
      by (simp add: nth_append)
    ultimately show ?case using Suc by simp
  qed
  then show ?thesis by simp
qed

text \<open>
  A path /NAME.EXT with a three character extension names the file whose directory record
  holds NAME padded with spaces to eight characters and EXT, whatever the stack byte is.
\<close>

theorem fat32_short_name_roundtrip:
  assumes "nm \<noteq> []" "length nm \<le> 8" "length ext = 3" "0 \<notin> set nm" "0 \<notin> set ext" "0x20 \<notin> set nm"
    and "0x20 \<notin> set ext" "0x2e \<notin> set ext" "shortname r = nm @ replicate (8 - length nm) 0x20 @ ext"
    and "is_valid_file r"
  shows "good_path (0x2f # nm @ 0x2e # ext) nm ext \<and> rec_matches junk nm ext r"
proof
  show "good_path (0x2f # nm @ 0x2e # ext) nm ext"
    using assms(2,3) split_name_dot [OF assms(8), of nm] by (simp add: good_path_def add.commute)
  have last: "last nm \<noteq> 0x20" using assms(1,6) by (metis last_in_set)
  have "take 8 (shortname r) = nm @ replicate (8 - length nm) 0x20"
    using assms(2,9) by simp
  then have "strncpy 8 (shortname r) = nm @ replicate (8 - length nm) 0x20"
    using strncpy_id [of 8 "shortname r"] assms(2-4,9) by simp
  then have "rec_name r = c_str (nm @ replicate (8 - length nm) 0)"
    using trim_pad [OF assms(1) last, of "8 - length nm" "[]"] assms(2) by (simp add: rec_name_def)
  also have "\<dots> = nm"
    using c_str_id [OF assms(4)] c_str_append0 [OF assms(4)] by (cases "8 - length nm") simp_all
  finally have name: "rec_name r = nm" .
  have ext: "drop 8 (shortname r) = ext" using assms(2,9) by simp
  have s: "strncpy 3 ext = ext" using strncpy_id [of 3 ext] assms(3,5) by simp
  obtain a b c where e: "ext = [a, b, c]" using assms(3) by (auto simp: numeral_eq_Suc length_Suc_conv)
  have "trim_spaces 4 (ext @ [junk]) = ext @ [if junk = 0x20 then 0 else junk]"
    using assms(7) by (simp add: e numeral_eq_Suc)
  then have "rec_ext junk r = c_str (ext @ [0])"
    by (simp add: rec_ext_def ext s) (simp add: e)
  then have "rec_ext junk r = ext" using c_str_append0 [OF assms(5), of "[]"] by simp
  with name assms(10) show "rec_matches junk nm ext r" by (simp add: rec_matches_def)
qed

section \<open>Witnesses\<close>

text \<open>
  A volume with one-sector clusters: the FAT in sector 1, the root directory in cluster 2 (sector
  2), and the file UENV.TXT of five bytes in cluster 3, whose FAT entry is the parameter.
\<close>

definition uenv_record :: "u8 list" where
  "uenv_record = [0x55, 0x45, 0x4e, 0x56, 0x20, 0x20, 0x20, 0x20, 0x54, 0x58, 0x54, 0x20,
     0, 0, 0, 0, 0, 0, 0, 0, 0, 0, 0, 0, 0, 0, 3, 0, 5, 0, 0, 0]"

definition demo_disk :: "u8 list \<Rightarrow> nat \<Rightarrow> u8" where
  "demo_disk fat3 a = (if 1024 \<le> a \<and> a < 1056 then uenv_record ! (a - 1024)
     else if 524 \<le> a \<and> a < 528 then fat3 ! (a - 524)
     else if 1536 \<le> a \<and> a < 1541 then [0x68, 0x65, 0x6c, 0x6c, 0x6f] ! (a - 1536) else 0)"

definition demo_fat :: FAT32 where
  "demo_fat = \<lparr>fat_bs = boot_sector_of_bytes [], fat_sectors_per_cluster = 1, fat_begin_lba = 1,
     cluster_begin_lba = 2, root_dir_first_cluster = 2, lba_addr_root = 2\<rparr>"

definition demo_drv :: "u8 list \<Rightarrow> SDCard FSDrv" where
  "demo_drv fat3 = \<lparr>fsdrv_blk = (card 0)\<lparr>blk_obj := (blk_obj (card 0))\<lparr>sd_disk := demo_disk fat3\<rparr>\<rparr>,
     fsdrv_part = 1, fsdrv_obj = demo_fat\<rparr>"

definition uenv_path :: "u8 list" where
  "uenv_path = [0x2f, 0x55, 0x45, 0x4e, 0x56, 0x2e, 0x54, 0x58, 0x54]"

lemma demo_seeks:
  "root_cluster demo_fat = 2" "dir_seek demo_fat 2 0 = 1024" "fat_seek demo_fat 3 = 524"
  "data_seek demo_fat 3 1 = 1537" "data_seek demo_fat 3 7 = 1543" "cluster_pos demo_fat 3 = 1536"
  by (simp_all add: cluster_pos_def demo_fat_def root_cluster_def dir_seek_def fat_seek_def data_seek_def sizeof_DirectoryRecord_def)

lemma uenv_record_slice: "disk_slice (demo_disk fat3) 1024 32 = uenv_record"
  by (rule nth_equalityI) (simp_all add: disk_slice_def demo_disk_def uenv_record_def)

definition uenv_file :: DirectoryRecord where
  "uenv_file = \<lparr>shortname = take 11 uenv_record,
    attrib_r = False, attrib_h = False, attrib_s = False, attrib_v = False, attrib_d = False, attrib_a = True,
    file_cluster_high = 0, file_cluster_low = 3, file_size = 5\<rparr>"

lemma uenv_entry: "dir_entry (demo_disk fat3) demo_fat 2 0 = uenv_file"
  by (simp add: dir_entry_def demo_seeks uenv_record_slice record_of_bytes_def uenv_file_def)
    (simp add: uenv_record_def le16_at_def le32_at_def)

lemma demo_good: "sd_good (fsdrv_blk (demo_drv fat3))" "fsdrv_obj (demo_drv fat3) = demo_fat"
  "sd_disk (blk_obj (fsdrv_blk (demo_drv fat3))) = demo_disk fat3"
  by (simp_all add: demo_drv_def card_def sd_good_def)

lemma demo_path: "good_path uenv_path [0x55, 0x45, 0x4e, 0x56] [0x54, 0x58, 0x54]"
  by code_simp

lemma demo_in_root: "in_root (demo_disk fat3) 0 demo_fat [0x55, 0x45, 0x4e, 0x56] [0x54, 0x58, 0x54] 0"
proof -
  have "rec_matches 0 [0x55, 0x45, 0x4e, 0x56] [0x54, 0x58, 0x54] uenv_file" by code_simp
  then show ?thesis by (simp add: in_root_def stale_byte_def demo_seeks EOC_def uenv_entry)
qed

lemma demo_file: "rec_cluster uenv_file = 3" "file_size uenv_file = 5"
  by (simp_all add: uenv_file_def rec_cluster_def)

lemma demo_chain: "chain_run (demo_disk fat3) demo_fat 3 0"
  by (simp add: chain_run_def unat_EOC demo_seeks)

lemma demo_next:
  "fat_next (demo_disk [0xff, 0xff, 0xff, 0x0f]) demo_fat 3 = 0x0fffffff"
  "fat_next (demo_disk [0xf8, 0xff, 0xff, 0x0f]) demo_fat 3 = 0x0ffffff8"
  by (simp_all add: fat_next_def demo_seeks disk_slice_def demo_disk_def le32_at_def upt_rec)

lemmas demo_facts = demo_good demo_in_root demo_seeks demo_file demo_chain demo_next uenv_entry

theorem fat32_read_correct_witness:
  "\<exists>self'. FAT32_Read 1 0 sd_ops (demo_drv [0xff, 0xff, 0xff, 0x0f]) uenv_path 1 100 =
     Inr (4, [0x65, 0x6c, 0x6c, 0x6f], self')"
proof -
  let ?drv = "demo_drv [0xff, 0xff, 0xff, 0x0f]" and ?D = "demo_disk [0xff, 0xff, 0xff, 0x0f]"
  have s: "disk_slice ?D 1537 4 = [0x65, 0x6c, 0x6c, 0x6f]"
    by (simp add: disk_slice_def demo_disk_def upt_rec)
  have "\<exists>b'. FAT32_Read 1 0 sd_ops ?drv uenv_path 1 100 = Inr (int 4, disk_slice ?D 1537 4, ?drv\<lparr>fsdrv_blk := b'\<rparr>) \<and>
    sd_good b' \<and> sd_disk (blk_obj b') = ?D"
    by (rule fat32_read_correct [OF demo_good(1) demo_path, where n = 0 and len = 0 and r = uenv_file])
      (simp_all add: demo_facts EOC_def)
  then show ?thesis by (auto simp: s)
qed

theorem fat32_read_past_end_witness:
  "\<exists>self'. FAT32_Read 1 0 sd_ops (demo_drv [0xff, 0xff, 0xff, 0x0f]) uenv_path 7 100 = Inr (- 2, [], self')"
proof -
  let ?drv = "demo_drv [0xff, 0xff, 0xff, 0x0f]"
  have "\<exists>self'. FAT32_Read 1 0 sd_ops ?drv uenv_path 7 100 =
      Inr (int (unat (file_size uenv_file)) - int (unat (7 :: u32)), [], self')"
    by (rule fat32_read_past_end [OF demo_good(1) demo_path refl, where n = 0 and len = 0])
      (simp_all add: demo_facts EOC_def)
  then show ?thesis by (simp add: demo_file)
qed

theorem fat32_read_refuses_gap_witness:
  "\<exists>self'. FAT32_Read 1 0 sd_ops (demo_drv [0xf8, 0xff, 0xff, 0x0f]) uenv_path 1 100 = Inr (- 1, [], self')"
proof -
  let ?drv = "demo_drv [0xf8, 0xff, 0xff, 0x0f]"
  have "\<exists>b'. FAT32_Read 1 0 sd_ops ?drv uenv_path 1 100 = Inr (- 1, [], ?drv\<lparr>fsdrv_blk := b'\<rparr>)"
    by (rule fat32_read_refuses_gap [OF demo_good(1) demo_path refl, where n = 0 and len = 0 and r = uenv_file and nx = "0x0ffffff8"])
      (simp_all add: demo_facts EOC_def)
  then show ?thesis by blast
qed

text \<open>A record KERNEL without extension: not found with a zero stack byte, found with a space there.\<close>

definition kernel_record :: DirectoryRecord where
  "kernel_record = \<lparr>shortname = [0x4b, 0x45, 0x52, 0x4e, 0x45, 0x4c, 0x20, 0x20, 0x20, 0x20, 0x20],
     attrib_r = False, attrib_h = False, attrib_s = False, attrib_v = False, attrib_d = False, attrib_a = True,
     file_cluster_high = 0, file_cluster_low = 3, file_size = 5\<rparr>"

theorem fat32_short_ext_not_matched_witness:
  "\<not> rec_matches 0 [0x4b, 0x45, 0x52, 0x4e, 0x45, 0x4c] [] kernel_record \<and>
   rec_matches 0x20 [0x4b, 0x45, 0x52, 0x4e, 0x45, 0x4c] [] kernel_record"
proof
  show "\<not> rec_matches 0 [0x4b, 0x45, 0x52, 0x4e, 0x45, 0x4c] [] kernel_record"
    by (rule fat32_short_ext_not_matched) (simp_all add: kernel_record_def)
  show "rec_matches 0x20 [0x4b, 0x45, 0x52, 0x4e, 0x45, 0x4c] [] kernel_record" by code_simp
qed

theorem fat32_short_name_roundtrip_witness:
  "good_path uenv_path [0x55, 0x45, 0x4e, 0x56] [0x54, 0x58, 0x54] \<and>
   rec_matches 7 [0x55, 0x45, 0x4e, 0x56] [0x54, 0x58, 0x54] (dir_entry (demo_disk []) demo_fat 2 0)"
proof -
  have "replicate 4 (0x20 :: u8) = [0x20, 0x20, 0x20, 0x20]" by code_simp
  then show ?thesis
    using fat32_short_name_roundtrip [of "[0x55, 0x45, 0x4e, 0x56]" "[0x54, 0x58, 0x54]"
        "dir_entry (demo_disk []) demo_fat 2 0" 7]
    by (simp add: uenv_entry uenv_file_def uenv_path_def uenv_record_def is_valid_file_def)
qed

end
