(* ===== verification/SDLoad.thy ===== *)
theory SDLoad
  imports SDBlk
begin

text \<open>
  Loading from a block device that takes time: \<^verbatim>\<open>sdcard_init\<close> and \<^verbatim>\<open>sdcard_to_memory\<close> of
  \<^verbatim>\<open>sdboot.c\<close>.  Unlike the block layer these routines wait for the device; the number of polls a
  waiting loop may take is the fuel, and running out of it is \<open>Hang\<close>.  The locale
  \<open>waiting_device\<close> is what they rely on, and an SD card of any latency provides it.
\<close>

section \<open>Operations\<close>

text \<open>\<^verbatim>\<open>while(!sdblk->isready(sdblk));\<close>\<close>

fun wait_blk :: "'o BlkOps \<Rightarrow> nat \<Rightarrow> 'o Blk \<Rightarrow> kfault + 'o Blk" where
  "wait_blk ops 0 blk = Inl Hang"
| "wait_blk ops (Suc n) blk = (let (r, blk) = op_isready ops blk in if r \<noteq> 0 then Inr blk else wait_blk ops n blk)"

definition fetch_sector :: "'o BlkOps \<Rightarrow> nat \<Rightarrow> u32 \<Rightarrow> 'o Blk \<Rightarrow> kfault + 'o Blk" where
  "fetch_sector ops fuel sec blk = wait_blk ops fuel (snd (op_load ops (snd (op_ioctl ops 0 sec blk))))"

text \<open>
  The copying loop with \<open>n\<close> words to go.  The offset counts words of the cache, which has 128.
\<close>

fun copy_words :: "'o BlkOps \<Rightarrow> nat \<Rightarrow> nat \<Rightarrow> u32 \<Rightarrow> nat \<Rightarrow> u32 \<Rightarrow> mem \<Rightarrow> 'o Blk \<Rightarrow> kfault + mem \<times> 'o Blk" where
  "copy_words ops fuel 0 curr_sec curr_offset a m blk = Inr (m, blk)"
| "copy_words ops fuel (Suc n) curr_sec curr_offset a m blk =
     (if 128 \<le> curr_offset then Inl BadPointer
      else let (w, blk) = op_cache ops curr_offset blk; m = store32 m a w in
        if Suc curr_offset = 0x200 div 4 then
          bindE (fetch_sector ops fuel (curr_sec + 1) blk)
            (copy_words ops fuel n (curr_sec + 1) 0 (a + 4) m)
        else copy_words ops fuel n curr_sec (Suc curr_offset) (a + 4) m blk)"

definition sdcard_to_memory ::
  "'o BlkOps \<Rightarrow> nat \<Rightarrow> int \<Rightarrow> u32 \<Rightarrow> u32 \<Rightarrow> 'o Blk \<Rightarrow> mem \<Rightarrow> kfault + mem \<times> 'o Blk" where
  "sdcard_to_memory ops fuel from_byte count mem_start blk m =
     (let (dirty, blk) = op_isdirty ops blk;
          blk = (if dirty \<noteq> 0 then snd (op_writeback ops blk) else blk);
          curr_sec = word_of_int (from_byte sdiv 0x200);
          curr_offset = unat (word_of_int (from_byte smod 0x200) :: u32)
      in bindE (fetch_sector ops fuel curr_sec blk) (copy_words ops fuel (unat count) curr_sec curr_offset mem_start m))"

text \<open>
  \<^verbatim>\<open>sdcard_init\<close> gives up after 30000 polls; otherwise it selects sector 0 and starts loading it.
\<close>

fun poll_ready :: "'o BlkOps \<Rightarrow> nat \<Rightarrow> 'o Blk \<Rightarrow> bool \<times> 'o Blk" where
  "poll_ready ops 0 blk = (False, blk)"
| "poll_ready ops (Suc n) blk = (let (r, blk) = op_isready ops blk in if r \<noteq> 0 then (True, blk) else poll_ready ops n blk)"

definition sdcard_init :: "SDCard \<Rightarrow> SDCard Blk" where
  "sdcard_init sd = (let (ops, blk) = get_sd_blk sd; (ready, blk) = poll_ready ops 30000 blk in
     if \<not> ready then blk else snd (op_load ops (snd (op_ioctl ops 0 0 blk))))"

section \<open>What loading relies on\<close>

text \<open>
  \<open>idle\<close>: the device has nothing to do; \<open>polls\<close> bounds how often it has to be polled after a
  load, and does not change.
\<close>

locale waiting_device =
  fixes ops :: "'o BlkOps"
    and idle :: "'o Blk \<Rightarrow> bool"
    and holds :: "'o Blk \<Rightarrow> nat \<Rightarrow> bool"
    and disk :: "'o Blk \<Rightarrow> nat \<Rightarrow> u8"
    and polls :: "'o Blk \<Rightarrow> nat"
  assumes sync: "idle b \<Longrightarrow> let (d, b1) = op_isdirty ops b; b2 = (if d \<noteq> 0 then snd (op_writeback ops b1) else b1)
      in idle b2 \<and> disk b2 = disk b \<and> polls b2 = polls b"
    and fetch: "idle b \<Longrightarrow> sec < 2 ^ 23 \<Longrightarrow> polls b \<le> fuel \<Longrightarrow>
      \<exists>b'. fetch_sector ops fuel (of_nat sec) b = Inr b' \<and> holds b' sec \<and> disk b' = disk b \<and> polls b' = polls b"
    and cache: "holds b sec \<Longrightarrow> i < 128 \<Longrightarrow>
      \<exists>b'. op_cache ops i b = (le_word (disk b) (0x200 * sec + 4 * i), b') \<and> holds b' sec \<and> disk b' = disk b \<and> polls b' = polls b"
    and holds_idle: "holds b sec \<Longrightarrow> idle b"
begin

lemma copy_words_correct:
  assumes "holds b sec" "off < 128" "sec + (off + n) div 128 < 2 ^ 23" "polls b \<le> fuel"
  shows "\<exists>b'. copy_words ops fuel n (of_nat sec) off a m b =
      Inr (store_words m a (map (\<lambda>i. le_word (disk b) (0x200 * sec + 4 * (off + i))) [0..<n]), b') \<and>
    idle b' \<and> disk b' = disk b"
  using assms
proof (induction n arbitrary: sec off a m b)
  case 0
  then show ?case using holds_idle by auto
next
  case (Suc n)
  let ?w = "le_word (disk b) (0x200 * sec + 4 * off)"
  from cache [OF Suc.prems(1,2)] obtain b1 where b1: "op_cache ops off b = (?w, b1)" "holds b1 sec"
    "disk b1 = disk b" "polls b1 = polls b" by auto
  have split: "map (\<lambda>i. le_word (disk b) (0x200 * sec + 4 * (off + i))) [0..<Suc n] =
      ?w # map (\<lambda>i. le_word (disk b) (0x200 * sec + 4 * (off + Suc i))) [0..<n]"
    by (simp add: upt_conv_Cons map_Suc_upt [symmetric] comp_def add.left_commute add.commute del: upt_Suc)
  show ?case
  proof (cases "Suc off = 128")
    case True
    have nxt: "off + Suc n = 128 + n" using True by simp
    have sec: "Suc sec + n div 128 < 2 ^ 23" using Suc.prems(3) unfolding nxt by simp
    then have "Suc sec < 2 ^ 23" by simp
    with fetch [OF holds_idle [OF b1(2)], of "Suc sec" fuel] b1(4) Suc.prems(4)
    obtain b2 where b2: "fetch_sector ops fuel (of_nat (Suc sec)) b1 = Inr b2" "holds b2 (Suc sec)"
      "disk b2 = disk b1" "polls b2 = polls b1" by auto
    have le: "0x200 * Suc sec + 4 * (0 + i) = 0x200 * sec + 4 * (off + Suc i)" for i using True by simp
    from Suc.IH [OF b2(2), of 0 "a + 4" "store32 m a ?w"] sec b1 b2 Suc.prems(4)
    obtain b3 where "copy_words ops fuel n (of_nat (Suc sec)) 0 (a + 4) (store32 m a ?w) b2 =
        Inr (store_words (store32 m a ?w) (a + 4) (map (\<lambda>i. le_word (disk b) (0x200 * sec + 4 * (off + Suc i))) [0..<n]), b3)"
      "idle b3" "disk b3 = disk b" by (auto simp only: le) (auto simp: le)
    with b1 b2(1) True split show ?thesis by (simp add: add.commute)
  next
    case False
    with Suc.prems(2) have off: "Suc off < 128" by simp
    from Suc.IH [OF b1(2) off, of "a + 4" "store32 m a ?w"] Suc.prems(3,4) b1
    obtain b3 where "copy_words ops fuel n (of_nat sec) (Suc off) (a + 4) (store32 m a ?w) b1 =
        Inr (store_words (store32 m a ?w) (a + 4) (map (\<lambda>i. le_word (disk b) (0x200 * sec + 4 * (off + Suc i))) [0..<n]), b3)"
      "idle b3" "disk b3 = disk b" by auto
    with b1(1) False Suc.prems(2) split show ?thesis by simp
  qed
qed

lemma to_memory_correct:
  assumes "idle b" "polls b \<le> fuel" "start mod 0x200 < 128"
    and "0x200 * (start div 0x200) + 4 * (start mod 0x200 + unat count) < 2 ^ 32"
  shows "\<exists>b'. sdcard_to_memory ops fuel (int start) count a b m =
      Inr (store_words m a (map (\<lambda>i. le_word (disk b) (0x200 * (start div 0x200) + 4 * (start mod 0x200 + i))) [0..<unat count]), b') \<and>
    idle b' \<and> disk b' = disk b"
proof -
  let ?sec = "start div 0x200" and ?off = "start mod 0x200"
  obtain d b1 where d: "op_isdirty ops b = (d, b1)" by (cases "op_isdirty ops b")
  define b2 where "b2 = (if d \<noteq> 0 then snd (op_writeback ops b1) else b1)"
  have b2: "idle b2" "disk b2 = disk b" "polls b2 = polls b"
    using sync [OF assms(1)] d by (simp_all add: b2_def Let_def)
  have div: "int start sdiv 0x200 = int ?sec" "int start smod 0x200 = int ?off"
    by (cases "start = 0"; simp add: signed_divide_int_def signed_modulo_int_def zdiv_int zmod_int)+
  have arith: "512 * x + 4 * y < 2 ^ 32 \<Longrightarrow> x + y div 128 < 2 ^ 23" for x y :: nat
    using div_mult_mod_eq [of y 128] by simp
  have sec: "?sec + (?off + unat count) div 128 < 2 ^ 23" using assms(4) by (intro arith) simp
  then have "?sec < 2 ^ 23" by linarith
  with fetch [OF b2(1), of ?sec fuel] assms(2) b2(3) obtain b3 where
    b3: "fetch_sector ops fuel (of_nat ?sec) b2 = Inr b3" "holds b3 ?sec" "disk b3 = disk b2" "polls b3 = polls b2"
    by auto
  have off: "unat (of_nat ?off :: u32) = ?off"
    using assms(3) by (simp add: unat_of_nat take_bit_nat_eq_self)
  from copy_words_correct [OF b3(2) assms(3) sec, of fuel a m] assms(2) b2 b3 show ?thesis
    by (auto simp: sdcard_to_memory_def d b2_def [symmetric] div off Let_def simp flip: of_nat_mod of_nat_div)
qed

end

section \<open>Both devices provide it\<close>

text \<open>The SD card, with any latency.\<close>

definition sd_idle :: "SDCard Blk \<Rightarrow> bool" where
  "sd_idle b \<longleftrightarrow> mm_busy (blk_obj b) = 0 \<and> \<not> mm_dirty (blk_obj b)"

definition sd_loaded :: "SDCard Blk \<Rightarrow> nat \<Rightarrow> bool" where
  "sd_loaded b sec \<longleftrightarrow> sd_idle b \<and> mm_cache (blk_obj b) = read_sector (sd_disk (blk_obj b)) sec"

lemma wait_sd:
  assumes "mm_busy (blk_obj b) \<le> n" "0 < mm_busy (blk_obj b)" "mm_op (blk_obj b) = SD_Read"
  shows "wait_blk sd_ops n b = Inr (b\<lparr>blk_obj := sd_complete (blk_obj b)\<rparr>)"
  using assms
proof (induction n arbitrary: b)
  case 0
  then show ?case by simp
next
  case (Suc n)
  show ?case
  proof (cases "mm_busy (blk_obj b) = 1")
    case True
    with Suc.prems(3) show ?thesis
      by (simp add: sd_ops_def sd_blk_isready_def sd_tick_def sd_complete_def Let_def)
  next
    case False
    let ?b = "b\<lparr>blk_obj := (blk_obj b)\<lparr>mm_busy := mm_busy (blk_obj b) - 1\<rparr>\<rparr>"
    have "wait_blk sd_ops (Suc n) b = wait_blk sd_ops n ?b"
      using False Suc.prems(2) by (simp add: sd_ops_def sd_blk_isready_def sd_tick_def Let_def)
    also have "\<dots> = Inr (?b\<lparr>blk_obj := sd_complete (blk_obj ?b)\<rparr>)"
      using Suc.prems False by (intro Suc.IH) simp_all
    finally show ?thesis using Suc.prems(3) by (simp add: sd_complete_def)
  qed
qed

lemma fetch_sd:
  assumes "sd_idle b" "sec < 2 ^ 23" "Suc (sd_latency (blk_obj b)) \<le> fuel"
  shows "fetch_sector sd_ops fuel (of_nat sec) b = Inr (b\<lparr>blk_obj := (blk_obj b)\<lparr>mm_address := of_nat sec,
    mm_op := SD_Read, mm_cache := read_sector (sd_disk (blk_obj b)) sec\<rparr>\<rparr>)"
proof -
  have u: "unat (of_nat sec :: u32) = sec" using assms(2) by (simp add: unat_of_nat take_bit_nat_eq_self)
  let ?s = "(blk_obj b)\<lparr>mm_address := of_nat sec, mm_op := SD_Read\<rparr>"
  obtain n where n: "fuel = Suc n" using assms(3) by (cases fuel) auto
  have idle: "mm_busy (blk_obj b) = 0" using assms(1) by (simp add: sd_idle_def)
  show ?thesis
  proof (cases "sd_latency (blk_obj b) = 0")
    case True
    then show ?thesis using idle
      by (simp add: fetch_sector_def n sd_ops_def sd_blk_load_def sd_blk_ioctl_def sd_blk_isready_def
          sd_write_address_def sd_start_def sd_tick_def sd_complete_def Let_def u)
  next
    case False
    have "fetch_sector sd_ops fuel (of_nat sec) b =
        wait_blk sd_ops fuel (b\<lparr>blk_obj := ?s\<lparr>mm_busy := sd_latency (blk_obj b)\<rparr>\<rparr>)"
      using False idle by (simp add: fetch_sector_def sd_ops_def sd_blk_load_def sd_blk_ioctl_def
          sd_write_address_def sd_start_def sd_tick_def Let_def)
    then show ?thesis
      using wait_sd [of "b\<lparr>blk_obj := ?s\<lparr>mm_busy := sd_latency (blk_obj b)\<rparr>\<rparr>" fuel] False assms(3) idle
      by (simp add: sd_complete_def u)
  qed
qed

interpretation sd_wait: waiting_device sd_ops sd_idle sd_loaded "\<lambda>b. sd_disk (blk_obj b)"
    "\<lambda>b. Suc (sd_latency (blk_obj b))"
proof unfold_locales
  fix b :: "SDCard Blk" and sec fuel :: nat
  assume "sd_idle b" "sec < 2 ^ 23" "Suc (sd_latency (blk_obj b)) \<le> fuel"
  then show "\<exists>b'. fetch_sector sd_ops fuel (word_of_nat sec) b = Inr b' \<and> sd_loaded b' sec \<and>
      sd_disk (blk_obj b') = sd_disk (blk_obj b) \<and> Suc (sd_latency (blk_obj b')) = Suc (sd_latency (blk_obj b))"
    by (simp add: fetch_sd) (simp add: sd_loaded_def sd_idle_def)
qed (auto simp: sd_ops_def sd_blk_isdirty_def sd_blk_writeback_def sd_blk_cache_def sd_tick_def
      sd_loaded_def sd_idle_def Let_def read_sector_def)

interpretation fd_wait: waiting_device fd_ops fd_good fd_holds "\<lambda>b. fd_file (blk_obj b)" "\<lambda>b. 1"
proof unfold_locales
  fix b :: "FDData Blk" and sec fuel :: nat
  assume g: "fd_good b" "sec < 2 ^ 23" "1 \<le> fuel"
  then obtain n where "fuel = Suc n" by (cases fuel) auto
  with fd.load [OF g(1,2)]
  show "\<exists>b'. fetch_sector fd_ops fuel (word_of_nat sec) b = Inr b' \<and> fd_holds b' sec \<and>
      fd_file (blk_obj b') = fd_file (blk_obj b) \<and> (1 :: nat) = 1"
    by (simp add: fetch_sector_def Let_def fd_ops_def fd_isready_def)
qed (use fd.sync fd.cache fd.holds_good in \<open>force simp: Let_def prod_eq_iff\<close>)+

section \<open>Properties\<close>

text \<open>
  C27: Loading from an SD card that is idle and holds no unsaved sector, with more polls allowed than
  the latency of its transfers, stores at the target the words of the card from the start of the
  sector on that holds the first byte, skipping as many words as that byte is into its sector:
  this is the range asked for when the range starts with a sector, and otherwise not.  Nothing else
  in memory changes.  The first byte must be less than 128 bytes into its sector, as for 128 to 511
  the code indexes behind the 128 words of the cache (\<open>sd2mem_offset_faults\<close>).  Its address, a signed
  integer, is below 2 GB; the words read end below 4 GB and are at most 2^30.
\<close>

theorem sd2mem_loads:
  assumes "sd_idle b" "sd_latency (blk_obj b) < fuel" "start mod 0x200 < 128" "start < 2 ^ 31"
    and "0x200 * (start div 0x200) + 4 * (start mod 0x200 + unat count) < 2 ^ 32" "unat count \<le> 2 ^ 30"
  shows "\<exists>m' b'. sdcard_to_memory sd_ops fuel (int start) count a b m = Inr (m', b') \<and>
    (\<forall>i<unat count. load32 m' (a + 4 * of_nat i) =
       le_word (sd_disk (blk_obj b)) (0x200 * (start div 0x200) + 4 * (start mod 0x200) + 4 * i)) \<and>
    (\<forall>x. 4 * unat count \<le> unat (x - a) \<longrightarrow> m' x = m x)"
proof -
  let ?ws = "map (\<lambda>i. le_word (sd_disk (blk_obj b)) (0x200 * (start div 0x200) + 4 * (start mod 0x200 + i))) [0..<unat count]"
  from sd_wait.to_memory_correct [OF assms(1) _ assms(3,5), of fuel a m] assms(2)
  obtain b' where "sdcard_to_memory sd_ops fuel (int start) count a b m = Inr (store_words m a ?ws, b')"
    by auto
  moreover have "load32 (store_words m a ?ws) (a + 4 * of_nat i) =
      le_word (sd_disk (blk_obj b)) (0x200 * (start div 0x200) + 4 * (start mod 0x200) + 4 * i)" if "i < unat count" for i
    using load32_store_words_in [of i ?ws m a] that assms(6) by (simp add: algebra_simps)
  moreover have "store_words m a ?ws x = m x" if "4 * unat count \<le> unat (x - a)" for x
    using that by (intro store_words_out) simp
  ultimately show ?thesis by blast
qed

text \<open>
  With a first byte 128 or more bytes into its sector the first word is read behind the cache.
\<close>

theorem sd2mem_offset_faults:
  assumes "sd_idle b" "sd_latency (blk_obj b) < fuel" "128 \<le> start mod 0x200" "start < 2 ^ 31" "0 < count"
  shows "sdcard_to_memory sd_ops fuel (int start) count a b m = Inl BadPointer"
proof -
  let ?sec = "start div 0x200" and ?off = "start mod 0x200"
  obtain d b1 where d: "op_isdirty sd_ops b = (d, b1)" by (cases "op_isdirty sd_ops b")
  define b2 where "b2 = (if d \<noteq> 0 then snd (op_writeback sd_ops b1) else b1)"
  have b2: "sd_idle b2" "Suc (sd_latency (blk_obj b2)) = Suc (sd_latency (blk_obj b))"
    using sd_wait.sync [OF assms(1)] d by (simp_all add: b2_def Let_def)
  have div: "int start sdiv 0x200 = int ?sec" "int start smod 0x200 = int ?off"
    by (cases "start = 0"; simp add: signed_divide_int_def signed_modulo_int_def zdiv_int zmod_int)+
  have "?sec < 2 ^ 23" using assms(4) by (simp add: div_less_iff_less_mult)
  then obtain b3 where "fetch_sector sd_ops fuel (of_nat ?sec) b2 = Inr b3"
    using sd_wait.fetch [OF b2(1), of ?sec fuel] assms(2) b2(2) by auto
  moreover have "?off < 512" by simp
  then have "unat (of_nat ?off :: u32) = ?off" by (simp only: unat_of_nat) (simp add: take_bit_nat_eq_self)
  moreover obtain n where "unat count = Suc n" using assms(5) by (metis not0_implies_Suc unat_eq_0 word_gt_0)
  ultimately show ?thesis using assms(3)
    by (simp add: sdcard_to_memory_def d b2_def [symmetric] div Let_def)
qed

theorem sd2mem_loads_witness:
  "\<exists>m' b'. sdcard_to_memory sd_ops 100 512 2 0x20110000 (card 7) (\<lambda>_. 0) = Inr (m', b') \<and>
     load32 m' 0x20110000 = le_word of_nat 512 \<and> load32 m' 0x20110004 = le_word of_nat 516"
proof -
  obtain m' b' where "sdcard_to_memory sd_ops 100 512 2 0x20110000 (card 7) (\<lambda>_. 0) = Inr (m', b')"
    and *: "\<forall>i<2. load32 m' (0x20110000 + 4 * of_nat i) = le_word of_nat (512 + 4 * i)"
    using sd2mem_loads [of "card 7" 100 512 2 "0x20110000" "\<lambda>_. 0"] by (auto simp: card_def sd_idle_def)
  moreover from * have "load32 m' 0x20110000 = le_word of_nat 512" by (auto dest: spec [of _ 0])
  moreover from * have "load32 m' 0x20110004 = le_word of_nat 516" by (auto dest: spec [of _ 1])
  ultimately show ?thesis by blast
qed

theorem sd2mem_offset_faults_witness:
  "sdcard_to_memory sd_ops 100 (int 640) 1 0x20110000 (card 7) (\<lambda>_. 0) = Inl BadPointer"
  by (rule sd2mem_offset_faults) (simp_all add: card_def sd_idle_def)

end
