(* ===== verification/IOQ.thy ===== *)
theory IOQ
  imports KTypes
begin

text \<open>
  The daemons' queue of pending requests, \<^verbatim>\<open>fs/ioqueue.c\<close>: a ring of ten message slots of which
  nine can be in use.  The interface \<open>bounded_queue\<close> states what a client may rely on; the ring
  is an instance, and the refinement of any run of operations is proved once in the locale.
\<close>

section \<open>Operations\<close>

definition FS_IO_OP_READ :: int where "FS_IO_OP_READ = 1"
definition FS_IO_OP_WRITE :: int where "FS_IO_OP_WRITE = 2"
definition FS_IOQUEUE_LEN :: int where "FS_IOQUEUE_LEN = 10"

record IOQueue =
  q_size :: int
  q_head :: int
  q_tail :: int
  q_list :: "Message list"

definition ioqueue_init :: "IOQueue \<Rightarrow> int \<times> IOQueue" where
  "ioqueue_init q = (0, q\<lparr>q_size := 0, q_head := 0, q_tail := 0,
     q_list := replicate (nat FS_IOQUEUE_LEN) zero_msg\<rparr>)"

definition ioqueue_isfull :: "IOQueue \<Rightarrow> bool" where
  "ioqueue_isfull q \<longleftrightarrow> c_mod (q_tail q + 1 - q_head q) FS_IOQUEUE_LEN = 0"

definition ioqueue_isempty :: "IOQueue \<Rightarrow> bool" where
  "ioqueue_isempty q \<longleftrightarrow> q_tail q = q_head q"

text \<open>An index outside the ring would be an access outside the array; the invariant excludes it.\<close>

definition ioenqueue :: "IOQueue \<Rightarrow> Message \<Rightarrow> kfault + int \<times> IOQueue" where
  "ioenqueue q elem =
     (if ioqueue_isfull q then Inr (- 1, q)
      else if 0 \<le> q_tail q \<and> q_tail q < FS_IOQUEUE_LEN then
        Inr (0, q\<lparr>q_list := (q_list q)[nat (q_tail q) := elem],
          q_tail := c_mod (q_tail q + 1) FS_IOQUEUE_LEN\<rparr>)
      else Inl BadPointer)"

text \<open>The element is \<open>None\<close> where the code leaves \<^verbatim>\<open>*elem\<close> as it was.\<close>

definition iodequeue :: "IOQueue \<Rightarrow> kfault + int \<times> Message option \<times> IOQueue" where
  "iodequeue q =
     (if ioqueue_isempty q then Inr (- 1, None, q)
      else if 0 \<le> q_head q \<and> q_head q < FS_IOQUEUE_LEN then
        Inr (0, Some (q_list q ! nat (q_head q)), q\<lparr>q_list := (q_list q)[nat (q_head q) := zero_msg],
          q_head := c_mod (q_head q + 1) FS_IOQUEUE_LEN\<rparr>)
      else Inl BadPointer)"

section \<open>The interface of a bounded queue\<close>

datatype 'a qop = Enq 'a | Deq

text \<open>The specification: a list, a capacity, and what each operation answers.\<close>

fun spec_op :: "nat \<Rightarrow> 'a list \<Rightarrow> 'a qop \<Rightarrow> (int \<times> 'a option) \<times> 'a list" where
  "spec_op cap xs (Enq x) = (if length xs < cap then ((0, None), xs @ [x]) else ((- 1, None), xs))"
| "spec_op cap [] Deq = ((- 1, None), [])"
| "spec_op cap (x # xs) Deq = ((0, Some x), xs)"

fun spec_run :: "nat \<Rightarrow> 'a list \<Rightarrow> 'a qop list \<Rightarrow> (int \<times> 'a option) list \<times> 'a list" where
  "spec_run cap xs [] = ([], xs)"
| "spec_run cap xs (op # ops) = (let (r, xs') = spec_op cap xs op; (rs, ys) = spec_run cap xs' ops in (r # rs, ys))"

definition do_op :: "('q \<Rightarrow> 'a \<Rightarrow> 'e + int \<times> 'q) \<Rightarrow> ('q \<Rightarrow> 'e + int \<times> 'a option \<times> 'q) \<Rightarrow> 'q \<Rightarrow> 'a qop \<Rightarrow>
    'e + (int \<times> 'a option) \<times> 'q" where
  "do_op enq deq q op = (case op of
     Enq x \<Rightarrow> bindE (enq q x) (\<lambda>(r, q). Inr ((r, None), q))
   | Deq \<Rightarrow> bindE (deq q) (\<lambda>(r, x, q). Inr ((r, x), q)))"

fun run_ops :: "('q \<Rightarrow> 'a \<Rightarrow> 'e + int \<times> 'q) \<Rightarrow> ('q \<Rightarrow> 'e + int \<times> 'a option \<times> 'q) \<Rightarrow> 'q \<Rightarrow> 'a qop list \<Rightarrow>
    'e + (int \<times> 'a option) list \<times> 'q" where
  "run_ops enq deq q [] = Inr ([], q)"
| "run_ops enq deq q (op # ops) =
     bindE (do_op enq deq q op) (\<lambda>(r, q). bindE (run_ops enq deq q ops) (\<lambda>(rs, q). Inr (r # rs, q)))"

locale bounded_queue =
  fixes enq :: "'q \<Rightarrow> 'a \<Rightarrow> 'e + int \<times> 'q"
    and deq :: "'q \<Rightarrow> 'e + int \<times> 'a option \<times> 'q"
    and inv :: "'q \<Rightarrow> bool"
    and abs :: "'q \<Rightarrow> 'a list"
    and cap :: nat
  assumes abs_cap: "inv q \<Longrightarrow> length (abs q) \<le> cap"
    and enq_ok: "inv q \<Longrightarrow> length (abs q) < cap \<Longrightarrow> \<exists>q'. enq q x = Inr (0, q') \<and> inv q' \<and> abs q' = abs q @ [x]"
    and enq_full: "inv q \<Longrightarrow> length (abs q) = cap \<Longrightarrow> enq q x = Inr (- 1, q)"
    and deq_ok: "inv q \<Longrightarrow> abs q = x # xs \<Longrightarrow> \<exists>q'. deq q = Inr (0, Some x, q') \<and> inv q' \<and> abs q' = xs"
    and deq_empty: "inv q \<Longrightarrow> abs q = [] \<Longrightarrow> deq q = Inr (- 1, None, q)"
begin

lemma do_op_refines:
  assumes "inv q"
  shows "\<exists>q'. do_op enq deq q op = Inr (fst (spec_op cap (abs q) op), q') \<and> inv q' \<and>
    abs q' = snd (spec_op cap (abs q) op)"
proof (cases op)
  case (Enq x)
  show ?thesis
  proof (cases "length (abs q) < cap")
    case True
    with enq_ok [OF assms True, of x] Enq show ?thesis by (auto simp: do_op_def)
  next
    case False
    with abs_cap [OF assms] have "length (abs q) = cap" by simp
    with enq_full [OF assms this] Enq assms show ?thesis by (simp add: do_op_def)
  qed
next
  case Deq
  with deq_ok [OF assms] deq_empty [OF assms] assms show ?thesis
    by (cases "abs q") (auto simp: do_op_def)
qed

lemma run_refines:
  "inv q \<Longrightarrow> \<exists>q'. run_ops enq deq q ops = Inr (fst (spec_run cap (abs q) ops), q') \<and> inv q' \<and>
     abs q' = snd (spec_run cap (abs q) ops)"
proof (induction ops arbitrary: q)
  case (Cons op ops)
  from do_op_refines [OF Cons.prems, of op] obtain q1 where
    q1: "do_op enq deq q op = Inr (fst (spec_op cap (abs q) op), q1)" "inv q1" "abs q1 = snd (spec_op cap (abs q) op)"
    by blast
  from Cons.IH [OF q1(2)] q1 show ?case by (auto simp: split_beta)
qed simp

end

section \<open>The ring as a bounded queue\<close>

definition q_len :: "IOQueue \<Rightarrow> nat" where
  "q_len q = nat ((q_tail q - q_head q) mod 10)"

definition q_abs :: "IOQueue \<Rightarrow> Message list" where
  "q_abs q = map (\<lambda>i. q_list q ! nat ((q_head q + int i) mod 10)) [0..<q_len q]"

definition ioq_inv :: "IOQueue \<Rightarrow> bool" where
  "ioq_inv q \<longleftrightarrow> length (q_list q) = 10 \<and> 0 \<le> q_head q \<and> q_head q < 10 \<and> 0 \<le> q_tail q \<and> q_tail q < 10 \<and>
     (\<forall>k<10. int (q_len q) \<le> (int k - q_head q) mod 10 \<longrightarrow> q_list q ! k = zero_msg)"

lemma c_mod_10: "0 \<le> a \<Longrightarrow> c_mod a 10 = a mod 10"
  by (simp add: c_mod_nonneg)

text \<open>Positions in the ring.\<close>

lemma ring_simps:
  fixes t h i :: int
  shows "((t + 1) mod 10 - h) mod 10 = (if (t - h) mod 10 = 9 then 0 else (t - h) mod 10 + 1)"
    and "(t - (h + 1) mod 10) mod 10 = (if (t - h) mod 10 = 0 then 9 else (t - h) mod 10 - 1)"
    and "0 \<le> t \<Longrightarrow> t < 10 \<Longrightarrow> (h + (t - h) mod 10) mod 10 = t"
    and "((h + i) mod 10 - h) mod 10 = i mod 10"
proof -
  have s1: "(d + 1) mod 10 = (if d mod 10 = 9 then 0 else d mod 10 + 1)" for d :: int
    using pos_mod_sign [of 10 d] pos_mod_bound [of 10 d]
    by (subst mod_add_left_eq [symmetric]) (auto simp: mod_pos_pos_trivial)
  have s2: "(d - 1) mod 10 = (if d mod 10 = 0 then 9 else d mod 10 - 1)" for d :: int
    using pos_mod_sign [of 10 d] pos_mod_bound [of 10 d] zmod_minus1 [of 10]
    by (subst mod_diff_left_eq [symmetric]) (auto simp: mod_pos_pos_trivial)
  have "((t + 1) mod 10 - h) mod 10 = ((t - h) + 1) mod 10"
    unfolding mod_diff_left_eq by (simp add: algebra_simps)
  then show "((t + 1) mod 10 - h) mod 10 = (if (t - h) mod 10 = 9 then 0 else (t - h) mod 10 + 1)"
    by (simp only: s1)
  have "(t - (h + 1) mod 10) mod 10 = ((t - h) - 1) mod 10"
    unfolding mod_diff_right_eq by (simp add: algebra_simps)
  then show "(t - (h + 1) mod 10) mod 10 = (if (t - h) mod 10 = 0 then 9 else (t - h) mod 10 - 1)"
    by (simp only: s2)
  show "0 \<le> t \<Longrightarrow> t < 10 \<Longrightarrow> (h + (t - h) mod 10) mod 10 = t"
    unfolding mod_add_right_eq by simp
  show "((h + i) mod 10 - h) mod 10 = i mod 10"
    unfolding mod_diff_left_eq by simp
qed

lemma nat_neq_iff_int: "0 \<le> a \<Longrightarrow> 0 \<le> b \<Longrightarrow> nat a = nat b \<longleftrightarrow> a = b"
  by (rule eq_nat_nat_iff)

lemma length_q_abs [simp]: "length (q_abs q) = q_len q"
  by (simp add: q_abs_def)

lemma full_iff:
  assumes "ioq_inv q"
  shows "ioqueue_isfull q \<longleftrightarrow> q_len q = 9"
proof -
  define d where "d = q_tail q + 1 - q_head q"
  have d: "- 8 \<le> d" "d \<le> 10" using assms by (auto simp: d_def ioq_inv_def)
  have "c_mod d 10 = 0 \<longleftrightarrow> d = 0 \<or> d = 10"
  proof (cases "0 \<le> d")
    case True
    with d show ?thesis by (simp add: c_mod_10) presburger
  next
    case False
    then have "c_mod d 10 = - ((- d) mod 10)" by (simp add: c_mod_def smod_int_alt_def)
    with False d show ?thesis by simp
  qed
  moreover have "q_len q = 9 \<longleftrightarrow> (d - 1) mod 10 = 9"
    by (simp add: q_len_def d_def nat_eq_iff)
  moreover have "(d - 1) mod 10 = 9 \<longleftrightarrow> d = 0 \<or> d = 10" using d by presburger
  ultimately show ?thesis by (simp add: ioqueue_isfull_def FS_IOQUEUE_LEN_def d_def)
qed

lemma q_len_le: "q_len q \<le> 9"
proof -
  have "(q_tail q - q_head q) mod 10 < 10" by simp
  then show ?thesis unfolding q_len_def by linarith
qed

lemma empty_iff: "ioq_inv q \<Longrightarrow> ioqueue_isempty q \<longleftrightarrow> q_len q = 0"
proof -
  assume inv: "ioq_inv q"
  have "(d mod 10 = 0) = (d = 0)" if "- 10 < d" "d < 10" for d :: int using that by presburger
  from this [of "q_tail q - q_head q"] inv show "ioqueue_isempty q \<longleftrightarrow> q_len q = 0"
    by (auto simp: ioqueue_isempty_def q_len_def ioq_inv_def nat_eq_iff)
qed

lemma ioenqueue_ok:
  assumes "ioq_inv q" "q_len q < 9"
  shows "\<exists>q'. ioenqueue q x = Inr (0, q') \<and> ioq_inv q' \<and> q_abs q' = q_abs q @ [x]"
proof -
  let ?q' = "q\<lparr>q_list := (q_list q)[nat (q_tail q) := x], q_tail := (q_tail q + 1) mod 10\<rparr>"
  from assms have r: "length (q_list q) = 10" "0 \<le> q_head q" "q_head q < 10" "0 \<le> q_tail q" "q_tail q < 10"
    and z: "\<And>k. k < 10 \<Longrightarrow> int (q_len q) \<le> (int k - q_head q) mod 10 \<Longrightarrow> q_list q ! k = zero_msg"
    by (auto simp: ioq_inv_def)
  have l: "int (q_len q) = (q_tail q - q_head q) mod 10" by (simp add: q_len_def)
  have l': "q_len ?q' = Suc (q_len q)"
  proof -
    have "(q_tail q - q_head q) mod 10 < 9" using assms(2) l by simp
    then have "((q_tail q + 1) mod 10 - q_head q) mod 10 = (q_tail q - q_head q) mod 10 + 1"
      by (simp add: ring_simps)
    with l have "int (q_len ?q') = int (q_len q) + 1" by (simp add: q_len_def)
    then show ?thesis by simp
  qed
  have new: "(q_head q + int (q_len q)) mod 10 = q_tail q" using r by (simp add: l ring_simps)
  have old: "(q_head q + int i) mod 10 \<noteq> q_tail q" if "i < q_len q" for i
  proof -
    from that l have "int i < (q_tail q - q_head q) mod 10" by simp
    moreover have "int i mod 10 = int i" using that assms(2) by simp
    ultimately show ?thesis using ring_simps(4) [of "q_head q" "int i"] by auto
  qed
  have upd: "(q_list q)[nat (q_tail q) := x] ! nat ((q_head q + int i) mod 10) = q_list q ! nat ((q_head q + int i) mod 10)"
    if "i < q_len q" for i
  proof (rule nth_list_update_neq)
    show "nat (q_tail q) \<noteq> nat ((q_head q + int i) mod 10)" using old [OF that] r by (auto simp: eq_nat_nat_iff)
  qed
  have "q_abs ?q' = q_abs q @ [x]"
    using r new upd by (simp add: q_abs_def l')
  moreover have "ioq_inv ?q'"
  proof -
    have "(q_list q)[nat (q_tail q) := x] ! k = zero_msg"
      if k: "k < 10" "int (Suc (q_len q)) \<le> (int k - q_head q) mod 10" for k
    proof -
      have "int k \<noteq> q_tail q" using k(2) l by auto
      then have "k \<noteq> nat (q_tail q)" using r by auto
      with z k show ?thesis by simp
    qed
    with r show ?thesis by (simp add: ioq_inv_def l')
  qed
  moreover have "ioenqueue q x = Inr (0, ?q')"
    using full_iff [OF assms(1)] assms(2) r by (simp add: ioenqueue_def FS_IOQUEUE_LEN_def c_mod_10)
  ultimately show ?thesis by blast
qed

lemma iodequeue_ok:
  assumes "ioq_inv q" "q_abs q = x # xs"
  shows "\<exists>q'. iodequeue q = Inr (0, Some x, q') \<and> ioq_inv q' \<and> q_abs q' = xs"
proof -
  let ?q' = "q\<lparr>q_list := (q_list q)[nat (q_head q) := zero_msg], q_head := (q_head q + 1) mod 10\<rparr>"
  from assms have r: "length (q_list q) = 10" "0 \<le> q_head q" "q_head q < 10" "0 \<le> q_tail q" "q_tail q < 10"
    and z: "\<And>k. k < 10 \<Longrightarrow> int (q_len q) \<le> (int k - q_head q) mod 10 \<Longrightarrow> q_list q ! k = zero_msg"
    by (auto simp: ioq_inv_def)
  from assms(2) have pos: "q_len q = Suc (length xs)" by (metis length_Cons length_q_abs)
  have l: "int (q_len q) = (q_tail q - q_head q) mod 10" by (simp add: q_len_def)
  have l': "q_len ?q' = length xs"
  proof -
    have "0 < (q_tail q - q_head q) mod 10" using pos l by simp
    then have "(q_tail q - (q_head q + 1) mod 10) mod 10 = (q_tail q - q_head q) mod 10 - 1"
      by (simp add: ring_simps)
    then have "int (q_len ?q') = int (q_len q) - 1" using l \<open>0 < _\<close> by (simp add: q_len_def)
    then show ?thesis using pos by simp
  qed
  have hd: "x = q_list q ! nat (q_head q)"
  proof -
    have "x = q_abs q ! 0" using assms(2) by simp
    then show ?thesis using r pos by (simp add: q_abs_def del: upt_Suc)
  qed
  have sh: "((q_head q + 1) mod 10 + int i) mod 10 = (q_head q + int (Suc i)) mod 10" for i
    unfolding mod_add_left_eq by (simp add: algebra_simps)
  have tl: "xs ! i = q_list q ! nat ((q_head q + int (Suc i)) mod 10)" if "i < length xs" for i
  proof -
    have "xs ! i = q_abs q ! Suc i" using assms(2) by simp
    also have "\<dots> = q_list q ! nat ((q_head q + int (Suc i)) mod 10)" using that pos by (simp add: q_abs_def del: upt_Suc of_nat_Suc)
    finally show ?thesis .
  qed
  have ne: "(q_head q + int (Suc i)) mod 10 \<noteq> q_head q" if "i < length xs" for i
  proof -
    have "int (Suc i) mod 10 = int (Suc i)" using that pos q_len_le [of q] by simp
    then show ?thesis using ring_simps(4) [of "q_head q" "int (Suc i)"] by auto
  qed
  have "q_abs ?q' = xs"
  proof (rule nth_equalityI)
    fix i assume "i < length (q_abs ?q')"
    then have i: "i < length xs" by (simp add: l')
    with ne [OF i] tl [OF i] r show "q_abs ?q' ! i = xs ! i"
      by (simp add: q_abs_def l' sh eq_nat_nat_iff del: of_nat_Suc)
  qed (simp add: l')
  moreover have "ioq_inv ?q'"
  proof -
    have "(q_list q)[nat (q_head q) := zero_msg] ! k = zero_msg"
      if k: "k < 10" "int (length xs) \<le> (int k - (q_head q + 1) mod 10) mod 10" for k
    proof (cases "int k = q_head q")
      case True
      then have "nat (q_head q) = k" by simp
      with k(1) r(1) show ?thesis by simp
    next
      case False
      have "(int k - q_head q) mod 10 \<noteq> 0"
        using ring_simps(3) [of "int k" "q_head q"] False r k(1) by auto
      then have "(int k - (q_head q + 1) mod 10) mod 10 = (int k - q_head q) mod 10 - 1"
        by (simp add: ring_simps)
      with k(2) pos have "int (q_len q) \<le> (int k - q_head q) mod 10" by simp
      moreover have "k \<noteq> nat (q_head q)" using False r by auto
      ultimately show ?thesis using z k(1) by simp
    qed
    with r show ?thesis by (simp add: ioq_inv_def l')
  qed
  moreover have "iodequeue q = Inr (0, Some x, ?q')"
    using empty_iff [OF assms(1)] pos r hd by (simp add: iodequeue_def FS_IOQUEUE_LEN_def c_mod_10)
  ultimately show ?thesis by blast
qed

interpretation ioq: bounded_queue ioenqueue iodequeue ioq_inv q_abs 9
proof unfold_locales
  fix q x
  assume q: "ioq_inv q"
  show "length (q_abs q) \<le> 9" by (simp add: q_len_le)
  show "length (q_abs q) < 9 \<Longrightarrow> \<exists>q'. ioenqueue q x = Inr (0, q') \<and> ioq_inv q' \<and> q_abs q' = q_abs q @ [x]"
    using ioenqueue_ok [OF q] by simp
  show "length (q_abs q) = 9 \<Longrightarrow> ioenqueue q x = Inr (- 1, q)"
    using full_iff [OF q] by (simp add: ioenqueue_def)
  show "q_abs q = [] \<Longrightarrow> iodequeue q = Inr (- 1, None, q)"
    using empty_iff [OF q] by (metis iodequeue_def length_q_abs list.size(3))
qed (rule iodequeue_ok)

lemma ioqueue_init_inv: "ioq_inv (snd (ioqueue_init q))" "q_abs (snd (ioqueue_init q)) = []"
  by (simp_all add: ioqueue_init_def ioq_inv_def q_abs_def q_len_def FS_IOQUEUE_LEN_def)

section \<open>Properties\<close>

text \<open>
  C4: Any sequence of enqueues and dequeues on an initialised queue gives the answers of a
  first-in first-out list of capacity nine: an enqueue on nine pending requests and a dequeue on
  none return -1, everything else returns 0, and requests come out in order, unchanged.
\<close>

theorem ioqueue_refines_fifo:
  "\<exists>q'. run_ops ioenqueue iodequeue (snd (ioqueue_init q)) ops = Inr (fst (spec_run 9 [] ops), q') \<and>
     ioq_inv q' \<and> q_abs q' = snd (spec_run 9 [] ops)"
  using ioq.run_refines [OF ioqueue_init_inv(1), of q ops] by (simp add: ioqueue_init_inv(2))

text \<open>
  No request outlives its dequeue in the ring: after any run that leaves the queue empty,
  all ten slots are zero again.
\<close>

theorem ioqueue_drained_is_zero:
  assumes "run_ops ioenqueue iodequeue (snd (ioqueue_init q)) ops = Inr (rs, q')"
    and "ioqueue_isempty q'"
  shows "q_list q' = replicate 10 zero_msg"
proof -
  have inv: "ioq_inv q'" using ioq.run_refines [OF ioqueue_init_inv(1), of q ops] assms(1) by auto
  with empty_iff assms(2) have "q_len q' = 0" by blast
  with inv show ?thesis by (auto simp: ioq_inv_def intro!: nth_equalityI)
qed

theorem ioqueue_drained_is_zero_witness:
  "\<exists>q'. run_ops ioenqueue iodequeue (snd (ioqueue_init \<lparr>q_size = 0, q_head = 3, q_tail = 4, q_list = []\<rparr>))
      [Enq (zero_msg\<lparr>msg_function := 65\<rparr>), Deq] = Inr ([(0, None), (0, Some (zero_msg\<lparr>msg_function := 65\<rparr>))], q')
    \<and> q_list q' = replicate 10 zero_msg"
proof -
  let ?q = "\<lparr>q_size = 0, q_head = 3, q_tail = 4, q_list = []\<rparr>"
  let ?ops = "[Enq (zero_msg\<lparr>msg_function := 65\<rparr>), Deq]"
  obtain q' where run: "run_ops ioenqueue iodequeue (snd (ioqueue_init ?q)) ?ops = Inr (fst (spec_run 9 [] ?ops), q')"
    and q': "ioq_inv q'" "q_abs q' = snd (spec_run 9 [] ?ops)"
    using ioq.run_refines [OF ioqueue_init_inv(1), of ?q ?ops] by (auto simp: ioqueue_init_inv(2))
  have "q_abs q' = []" using q'(2) by simp
  then have "ioqueue_isempty q'" using empty_iff [OF q'(1)] by (metis length_q_abs list.size(3))
  from ioqueue_drained_is_zero [OF run this] run show ?thesis by simp
qed

end
