(* ===== verification/Uart.thy ===== *)
theory Uart
  imports Prelude
begin

text \<open>
  The character device layer (\<^verbatim>\<open>kernel/chr.h\<close>), the UART behind it
  (\<^verbatim>\<open>mmio_drivers/uart.c\<close>, \<^verbatim>\<open>mmio_drivers/uart_chr.c\<close>) and the polling console routines of
  \<^verbatim>\<open>mmio_drivers/basic.c\<close>.  The device is what the registers show: a transmitter that is busy for
  a number of polls after each byte and loses a byte written while busy, and the bytes that
  arrive.  A transmitter that never gets ready (\<open>None\<close>), or a read when no byte will ever
  arrive, makes the polling loop run for ever: \<open>Hang\<close>.  The receiver of the real UART holds one
  byte; that a byte is overwritten because the program polls too slowly is not modelled: the bytes
  that arrive wait until they are read.
\<close>

section \<open>The UART registers\<close>

record Uart =
  u_latency :: "nat option"
  u_busy :: "nat option"
  u_out :: "u8 list"
  u_in :: "u8 list"

definition tx_done :: "Uart \<Rightarrow> bool" where
  "tx_done u \<longleftrightarrow> u_busy u = Some 0"

definition write_tx :: "u8 \<Rightarrow> Uart \<Rightarrow> Uart" where
  "write_tx c u = (if tx_done u then u\<lparr>u_out := u_out u @ [c], u_busy := u_latency u\<rparr> else u)"

text \<open>The loop \<^verbatim>\<open>while (!*tx_done);\<close>.\<close>

function wait_tx :: "Uart \<Rightarrow> kfault + Uart" where
  "wait_tx u = (case u_busy u of
     None \<Rightarrow> Inl Hang
   | Some 0 \<Rightarrow> Inr u
   | Some (Suc n) \<Rightarrow> wait_tx (u\<lparr>u_busy := Some n\<rparr>))"
  by pat_completeness auto
termination by (relation "measure (\<lambda>u. case u_busy u of None \<Rightarrow> 0 | Some n \<Rightarrow> n)") auto

declare wait_tx.simps [simp del]

text \<open>Polling \<^verbatim>\<open>rx_new\<close>, reading \<^verbatim>\<open>rx_data\<close> and acknowledging it through \<^verbatim>\<open>rx_reset\<close>.\<close>

definition take_rx :: "Uart \<Rightarrow> kfault + u8 \<times> Uart" where
  "take_rx u = (case u_in u of [] \<Rightarrow> Inl Hang | c # cs \<Rightarrow> Inr (c, u\<lparr>u_in := cs\<rparr>))"

section \<open>The console routines\<close>

definition uart_getchar :: "Uart \<Rightarrow> kfault + u8 \<times> Uart" where
  "uart_getchar u = take_rx u"

definition uart_putchar :: "u8 \<Rightarrow> Uart \<Rightarrow> kfault + Uart" where
  "uart_putchar c u = bindE (wait_tx u) (\<lambda>u. wait_tx (write_tx c u))"

text \<open>A string is the bytes up to its terminating zero; a list without one is read past its end.\<close>

fun uart_putstr :: "u8 list \<Rightarrow> Uart \<Rightarrow> kfault + Uart" where
  "uart_putstr [] u = Inl BadPointer"
| "uart_putstr (c # cs) u = (if c = 0 then Inr u else bindE (uart_putchar c u) (uart_putstr cs))"

section \<open>Character devices\<close>

record 'o Chr =
  chr_obtained :: int
  chr_obj :: 'o

record 'o ChrOps =
  ch_obtain :: "'o Chr \<Rightarrow> int \<times> 'o Chr"
  ch_release :: "'o Chr \<Rightarrow> int \<times> 'o Chr"
  ch_ioctl :: "int \<Rightarrow> 'o Chr \<Rightarrow> int"
  ch_write :: "u8 list \<Rightarrow> 'o Chr \<Rightarrow> kfault + int \<times> 'o Chr"
  ch_read :: "nat \<Rightarrow> 'o Chr \<Rightarrow> kfault + int \<times> u8 list \<times> 'o Chr"
  ch_isready :: "'o Chr \<Rightarrow> int"

definition uart_chr_obtain :: "Uart Chr \<Rightarrow> int \<times> Uart Chr" where
  "uart_chr_obtain self = (0, self\<lparr>chr_obtained := 1\<rparr>)"

definition uart_chr_release :: "Uart Chr \<Rightarrow> int \<times> Uart Chr" where
  "uart_chr_release self = (0, self\<lparr>chr_obtained := 0\<rparr>)"

definition uart_chr_ioctl :: "int \<Rightarrow> Uart Chr \<Rightarrow> int" where
  "uart_chr_ioctl op self = - 1"

fun write_loop :: "u8 list \<Rightarrow> Uart \<Rightarrow> kfault + Uart" where
  "write_loop [] u = Inr u"
| "write_loop (c # cs) u = bindE (wait_tx (write_tx c u)) (write_loop cs)"

definition uart_chr_write :: "u8 list \<Rightarrow> Uart Chr \<Rightarrow> kfault + int \<times> Uart Chr" where
  "uart_chr_write str self = bindE (wait_tx (chr_obj self)) (\<lambda>u. bindE (write_loop str u) (\<lambda>u.
     Inr (int (length str), self\<lparr>chr_obj := u\<rparr>)))"

fun read_loop :: "nat \<Rightarrow> Uart \<Rightarrow> kfault + u8 list \<times> Uart" where
  "read_loop 0 u = Inr ([], u)"
| "read_loop (Suc n) u = bindE (take_rx u) (\<lambda>(c, u). bindE (read_loop n u) (\<lambda>(cs, u). Inr (c # cs, u)))"

definition uart_chr_read :: "nat \<Rightarrow> Uart Chr \<Rightarrow> kfault + int \<times> u8 list \<times> Uart Chr" where
  "uart_chr_read n self = bindE (read_loop n (chr_obj self)) (\<lambda>(cs, u).
     Inr (int n, cs, self\<lparr>chr_obj := u\<rparr>))"

definition uart_chr_isready :: "Uart Chr \<Rightarrow> int" where
  "uart_chr_isready self = 1"

definition uart_ops :: "Uart ChrOps" where
  "uart_ops = \<lparr>ch_obtain = uart_chr_obtain, ch_release = uart_chr_release, ch_ioctl = uart_chr_ioctl,
     ch_write = uart_chr_write, ch_read = uart_chr_read, ch_isready = uart_chr_isready\<rparr>"

definition get_uart_chr :: "Uart \<Rightarrow> Uart ChrOps \<times> Uart Chr" where
  "get_uart_chr u = (uart_ops, \<lparr>chr_obtained = 0, chr_obj = u\<rparr>)"

section \<open>The contract of a character device\<close>

text \<open>
  \<open>sent\<close> and \<open>pending\<close> are the bytes that went out and the bytes still to come in.
\<close>

locale char_device =
  fixes ops :: "'o ChrOps"
    and good :: "'o Chr \<Rightarrow> bool"
    and sent :: "'o Chr \<Rightarrow> u8 list"
    and pending :: "'o Chr \<Rightarrow> u8 list"
  assumes dev_write: "good d \<Longrightarrow> \<exists>d'. ch_write ops str d = Inr (int (length str), d') \<and> good d' \<and>
      sent d' = sent d @ str \<and> pending d' = pending d"
    and dev_read: "good d \<Longrightarrow> n \<le> length (pending d) \<Longrightarrow>
      \<exists>d'. ch_read ops n d = Inr (int n, take n (pending d), d') \<and> good d' \<and>
        sent d' = sent d \<and> pending d' = drop n (pending d)"
    and dev_read_hang: "good d \<Longrightarrow> length (pending d) < n \<Longrightarrow> ch_read ops n d = Inl Hang"

lemma wait_tx_Some: "u_busy u = Some n \<Longrightarrow> wait_tx u = Inr (u\<lparr>u_busy := Some 0\<rparr>)"
proof (induction n arbitrary: u)
  case 0
  then have "u\<lparr>u_busy := Some 0\<rparr> = u" by simp
  with 0 show ?case by (subst wait_tx.simps) simp
next
  case (Suc n)
  then show ?case by (subst wait_tx.simps) simp
qed

lemma wait_tx_None: "u_busy u = None \<Longrightarrow> wait_tx u = Inl Hang"
  by (subst wait_tx.simps) simp

definition uart_ok :: "Uart \<Rightarrow> bool" where
  "uart_ok u \<longleftrightarrow> u_latency u \<noteq> None \<and> u_busy u \<noteq> None"

lemma write_loop_ok:
  "u_latency u \<noteq> None \<Longrightarrow> u_busy u = Some 0 \<Longrightarrow>
   write_loop cs u = Inr (u\<lparr>u_out := u_out u @ cs\<rparr>)"
proof (induction cs arbitrary: u)
  case Nil
  then show ?case by simp
next
  case (Cons c cs)
  then obtain n where n: "u_latency u = Some n" by auto
  let ?w = "write_tx c u" and ?v = "u\<lparr>u_out := u_out u @ [c], u_busy := Some 0\<rparr>"
  have "u_busy ?w = Some n" "?w\<lparr>u_busy := Some 0\<rparr> = ?v"
    using Cons.prems n by (simp_all add: write_tx_def tx_done_def)
  then have w: "wait_tx ?w = Inr ?v" using wait_tx_Some [of ?w n] by simp
  have "write_loop cs ?v = Inr (?v\<lparr>u_out := u_out ?v @ cs\<rparr>)"
    by (rule Cons.IH) (use Cons.prems in simp_all)
  with w Cons.prems(2) show ?case by simp
qed

lemma read_loop_ok:
  "read_loop n u = (if n \<le> length (u_in u) then Inr (take n (u_in u), u\<lparr>u_in := drop n (u_in u)\<rparr>) else Inl Hang)"
proof (induction n arbitrary: u)
  case (Suc n)
  then show ?case by (cases "u_in u") (simp_all add: take_rx_def)
qed simp

interpretation uart: char_device uart_ops "\<lambda>d. uart_ok (chr_obj d)" "\<lambda>d. u_out (chr_obj d)" "\<lambda>d. u_in (chr_obj d)"
proof unfold_locales
  fix d :: "Uart Chr" and str
  assume "uart_ok (chr_obj d)"
  then obtain n where "u_busy (chr_obj d) = Some n" "u_latency (chr_obj d) \<noteq> None" by (auto simp: uart_ok_def)
  then show "\<exists>d'. ch_write uart_ops str d = Inr (int (length str), d') \<and> uart_ok (chr_obj d') \<and>
      u_out (chr_obj d') = u_out (chr_obj d) @ str \<and> u_in (chr_obj d') = u_in (chr_obj d)"
    by (simp add: uart_ops_def uart_chr_write_def wait_tx_Some write_loop_ok uart_ok_def)
qed (simp_all add: uart_ops_def uart_chr_read_def read_loop_ok uart_ok_def)

lemma uart_putchar_ok:
  assumes "uart_ok u"
  shows "\<exists>u'. uart_putchar c u = Inr u' \<and> uart_ok u' \<and> u_out u' = u_out u @ [c]"
proof -
  from assms obtain n k where b: "u_busy u = Some n" "u_latency u = Some k" by (auto simp: uart_ok_def)
  let ?w = "write_tx c (u\<lparr>u_busy := Some 0\<rparr>)"
  have "u_busy ?w = Some k" "u_out ?w = u_out u @ [c]" "u_latency ?w = Some k"
    using b by (simp_all add: write_tx_def tx_done_def)
  then show ?thesis by (simp add: uart_putchar_def wait_tx_Some [OF b(1)] wait_tx_Some [of ?w k] uart_ok_def)
qed

end
