(* ===== verification/TTY.thy ===== *)
theory TTY
  imports Trap IOQ Uart
begin

text \<open>
  The terminal daemon, \<^verbatim>\<open>fs/tty.c\<close>: it takes a request off its queue, moves bytes between the
  memory of the caller and the character device, and replies through the file system daemon.
  One pass through its endless loop is one \<open>tty_step\<close>.
\<close>

section \<open>Moving bytes\<close>

text \<open>The vector elements are read from memory each time, as the code does.\<close>

definition iov_base :: "mem \<Rightarrow> u32 \<Rightarrow> u32" where
  "iov_base m iov = load32 m iov"

definition iov_len :: "mem \<Rightarrow> u32 \<Rightarrow> u32" where
  "iov_len m iov = load32 m (iov + 4)"

fun write_buf :: "'o ChrOps \<Rightarrow> mem \<Rightarrow> u32 \<Rightarrow> nat \<Rightarrow> 'o Chr \<Rightarrow> kfault + 'o Chr" where
  "write_buf ops m a 0 dev = Inr dev"
| "write_buf ops m a (Suc n) dev = bindE (ch_write ops [m a] dev) (\<lambda>(_, dev). write_buf ops m (a + 1) n dev)"

fun tty_writev :: "'o ChrOps \<Rightarrow> mem \<Rightarrow> u32 \<Rightarrow> nat \<Rightarrow> u32 \<Rightarrow> 'o Chr \<Rightarrow> kfault + u32 \<times> 'o Chr" where
  "tty_writev ops m iov 0 xfrcnt dev = Inr (xfrcnt, dev)"
| "tty_writev ops m iov (Suc k) xfrcnt dev =
     bindE (write_buf ops m (iov_base m iov) (unat (iov_len m iov)) dev) (\<lambda>dev.
     tty_writev ops m (iov + 8) k (xfrcnt + iov_len m iov) dev)"

text \<open>One vector element of a read, from byte \<open>j\<close> on: the result is the number of bytes stored.\<close>

function tty_read_iov :: "'o ChrOps \<Rightarrow> u32 \<Rightarrow> nat \<Rightarrow> mem \<Rightarrow> 'o Chr \<Rightarrow> kfault + nat \<times> mem \<times> 'o Chr" where
  "tty_read_iov ops iov j m dev =
     (if j < unat (iov_len m iov)
      then bindE (ch_read ops 1 dev) (\<lambda>(_, cs, dev).
        let c_in = hd cs; m = store8 m (iov_base m iov + of_nat j) c_in in
        if c_in = 10 \<or> c_in = 13 then Inr (Suc j, m, dev)
        else tty_read_iov ops iov (Suc j) m dev)
      else Inr (j, m, dev))"
  by pat_completeness auto

termination
proof (relation "measure (\<lambda>(ops, iov, j, m, dev). 2 ^ 32 - j)", goal_cases)
  case (2 ops iov j m dev)
  then have "j < 2 ^ 32" using unat_lt32 [of "iov_len m iov"] by simp
  then show ?case by simp
qed simp

declare tty_read_iov.simps [simp del]

fun tty_readv :: "'o ChrOps \<Rightarrow> u32 \<Rightarrow> nat \<Rightarrow> nat \<Rightarrow> mem \<Rightarrow> 'o Chr \<Rightarrow> kfault + nat \<times> mem \<times> 'o Chr" where
  "tty_readv ops iov 0 xfrcnt m dev = Inr (xfrcnt, m, dev)"
| "tty_readv ops iov (Suc k) xfrcnt m dev =
     bindE (tty_read_iov ops iov 0 m dev) (\<lambda>(j, m, dev). tty_readv ops (iov + 8) k (xfrcnt + j) m dev)"

section \<open>The daemon\<close>

text \<open>
  A pass ends by asking the kernel for one thing: to wait for a message, or to send the result of a
  request to the file system daemon; an unknown request asks for nothing.
\<close>

datatype tty_call = TTY_Receive | TTY_Reply u32 u32 | TTY_Nothing

definition tty_handle :: "'o ChrOps \<Rightarrow> Message \<Rightarrow> mem \<Rightarrow> 'o Chr \<Rightarrow> kfault + u32 option \<times> mem \<times> 'o Chr" where
  "tty_handle ops elem m dev =
     (let iov = msg_param elem ! 1; iovcnt = nat (sint (msg_param elem ! 2)) in
      if msg_function elem = SYS_readv
      then bindE (tty_readv ops iov iovcnt 0 m dev) (\<lambda>(n, m, dev). Inr (Some (of_nat n), m, dev))
      else if msg_function elem = SYS_ioctl then Inr (Some 0, m, dev)
      else if msg_function elem = SYS_writev
      then bindE (tty_writev ops m iov iovcnt 0 dev) (\<lambda>(n, dev). Inr (Some n, m, dev))
      else Inr (None, m, dev))"

definition tty_step :: "'o ChrOps \<Rightarrow> IOQueue \<Rightarrow> mem \<Rightarrow> 'o Chr \<Rightarrow> kfault + tty_call \<times> IOQueue \<times> mem \<times> 'o Chr" where
  "tty_step ops q m dev =
     (if ioqueue_isempty q then Inr (TTY_Receive, q, m, dev)
      else bindE (iodequeue q) (\<lambda>(r, elem, q). case elem of
          None \<Rightarrow> Inl Panic
        | Some elem \<Rightarrow> if r \<noteq> 0 then Inl Panic
            else bindE (tty_handle ops elem m dev) (\<lambda>(ret, m, dev). case ret of
              Some retval \<Rightarrow> Inr (TTY_Reply retval (msg_source elem), q, m, dev)
            | None \<Rightarrow> Inr (TTY_Nothing, q, m, dev))))"

section \<open>What is transferred\<close>

definition mem_bytes :: "mem \<Rightarrow> u32 \<Rightarrow> nat \<Rightarrow> u8 list" where
  "mem_bytes m a n = map (\<lambda>j. m (a + of_nat j)) [0..<n]"

fun iov_bytes :: "mem \<Rightarrow> u32 \<Rightarrow> nat \<Rightarrow> u8 list" where
  "iov_bytes m iov 0 = []"
| "iov_bytes m iov (Suc k) = mem_bytes m (iov_base m iov) (unat (iov_len m iov)) @ iov_bytes m (iov + 8) k"

fun store_bytes :: "mem \<Rightarrow> u32 \<Rightarrow> u8 list \<Rightarrow> mem" where
  "store_bytes m a [] = m"
| "store_bytes m a (b # bs) = store_bytes (store8 m a b) (a + 1) bs"

lemma mem_bytes_Suc: "mem_bytes m a (Suc n) = m a # mem_bytes m (a + 1) n"
  by (simp add: mem_bytes_def map_upt_Suc add.assoc del: upt_Suc)

text \<open>The vector element at \<open>iov\<close> does not lie in the buffer it describes.\<close>

definition iov_apart :: "mem \<Rightarrow> u32 \<Rightarrow> bool" where
  "iov_apart m iov \<longleftrightarrow> disjnt_rng iov 8 (iov_base m iov) (unat (iov_len m iov))"

lemma load32_store8_out: "1 \<le> unat (a - b) \<Longrightarrow> disjnt_rng b 4 a 1 \<Longrightarrow> load32 (store8 m a v) b = load32 m b"
proof -
  assume d: "disjnt_rng b 4 a 1"
  have "b + of_nat j \<noteq> a" if "j < 4" for j
    using disjnt_rng_offset [OF d that] by auto
  from this [of 0] this [of 1] this [of 2] this [of 3] show ?thesis
    by (auto simp: load32_def store8_def)
qed

lemma iov_store_inside:
  fixes c :: u8
  assumes "iov_apart m iov" "j < unat (iov_len m iov)"
  defines "m' \<equiv> store8 m (iov_base m iov + of_nat j) c"
  shows "iov_base m' iov = iov_base m iov" "iov_len m' iov = iov_len m iov" "iov_apart m' iov"
proof -
  let ?a = "iov_base m iov + of_nat j"
  have "disjnt_rng (iov_base m iov) (unat (iov_len m iov)) iov 8"
    using assms(1) by (simp add: iov_apart_def disjnt_rng_def)
  from disjnt_rng_sub [OF this, of j 1] assms(2) have d: "disjnt_rng ?a 1 iov 8" by simp
  have ne: "iov + of_nat k \<noteq> ?a" if "k < 8" for k
  proof
    assume "iov + of_nat k = ?a"
    then have "?a - iov = of_nat k" by (metis add_diff_cancel_left')
    then have "unat (?a - iov) = k" using that by (simp add: unat_of_nat take_bit_nat_eq_self)
    with d that show False by (simp add: disjnt_rng_def)
  qed
  from ne [of 0] ne [of 1] ne [of 2] ne [of 3] show b: "iov_base m' iov = iov_base m iov"
    by (auto simp: m'_def iov_base_def load32_def store8_def)
  from ne [of 4] ne [of 5] ne [of 6] ne [of 7] show l: "iov_len m' iov = iov_len m iov"
    by (auto simp: m'_def iov_len_def load32_def store8_def add.assoc)
  from b l assms(1) show "iov_apart m' iov" by (simp add: iov_apart_def)
qed

context char_device
begin

lemma write_buf_ok:
  "good d \<Longrightarrow> \<exists>d'. write_buf ops m a n d = Inr d' \<and> good d' \<and> sent d' = sent d @ mem_bytes m a n \<and> pending d' = pending d"
proof (induction n arbitrary: a d)
  case 0
  then show ?case by (simp add: mem_bytes_def)
next
  case (Suc n)
  obtain d1 where d1: "ch_write ops [m a] d = Inr (1, d1)" "good d1" "sent d1 = sent d @ [m a]" "pending d1 = pending d"
    using dev_write [OF Suc.prems, of "[m a]"] by auto
  with Suc.IH [OF d1(2), of "a + 1"] show ?case by (auto simp: mem_bytes_Suc)
qed

lemma tty_writev_ok:
  "good d \<Longrightarrow> \<exists>d'. tty_writev ops m iov k x d = Inr (x + of_nat (length (iov_bytes m iov k)), d') \<and> good d' \<and>
     sent d' = sent d @ iov_bytes m iov k \<and> pending d' = pending d"
proof (induction k arbitrary: iov x d)
  case (Suc k)
  obtain d1 where d1: "write_buf ops m (iov_base m iov) (unat (iov_len m iov)) d = Inr d1" "good d1"
    "sent d1 = sent d @ mem_bytes m (iov_base m iov) (unat (iov_len m iov))" "pending d1 = pending d"
    using write_buf_ok [OF Suc.prems] by blast
  with Suc.IH [OF d1(2), of "iov + 8" "x + iov_len m iov"] show ?case
    by (auto simp: mem_bytes_def algebra_simps)
qed auto

lemma tty_read_iov_line:
  "good d \<Longrightarrow> pending d = cs @ t # rest \<Longrightarrow> t = 10 \<or> t = 13 \<Longrightarrow> 10 \<notin> set cs \<Longrightarrow> 13 \<notin> set cs
   \<Longrightarrow> j + length cs < unat (iov_len m iov) \<Longrightarrow> iov_apart m iov
   \<Longrightarrow> \<exists>d'. tty_read_iov ops iov j m d =
     Inr (j + length cs + 1, store_bytes m (iov_base m iov + of_nat j) (cs @ [t]), d') \<and>
     good d' \<and> sent d' = sent d \<and> pending d' = rest"
proof (induction cs arbitrary: j m d)
  case Nil
  obtain d' where "ch_read ops 1 d = Inr (1, [t], d')" "good d'" "sent d' = sent d" "pending d' = rest"
    using dev_read [OF Nil.prems(1), of 1] Nil.prems(2) by auto
  with Nil.prems show ?case by (subst tty_read_iov.simps) (auto simp: Let_def)
next
  case (Cons c cs)
  obtain d1 where d1: "ch_read ops 1 d = Inr (1, [c], d1)" "good d1" "sent d1 = sent d" "pending d1 = cs @ t # rest"
    using dev_read [OF Cons.prems(1), of 1] Cons.prems(2) by auto
  let ?m = "store8 m (iov_base m iov + of_nat j) c"
  have j: "j < unat (iov_len m iov)" using Cons.prems(6) by simp
  note st = iov_store_inside [OF Cons.prems(7) j, of c]
  have lt: "Suc j + length cs < unat (iov_len ?m iov)" using Cons.prems(6) st(2) by simp
  have nl: "c \<noteq> 10" "c \<noteq> 13" "10 \<notin> set cs" "13 \<notin> set cs" using Cons.prems(4,5) by auto
  obtain d' where d': "tty_read_iov ops iov (Suc j) ?m d1 = Inr (Suc j + length cs + 1,
      store_bytes ?m (iov_base ?m iov + of_nat (Suc j)) (cs @ [t]), d')"
    "good d'" "sent d' = sent d1" "pending d' = rest"
    using Cons.IH [OF d1(2) d1(4) Cons.prems(3) nl(3,4) lt st(3)] by blast
  have step: "tty_read_iov ops iov j m d = tty_read_iov ops iov (Suc j) ?m d1"
    using d1(1) j nl(1,2) by (subst tty_read_iov.simps) (simp add: Let_def)
  have "store_bytes m (iov_base m iov + of_nat j) ((c # cs) @ [t]) =
      store_bytes ?m (iov_base ?m iov + of_nat (Suc j)) (cs @ [t])"
    unfolding st(1) by (simp add: ac_simps)
  with step d' d1(3) show ?case by (intro exI [of _ d']) simp
qed

lemma tty_read_iov_empty:
  "good d \<Longrightarrow> pending d = [] \<Longrightarrow> j < unat (iov_len m iov) \<Longrightarrow> tty_read_iov ops iov j m d = Inl Hang"
  using dev_read_hang [of d 1] by (subst tty_read_iov.simps) simp

end

section \<open>Properties\<close>

lemma tty_step_head:
  assumes "ioq_inv q" "q_abs q = elem # rest" "tty_handle ops elem m dev = Inr (Some r, m', dev')"
  shows "\<exists>q'. tty_step ops q m dev = Inr (TTY_Reply r (msg_source elem), q', m', dev') \<and> ioq_inv q' \<and> q_abs q' = rest"
proof -
  obtain q' where "iodequeue q = Inr (0, Some elem, q')" "ioq_inv q'" "q_abs q' = rest"
    using iodequeue_ok [OF assms(1,2)] by blast
  moreover have "\<not> ioqueue_isempty q"
    using empty_iff [OF assms(1)] assms(2) by (metis length_q_abs length_greater_0_conv list.discI not_gr_zero)
  ultimately show ?thesis using assms(3) by (simp add: tty_step_def)
qed

text \<open>
  C19: When a \<^verbatim>\<open>writev\<close> request is first in its queue, one pass of the terminal daemon sends exactly
  the bytes of all the caller's buffers to the UART, in order, takes the request off the queue
  and replies with their number (in 32 bits) and the pid of the caller.
\<close>

theorem tty_writev_sends:
  assumes "ioq_inv q" "q_abs q = elem # rest" "msg_function elem = SYS_writev" "uart_ok (chr_obj dev)"
    and "bytes = iov_bytes m (msg_param elem ! 1) (nat (sint (msg_param elem ! 2)))"
  shows "\<exists>q' dev'. tty_step uart_ops q m dev =
      Inr (TTY_Reply (of_nat (length bytes)) (msg_source elem), q', m, dev') \<and>
    u_out (chr_obj dev') = u_out (chr_obj dev) @ bytes \<and> ioq_inv q' \<and> q_abs q' = rest"
proof -
  obtain dev' where d: "tty_writev uart_ops m (msg_param elem ! 1) (nat (sint (msg_param elem ! 2))) 0 dev =
      Inr (of_nat (length bytes), dev')" "u_out (chr_obj dev') = u_out (chr_obj dev) @ bytes"
    using uart.tty_writev_ok [OF assms(4), of m _ _ 0] assms(5) by fastforce
  then have "tty_handle uart_ops elem m dev = Inr (Some (of_nat (length bytes)), m, dev')"
    using assms(3) by (simp add: tty_handle_def sys_consts)
  from tty_step_head [OF assms(1,2) this] d(2) show ?thesis by blast
qed

text \<open>
  C33: A \<^verbatim>\<open>readv\<close> into one buffer, when a whole line that fits has arrived, stores the line up to and
  including its carriage return or newline at the start of the buffer, leaves the rest of the
  input, and replies with the length of the line.
\<close>

theorem tty_readv_line:
  assumes "ioq_inv q" "q_abs q = elem # rest" "msg_function elem = SYS_readv"
    and "msg_param elem ! 1 = iov" "msg_param elem ! 2 = 1"
    and "uart_ok (chr_obj dev)" "u_in (chr_obj dev) = line @ t # later" "t = 10 \<or> t = 13"
    and "10 \<notin> set line" "13 \<notin> set line" "length line < unat (iov_len m iov)" "iov_apart m iov"
  shows "\<exists>q' dev'. tty_step uart_ops q m dev = Inr (TTY_Reply (of_nat (length line + 1)) (msg_source elem), q',
      store_bytes m (iov_base m iov) (line @ [t]), dev') \<and>
    u_in (chr_obj dev') = later \<and> q_abs q' = rest"
proof -
  obtain dev' where d: "tty_read_iov uart_ops iov 0 m dev =
      Inr (length line + 1, store_bytes m (iov_base m iov) (line @ [t]), dev')" "u_in (chr_obj dev') = later"
    using uart.tty_read_iov_line [OF assms(6-10), of 0 m iov] assms(11,12) by auto
  then have "tty_handle uart_ops elem m dev =
      Inr (Some (of_nat (length line + 1)), store_bytes m (iov_base m iov) (line @ [t]), dev')"
    using assms(3-5) by (simp add: tty_handle_def)
  from tty_step_head [OF assms(1,2) this] d(2) show ?thesis by blast
qed

text \<open>
  The end of a line ends only the buffer it is read into: a \<^verbatim>\<open>readv\<close> with a second, nonempty
  buffer goes on waiting for input after a complete line has arrived.
\<close>

theorem tty_readv_second_buffer_waits:
  assumes "ioq_inv q" "q_abs q = elem # rest" "msg_function elem = SYS_readv"
    and "msg_param elem ! 1 = iov" "msg_param elem ! 2 = 2"
    and "uart_ok (chr_obj dev)" "u_in (chr_obj dev) = line @ [t]" "t = 10 \<or> t = 13"
    and "10 \<notin> set line" "13 \<notin> set line" "length line < unat (iov_len m iov)" "iov_apart m iov"
    and "0 < unat (iov_len (store_bytes m (iov_base m iov) (line @ [t])) (iov + 8))"
  shows "tty_step uart_ops q m dev = Inl Hang"
proof -
  obtain dev' where d: "tty_read_iov uart_ops iov 0 m dev =
      Inr (length line + 1, store_bytes m (iov_base m iov) (line @ [t]), dev')"
    "uart_ok (chr_obj dev')" "u_in (chr_obj dev') = []"
    using uart.tty_read_iov_line [OF assms(6-10), of 0 m iov] assms(11,12) by auto
  have "tty_readv uart_ops iov 2 0 m dev = Inl Hang"
    using d(1) uart.tty_read_iov_empty [OF d(2,3) assms(13)] by (simp add: numeral_2_eq_2)
  then have "tty_handle uart_ops elem m dev = Inl Hang"
    using assms(3-5) by (simp add: tty_handle_def)
  moreover obtain q' where "iodequeue q = Inr (0, Some elem, q')" using iodequeue_ok [OF assms(1,2)] by blast
  moreover have "\<not> ioqueue_isempty q"
    using empty_iff [OF assms(1)] assms(2) by (metis length_q_abs length_greater_0_conv list.discI not_gr_zero)
  ultimately show ?thesis by (simp add: tty_step_def)
qed

section \<open>Witnesses\<close>

definition req :: "u32 \<Rightarrow> u32 \<Rightarrow> Message" where
  "req f cnt = \<lparr>msg_function = f, msg_source = 1, msg_param = [1, 0x20001000, cnt, 0, 0, 0, 0, 0]\<rparr>"

definition req_queue :: "u32 \<Rightarrow> u32 \<Rightarrow> IOQueue" where
  "req_queue f cnt = \<lparr>q_size = 0, q_head = 0, q_tail = 1, q_list = req f cnt # replicate 9 zero_msg\<rparr>"

lemma req_queue_ok: "ioq_inv (req_queue f cnt)" "q_abs (req_queue f cnt) = [req f cnt]"
proof -
  have l: "q_len (req_queue f cnt) = 1" by (simp add: q_len_def req_queue_def)
  then show "q_abs (req_queue f cnt) = [req f cnt]" by (simp add: q_abs_def req_queue_def)
  have "1 \<le> int k mod 10 \<Longrightarrow> k < 10 \<Longrightarrow> (req f cnt # replicate 9 zero_msg) ! k = zero_msg" for k
    by (cases k) simp_all
  with l show "ioq_inv (req_queue f cnt)" by (simp add: ioq_inv_def) (simp add: req_queue_def)
qed

definition tty_dev :: "u8 list \<Rightarrow> Uart Chr" where
  "tty_dev input = \<lparr>chr_obtained = 1, chr_obj = \<lparr>u_latency = Some 3, u_busy = Some 0, u_out = [], u_in = input\<rparr>\<rparr>"

lemma tty_dev_ok: "uart_ok (chr_obj (tty_dev i))" "u_in (chr_obj (tty_dev i)) = i" "u_out (chr_obj (tty_dev i)) = []"
  by (simp_all add: tty_dev_def uart_ok_def)

text \<open>Two buffers of four and two bytes; the first holds "Hi" and zeros.\<close>

definition tty_mem :: mem where
  "tty_mem = store_bytes (store_words (\<lambda>_. 0) 0x20001000 [0x20002000, 4, 0x20003000, 2]) 0x20002000 [72, 105]"

lemma tty_mem_iov:
  "iov_base tty_mem 0x20001000 = 0x20002000" "iov_len tty_mem 0x20001000 = 4"
  "iov_base tty_mem 0x20001008 = 0x20003000" "iov_len tty_mem 0x20001008 = 2"
  by (simp_all add: tty_mem_def iov_base_def iov_len_def load32_def store8_def store32_def)

lemma tty_mem_apart: "iov_apart tty_mem 0x20001000"
  by (simp add: iov_apart_def tty_mem_iov disjnt_rng_def)

theorem tty_writev_sends_witness:
  "\<exists>q' dev'. tty_step uart_ops (req_queue SYS_writev 2) tty_mem (tty_dev []) = Inr (TTY_Reply 6 1, q', tty_mem, dev') \<and>
     u_out (chr_obj dev') = [72, 105, 0, 0, 0, 0]"
proof -
  have u: "[0..<4] = [0, 1, 2, 3 :: nat]" "[0..<2] = [0, 1 :: nat]" by (simp_all add: upt_rec)
  have "iov_bytes tty_mem 0x20001000 (Suc (Suc 0)) = [72, 105, 0, 0, 0, 0]"
    by (simp add: tty_mem_iov mem_bytes_def u) (simp add: tty_mem_def store8_def store32_def)
  then have "[72, 105, 0, 0, 0, 0] = iov_bytes tty_mem (msg_param (req SYS_writev 2) ! 1) (nat (sint (msg_param (req SYS_writev 2) ! 2)))"
    by (simp add: req_def numeral_2_eq_2)
  from tty_writev_sends [OF req_queue_ok _ tty_dev_ok(1) this, of "[]"] show ?thesis
    by (auto simp: req_def tty_dev_ok)
qed

theorem tty_readv_line_witness:
  "\<exists>q' dev'. tty_step uart_ops (req_queue SYS_readv 1) tty_mem (tty_dev [111, 107, 10, 120]) =
     Inr (TTY_Reply 3 1, q', store_bytes tty_mem 0x20002000 [111, 107, 10], dev') \<and> u_in (chr_obj dev') = [120]"
  using tty_readv_line [OF req_queue_ok, of SYS_readv 1 "0x20001000" "tty_dev [111, 107, 10, 120]" "[111, 107]" 10 "[120]" tty_mem]
  by (auto simp: req_def tty_dev_ok tty_mem_iov tty_mem_apart)

theorem tty_readv_second_buffer_waits_witness:
  "tty_step uart_ops (req_queue SYS_readv 2) tty_mem (tty_dev [111, 107, 10]) = Inl Hang"
proof (rule tty_readv_second_buffer_waits [OF req_queue_ok, where iov = "0x20001000" and line = "[111, 107]" and t = 10])
  have "iov_len (store_bytes tty_mem 0x20002000 [111, 107, 10]) 0x20001008 = 2"
    by (simp add: tty_mem_def iov_len_def load32_def store8_def store32_def)
  then show "0 < unat (iov_len (store_bytes tty_mem (iov_base tty_mem 0x20001000) ([111, 107] @ [10])) (0x20001000 + 8))"
    by (simp add: tty_mem_iov)
qed (simp_all add: req_def tty_dev_ok tty_mem_iov tty_mem_apart)

end
