(* ===== verification/FS.thy ===== *)
theory FS
  imports Trap IOQ
begin

text \<open>
  The file system daemon, \<^verbatim>\<open>fs/fs.c\<close>: how one request is dispatched, and what the kernel makes of the
  notification of the terminal daemon.  The dispatcher returns the calls of the daemon to the kernel
  as a list; \<open>fs_perform\<close> makes such a call through the trap handler.
\<close>

section \<open>Dispatching a request\<close>

text \<open>
  A send of the daemon: destination, function, and the first parameter where the code sets it.
\<close>

datatype fs_call = FS_Send int u32 "u32 option"

record fs_state =
  fs_pm :: ProcManager
  ttyproc_queue :: "IOQueue option"

definition EBADF :: u32 where "EBADF = 9"

definition fs_resume_userproc :: "u32 \<Rightarrow> u32 \<Rightarrow> fs_call list" where
  "fs_resume_userproc param0 param1 = [FS_Send (sint param1) OS_justamsg (Some param0)]"

definition fs_notify_target :: "nat \<Rightarrow> fs_call list" where
  "fs_notify_target p = [FS_Send (int p) OS_send_nonblk None]"

definition fs_close :: "Message \<Rightarrow> fs_state \<Rightarrow> kfault + fs_call list \<times> fs_state" where
  "fs_close msg s =
     bindE (slot (sint (msg_source msg))) (\<lambda>p.
     let fd = sint (msg_param msg ! 0) in
     bindE (if 0 \<le> fd \<and> fd < int PROC_FD_MAX then Inr (nat fd) else Inl BadPointer) (\<lambda>i.
     let kf = fdmap (proc_table (fs_pm s) p) i; valid = kf_fd kf \<noteq> - 1;
         pm = (if valid then upd_proc p (\<lambda>P. P\<lparr>fdmap := (fdmap P)(i := kf\<lparr>kf_fd := - 1\<rparr>)\<rparr>) (fs_pm s) else fs_pm s)
     in Inr (fs_resume_userproc (if valid then 0 else EBADF) (msg_source msg), s\<lparr>fs_pm := pm\<rparr>)))"

text \<open>
  The daemon spins while the terminal's queue is full: for the dispatcher alone that is \<open>Hang\<close>.
\<close>

definition fs_request_by_fd :: "Message \<Rightarrow> fs_state \<Rightarrow> kfault + fs_call list \<times> fs_state" where
  "fs_request_by_fd msg s =
     (if msg_function msg = SYS_close then fs_close msg s
      else if sint (msg_param msg ! 0) \<le> 2 then
        (case ttyproc_queue s of None \<Rightarrow> Inl BadPointer
         | Some q \<Rightarrow> if ioqueue_isfull q then Inl Hang
             else bindE (ioenqueue q msg) (\<lambda>(r, q). if r \<noteq> 0 then Inl Panic
               else Inr (fs_notify_target KPROC_PID_TTY0, s\<lparr>ttyproc_queue := Some q\<rparr>)))
      else Inl Panic)"

definition get_free_fd :: "ProcManager \<Rightarrow> nat \<Rightarrow> int" where
  "get_free_fd pm p = (case List.find (\<lambda>i. kf_fd (fdmap (proc_table pm p) i) = - 1) [3..<PROC_FD_MAX] of
     Some i \<Rightarrow> int i | None \<Rightarrow> - 1)"

definition fs_request_by_path :: "Message \<Rightarrow> fs_state \<Rightarrow> kfault + fs_call list \<times> fs_state" where
  "fs_request_by_path msg s =
     bindE (slot (sint (msg_source msg))) (\<lambda>p.
     let fd = get_free_fd (fs_pm s) p in
     Inr (fs_notify_target KPROC_PID_FSS0, s))"

definition fs_dispatch :: "Message \<Rightarrow> fs_state \<Rightarrow> kfault + fs_call list \<times> fs_state" where
  "fs_dispatch msg s =
     (if msg_function msg = SYS_ioctl \<or> msg_function msg = SYS_readv \<or> msg_function msg = SYS_writev
      then fs_request_by_fd msg s
      else if msg_function msg = SYS_openat \<or> msg_function msg = SYS_close
      then fs_request_by_path msg s
      else if msg_function msg = OS_fs_resume
      then Inr (fs_resume_userproc (msg_param msg ! 0) (msg_param msg ! 1), s)
      else Inr ([], s))"

text \<open>The free descriptor is the least one from 3 on.\<close>

lemma get_free_fd_least:
  "get_free_fd pm p = int k \<longleftrightarrow> 3 \<le> k \<and> k < 16 \<and> kf_fd (fdmap (proc_table pm p) k) = - 1 \<and>
     (\<forall>i. 3 \<le> i \<longrightarrow> i < k \<longrightarrow> kf_fd (fdmap (proc_table pm p) i) \<noteq> - 1)"
proof -
  let ?free = "\<lambda>i. kf_fd (fdmap (proc_table pm p) i) = - 1"
  have "get_free_fd pm p = int k \<longleftrightarrow> List.find ?free [3..<16] = Some k"
    by (auto simp: get_free_fd_def PROC_FD_MAX_def simp del: upt_rec_numeral upt_conv_Cons split: option.splits)
  also have "\<dots> \<longleftrightarrow> 3 \<le> k \<and> k < 16 \<and> ?free k \<and> (\<forall>i. 3 \<le> i \<longrightarrow> i < k \<longrightarrow> \<not> ?free i)"
    by (rule find_upt_Some)
  finally show ?thesis .
qed

section \<open>A call of the daemon to the kernel\<close>

text \<open>
  \<^verbatim>\<open>daemon_syscall\<close> puts its arguments into \<^verbatim>\<open>a0\<close> to \<^verbatim>\<open>a2\<close> and executes \<^verbatim>\<open>ecall\<close>; the trap entry saves
  the registers, these three first, and the cause of the trap is 11.  A send first fills in a message
  on the stack of the daemon, at \<open>buf\<close>: the function and, if the code sets it, the first parameter.
\<close>

definition daemon_syscall :: "int \<Rightarrow> int \<Rightarrow> u32 \<Rightarrow> kstate \<Rightarrow> kfault + kstate" where
  "daemon_syscall sendorrec src_dest msg s = interrupt_service_routine 0 (s\<lparr>
     kmem := store_words (kmem s) REGS_SAVE_ADDR [word_of_int sendorrec, word_of_int src_dest, msg],
     mcause := 0xb\<rparr>)"

definition fs_perform :: "u32 \<Rightarrow> fs_call \<Rightarrow> kstate \<Rightarrow> kfault + kstate" where
  "fs_perform buf call s = (case call of FS_Send dest func param0 \<Rightarrow>
     let m = store32 (kmem s) buf func;
         m = (case param0 of None \<Rightarrow> m | Some v \<Rightarrow> store32 m (buf + 8) v)
     in daemon_syscall IPC_SEND dest buf (s\<lparr>kmem := m\<rparr>))"

lemma not_full_lt: "ioq_inv q \<Longrightarrow> length (q_abs q) < 9 \<Longrightarrow> \<not> ioqueue_isfull q"
  using full_iff [of q] by simp

text \<open>The state in which the handler of the call runs.\<close>

definition call_entered :: "int \<Rightarrow> int \<Rightarrow> u32 \<Rightarrow> kstate \<Rightarrow> kstate" where
  "call_entered sr d msg s = gpio_leds (s\<lparr>
     kmem := store_words (kmem s) REGS_SAVE_ADDR [word_of_int sr, word_of_int d, msg], mcause := 0xb\<rparr>)"

lemma daemon_syscall_eq: "daemon_syscall sr d msg s = syscall_handler (call_entered sr d msg s)"
  by (simp add: daemon_syscall_def call_entered_def interrupt_service_routine_def Let_def)

lemma call_entered_simps [simp]: "procmanager (call_entered sr d msg s) = procmanager s"
  by (simp add: call_entered_def)

lemma call_entered_regs:
  "load32 (kmem (call_entered sr d msg s)) REGS_SAVE_ADDR = word_of_int sr"
  "load32 (kmem (call_entered sr d msg s)) (REGS_SAVE_ADDR + 4) = word_of_int d"
  "load32 (kmem (call_entered sr d msg s)) (REGS_SAVE_ADDR + 8) = msg"
  by (simp_all add: call_entered_def gpio_leds_def REGS_SAVE_ADDR_def load32_store32_out disjnt_rng_def)

lemma disjnt_rng_first:
  "disjnt_rng a n b k \<Longrightarrow> 4 \<le> n \<Longrightarrow> l \<le> k \<Longrightarrow> disjnt_rng a 4 b l"
  by (auto simp: disjnt_rng_def)

lemma call_entered_function:
  assumes "disjnt_rng msg sizeof_Message REGS_SAVE_ADDR 124" "disjnt_rng msg sizeof_Message 0x92000020 8"
  shows "load32 (kmem (call_entered sr d msg s)) msg = load32 (kmem s) msg"
proof -
  have r: "disjnt_rng msg 4 REGS_SAVE_ADDR (4 * length [word_of_int sr :: u32, word_of_int d, msg])"
    by (rule disjnt_rng_first [OF assms(1)]) (simp_all add: sizeof_Message_def)
  have g: "disjnt_rng msg 4 0x92000020 4"
    by (rule disjnt_rng_first [OF assms(2)]) (simp_all add: sizeof_Message_def)
  have "40 \<le> unat (0x92000020 - msg)" "8 \<le> unat (msg - 0x92000020)"
    using assms(2) by (simp_all add: disjnt_rng_def sizeof_Message_def)
  moreover have "unat (msg - 0x92000020 - of_nat 4) = unat (msg - 0x92000020) - 4"
    by (rule unat_sub_ge) (use calculation in simp)
  moreover have "unat (0x92000024 - msg) = unat (0x92000020 - msg) + 4"
  proof -
    have "(0x92000020 - msg) + of_nat 4 = (0x92000024 - msg :: u32)" by simp
    moreover have "msg - 0x92000020 \<noteq> 0" using \<open>8 \<le> unat (msg - 0x92000020)\<close> by auto
    then have "unat (0x92000020 - msg) = 4294967296 - unat (msg - 0x92000020)"
      using unat_uminus_nonzero [of "msg - 0x92000020"] by simp
    then have "unat (0x92000020 - msg) + 4 < 2 ^ 32" using \<open>8 \<le> unat (msg - 0x92000020)\<close> by simp
    ultimately show ?thesis using unat_add_lem [of "0x92000020 - msg" "of_nat 4 :: u32"] by simp
  qed
  ultimately have "disjnt_rng msg 4 0x92000024 4" by (simp add: disjnt_rng_def)
  then show ?thesis using load32_store_words_out [OF r] g
    by (simp add: call_entered_def gpio_leds_def load32_store32_out)
qed

text \<open>What scheduling at the end of a call does to the state of each process.\<close>

lemma schedule_keeps:
  assumes "ipc_inv (procmanager s)" "do_start (procmanager s) = 0"
  shows "\<exists>t. proc_schedule s = Inr t \<and> kernel_inv (procmanager t) \<and>
    (\<forall>i. p_msg (proc_table (procmanager t) i) = p_msg (proc_table (procmanager s) i) \<and>
      pid (proc_table (procmanager t) i) = pid (proc_table (procmanager s) i) \<and>
      p_recvfrom (proc_table (procmanager t) i) = p_recvfrom (proc_table (procmanager s) i) \<and>
      p_sendto (proc_table (procmanager t) i) = p_sendto (proc_table (procmanager s) i) \<and>
      queue_sending (proc_table (procmanager t) i) = queue_sending (proc_table (procmanager s) i) \<and>
      (p_state (proc_table (procmanager s) i) \<in> {PROC_STATE_READY, PROC_STATE_RUNNING} \<longrightarrow>
        p_state (proc_table (procmanager t) i) \<in> {PROC_STATE_READY, PROC_STATE_RUNNING}))"
proof -
  have wf: "pm_wf (procmanager s)" using ipc_invD(1) [OF assms(1)] .
  let ?t = "switch_to (next_ready (procmanager s)) (switch_from (proc_running (procmanager s)) s)"
  have t: "proc_schedule s = Inr ?t" by (rule schedule_eq [OF wf assms(2)])
  moreover have "kernel_inv (procmanager ?t)" by (rule schedule_kernel_inv [OF assms(1) t])
  ultimately show ?thesis by (intro exI [of _ ?t]) auto
qed

text \<open>A nonblocking send as a call: the send, then the scheduler.\<close>

lemma notify_call:
  assumes "kernel_inv (procmanager s)" "proc_running (procmanager s) = p" "d \<noteq> p" "d < PROC_NUM_MAX"
    and "disjnt_rng buf sizeof_Message REGS_SAVE_ADDR 124" "disjnt_rng buf sizeof_Message 0x92000020 8"
  shows "\<exists>s2. procmanager s2 = procmanager s \<and>
    fs_perform buf (FS_Send (int d) OS_send_nonblk None) s =
      bindE (msg_send p (int d) buf 1 s2) (\<lambda>(_, s). proc_schedule s)"
proof -
  let ?s = "s\<lparr>kmem := store32 (kmem s) buf OS_send_nonblk\<rparr>"
  let ?e = "call_entered IPC_SEND (int d) buf ?s"
  let ?s2 = "stamp_source (int p) buf (?e\<lparr>mepc := mepc ?e + 4\<rparr>)"
  have p: "p < 64" "pid (proc_table (procmanager s) p) = int p"
    using ipc_invD(1) [of "procmanager s"] assms(1,2) by (auto simp: kernel_inv_def pm_wf_def proc_consts)
  have f: "load32 (kmem ?e) buf = OS_send_nonblk" by (simp add: call_entered_function [OF assms(5,6)])
  have "sint (word_of_int (int d) :: u32) = int d"
    by (rule sint_word_of_int_eq_self) (use assms(4) in \<open>simp_all add: proc_consts\<close>)
  moreover have "sint (word_of_int IPC_SEND :: u32) = IPC_SEND" by (simp add: proc_consts)
  ultimately have d: "sint (word_of_int (int d) :: u32) = int d" "sint (word_of_int IPC_SEND :: u32) = IPC_SEND" .
  have "syscall_handler ?e = bindE (sendrec_nonblock IPC_SEND (int d) buf (?e\<lparr>mepc := mepc ?e + 4\<rparr>))
      (\<lambda>(_, s). proc_schedule s)"
    using f d call_entered_regs [of IPC_SEND "int d" buf ?s] by (simp add: syscall_handler_def syscall_target_def Let_def)
  moreover have "sendrec_nonblock IPC_SEND (int d) buf (?e\<lparr>mepc := mepc ?e + 4\<rparr>) = msg_send p (int d) buf 1 ?s2"
    using p assms(2,3) by (simp add: sendrec_nonblock_def)
  moreover have "procmanager ?s2 = procmanager s" by (simp add: stamp_source_def)
  ultimately show ?thesis
    by (intro exI [of _ ?s2]) (simp add: fs_perform_def daemon_syscall_eq)
qed

section \<open>Properties\<close>

text \<open>
  A read, write or ioctl on descriptor 0, 1 or 2 (or a negative one) is put, unchanged and last,
  into the terminal's queue while that has room, the terminal is notified without blocking,
  and no process table entry changes.
\<close>

lemma dispatch_request:
  assumes "msg_function msg \<in> {SYS_ioctl, SYS_readv, SYS_writev}" "sint (msg_param msg ! 0) \<le> 2"
    and "ttyproc_queue s = Some q" "ioq_inv q" "length (q_abs q) < 9"
  shows "\<exists>q'. fs_dispatch msg s = Inr ([FS_Send (int KPROC_PID_TTY0) OS_send_nonblk None], s\<lparr>ttyproc_queue := Some q'\<rparr>) \<and>
    ioq_inv q' \<and> q_abs q' = q_abs q @ [msg]"
proof -
  obtain q' where "ioenqueue q msg = Inr (0, q')" "ioq_inv q'" "q_abs q' = q_abs q @ [msg]"
    using ioenqueue_ok [OF assms(4)] assms(5) by auto
  moreover have "\<not> ioqueue_isfull q" by (rule not_full_lt [OF assms(4,5)])
  ultimately show ?thesis
    using assms(1-3) by (auto simp: fs_dispatch_def fs_request_by_fd_def fs_notify_target_def sys_consts)
qed

lemma fs_tty_pids:
  assumes "kernel_inv pm" "proc_running pm = KPROC_PID_FS"
  shows "pid (proc_table pm KPROC_PID_FS) = int KPROC_PID_FS"
    "pid (proc_table pm KPROC_PID_TTY0) = - 1 \<or> pid (proc_table pm KPROC_PID_TTY0) = int KPROC_PID_TTY0"
proof -
  have wf: "pm_wf pm" using assms(1) by (simp add: kernel_inv_def ipc_invD)
  then show "pid (proc_table pm KPROC_PID_FS) = int KPROC_PID_FS" using assms(2) by (simp add: pm_wf_def)
  have "KPROC_PID_TTY0 < PROC_NUM_MAX" by (simp add: proc_consts)
  with wf show "pid (proc_table pm KPROC_PID_TTY0) = - 1 \<or> pid (proc_table pm KPROC_PID_TTY0) = int KPROC_PID_TTY0"
    unfolding pm_wf_def by blast
qed

text \<open>A nonblocking send from the file system daemon to the terminal, received and refused.\<close>

lemma fs_tty_send:
  assumes "pid (proc_table (procmanager s) KPROC_PID_FS) = int KPROC_PID_FS"
    and "pid (proc_table (procmanager s) KPROC_PID_TTY0) = - 1 \<or>
      pid (proc_table (procmanager s) KPROC_PID_TTY0) = int KPROC_PID_TTY0"
  shows "msg_send KPROC_PID_FS (int KPROC_PID_TTY0) buf 1 s =
    Inr (if receiving_from (proc_table (procmanager s) KPROC_PID_TTY0) (int KPROC_PID_FS)
         then (0, send_direct KPROC_PID_TTY0 buf s) else (- 1, s))"
proof -
  have "pid2proc (int KPROC_PID_TTY0) = Inr KPROC_PID_TTY0" by (rule pid2proc_small) (simp add: proc_consts)
  moreover have "int KPROC_PID_FS \<noteq> - 1" "int KPROC_PID_FS \<noteq> int KPROC_PID_TTY0" by (simp_all add: proc_consts)
  ultimately show ?thesis using assms by (auto simp: msg_send_def receiving_from_def)
qed

text \<open>
  The dispatcher sends \<^verbatim>\<open>close\<close> to the path handler, as it does \<^verbatim>\<open>openat\<close>: neither frees or
  allocates a descriptor, and neither answers the caller, which is blocked waiting for its reply.
\<close>

theorem fs_open_close_no_effect:
  assumes "msg_function msg = SYS_openat \<or> msg_function msg = SYS_close"
    and "msg_source msg = of_nat p" "p < PROC_NUM_MAX"
  shows "fs_dispatch msg s = Inr ([FS_Send (int KPROC_PID_FSS0) OS_send_nonblk None], s)"
proof -
  have "sint (msg_source msg) = int p"
  proof -
    have "msg_source msg = word_of_int (int p)" using assms(2) by simp
    moreover have "int p < 2 ^ 31" using assms(3) by (simp add: proc_consts)
    ultimately show ?thesis by (simp only:) (rule sint_word_of_int_eq_self, simp_all)
  qed
  with assms(1,3) show ?thesis
    by (auto simp: fs_dispatch_def fs_request_by_path_def fs_notify_target_def sys_consts proc_consts)
qed

text \<open>
  C24: A request wakes the terminal daemon.  When the file system daemon runs (after the first
  schedule, in a state that satisfies the kernel invariant) and dispatches a read, write or ioctl on
  a descriptor up to 2, the terminal's queue has room, and the terminal is blocked in a receive that
  the file system daemon may answer, then the dispatcher appends the request to the queue and makes
  one call to the kernel; that call returns, the terminal is ready or running with nothing pending,
  the file system daemon is not blocked, and the kernel invariant holds.  The message on the stack
  of the daemon must not overlap the register save area or the GPIO registers.  When the terminal has
  found its queue empty but does not wait yet, the wakeup is lost (\<open>request_wakeup_lost\<close>).
\<close>

theorem request_wakes_terminal:
  assumes "msg_function msg \<in> {SYS_ioctl, SYS_readv, SYS_writev}" "sint (msg_param msg ! 0) \<le> 2"
    and "ttyproc_queue f = Some q" "ioq_inv q" "length (q_abs q) < 9"
    and "kernel_inv (procmanager s)" "do_start (procmanager s) = 0" "proc_running (procmanager s) = KPROC_PID_FS"
    and "receiving_from (proc_table (procmanager s) KPROC_PID_TTY0) (int KPROC_PID_FS)"
    and "disjnt_rng buf sizeof_Message REGS_SAVE_ADDR 124" "disjnt_rng buf sizeof_Message 0x92000020 8"
  shows "\<exists>call q' t. fs_dispatch msg f = Inr ([call], f\<lparr>ttyproc_queue := Some q'\<rparr>) \<and>
    ioq_inv q' \<and> q_abs q' = q_abs q @ [msg] \<and>
    fs_perform buf call s = Inr t \<and> kernel_inv (procmanager t) \<and>
    p_state (proc_table (procmanager t) KPROC_PID_TTY0) \<in> {PROC_STATE_READY, PROC_STATE_RUNNING} \<and>
    p_msg (proc_table (procmanager t) KPROC_PID_TTY0) = 0 \<and>
    p_recvfrom (proc_table (procmanager t) KPROC_PID_TTY0) = IPC_TARGET_NONE \<and>
    p_state (proc_table (procmanager t) KPROC_PID_FS) \<in> {PROC_STATE_READY, PROC_STATE_RUNNING}"
proof -
  let ?call = "FS_Send (int KPROC_PID_TTY0) OS_send_nonblk None"
  obtain q' where q': "fs_dispatch msg f = Inr ([?call], f\<lparr>ttyproc_queue := Some q'\<rparr>)"
    "ioq_inv q'" "q_abs q' = q_abs q @ [msg]"
    using dispatch_request [OF assms(1-5)] by blast
  obtain s2 where s2: "procmanager s2 = procmanager s" "fs_perform buf ?call s =
      bindE (msg_send KPROC_PID_FS (int KPROC_PID_TTY0) buf 1 s2) (\<lambda>(_, s). proc_schedule s)"
    using notify_call [OF assms(6,8) _ _ assms(10,11), of KPROC_PID_TTY0] by (auto simp: proc_consts)
  note n = fs_tty_pids [OF assms(6,8)]
  let ?s3 = "send_direct KPROC_PID_TTY0 buf s2"
  have "msg_send KPROC_PID_FS (int KPROC_PID_TTY0) buf 1 s2 = Inr (0, ?s3)"
    using fs_tty_send [of s2 buf] assms(9) n s2(1) by simp
  moreover have "ipc_inv (procmanager ?s3)" "do_start (procmanager ?s3) = 0"
    using send_direct_inv [of s2] assms(6,7) s2(1) by (simp_all add: kernel_inv_def send_direct_def)
  then obtain t where t: "proc_schedule ?s3 = Inr t" "kernel_inv (procmanager t)"
    "\<forall>i. p_msg (proc_table (procmanager t) i) = p_msg (proc_table (procmanager ?s3) i) \<and>
      p_recvfrom (proc_table (procmanager t) i) = p_recvfrom (proc_table (procmanager ?s3) i) \<and>
      (p_state (proc_table (procmanager ?s3) i) \<in> {PROC_STATE_READY, PROC_STATE_RUNNING} \<longrightarrow>
        p_state (proc_table (procmanager t) i) \<in> {PROC_STATE_READY, PROC_STATE_RUNNING})"
    using schedule_keeps [of ?s3] by blast
  moreover have "p_state (proc_table (procmanager ?s3) KPROC_PID_TTY0) = PROC_STATE_READY"
    "p_msg (proc_table (procmanager ?s3) KPROC_PID_TTY0) = 0"
    "p_recvfrom (proc_table (procmanager ?s3) KPROC_PID_TTY0) = IPC_TARGET_NONE"
    using assms(9) s2(1) by (simp_all add: send_direct_def receiving_from_def)
  moreover have "p_state (proc_table (procmanager ?s3) KPROC_PID_FS) = PROC_STATE_RUNNING"
    using assms(6,8) s2(1) by (simp add: kernel_inv_def send_direct_def proc_consts)
  ultimately show ?thesis using q' s2(2) by (intro exI [of _ ?call] exI [of _ q'] exI [of _ t]) auto
qed

text \<open>
  A wakeup can be lost.  The terminal daemon tests its queue before it asks the kernel to wait; when it
  is preempted in between, so that it is ready and not yet receiving, the notification of a request
  fails without a trace: the request is in the queue, and when the terminal runs again its receive
  blocks it all the same.
\<close>

theorem request_wakeup_lost:
  assumes "msg_function msg \<in> {SYS_ioctl, SYS_readv, SYS_writev}" "sint (msg_param msg ! 0) \<le> 2"
    and "ttyproc_queue f = Some q" "ioq_inv q" "q_abs q = []"
    and "kernel_inv (procmanager s)" "do_start (procmanager s) = 0" "proc_running (procmanager s) = KPROC_PID_FS"
    and "p_state (proc_table (procmanager s) KPROC_PID_TTY0) = PROC_STATE_READY"
    and "p_sendto (proc_table (procmanager s) KPROC_PID_TTY0) = IPC_TARGET_NONE"
    and "queue_sending (proc_table (procmanager s) KPROC_PID_TTY0) = None"
    and "disjnt_rng buf sizeof_Message REGS_SAVE_ADDR 124" "disjnt_rng buf sizeof_Message 0x92000020 8"
    and "next_ready (procmanager s) = KPROC_PID_TTY0" "a \<noteq> 0"
  shows "\<exists>call q' t u. fs_dispatch msg f = Inr ([call], f\<lparr>ttyproc_queue := Some q'\<rparr>) \<and> q_abs q' = [msg] \<and>
    fs_perform buf call s = Inr t \<and> proc_running (procmanager t) = KPROC_PID_TTY0 \<and>
    msg_receive KPROC_PID_TTY0 IPC_TARGET_ANY a t = Inr (0, u) \<and>
    p_state (proc_table (procmanager u) KPROC_PID_TTY0) = PROC_STATE_RECEIVING"
proof -
  let ?call = "FS_Send (int KPROC_PID_TTY0) OS_send_nonblk None"
  have "length (q_abs q) < 9" using assms(5) by simp
  then obtain q' where q': "fs_dispatch msg f = Inr ([?call], f\<lparr>ttyproc_queue := Some q'\<rparr>)" "q_abs q' = [msg]"
    using dispatch_request [OF assms(1-4)] assms(5) by auto
  obtain s2 where s2: "procmanager s2 = procmanager s" "fs_perform buf ?call s =
      bindE (msg_send KPROC_PID_FS (int KPROC_PID_TTY0) buf 1 s2) (\<lambda>(_, s). proc_schedule s)"
    using notify_call [OF assms(6,8) _ _ assms(12,13), of KPROC_PID_TTY0] by (auto simp: proc_consts)
  note n = fs_tty_pids [OF assms(6,8)]
  have "msg_send KPROC_PID_FS (int KPROC_PID_TTY0) buf 1 s2 = Inr (- 1, s2)"
    using fs_tty_send [of s2 buf] assms(9) n s2(1) by (simp add: receiving_from_def)
  moreover have inv: "ipc_inv (procmanager s2)" "do_start (procmanager s2) = 0"
    using assms(6,7) s2(1) by (simp_all add: kernel_inv_def)
  then obtain t where t: "proc_schedule s2 = Inr t" "kernel_inv (procmanager t)"
    "\<forall>i. p_sendto (proc_table (procmanager t) i) = p_sendto (proc_table (procmanager s2) i) \<and>
      pid (proc_table (procmanager t) i) = pid (proc_table (procmanager s2) i) \<and>
      queue_sending (proc_table (procmanager t) i) = queue_sending (proc_table (procmanager s2) i)"
    using schedule_keeps [of s2] by blast
  moreover have run: "proc_running (procmanager t) = KPROC_PID_TTY0"
    using schedule_running(1) [OF ipc_invD(1) [OF inv(1)] inv(2) t(1)] s2(1) assms(14) by simp
  moreover obtain u where u: "msg_receive KPROC_PID_TTY0 IPC_TARGET_ANY a t = Inr (0, u)"
    "p_state (proc_table (procmanager u) KPROC_PID_TTY0) = PROC_STATE_RECEIVING"
  proof -
    let ?T = "proc_table (procmanager t) KPROC_PID_TTY0"
    have "p_state ?T = PROC_STATE_RUNNING" using t(2) run by (simp add: kernel_inv_def)
    moreover have "p_sendto ?T = IPC_TARGET_NONE" "queue_sending ?T = None" "pid ?T \<noteq> IPC_TARGET_ANY"
      using t(3) s2(1) assms(10,11) n by (auto simp: proc_consts)
    ultimately show thesis using assms(15) that
      by (simp add: msg_receive_def receive_any_def recv_block_def Let_def) (simp add: proc_consts)
  qed
  ultimately have "fs_perform buf ?call s = Inr t" using s2(2) by simp
  then show ?thesis using q' run u by blast
qed

section \<open>Witnesses\<close>

definition empty_queue :: IOQueue where
  "empty_queue = snd (ioqueue_init \<lparr>q_size = 0, q_head = 0, q_tail = 0, q_list = []\<rparr>)"

lemma empty_queue_ok: "ioq_inv empty_queue" "q_abs empty_queue = []"
  by (simp_all add: empty_queue_def ioqueue_init_inv)

definition fs_demo :: fs_state where
  "fs_demo = \<lparr>fs_pm = blank_pm, ttyproc_queue = Some empty_queue\<rparr>"

theorem fs_open_close_no_effect_witness:
  "fs_dispatch (zero_msg\<lparr>msg_function := SYS_close, msg_source := 1\<rparr>) fs_demo =
     Inr ([FS_Send 10 OS_send_nonblk None], fs_demo)"
  using fs_open_close_no_effect [of "zero_msg\<lparr>msg_function := SYS_close, msg_source := 1\<rparr>" 1 fs_demo]
  by (simp add: proc_consts)

text \<open>The file system daemon runs; the terminal is the given process, and there is no other.\<close>

definition daemons :: "Process \<Rightarrow> kstate" where
  "daemons T = boot_state\<lparr>procmanager := (table_of [5 \<mapsto> idle_proc 5 None None, 7 \<mapsto> T])\<lparr>proc_running := 5\<rparr>,
     kmem := (\<lambda>_. 0)\<rparr>"

lemma daemons_simps:
  "proc_table (procmanager (daemons T)) i = (if i = 5 then idle_proc 5 None None else if i = 7 then T
     else blank_proc\<lparr>pid := - 1, p_state := PROC_STATE_UNDEF\<rparr>)"
  "proc_running (procmanager (daemons T)) = 5" "proc_max (procmanager (daemons T)) = 64"
  "do_start (procmanager (daemons T)) = 0"
  by (simp_all add: daemons_def table_of_def blank_pm_def proc_consts)

lemma daemons_inv: "pid T = 7 \<Longrightarrow> proc_ok T \<Longrightarrow> p_state T \<noteq> PROC_STATE_RUNNING \<Longrightarrow> kernel_inv (procmanager (daemons T))"
  by (simp add: kernel_inv_def ipc_inv_def sched_ok_def pm_wf_def daemons_simps)
    (simp add: proc_ok_def demo_simps proc_consts state_consts)

definition write_request :: Message where
  "write_request = zero_msg\<lparr>msg_function := SYS_writev, msg_source := 1\<rparr>"

lemma write_request_simps:
  "msg_function write_request = SYS_writev" "sint (msg_param write_request ! 0) = 0"
  by (simp_all add: write_request_def zero_msg_def)

lemma demo_buf:
  "disjnt_rng 0x20100f00 sizeof_Message REGS_SAVE_ADDR 124" "disjnt_rng 0x20100f00 sizeof_Message 0x92000020 8"
  by (simp_all add: disjnt_rng_def sizeof_Message_def REGS_SAVE_ADDR_def)

theorem request_wakes_terminal_witness:
  "\<exists>call q' t. fs_dispatch write_request fs_demo = Inr ([call], fs_demo\<lparr>ttyproc_queue := Some q'\<rparr>) \<and>
    q_abs q' = [write_request] \<and>
    fs_perform 0x20100f00 call (daemons (dproc 7 PROC_STATE_RECEIVING 0x20104f00 IPC_TARGET_ANY IPC_TARGET_NONE None None)) = Inr t \<and>
    p_state (proc_table (procmanager t) 7) \<in> {PROC_STATE_READY, PROC_STATE_RUNNING}"
proof -
  let ?T = "dproc 7 PROC_STATE_RECEIVING 0x20104f00 IPC_TARGET_ANY IPC_TARGET_NONE None None"
  have "kernel_inv (procmanager (daemons ?T))"
    by (rule daemons_inv) (simp_all add: proc_ok_def demo_simps proc_consts)
  moreover have "receiving_from (proc_table (procmanager (daemons ?T)) KPROC_PID_TTY0) (int KPROC_PID_FS)"
    by (simp add: daemons_simps demo_simps proc_consts)
  ultimately show ?thesis
    using request_wakes_terminal [OF _ _ _ empty_queue_ok(1) _ _ _ _ _ demo_buf, of write_request fs_demo "daemons ?T"]
    by (auto simp: write_request_simps fs_demo_def empty_queue_ok daemons_simps proc_consts)
qed

theorem request_wakeup_lost_witness:
  "\<exists>call t u. fs_perform 0x20100f00 call (daemons (dproc 7 PROC_STATE_READY 0 IPC_TARGET_NONE IPC_TARGET_NONE None None)) = Inr t \<and>
    msg_receive 7 IPC_TARGET_ANY 0x20104f00 t = Inr (0, u) \<and>
    p_state (proc_table (procmanager u) 7) = PROC_STATE_RECEIVING"
proof -
  let ?T = "dproc 7 PROC_STATE_READY 0 IPC_TARGET_NONE IPC_TARGET_NONE None None"
  have "kernel_inv (procmanager (daemons ?T))"
    by (rule daemons_inv) (simp_all add: proc_ok_def demo_simps proc_consts)
  moreover from this have "pm_wf (procmanager (daemons ?T))" by (simp add: kernel_inv_def ipc_invD)
  then have "next_ready (procmanager (daemons ?T)) = 7"
    using next_readyI [of 2 "procmanager (daemons ?T)"]
    by (simp add: daemons_simps is_ready_def demo_simps state_consts less_2_cases_iff)
  ultimately show ?thesis
    using request_wakeup_lost [OF _ _ _ empty_queue_ok _ _ _ _ _ _ demo_buf, of write_request fs_demo "daemons ?T" "0x20104f00"]
    by (auto simp: write_request_simps fs_demo_def daemons_simps demo_simps proc_consts)
qed

end
