(* ===== verification/CH375.thy ===== *)
theory CH375
  imports Prelude
begin

text \<open>
  The driver of the CH375 USB host chip, \<^verbatim>\<open>mmio_drivers/CH375.c\<close> and \<^verbatim>\<open>CH375.h\<close>.  The chip is what
  its registers show: the interrupt line at each poll of it (\<open>usb_nint\<close>), the bytes that the
  receive register delivers (\<open>usb_rx\<close>), and, as a trace, the commands and data bytes written to it.
  Polling a line that is never asserted, or waiting for a byte that never comes, is \<open>Hang\<close>.
  The transmitter always gets ready; delays and messages have no effect on the state.
\<close>

section \<open>Registers and commands\<close>

datatype usb_out = UsbCmd u8 | UsbData u8

record CH375 =
  usb_nint :: "bool list"
  usb_rx :: "u8 list"
  usb_tx :: "usb_out list"

definition CMD_RESET_ALL :: u8 where "CMD_RESET_ALL = 0x05"
definition CMD_SET_USB_MODE :: u8 where "CMD_SET_USB_MODE = 0x15"
definition CMD_GET_STATUS :: u8 where "CMD_GET_STATUS = 0x22"
definition CMD_RD_USB_DATA :: u8 where "CMD_RD_USB_DATA = 0x28"
definition CMD_WR_USB_DATA7 :: u8 where "CMD_WR_USB_DATA7 = 0x2B"
definition CMD_GET_DESCR :: u8 where "CMD_GET_DESCR = 0x46"
definition CMD_DISK_INIT :: u8 where "CMD_DISK_INIT = 0x51"
definition CMD_DISK_SIZE :: u8 where "CMD_DISK_SIZE = 0x53"
definition CMD_DISK_READ :: u8 where "CMD_DISK_READ = 0x54"
definition CMD_DISK_RD_GO :: u8 where "CMD_DISK_RD_GO = 0x55"
definition CMD_DISK_WRITE :: u8 where "CMD_DISK_WRITE = 0x56"
definition CMD_DISK_WR_GO :: u8 where "CMD_DISK_WR_GO = 0x57"
definition CMD_SET_PKT_P_SEC :: u8 where "CMD_SET_PKT_P_SEC = 0x0B"
definition CMD_DISK_R_SENSE :: u8 where "CMD_DISK_R_SENSE = 0x5A"
definition USB_INT_SUCCESS :: u8 where "USB_INT_SUCCESS = 0x14"
definition USB_INT_CONNECT :: u8 where "USB_INT_CONNECT = 0x15"
definition USB_INT_DISK_READ :: u8 where "USB_INT_DISK_READ = 0x1D"
definition USB_INT_DISK_WRITE :: u8 where "USB_INT_DISK_WRITE = 0x1E"
definition CH375_BLOCK_SIZE :: nat where "CH375_BLOCK_SIZE = 64"

lemmas usb_codes = USB_INT_SUCCESS_def USB_INT_CONNECT_def USB_INT_DISK_READ_def USB_INT_DISK_WRITE_def

section \<open>Register access\<close>

definition CH375_WR :: "u8 \<Rightarrow> CH375 \<Rightarrow> CH375" where
  "CH375_WR c u = u\<lparr>usb_tx := usb_tx u @ [UsbCmd c]\<rparr>"

definition CH375_WR_DATA :: "u8 \<Rightarrow> CH375 \<Rightarrow> CH375" where
  "CH375_WR_DATA c u = u\<lparr>usb_tx := usb_tx u @ [UsbData c]\<rparr>"

definition CH375_RD :: "CH375 \<Rightarrow> kfault + u8 \<times> CH375" where
  "CH375_RD u = (case usb_rx u of [] \<Rightarrow> Inl Hang | c # cs \<Rightarrow> Inr (c, u\<lparr>usb_rx := cs\<rparr>))"

text \<open>The line is active low: \<^verbatim>\<open>CH375_INT\<close> is its negation.\<close>

fun wait_int :: "bool list \<Rightarrow> kfault + bool list" where
  "wait_int [] = Inl Hang"
| "wait_int (nint # ps) = (if \<not> nint then Inr ps else wait_int ps)"

definition set_usb_mode :: "u8 \<Rightarrow> CH375 \<Rightarrow> kfault + u8 \<times> CH375" where
  "set_usb_mode mode u = CH375_RD (CH375_WR_DATA mode (CH375_WR CMD_SET_USB_MODE u))"

definition getIrq :: "CH375 \<Rightarrow> kfault + u8 \<times> CH375" where
  "getIrq u = bindE (wait_int (usb_nint u)) (\<lambda>ps. CH375_RD (CH375_WR CMD_GET_STATUS (u\<lparr>usb_nint := ps\<rparr>)))"

definition get_descr :: "u8 \<Rightarrow> CH375 \<Rightarrow> kfault + u8 \<times> CH375" where
  "get_descr typ u = getIrq (CH375_WR_DATA typ (CH375_WR CMD_GET_DESCR u))"

text \<open>\<open>n\<close> bytes stored one after the other from \<open>buf[i]\<close> on; the buffer has an end.\<close>

fun rd_bytes :: "nat \<Rightarrow> nat \<Rightarrow> u8 list \<Rightarrow> CH375 \<Rightarrow> kfault + u8 list \<times> CH375" where
  "rd_bytes i 0 buf u = Inr (buf, u)"
| "rd_bytes i (Suc n) buf u = bindE (CH375_RD u) (\<lambda>(c, u).
     if i < length buf then rd_bytes (Suc i) n (buf[i := c]) u else Inl BadPointer)"

definition rd_usb_data :: "u8 list \<Rightarrow> CH375 \<Rightarrow> kfault + u8 \<times> u8 list \<times> CH375" where
  "rd_usb_data buf u = bindE (CH375_RD (CH375_WR CMD_RD_USB_DATA u)) (\<lambda>(len, u).
     bindE (rd_bytes 0 (unat len) buf u) (\<lambda>(buf, u). Inr (len, buf, u)))"

text \<open>\<^verbatim>\<open>while ((c = getIrq()) != want);\<close>\<close>

lemma CH375_RD_length: "CH375_RD u = Inr (c, u') \<Longrightarrow> length (usb_rx u') < length (usb_rx u)"
  by (auto simp: CH375_RD_def split: list.splits)

lemma getIrq_length: "getIrq u = Inr (c, u') \<Longrightarrow> length (usb_rx u') < length (usb_rx u)"
  by (auto simp: getIrq_def bindE_Inr_iff CH375_WR_def dest: CH375_RD_length)

function wait_irq :: "u8 \<Rightarrow> CH375 \<Rightarrow> kfault + CH375" where
  "wait_irq want u = (case getIrq u of Inl e \<Rightarrow> Inl e
     | Inr (c, u') \<Rightarrow> if c = want then Inr u' else wait_irq want u')"
  by pat_completeness auto
termination
  by (relation "measure (\<lambda>(want, u). length (usb_rx u))") (auto simp: getIrq_length)

declare wait_irq.simps [simp del]

section \<open>Disks\<close>

text \<open>\<open>status\<close> is never read or written; \<open>seek\<close> likewise.\<close>

record CH375Disk =
  ud_buf :: "u8 list"
  ud_seek :: u32
  ud_status :: int
  BlockPerSector :: u32
  CurrentSector :: u32

definition USBClearError :: "CH375 \<Rightarrow> kfault + CH375" where
  "USBClearError u = bindE (getIrq (CH375_WR CMD_DISK_R_SENSE u)) (\<lambda>(c, u). Inr u)"

text \<open>
  Initialisation reads eight bytes of capacity data; the last two are the sector size.  The result
  of \<^verbatim>\<open>CMD_DISK_SIZE\<close> and the length byte are only reported.
\<close>

definition sector_size_of :: "u8 list \<Rightarrow> u32" where
  "sector_size_of d = push_bit 8 (ucast (d ! 6)) + ucast (d ! 7)"

definition USBDiskInit :: "CH375Disk \<Rightarrow> CH375 \<Rightarrow> kfault + CH375Disk \<times> CH375" where
  "USBDiskInit disk u =
     bindE (set_usb_mode 6 (CH375_WR CMD_RESET_ALL u)) (\<lambda>(c, u).
     bindE (wait_irq USB_INT_CONNECT u) (\<lambda>u.
     bindE (wait_irq USB_INT_SUCCESS (CH375_WR CMD_DISK_INIT u)) (\<lambda>u.
     bindE (getIrq (CH375_WR CMD_DISK_SIZE u)) (\<lambda>(c, u).
     bindE (CH375_RD (CH375_WR CMD_RD_USB_DATA u)) (\<lambda>(i, u).
     bindE (rd_bytes 0 8 (replicate 4096 0) u) (\<lambda>(d, u).
     let bps = sector_size_of d div of_nat CH375_BLOCK_SIZE in
     Inr (disk\<lparr>BlockPerSector := bps\<rparr>,
          CH375_WR_DATA (ucast bps) (CH375_WR_DATA 0x39 (CH375_WR CMD_SET_PKT_P_SEC u)))))))))"

definition disk_request :: "u8 \<Rightarrow> u32 \<Rightarrow> CH375 \<Rightarrow> CH375" where
  "disk_request cmd sec u = CH375_WR_DATA 1 (CH375_WR_DATA (ucast (drop_bit 24 sec))
     (CH375_WR_DATA (ucast (drop_bit 16 sec)) (CH375_WR_DATA (ucast (drop_bit 8 sec))
     (CH375_WR_DATA (ucast sec) (CH375_WR cmd u)))))"

text \<open>
  The two transfer loops over the blocks that are left.  They return whether the loop came to its
  end, and the last interrupt status that the variable \<^verbatim>\<open>irq\<close> of the function holds: the read
  loop declares a variable of the same name inside its body, so the outer one stays unset
  (\<open>None\<close>).
\<close>

fun read_blocks :: "nat \<Rightarrow> u8 list \<Rightarrow> CH375 \<Rightarrow> kfault + bool \<times> u8 list \<times> CH375" where
  "read_blocks 0 buf u = Inr (True, buf, u)"
| "read_blocks (Suc n) buf u = bindE (getIrq u) (\<lambda>(irq, u).
     if irq = USB_INT_DISK_READ then
       bindE (CH375_RD (CH375_WR CMD_RD_USB_DATA u)) (\<lambda>(len, u).
       bindE (rd_bytes 0 (unat len) buf u) (\<lambda>(buf, u).
       read_blocks n buf (CH375_WR CMD_DISK_RD_GO u)))
     else Inr (False, buf, u))"

text \<open>The result value is \<open>None\<close> where an unset variable is returned.\<close>

definition USBReadOneSector :: "CH375Disk \<Rightarrow> u32 \<Rightarrow> CH375 \<Rightarrow> kfault + u8 option \<times> CH375Disk \<times> CH375" where
  "USBReadOneSector disk sec u =
     bindE (read_blocks (unat (BlockPerSector disk)) (ud_buf disk) (disk_request CMD_DISK_READ sec u)) (\<lambda>(full, buf, u).
     let disk = disk\<lparr>CurrentSector := sec, ud_buf := buf\<rparr> in
     if full then bindE (getIrq u) (\<lambda>(irq, u).
       if irq = USB_INT_SUCCESS then Inr (Some 0, disk, u)
       else bindE (USBClearError u) (\<lambda>u. Inr (Some irq, disk, u)))
     else bindE (USBClearError u) (\<lambda>u. Inr (None, disk, u)))"

text \<open>\<open>n\<close> data bytes from \<open>buf[i]\<close> on.\<close>

fun wr_bytes :: "nat \<Rightarrow> nat \<Rightarrow> u8 list \<Rightarrow> CH375 \<Rightarrow> kfault + CH375" where
  "wr_bytes i 0 buf u = Inr u"
| "wr_bytes i (Suc n) buf u =
     (if i < length buf then wr_bytes (Suc i) n buf (CH375_WR_DATA (buf ! i) u) else Inl BadPointer)"

fun write_blocks :: "nat \<Rightarrow> nat \<Rightarrow> u8 option \<Rightarrow> u8 list \<Rightarrow> CH375 \<Rightarrow> kfault + bool \<times> u8 option \<times> CH375" where
  "write_blocks 0 ibuf irq buf u = Inr (True, irq, u)"
| "write_blocks (Suc n) ibuf irq buf u = bindE (getIrq u) (\<lambda>(irq, u).
     if irq = USB_INT_DISK_WRITE then
       bindE (wr_bytes ibuf CH375_BLOCK_SIZE buf
         (CH375_WR (of_nat CH375_BLOCK_SIZE) (CH375_WR CMD_WR_USB_DATA7 u))) (\<lambda>u.
       write_blocks n (ibuf + CH375_BLOCK_SIZE) (Some irq) buf (CH375_WR CMD_DISK_WR_GO u))
     else Inr (False, Some irq, u))"

definition USBWriteBackBuf :: "CH375Disk \<Rightarrow> CH375 \<Rightarrow> kfault + u8 option \<times> CH375" where
  "USBWriteBackBuf disk u =
     bindE (write_blocks (unat (BlockPerSector disk)) 0 None (ud_buf disk)
       (disk_request CMD_DISK_WRITE (CurrentSector disk) u)) (\<lambda>(full, irq, u).
     if full then bindE (getIrq u) (\<lambda>(irq, u).
       if irq = USB_INT_SUCCESS then Inr (Some 0, u)
       else bindE (USBClearError u) (\<lambda>u. Inr (Some irq, u)))
     else bindE (USBClearError u) (\<lambda>u. Inr (irq, u)))"

definition usb_test :: "CH375Disk \<Rightarrow> CH375 \<Rightarrow> kfault + CH375Disk \<times> CH375" where
  "usb_test disk u = bindE (USBDiskInit disk u) (\<lambda>(disk, u).
     bindE (USBReadOneSector disk 0 u) (\<lambda>(r, disk, u). Inr (disk, u)))"

definition usb_hid_test :: "u8 list \<Rightarrow> CH375 \<Rightarrow> kfault + u8 \<times> u8 list \<times> CH375" where
  "usb_hid_test recv_buffer u =
     bindE (set_usb_mode 6 (CH375_WR CMD_RESET_ALL u)) (\<lambda>(c, u).
     bindE (wait_irq USB_INT_CONNECT u) (\<lambda>u.
     bindE (set_usb_mode 7 u) (\<lambda>(c, u).
     bindE (set_usb_mode 6 u) (\<lambda>(c, u).
     bindE (wait_irq USB_INT_CONNECT u) (\<lambda>u.
     bindE (get_descr 1 u) (\<lambda>(c, u).
     if c = USB_INT_SUCCESS then rd_usb_data recv_buffer u else Inr (0, recv_buffer, u)))))))"

section \<open>The effect of the transfers\<close>

definition ints_left :: "CH375 \<Rightarrow> nat" where
  "ints_left u = length (filter Not (usb_nint u))"

lemma wait_int_ok:
  "filter Not ps \<noteq> [] \<Longrightarrow> \<exists>ps'. wait_int ps = Inr ps' \<and> length (filter Not ps) = Suc (length (filter Not ps'))"
  by (induction ps rule: wait_int.induct) auto

lemma getIrq_ok:
  assumes "0 < ints_left u" "usb_rx u = c # cs"
  shows "\<exists>u'. getIrq u = Inr (c, u') \<and> usb_rx u' = cs \<and> usb_tx u' = usb_tx u @ [UsbCmd CMD_GET_STATUS] \<and>
    ints_left u = Suc (ints_left u')"
  using assms wait_int_ok [of "usb_nint u"]
  by (auto simp: ints_left_def getIrq_def CH375_WR_def CH375_RD_def)

lemma ints_left_regs [simp]:
  "ints_left (CH375_WR c u) = ints_left u" "ints_left (CH375_WR_DATA c u) = ints_left u"
  "ints_left (disk_request c s u) = ints_left u" "ints_left (u\<lparr>usb_rx := r\<rparr>) = ints_left u"
  by (simp_all add: ints_left_def CH375_WR_def CH375_WR_DATA_def disk_request_def)

lemma rx_regs [simp]:
  "usb_rx (CH375_WR c u) = usb_rx u" "usb_rx (CH375_WR_DATA c u) = usb_rx u"
  "usb_rx (disk_request c s u) = usb_rx u"
  by (simp_all add: CH375_WR_def CH375_WR_DATA_def disk_request_def)

lemma tx_regs [simp]:
  "usb_tx (CH375_WR c u) = usb_tx u @ [UsbCmd c]" "usb_tx (CH375_WR_DATA c u) = usb_tx u @ [UsbData c]"
  by (simp_all add: CH375_WR_def CH375_WR_DATA_def)

text \<open>Bytes written over a buffer from index \<open>i\<close> on.\<close>

definition overlay :: "nat \<Rightarrow> u8 list \<Rightarrow> u8 list \<Rightarrow> u8 list" where
  "overlay i bs buf = take i buf @ bs @ drop (i + length bs) buf"

lemma overlay_Cons: "i < length buf \<Longrightarrow> overlay (Suc i) bs (buf[i := b]) = overlay i (b # bs) buf"
  by (simp add: overlay_def take_Suc_conv_app_nth)

lemma length_overlay [simp]: "i + length bs \<le> length buf \<Longrightarrow> length (overlay i bs buf) = length buf"
  by (simp add: overlay_def)

lemma rd_bytes_ok:
  "usb_rx u = bs @ rest \<Longrightarrow> i + length bs \<le> length buf \<Longrightarrow>
   rd_bytes i (length bs) buf u = Inr (overlay i bs buf, u\<lparr>usb_rx := rest\<rparr>)"
proof (induction bs arbitrary: i buf u)
  case Nil
  then show ?case by (simp add: overlay_def)
next
  case (Cons b bs)
  then show ?case by (simp add: CH375_RD_def overlay_Cons)
qed

text \<open>What the chip delivers for one block of a read.\<close>

definition block_rx :: "u8 list \<Rightarrow> u8 list" where
  "block_rx b = USB_INT_DISK_READ # of_nat (length b) # b"

definition block_read_tx :: "usb_out list" where
  "block_read_tx = [UsbCmd CMD_GET_STATUS, UsbCmd CMD_RD_USB_DATA, UsbCmd CMD_DISK_RD_GO]"

lemma read_blocks_ok:
  assumes "\<forall>b\<in>set bs. length b < 256 \<and> length b \<le> length buf"
    and "length bs \<le> ints_left u" "usb_rx u = concat (map block_rx bs) @ rest"
  shows "\<exists>u'. read_blocks (length bs) buf u = Inr (True, foldl (\<lambda>buf b. overlay 0 b buf) buf bs, u') \<and>
    usb_rx u' = rest \<and> usb_tx u' = usb_tx u @ concat (replicate (length bs) block_read_tx) \<and>
    ints_left u = length bs + ints_left u'"
  using assms
proof (induction bs arbitrary: buf u)
  case Nil
  then show ?case by simp
next
  case (Cons b bs)
  let ?r = "concat (map block_rx bs) @ rest"
  have "usb_rx u = USB_INT_DISK_READ # of_nat (length b) # b @ ?r" "0 < ints_left u"
    using Cons.prems by (simp_all add: block_rx_def [of b])
  with getIrq_ok [of u] obtain u1 where u1: "getIrq u = Inr (USB_INT_DISK_READ, u1)"
    "usb_rx u1 = of_nat (length b) # b @ ?r" "usb_tx u1 = usb_tx u @ [UsbCmd CMD_GET_STATUS]"
    "ints_left u = Suc (ints_left u1)"
    by blast
  let ?u2 = "CH375_WR CMD_DISK_RD_GO ((CH375_WR CMD_RD_USB_DATA u1)\<lparr>usb_rx := ?r\<rparr>)"
  have len: "unat (of_nat (length b) :: u8) = length b"
    using Cons.prems(1) by (simp add: unat_of_nat take_bit_nat_eq_self)
  have "read_blocks (length (b # bs)) buf u = read_blocks (length bs) (overlay 0 b buf) ?u2"
    using u1 Cons.prems(1) by (simp add: CH375_RD_def len rd_bytes_ok [of _ b ?r])
  moreover have "\<forall>c\<in>set bs. length c < 256 \<and> length c \<le> length (overlay 0 b buf)"
    using Cons.prems(1) by simp
  ultimately show ?case
    using Cons.IH [of "overlay 0 b buf" ?u2] Cons.prems(2) u1 by (auto simp: block_read_tx_def)
qed

lemma disk_request_tx:
  "usb_tx (disk_request c s u) = usb_tx u @ [UsbCmd c, UsbData (ucast s), UsbData (ucast (drop_bit 8 s)),
     UsbData (ucast (drop_bit 16 s)), UsbData (ucast (drop_bit 24 s)), UsbData 1]"
  by (simp add: disk_request_def)

lemma foldl_overlay_last:
  "bs \<noteq> [] \<Longrightarrow> \<forall>b\<in>set bs. length b = k \<Longrightarrow> k \<le> length buf \<Longrightarrow>
   foldl (\<lambda>buf b. overlay 0 b buf) buf bs = last bs @ drop k buf"
proof (induction bs arbitrary: buf)
  case (Cons b bs)
  then show ?case by (cases "bs = []") (auto simp: overlay_def)
qed simp

section \<open>Properties\<close>

text \<open>
  A read of a sector during which the chip reports no error sends the sector number and asks
  for every block, and returns 0; but every block is stored at the start of the buffer, so of the
  sector only its last block is in the buffer afterwards, and the rest of the buffer is unchanged.
\<close>

theorem usb_read_keeps_last_block:
  assumes "bs \<noteq> []" "\<forall>b\<in>set bs. length b = CH375_BLOCK_SIZE" "unat (BlockPerSector disk) = length bs"
    and "CH375_BLOCK_SIZE \<le> length (ud_buf disk)" "length bs < ints_left u"
    and "usb_rx u = concat (map block_rx bs) @ USB_INT_SUCCESS # rest"
  shows "\<exists>u'. USBReadOneSector disk sec u = Inr (Some 0,
      disk\<lparr>CurrentSector := sec, ud_buf := last bs @ drop CH375_BLOCK_SIZE (ud_buf disk)\<rparr>, u') \<and>
    usb_rx u' = rest \<and>
    usb_tx u' = usb_tx u @ [UsbCmd CMD_DISK_READ, UsbData (ucast sec), UsbData (ucast (drop_bit 8 sec)),
      UsbData (ucast (drop_bit 16 sec)), UsbData (ucast (drop_bit 24 sec)), UsbData 1] @
      concat (replicate (length bs) block_read_tx) @ [UsbCmd CMD_GET_STATUS]"
proof -
  let ?u = "disk_request CMD_DISK_READ sec u"
  have "\<forall>b\<in>set bs. length b < 256 \<and> length b \<le> length (ud_buf disk)"
    using assms(2,4) by (simp add: CH375_BLOCK_SIZE_def)
  with read_blocks_ok [of bs "ud_buf disk" ?u "USB_INT_SUCCESS # rest"] assms(5,6)
  obtain u1 where u1: "read_blocks (length bs) (ud_buf disk) ?u =
      Inr (True, foldl (\<lambda>buf b. overlay 0 b buf) (ud_buf disk) bs, u1)"
    "usb_rx u1 = USB_INT_SUCCESS # rest" "0 < ints_left u1"
    "usb_tx u1 = usb_tx ?u @ concat (replicate (length bs) block_read_tx)"
    by auto
  with getIrq_ok [of u1] show ?thesis
    using foldl_overlay_last [OF assms(1,2,4)] assms(3)
    by (auto simp: USBReadOneSector_def disk_request_tx)
qed

definition block_write_tx :: "u8 list \<Rightarrow> nat \<Rightarrow> usb_out list" where
  "block_write_tx buf i = [UsbCmd CMD_GET_STATUS, UsbCmd CMD_WR_USB_DATA7, UsbCmd 64] @
     map UsbData (take 64 (drop i buf)) @ [UsbCmd CMD_DISK_WR_GO]"

lemma wr_bytes_ok:
  "i + n \<le> length buf \<Longrightarrow> wr_bytes i n buf u = Inr (u\<lparr>usb_tx := usb_tx u @ map UsbData (take n (drop i buf))\<rparr>)"
proof (induction n arbitrary: i u)
  case (Suc n)
  then have "take (Suc n) (drop i buf) = buf ! i # take n (drop (Suc i) buf)"
    by (simp add: Cons_nth_drop_Suc [symmetric])
  with Suc show ?case by (simp add: CH375_WR_DATA_def)
qed simp

lemma write_blocks_ok:
  assumes "n \<le> ints_left u" "usb_rx u = replicate n USB_INT_DISK_WRITE @ rest" "i + 64 * n \<le> length buf"
  shows "\<exists>irq' u'. write_blocks n i irq buf u = Inr (True, irq', u') \<and> usb_rx u' = rest \<and>
    usb_tx u' = usb_tx u @ concat (map (\<lambda>k. block_write_tx buf (i + 64 * k)) [0..<n]) \<and>
    ints_left u = n + ints_left u'"
  using assms
proof (induction n arbitrary: i irq u)
  case 0
  then show ?case by simp
next
  case (Suc n)
  then have "usb_rx u = USB_INT_DISK_WRITE # replicate n USB_INT_DISK_WRITE @ rest" "0 < ints_left u"
    by auto
  with getIrq_ok [of u] obtain u1 where u1: "getIrq u = Inr (USB_INT_DISK_WRITE, u1)"
    "usb_rx u1 = replicate n USB_INT_DISK_WRITE @ rest" "usb_tx u1 = usb_tx u @ [UsbCmd CMD_GET_STATUS]"
    "ints_left u = Suc (ints_left u1)"
    by blast
  let ?w = "CH375_WR 64 (CH375_WR CMD_WR_USB_DATA7 u1)"
  let ?u2 = "CH375_WR CMD_DISK_WR_GO (?w\<lparr>usb_tx := usb_tx ?w @ map UsbData (take 64 (drop i buf))\<rparr>)"
  have step: "write_blocks (Suc n) i irq buf u = write_blocks n (i + 64) (Some USB_INT_DISK_WRITE) buf ?u2"
    using u1 Suc.prems(3) by (simp add: wr_bytes_ok CH375_BLOCK_SIZE_def)
  have shift: "concat (map (\<lambda>k. block_write_tx buf (i + 64 * k)) [0..<Suc n]) =
      block_write_tx buf i @ concat (map (\<lambda>k. block_write_tx buf (i + 64 + 64 * k)) [0..<n])"
    by (simp add: upt_conv_Cons map_Suc_upt [symmetric] comp_def add.assoc del: upt_Suc)
  have "n \<le> ints_left ?u2" "usb_rx ?u2 = replicate n USB_INT_DISK_WRITE @ rest" "i + 64 + 64 * n \<le> length buf"
    using u1 Suc.prems by (simp_all add: ints_left_def CH375_WR_def)
  from Suc.IH [OF this, of "Some USB_INT_DISK_WRITE"] obtain irq' u' where
    "write_blocks n (i + 64) (Some USB_INT_DISK_WRITE) buf ?u2 = Inr (True, irq', u')" "usb_rx u' = rest"
    "usb_tx u' = usb_tx ?u2 @ concat (map (\<lambda>k. block_write_tx buf (i + 64 + 64 * k)) [0..<n])"
    "ints_left ?u2 = n + ints_left u'" by blast
  moreover have "ints_left ?u2 = ints_left u1" by (simp add: ints_left_def CH375_WR_def)
  moreover have "usb_tx ?u2 = usb_tx u @ block_write_tx buf i"
    using u1(3) by (simp add: block_write_tx_def)
  ultimately show ?case using step shift u1(4) by simp
qed

text \<open>
  Writing the buffer back sends, when the chip accepts every block, the number of the current
  sector and the bytes of the buffer from its start, one block after the other, each announced by
  the block length, which goes out as a command; it returns 0.
\<close>

theorem usb_write_sends_buffer:
  assumes "unat (BlockPerSector disk) = n" "64 * n \<le> length (ud_buf disk)" "n < ints_left u"
    and "usb_rx u = replicate n USB_INT_DISK_WRITE @ USB_INT_SUCCESS # rest"
  shows "\<exists>u'. USBWriteBackBuf disk u = Inr (Some 0, u') \<and> usb_rx u' = rest \<and>
    usb_tx u' = usb_tx u @ [UsbCmd CMD_DISK_WRITE, UsbData (ucast (CurrentSector disk)),
      UsbData (ucast (drop_bit 8 (CurrentSector disk))), UsbData (ucast (drop_bit 16 (CurrentSector disk))),
      UsbData (ucast (drop_bit 24 (CurrentSector disk))), UsbData 1] @
      concat (map (\<lambda>k. block_write_tx (ud_buf disk) (64 * k)) [0..<n]) @ [UsbCmd CMD_GET_STATUS]"
proof -
  let ?u = "disk_request CMD_DISK_WRITE (CurrentSector disk) u"
  from write_blocks_ok [of n ?u "USB_INT_SUCCESS # rest" 0 "ud_buf disk" None] assms(2-4)
  obtain irq' u1 where u1: "write_blocks n 0 None (ud_buf disk) ?u = Inr (True, irq', u1)"
    "usb_rx u1 = USB_INT_SUCCESS # rest" "0 < ints_left u1"
    "usb_tx u1 = usb_tx ?u @ concat (map (\<lambda>k. block_write_tx (ud_buf disk) (64 * k)) [0..<n])"
    by auto
  with getIrq_ok [of u1] assms(1) show ?thesis
    by (auto simp: USBWriteBackBuf_def disk_request_tx)
qed

text \<open>A disk with sectors of 128 bytes, two blocks each.\<close>

definition usb_demo_disk :: CH375Disk where
  "usb_demo_disk = \<lparr>ud_buf = replicate 512 7, ud_seek = 0, ud_status = 0, BlockPerSector = 2, CurrentSector = 5\<rparr>"

definition usb_demo :: "u8 list \<Rightarrow> CH375" where
  "usb_demo rx = \<lparr>usb_nint = [True, False, True, False, False], usb_rx = rx, usb_tx = []\<rparr>"

theorem usb_read_keeps_last_block_witness:
  "\<exists>u'. USBReadOneSector usb_demo_disk 5 (usb_demo (block_rx (replicate 64 1) @ block_rx (replicate 64 2) @ [USB_INT_SUCCESS])) =
     Inr (Some 0, usb_demo_disk\<lparr>CurrentSector := 5, ud_buf := replicate 64 2 @ replicate 448 7\<rparr>, u')"
proof -
  have "drop 64 (replicate 512 (7 :: u8)) = replicate 448 7" by simp
  then show ?thesis
    using usb_read_keeps_last_block [of "[replicate 64 1, replicate 64 2]" usb_demo_disk
        "usb_demo (block_rx (replicate 64 1) @ block_rx (replicate 64 2) @ [USB_INT_SUCCESS])" "[]" 5]
    by (auto simp: usb_demo_disk_def usb_demo_def CH375_BLOCK_SIZE_def ints_left_def)
qed

theorem usb_write_sends_buffer_witness:
  "\<exists>u'. USBWriteBackBuf usb_demo_disk (usb_demo (replicate 2 USB_INT_DISK_WRITE @ [USB_INT_SUCCESS])) = Inr (Some 0, u') \<and>
     usb_rx u' = []"
  using usb_write_sends_buffer [of usb_demo_disk 2 "usb_demo (replicate 2 USB_INT_DISK_WRITE @ [USB_INT_SUCCESS])" "[]"]
  by (auto simp: usb_demo_disk_def usb_demo_def ints_left_def)

text \<open>
  When the chip answers a block request with anything but a block, the status that
  \<^verbatim>\<open>USBReadOneSector\<close> returns is the one variable that nothing was written to.
\<close>

theorem usb_read_error_unset:
  assumes "BlockPerSector disk \<noteq> 0" "c \<noteq> USB_INT_DISK_READ" "2 \<le> ints_left u" "usb_rx u = c # d # rest"
  shows "\<exists>u'. USBReadOneSector disk sec u = Inr (None, disk\<lparr>CurrentSector := sec\<rparr>, u')"
proof -
  let ?u = "disk_request CMD_DISK_READ sec u"
  obtain n where n: "unat (BlockPerSector disk) = Suc n"
    using assms(1) by (cases "unat (BlockPerSector disk)") (auto simp: unat_eq_0)
  from getIrq_ok [of ?u] assms(3,4) obtain u1 where u1: "getIrq ?u = Inr (c, u1)" "usb_rx u1 = d # rest"
    "0 < ints_left u1" by auto
  with getIrq_ok [of "CH375_WR CMD_DISK_R_SENSE u1"] obtain u2 where "USBClearError u1 = Inr u2"
    by (auto simp: USBClearError_def)
  with u1 n assms(2) show ?thesis by (simp add: USBReadOneSector_def)
qed

theorem usb_read_error_unset_witness:
  "\<exists>u'. USBReadOneSector usb_demo_disk 9 (usb_demo [USB_INT_SUCCESS, 0]) =
     Inr (None, usb_demo_disk\<lparr>CurrentSector := 9\<rparr>, u')"
  using usb_read_error_unset [of usb_demo_disk USB_INT_SUCCESS "usb_demo [USB_INT_SUCCESS, 0]" 0 "[]" 9]
  by (simp add: usb_demo_disk_def usb_demo_def ints_left_def usb_codes)

end
