(* ===== verification/Drivers.thy ===== *)
theory Drivers
  imports Prelude
begin

text \<open>
  The small memory mapped drivers: the timer (\<^verbatim>\<open>mmio_drivers/timer.c\<close>), the SPI bridge to the
  W5500 network chip (\<^verbatim>\<open>w5500.c\<close>, \<^verbatim>\<open>w5500.h\<close>) with the test that \<^verbatim>\<open>sdboot.c\<close> runs on it, the table
  of PS/2 key codes (\<^verbatim>\<open>ps2.c\<close>), and the text screen of the user program
  (\<^verbatim>\<open>userspace/test.c\<close>).
\<close>

section \<open>Timer\<close>

text \<open>
  The two halves of the counter are read as \<^verbatim>\<open>int\<close> and converted to \<^verbatim>\<open>unsigned long long\<close>, with
  sign extension.
\<close>

definition get_timer_ticks :: "u32 \<Rightarrow> u32 \<Rightarrow> u64" where
  "get_timer_ticks low high = (let timel = scast low :: u64; timeh = scast high :: u64 in timel + push_bit 32 timeh)"

definition timer_value :: "u32 \<Rightarrow> u32 \<Rightarrow> nat" where
  "timer_value low high = unat low + 2 ^ 32 * unat high"

lemma get_timer_ticks_int:
  "get_timer_ticks low high = word_of_int (sint low + 2 ^ 32 * sint high)"
  unfolding get_timer_ticks_def Let_def scast_eq push_bit_eq_mult by simp

lemma sint_split: "sint (w :: u32) = (if bit w 31 then int (unat w) - 2 ^ 32 else int (unat w))"
proof -
  have "take_bit 32 (uint w) = uint w" using uint_bounded [of w] by (simp add: take_bit_int_eq_self)
  then show ?thesis
    by (simp add: sint_uint signed_take_bit_eq_take_bit_minus bit_uint_iff)
qed

lemma word_of_int_minus_2p64: "(word_of_int (2 ^ 64 * k) :: u64) = 0"
proof -
  have "(word_of_int (2 ^ 64) :: u64) = 0" by simp
  then show ?thesis by (simp only: of_int_mult mult_zero_left)
qed

text \<open>
  The value is the 64 bit counter, except while bit 31 of its low word is set: then it is
  \<open>2 ^ 32\<close> too small, so the time seen by the caller runs backwards every \<open>2 ^ 32\<close> ticks.
\<close>

theorem get_timer_ticks_value:
  "get_timer_ticks low high =
    (if bit low 31 then of_nat (timer_value low high) - 2 ^ 32 else of_nat (timer_value low high))"
proof -
  have hi: "(word_of_int (2 ^ 32 * sint high) :: u64) = word_of_int (2 ^ 32 * int (unat high))"
  proof (cases "bit high 31")
    case True
    then have "2 ^ 32 * sint high = 2 ^ 32 * int (unat high) + 2 ^ 64 * (- 1)" by (simp add: sint_split)
    then show ?thesis by (simp only: of_int_add word_of_int_minus_2p64 add_0_right)
  qed (simp add: sint_split)
  have "get_timer_ticks low high = word_of_int (sint low) + word_of_int (2 ^ 32 * int (unat high))"
    unfolding get_timer_ticks_int of_int_add hi ..
  then show ?thesis
    by (simp add: sint_split timer_value_def)
qed
section \<open>W5500\<close>

record W5500 =
  w5500_setaddr :: u32
  w5500_setctrl :: u32
  w5500_setdata :: u32
  w5500_setxfrlen :: u32
  w5500_issued :: "(u32 \<times> u32 \<times> u32 \<times> u32) list"
  w5500_ready :: "bool list"
  w5500_recvbits :: "(u32 \<times> u32 \<times> u32 \<times> u32) list \<Rightarrow> u32"
  w5500_intn :: bool

text \<open>
  Writing \<^verbatim>\<open>w5500_issue\<close> starts a transfer with the registers as they are; \<open>w5500_issued\<close> lists the
  transfers (control, address, length, data).  \<open>w5500_ready\<close> holds the values that the polls of
  the ready register read, and \<open>w5500_recvbits\<close> is what the chip answers after the transfers so
  far: the chip is a parameter.
\<close>

definition W5_BS_GENERAL :: u32 where "W5_BS_GENERAL = 0"
definition W5_RW_R :: u32 where "W5_RW_R = 0"
definition W5_RW_W :: u32 where "W5_RW_W = 1"
definition W5_FDM1 :: u32 where "W5_FDM1 = 1"
definition W5_FDM2 :: u32 where "W5_FDM2 = 2"
definition W5_FDM4 :: u32 where "W5_FDM4 = 3"
definition W5_G_GAR :: u32 where "W5_G_GAR = 0x0001"
definition W5_G_SUBR :: u32 where "W5_G_SUBR = 0x0005"
definition W5_G_SHAR :: u32 where "W5_G_SHAR = 0x0009"
definition W5_G_SIPR :: u32 where "W5_G_SIPR = 0x000F"
definition W5_G_VERSIONR :: u32 where "W5_G_VERSIONR = 0x0039"

fun wait_ready :: "bool list \<Rightarrow> kfault + bool list" where
  "wait_ready [] = Inl Hang"
| "wait_ready (r # rs) = (if r then Inr rs else wait_ready rs)"

definition w5500_spi :: "u32 \<Rightarrow> u32 \<Rightarrow> u32 \<Rightarrow> u32 \<Rightarrow> u32 \<Rightarrow> W5500 \<Rightarrow> kfault + u32 \<times> W5500" where
  "w5500_spi blksel addr rw len data w =
     (let ctrl = push_bit 3 blksel + push_bit 2 rw + len; xfrlen = (if len = W5_FDM4 then 4 else len);
          issued = w5500_issued w @ [(ctrl, addr, xfrlen, data)];
          w = w\<lparr>w5500_setaddr := addr, w5500_setctrl := ctrl, w5500_setxfrlen := xfrlen,
                w5500_setdata := data, w5500_issued := issued\<rparr>
      in bindE (wait_ready (w5500_ready w)) (\<lambda>rs. Inr (w5500_recvbits w issued, w\<lparr>w5500_ready := rs\<rparr>)))"

definition w5500_isready :: "W5500 \<Rightarrow> kfault + bool \<times> W5500" where
  "w5500_isready w = (case w5500_ready w of [] \<Rightarrow> Inl Hang | r # rs \<Rightarrow> Inr (r, w\<lparr>w5500_ready := rs\<rparr>))"

definition w5500_isirq :: "W5500 \<Rightarrow> bool" where
  "w5500_isirq w = (\<not> w5500_intn w)"

text \<open>The calls of \<^verbatim>\<open>w5500_test\<close> in their order; the answers are only printed.\<close>

definition w5500_test_calls :: "(u32 \<times> u32 \<times> u32 \<times> u32) list" where
  "w5500_test_calls =
    [(W5_G_VERSIONR, W5_RW_R, W5_FDM1, 0),
     (W5_G_GAR, W5_RW_W, W5_FDM4, 0x0163A8C0), (W5_G_GAR, W5_RW_R, W5_FDM4, 0),
     (W5_G_SUBR, W5_RW_W, W5_FDM4, 0x00FFFFFF), (W5_G_SUBR, W5_RW_R, W5_FDM4, 0),
     (W5_G_SHAR, W5_RW_W, W5_FDM4, 0x01DC0800), (W5_G_SHAR + 4, W5_RW_W, W5_FDM2, 0x0302),
     (W5_G_SHAR, W5_RW_R, W5_FDM4, 0), (W5_G_SHAR + 4, W5_RW_R, W5_FDM2, 0),
     (W5_G_SIPR, W5_RW_W, W5_FDM4, 0x0563A8C0), (W5_G_SIPR, W5_RW_R, W5_FDM4, 0)]"

fun spi_calls :: "(u32 \<times> u32 \<times> u32 \<times> u32) list \<Rightarrow> W5500 \<Rightarrow> kfault + u32 list \<times> W5500" where
  "spi_calls [] w = Inr ([], w)"
| "spi_calls ((addr, rw, len, data) # cs) w =
     bindE (w5500_spi W5_BS_GENERAL addr rw len data w) (\<lambda>(r, w).
     bindE (spi_calls cs w) (\<lambda>(rs, w). Inr (r # rs, w)))"

definition w5500_test :: "W5500 \<Rightarrow> kfault + u32 list \<times> W5500" where
  "w5500_test w = spi_calls w5500_test_calls w"

section \<open>PS/2 key codes\<close>

definition K_TAB :: int where "K_TAB = 1001"
definition K_SHIFT_L :: int where "K_SHIFT_L = 1002"
definition K_BS :: int where "K_BS = 1003"
definition K_ESC :: int where "K_ESC = 1004"
definition KEYCODE_LENGTH :: nat where "KEYCODE_LENGTH = 0x7F"

text \<open>Two entries for each key code, without and with shift; 0 where there is no key.\<close>

definition keycode_map :: "int list" where
  "keycode_map = [
     0, 0, 0, 0, 0, 0, 0, 0, 0, 0, 0, 0, 0, 0, 0, 0,
     0, 0, 0, 0, 0, 0, 0, 0, 0, 0, K_TAB, K_TAB, 0, 0, 0, 0,
     0, 0, 0, 0, K_SHIFT_L, K_SHIFT_L, 0, 0, 0, 0, 0, 0, 48, 33, 0, 0,
     0, 0, 0, 0, 0, 0, 0, 0, 97, 65, 0, 0, 50, 64, 0, 0,
     0, 0, 99, 67, 0, 0, 0, 0, 0, 0, 52, 36, 51, 35, 0, 0,
     0, 0, 0, 0, 0, 0, 0, 0, 0, 0, 0, 0, 53, 37, 0, 0,
     0, 0, 0, 0, 98, 66, 0, 0, 0, 0, 0, 0, 54, 94, 0, 0,
     0, 0, 0, 0, 0, 0, 0, 0, 0, 0, 55, 38, 56, 42, 0, 0,
     0, 0, 0, 0, 0, 0, 0, 0, 0, 0, 0, 0, 57, 40, 0, 0,
     0, 0, 0, 0, 0, 0, 0, 0, 0, 0, 0, 0, 45, 95, 0, 0,
     0, 0, 0, 0, 0, 0, 0, 0, 0, 0, 61, 43, 0, 0, 0, 0,
     0, 0, 0, 0, 0, 0, 0, 0, 0, 0, 0, 0, 0, 0, 0, 0,
     0, 0, 0, 0, 0, 0, 0, 0, 0, 0, 0, 0, K_BS, K_BS, 0, 0,
     0, 0, 0, 0, 0, 0, 0, 0, 0, 0, 0, 0, 0, 0, 0, 0,
     0, 0, 0, 0, 0, 0, 0, 0, 0, 0, 0, 0, K_ESC, K_ESC, 0, 0,
     0, 0, 0, 0, 0, 0, 0, 0, 0, 0, 0, 0, 0, 0]"

section \<open>The text screen of the user program\<close>

record Screen =
  video :: "nat \<Rightarrow> u32"
  video_x :: nat
  video_y :: nat

definition hdmi_putchar :: "u8 \<Rightarrow> Screen \<Rightarrow> Screen" where
  "hdmi_putchar c s =
     (if c = 0x0d then s\<lparr>video_x := 0\<rparr>
      else if c = 0x0a then
        (if video_y s = 29 then s\<lparr>video_y := 0\<rparr> else s\<lparr>video_y := video_y s + 1\<rparr>)
      else let s = s\<lparr>video := (video s)(video_y s * 80 + video_x s := ucast c + 0x0100)\<rparr> in
        if video_x s = 79 then
          (if video_y s = 29 then s\<lparr>video_x := 0, video_y := 0\<rparr>
           else s\<lparr>video_x := 0, video_y := video_y s + 1\<rparr>)
        else s\<lparr>video_x := video_x s + 1\<rparr>)"

section \<open>Properties of the drivers\<close>

lemma wait_ready_True: "wait_ready (replicate k False @ True # rs) = Inr rs"
  by (induction k) simp_all

lemma wait_ready_False: "wait_ready (replicate k False) = Inl Hang"
  by (induction k) simp_all

text \<open>The control byte of a transfer tells its three fields apart.\<close>

lemma w5500_ctrl_fields:
  fixes blksel rw len :: u32
  assumes "blksel < 32" "rw < 2" "len < 4"
  shows "unat (push_bit 3 blksel + push_bit 2 rw + len) = 8 * unat blksel + 4 * unat rw + unat len"
proof -
  have n: "unat blksel < 32" "unat rw < 2" "unat len < 4"
    using assms by (simp_all add: word_less_nat_alt)
  have p: "unat (8 * blksel) = 8 * unat blksel" "unat (4 * rw) = 4 * unat rw"
    using n by (simp_all add: unat_word_ariths(2))
  have "unat (8 * blksel + 4 * rw) = 8 * unat blksel + 4 * unat rw"
    using n p by (simp add: unat_word_ariths(1))
  then have "unat (8 * blksel + 4 * rw + len) = 8 * unat blksel + 4 * unat rw + unat len"
    using n by (simp add: unat_word_ariths(1))
  then show ?thesis by (simp add: push_bit_eq_mult mult.commute)
qed

text \<open>A run of transfers reaches the chip in the order of the calls, with the registers of each.\<close>

lemma spi_calls_issue:
  assumes "length cs \<le> length (w5500_ready w)" "\<forall>r\<in>set (w5500_ready w). r"
  shows "\<exists>rs w'. spi_calls cs w = Inr (rs, w') \<and> length rs = length cs \<and> w5500_issued w' = w5500_issued w @
    map (\<lambda>(addr, rw, len, data). (push_bit 2 rw + len, addr, if len = W5_FDM4 then 4 else len, data)) cs"
  using assms
proof (induction cs arbitrary: w)
  case Nil
  then show ?case by simp
next
  case (Cons c cs)
  obtain addr rw len data where c: "c = (addr, rw, len, data)" by (cases c) auto
  obtain ps where ps: "w5500_ready w = True # ps" using Cons.prems by (cases "w5500_ready w") auto
  obtain r w1 where w1: "w5500_spi W5_BS_GENERAL addr rw len data w = Inr (r, w1)" "w5500_ready w1 = ps"
    "w5500_issued w1 = w5500_issued w @ [(push_bit 2 rw + len, addr, if len = W5_FDM4 then 4 else len, data)]"
    using ps by (simp add: w5500_spi_def Let_def W5_BS_GENERAL_def)
  with Cons.IH [of w1] Cons.prems ps show ?case by (fastforce simp: c)
qed

lemma length_keycode_map: "length keycode_map = 2 * KEYCODE_LENGTH"
  by (simp add: keycode_map_def KEYCODE_LENGTH_def)

text \<open>No two keys of the table are confused: apart from 0, an entry occurs for one key code only.\<close>

lemma keycode_map_distinct:
  "distinct (filter (\<lambda>x. x \<noteq> 0) (map (\<lambda>i. keycode_map ! (2 * i)) [0..<KEYCODE_LENGTH]))"
  by code_simp

text \<open>The cursor never leaves the screen of 30 rows of 80 columns.\<close>

definition screen_ok :: "Screen \<Rightarrow> bool" where
  "screen_ok s \<longleftrightarrow> video_x s < 80 \<and> video_y s < 30"

lemma hdmi_putchar_ok: "screen_ok s \<Longrightarrow> screen_ok (hdmi_putchar c s)"
  by (auto simp: screen_ok_def hdmi_putchar_def Let_def)

lemma hdmi_putchar_inside:
  assumes "screen_ok s" "2400 \<le> i"
  shows "video (foldl (\<lambda>s c. hdmi_putchar c s) s cs) i = video s i"
  using assms(1)
proof (induction cs arbitrary: s)
  case (Cons c cs)
  then have "video_y s * 80 + video_x s < 2400" by (simp add: screen_ok_def)
  with assms(2) have "video (hdmi_putchar c s) i = video s i" by (auto simp: hdmi_putchar_def Let_def)
  with Cons hdmi_putchar_ok [of s c] show ?case by simp
qed simp

end
