(* ===== verification/Newlib.thy ===== *)
theory Newlib
  imports Uart
begin

text \<open>
  The system calls of the C library for programs without an operating system,
  \<^verbatim>\<open>newlib/syscall.c\<close>: output to the UART, the heap, and stubs that fail.  The bounds of the heap
  are symbols of the linker, so they are parameters.  \<^verbatim>\<open>hdmi_putchar\<close> of
  \<^verbatim>\<open>mmio_drivers/basic.c\<close>, which output is also given to, does nothing.
\<close>

section \<open>State\<close>

datatype errcode = ENOSYS | ENOMEM | EAGAIN | EINVAL | EMLINK | ENOENT | ECHILD

text \<open>Two of the stubs store the negated code.\<close>

datatype errno_value = Pos errcode | Neg errcode

record libc =
  errno :: "errno_value option"
  brk :: u32

definition STDOUT_FILENO :: int where "STDOUT_FILENO = 1"

section \<open>Stubs\<close>

definition fails_with :: "errno_value \<Rightarrow> libc \<Rightarrow> int \<times> libc" where
  "fails_with e l = (- 1, l\<lparr>errno := Some e\<rparr>)"

definition sys_nanosleep :: "libc \<Rightarrow> int \<times> libc" where "sys_nanosleep l = fails_with (Pos ENOSYS) l"
definition sys_access :: "libc \<Rightarrow> int \<times> libc" where "sys_access l = fails_with (Pos ENOSYS) l"
definition sys_chdir :: "libc \<Rightarrow> int \<times> libc" where "sys_chdir l = fails_with (Pos ENOSYS) l"
definition sys_chmod :: "libc \<Rightarrow> int \<times> libc" where "sys_chmod l = fails_with (Pos ENOSYS) l"
definition sys_chown :: "libc \<Rightarrow> int \<times> libc" where "sys_chown l = fails_with (Pos ENOSYS) l"
definition sys_execve :: "libc \<Rightarrow> int \<times> libc" where "sys_execve l = fails_with (Pos ENOMEM) l"
definition sys_faccessat :: "libc \<Rightarrow> int \<times> libc" where "sys_faccessat l = fails_with (Pos ENOSYS) l"
definition sys_fork :: "libc \<Rightarrow> int \<times> libc" where "sys_fork l = fails_with (Pos EAGAIN) l"
definition sys_fstatat :: "libc \<Rightarrow> int \<times> libc" where "sys_fstatat l = fails_with (Pos ENOSYS) l"
definition sys_ftime :: "libc \<Rightarrow> int \<times> libc" where "sys_ftime l = fails_with (Pos ENOSYS) l"
definition sys_kill :: "libc \<Rightarrow> int \<times> libc" where "sys_kill l = fails_with (Pos EINVAL) l"
definition sys_link :: "libc \<Rightarrow> int \<times> libc" where "sys_link l = fails_with (Pos EMLINK) l"
definition sys_lstat :: "libc \<Rightarrow> int \<times> libc" where "sys_lstat l = fails_with (Pos ENOSYS) l"
definition sys_openat :: "libc \<Rightarrow> int \<times> libc" where "sys_openat l = fails_with (Pos ENOSYS) l"
definition sys_unlink :: "libc \<Rightarrow> int \<times> libc" where "sys_unlink l = fails_with (Pos ENOENT) l"
definition sys_utime :: "libc \<Rightarrow> int \<times> libc" where "sys_utime l = fails_with (Pos ENOSYS) l"
definition sys_wait :: "libc \<Rightarrow> int \<times> libc" where "sys_wait l = fails_with (Pos ECHILD) l"

text \<open>These two negate the code; \<^verbatim>\<open>_getcwd\<close> returns the null pointer.\<close>

definition sys_getcwd :: "libc \<Rightarrow> u32 \<times> libc" where "sys_getcwd l = (0, l\<lparr>errno := Some (Neg ENOSYS)\<rparr>)"
definition sys_gettimeofday :: "libc \<Rightarrow> int \<times> libc" where "sys_gettimeofday l = fails_with (Neg ENOSYS) l"

text \<open>Constant results, which leave \<^verbatim>\<open>errno\<close> alone.\<close>

definition sys_close :: int where "sys_close = - 1"
definition sys_getpid :: int where "sys_getpid = 1"
definition sys_lseek :: int where "sys_lseek = 0"
definition sys_open :: int where "sys_open = - 1"
definition sys_read :: int where "sys_read = 0"
definition sys_sysconf :: int where "sys_sysconf = - 1"
definition sys_times :: u32 where "sys_times = - 1"

definition sys_isatty :: "int \<Rightarrow> int" where
  "sys_isatty file = (if file = STDOUT_FILENO then 1 else 0)"

text \<open>\<^verbatim>\<open>_fstat\<close> and \<^verbatim>\<open>_stat\<close> report every file as a character device.\<close>

datatype st_mode = S_IFCHR

definition sys_fstat :: "int \<Rightarrow> int \<times> st_mode" where "sys_fstat file = (0, S_IFCHR)"
definition sys_stat :: "int \<times> st_mode" where "sys_stat = (0, S_IFCHR)"

definition sys_exit :: "int \<Rightarrow> kfault + unit" where
  "sys_exit status = Inl Hang"

section \<open>Output\<close>

fun put_all :: "u8 list \<Rightarrow> Uart \<Rightarrow> kfault + Uart" where
  "put_all [] u = Inr u"
| "put_all (c # cs) u = bindE (uart_putchar c u) (put_all cs)"

definition sys_write :: "int \<Rightarrow> u8 list \<Rightarrow> libc \<times> Uart \<Rightarrow> kfault + int \<times> libc \<times> Uart" where
  "sys_write file bs s = (case s of (l, u) \<Rightarrow>
     if file \<noteq> STDOUT_FILENO then (case fails_with (Pos ENOSYS) l of (r, l) \<Rightarrow> Inr (r, l, u))
     else bindE (put_all bs u) (\<lambda>u. Inr (int (length bs), l, u)))"

text \<open>``Unimplemented system call called!'' and a line feed.\<close>

definition unimplemented_msg :: "u8 list" where
  "unimplemented_msg = [0x55, 0x6e, 0x69, 0x6d, 0x70, 0x6c, 0x65, 0x6d, 0x65, 0x6e, 0x74, 0x65, 0x64, 0x20,
     0x73, 0x79, 0x73, 0x74, 0x65, 0x6d, 0x20, 0x63, 0x61, 0x6c, 0x6c, 0x20, 0x63, 0x61, 0x6c, 0x6c, 0x65,
     0x64, 0x21, 0x0a]"

definition unimplemented_syscall :: "Uart \<Rightarrow> kfault + Uart" where
  "unimplemented_syscall u = put_all unimplemented_msg u"

section \<open>The heap\<close>

definition sys_brk :: "u32 \<Rightarrow> libc \<Rightarrow> int \<times> libc" where
  "sys_brk addr l = (0, l\<lparr>brk := addr\<rparr>)"

definition sys_sbrk :: "u32 \<Rightarrow> u32 \<Rightarrow> u32 \<Rightarrow> libc \<Rightarrow> u32 \<times> libc" where
  "sys_sbrk heap_start heap_end incr l =
     (let old_brk = brk l in
      if heap_start = heap_end then (0, l)
      else let l = l\<lparr>brk := brk l + incr\<rparr> in
        if brk l < heap_end then (old_brk, l\<lparr>brk := brk l + incr\<rparr>)
        else (old_brk, l\<lparr>brk := heap_end\<rparr>))"

section \<open>Properties\<close>

lemma put_all_ok: "uart_ok u \<Longrightarrow> \<exists>u'. put_all cs u = Inr u' \<and> uart_ok u' \<and> u_out u' = u_out u @ cs"
proof (induction cs arbitrary: u)
  case (Cons c cs)
  from uart_putchar_ok [OF Cons.prems, of c] obtain u1
    where "uart_putchar c u = Inr u1" "uart_ok u1" "u_out u1 = u_out u @ [c]" by blast
  with Cons.IH [of u1] show ?case by auto
qed simp

lemma sys_write_stdout:
  "uart_ok u \<Longrightarrow> \<exists>u'. sys_write STDOUT_FILENO bs (l, u) = Inr (int (length bs), l, u') \<and> u_out u' = u_out u @ bs"
  using put_all_ok [of u bs] by (auto simp: sys_write_def)

lemma sys_write_other:
  "file \<noteq> STDOUT_FILENO \<Longrightarrow> sys_write file bs (l, u) = Inr (- 1, l\<lparr>errno := Some (Pos ENOSYS)\<rparr>, u)"
  by (simp add: sys_write_def fails_with_def)

text \<open>
  \<^verbatim>\<open>_sbrk\<close> adds the increment twice: a small request takes double the memory, and one that fits
  once but not twice moves the break beyond the end of the heap.
\<close>

theorem sbrk_takes_twice:
  assumes "heap_start \<noteq> heap_end" "brk l + incr < heap_end"
  shows "sys_sbrk heap_start heap_end incr l = (brk l, l\<lparr>brk := brk l + 2 * incr\<rparr>)"
  using assms by (simp add: sys_sbrk_def)

theorem sbrk_takes_twice_witness:
  "sys_sbrk 0x1000 0x2000 0x900 \<lparr>errno = None, brk = 0x1000\<rparr> = (0x1000, \<lparr>errno = None, brk = 0x2200\<rparr>)"
  using sbrk_takes_twice [of "0x1000" "0x2000" "\<lparr>errno = None, brk = 0x1000\<rparr>" "0x900"] by simp

text \<open>A request that does not fit is answered like one that does: with the old break.\<close>

theorem sbrk_out_of_memory_succeeds:
  assumes "heap_start \<noteq> heap_end" "heap_end \<le> brk l + incr"
  shows "sys_sbrk heap_start heap_end incr l = (brk l, l\<lparr>brk := heap_end\<rparr>)"
  using assms by (simp add: sys_sbrk_def Let_def not_less [symmetric])

theorem sbrk_out_of_memory_succeeds_witness:
  "sys_sbrk 0x1000 0x2000 0x1001 \<lparr>errno = None, brk = 0x1000\<rparr> = (0x1000, \<lparr>errno = None, brk = 0x2000\<rparr>)"
  using sbrk_out_of_memory_succeeds [of "0x1000" "0x2000" "\<lparr>errno = None, brk = 0x1000\<rparr>" "0x1001"] by simp

end
