(* ===== verification/Misc.thy ===== *)
theory Misc
  imports KTypes Newlib
begin

text \<open>
  \<^verbatim>\<open>kernel/misc.c\<close>: messages, panic and failed assertions, with \<^verbatim>\<open>cli\<close> and \<^verbatim>\<open>sti\<close> of \<^verbatim>\<open>kernel/isr.c\<close>.  In
  the rest of the kernel these are the faults \<open>Panic\<close> and \<open>AssertFail\<close>; here is what the machine does
  before it stops: the interrupts are off and the message is out.  The formatting of \<^verbatim>\<open>vprintf\<close> is
  library code: the formatted text is an argument.  The function of \<^verbatim>\<open>userspace/test2.c\<close>, a test of
  static data in a library, is here too.
\<close>

section \<open>The code\<close>

definition cli :: "kstate \<Rightarrow> kstate" where "cli s = s\<lparr>mstatus := 0\<rparr>"
definition sti :: "kstate \<Rightarrow> kstate" where "sti s = s\<lparr>mstatus := 0x88\<rparr>"

text \<open>A computation that stops the machine: why, and the state it leaves.\<close>

type_synonym stopped = "kfault \<times> kstate \<times> Uart"

definition halt :: "kstate \<Rightarrow> Uart \<Rightarrow> stopped" where
  "halt s u = (Hang, s, u)"

definition then_halt :: "kstate \<Rightarrow> Uart \<Rightarrow> kfault + Uart \<Rightarrow> stopped" where
  "then_halt s u r = (case r of Inl e \<Rightarrow> (e, s, u) | Inr u' \<Rightarrow> halt s u')"

definition printk :: "u8 list \<Rightarrow> Uart \<Rightarrow> kfault + Uart" where
  "printk formatted u = put_all formatted u"

text \<open>``PANIC!'' and ``PANIC'' with the end of the line.\<close>

definition panic0_msg :: "u8 list" where
  "panic0_msg = [0x50, 0x41, 0x4e, 0x49, 0x43, 0x21, 0x0d, 0x0a]"

definition panic_msg :: "u8 list" where
  "panic_msg = [0x50, 0x41, 0x4e, 0x49, 0x43, 0x0d, 0x0a]"

definition panic0 :: "u8 list \<Rightarrow> kstate \<Rightarrow> Uart \<Rightarrow> stopped" where
  "panic0 str s u =
     (let s = cli s in then_halt s u (bindE (uart_putstr str u) (uart_putstr (panic0_msg @ [0]))))"

definition panic :: "u8 list \<Rightarrow> kstate \<Rightarrow> Uart \<Rightarrow> stopped" where
  "panic formatted s u =
     (let s = cli s in then_halt s u (bindE (put_all formatted u) (put_all panic_msg)))"

text \<open>\<open>fmt\<close> is what the library makes of the format and the expression, two files and line.\<close>

definition assertion_failure ::
  "(u8 list \<Rightarrow> u8 list \<Rightarrow> u8 list \<Rightarrow> int \<Rightarrow> u8 list) \<Rightarrow> u8 list \<Rightarrow> u8 list \<Rightarrow> u8 list \<Rightarrow> int \<Rightarrow>
     kstate \<Rightarrow> Uart \<Rightarrow> stopped" where
  "assertion_failure fmt exp file base_file line s u =
     (let s = cli s in panic (fmt exp file base_file line) s u)"

record test2_data =
  static_c :: u32
  global_d :: u32

definition test2 :: "u32 \<Rightarrow> u32 \<Rightarrow> test2_data \<Rightarrow> u32 \<times> test2_data" where
  "test2 a b d =
     (let d = d\<lparr>static_c := static_c d + 1\<rparr>; d = d\<lparr>global_d := global_d d + 1\<rparr>
      in (a + b + static_c d + global_d d, d))"

section \<open>Properties\<close>

lemma uart_putstr_ok:
  "uart_ok u \<Longrightarrow> 0 \<notin> set cs \<Longrightarrow>
     \<exists>u'. uart_putstr (cs @ 0 # rest) u = Inr u' \<and> uart_ok u' \<and> u_out u' = u_out u @ cs"
proof (induction cs arbitrary: u)
  case (Cons c cs)
  obtain u1 where u1: "uart_putchar c u = Inr u1" "uart_ok u1" "u_out u1 = u_out u @ [c]"
    using uart_putchar_ok [OF Cons.prems(1)] by blast
  then show ?case using Cons.IH [of u1] Cons.prems(2) by auto
qed simp

lemma panic0_stops:
  assumes "uart_ok u" "0 \<notin> set msg"
  shows "\<exists>u'. panic0 (msg @ [0]) s u = (Hang, s\<lparr>mstatus := 0\<rparr>, u') \<and> u_out u' = u_out u @ msg @ panic0_msg"
proof -
  obtain u1 where u1: "uart_putstr (msg @ [0]) u = Inr u1" "uart_ok u1" "u_out u1 = u_out u @ msg"
    using uart_putstr_ok [OF assms, of "[]"] by blast
  have "0 \<notin> set panic0_msg" by (simp add: panic0_msg_def)
  then obtain u2 where "uart_putstr (panic0_msg @ [0]) u1 = Inr u2" "u_out u2 = u_out u1 @ panic0_msg"
    using uart_putstr_ok [OF u1(2), of panic0_msg "[]"] by blast
  then show ?thesis using u1 by (simp add: panic0_def cli_def halt_def then_halt_def)
qed

text \<open>
  A panic, and so a failed assertion, never returns: it stops with the interrupts disabled, after
  the whole message has been transmitted; the tables and the memory of the kernel are unchanged.
\<close>

theorem panic_stops:
  assumes "uart_ok u"
  shows "\<exists>u'. panic msg s u = (Hang, s\<lparr>mstatus := 0\<rparr>, u') \<and> u_out u' = u_out u @ msg @ panic_msg"
proof -
  obtain u1 where u1: "put_all msg u = Inr u1" "uart_ok u1" "u_out u1 = u_out u @ msg"
    using put_all_ok [OF assms] by blast
  obtain u2 where "put_all panic_msg u1 = Inr u2" "u_out u2 = u_out u1 @ panic_msg"
    using put_all_ok [OF u1(2)] by blast
  then show ?thesis using u1 by (simp add: panic_def cli_def halt_def then_halt_def)
qed

lemma assertion_failure_panics:
  "assertion_failure fmt exp file base_file line s u = panic (fmt exp file base_file line) s u"
  by (simp add: assertion_failure_def panic_def cli_def Let_def)

text \<open>A transmitter that is never ready stops the machine as well, but nothing is seen.\<close>

lemma panic_silent: "u_busy u = None \<Longrightarrow> msg \<noteq> [] \<Longrightarrow> panic msg s u = (Hang, s\<lparr>mstatus := 0\<rparr>, u)"
  by (cases msg) (simp_all add: panic_def then_halt_def cli_def uart_putchar_def wait_tx_None)

text \<open>The static counters make every call return two more than the one before.\<close>

lemma test2_again: "fst (test2 a b (snd (test2 a b d))) = fst (test2 a b d) + 2"
  by (simp add: test2_def Let_def)

end
