(* ===== verification/Elf.thy ===== *)
theory Elf
  imports Prelude
begin

text \<open>
  The loader of shared libraries and dynamically linked executables, \<^verbatim>\<open>kernel/elf.h\<close> and
  \<^verbatim>\<open>kernel/elf.c\<close>.  The image is in memory from the address \<open>b\<close> (\<^verbatim>\<open>elf_begin_addr\<close>) on and is
  patched in place.  The lookup table that the library fills and the executable uses,
  \<^verbatim>\<open>dynlinktbl\<close>, is passed and returned; messages are not modelled.
\<close>

section \<open>Structures of the file format\<close>

record Elf32_Ehdr =
  e_ident :: "u8 list"
  e_type :: u16
  e_machine :: u16
  e_version :: u32
  e_entry :: u32
  e_phoff :: u32
  e_shoff :: u32
  e_flags :: u32
  e_ehsize :: u16
  e_phentsize :: u16
  e_phnum :: u16
  e_shentsize :: u16
  e_shnum :: u16
  e_shstrndx :: u16

definition read_ehdr :: "mem \<Rightarrow> u32 \<Rightarrow> Elf32_Ehdr" where
  "read_ehdr m a = \<lparr>e_ident = map (\<lambda>i. load8 m (a + of_nat i)) [0..<16], e_type = load16 m (a + 16),
     e_machine = load16 m (a + 18), e_version = load32 m (a + 20), e_entry = load32 m (a + 24),
     e_phoff = load32 m (a + 28), e_shoff = load32 m (a + 32), e_flags = load32 m (a + 36),
     e_ehsize = load16 m (a + 40), e_phentsize = load16 m (a + 42), e_phnum = load16 m (a + 44),
     e_shentsize = load16 m (a + 46), e_shnum = load16 m (a + 48), e_shstrndx = load16 m (a + 50)\<rparr>"

record Elf32_Phdr =
  p_type :: u32
  p_offset :: u32
  p_vaddr :: u32
  p_paddr :: u32
  p_filesz :: u32
  p_memsz :: u32
  p_flags :: u32
  p_align :: u32

definition sizeof_Phdr :: u32 where "sizeof_Phdr = 32"

definition read_phdr :: "mem \<Rightarrow> u32 \<Rightarrow> Elf32_Phdr" where
  "read_phdr m a = \<lparr>p_type = load32 m a, p_offset = load32 m (a + 4), p_vaddr = load32 m (a + 8),
     p_paddr = load32 m (a + 12), p_filesz = load32 m (a + 16), p_memsz = load32 m (a + 20),
     p_flags = load32 m (a + 24), p_align = load32 m (a + 28)\<rparr>"

record Elf32_Shdr =
  sh_name :: u32
  sh_type :: u32
  sh_flags :: u32
  sh_addr :: u32
  sh_offset :: u32
  sh_size :: u32
  sh_link :: u32
  sh_info :: u32
  sh_addralign :: u32
  sh_entsize :: u32

definition sizeof_Shdr :: u32 where "sizeof_Shdr = 40"

definition read_shdr :: "mem \<Rightarrow> u32 \<Rightarrow> Elf32_Shdr" where
  "read_shdr m a = \<lparr>sh_name = load32 m a, sh_type = load32 m (a + 4), sh_flags = load32 m (a + 8),
     sh_addr = load32 m (a + 12), sh_offset = load32 m (a + 16), sh_size = load32 m (a + 20),
     sh_link = load32 m (a + 24), sh_info = load32 m (a + 28), sh_addralign = load32 m (a + 32),
     sh_entsize = load32 m (a + 36)\<rparr>"

record Elf32_Rela =
  r_offset :: u32
  r_info :: int
  r_addend :: u32

definition sizeof_Rela :: u32 where "sizeof_Rela = 12"

text \<open>The loader keeps \<^verbatim>\<open>r_info\<close> in an \<^verbatim>\<open>int\<close>, so its top bit is a sign.\<close>

definition read_rela :: "mem \<Rightarrow> u32 \<Rightarrow> Elf32_Rela" where
  "read_rela m a = \<lparr>r_offset = load32 m a, r_info = sint (load32 m (a + 4)), r_addend = load32 m (a + 8)\<rparr>"

record Elf32_Sym =
  st_name :: u32
  st_value :: u32
  st_size :: u32
  st_info :: u8
  st_other :: u8
  st_shndx :: u16

definition sizeof_Sym :: u32 where "sizeof_Sym = 16"

definition read_sym :: "mem \<Rightarrow> u32 \<Rightarrow> Elf32_Sym" where
  "read_sym m a = \<lparr>st_name = load32 m a, st_value = load32 m (a + 4), st_size = load32 m (a + 8),
     st_info = load8 m (a + 12), st_other = load8 m (a + 13), st_shndx = load16 m (a + 14)\<rparr>"

text \<open>The table entries hold C strings without their terminating zero.\<close>

record DynLinkEntry =
  dl_addr :: u32
  dl_name :: "u8 list"

type_synonym DynLinkTable = "DynLinkEntry list"

definition DYNLINK_MAX :: nat where "DYNLINK_MAX = 2048"
definition DYNLINK_NAME :: nat where "DYNLINK_NAME = 128"

section \<open>Strings\<close>

definition char_at :: "u8 list \<Rightarrow> nat \<Rightarrow> u8" where
  "char_at s i = (if i < length s then s ! i else 0)"

text \<open>The result of \<^verbatim>\<open>elf_strcmp\<close> is 0 for equal strings and 1 otherwise.\<close>

function strcmp_from :: "(nat \<Rightarrow> u8) \<Rightarrow> u8 list \<Rightarrow> nat \<Rightarrow> int" where
  "strcmp_from a b i =
     (if a i = char_at b i \<and> a i \<noteq> 0 \<and> char_at b i \<noteq> 0 then strcmp_from a b (Suc i)
      else if a i = 0 \<and> char_at b i = 0 then 0 else 1)"
  by pat_completeness auto
termination
  by (relation "measure (\<lambda>(a, b, i). length b - i)") (auto simp: char_at_def split: if_splits)

declare strcmp_from.simps [simp del]

definition elf_strcmp :: "(nat \<Rightarrow> u8) \<Rightarrow> u8 list \<Rightarrow> int" where
  "elf_strcmp a b = strcmp_from a b 0"

text \<open>Copying into a name field of 128 bytes; a longer string would run over the next entry.\<close>

definition elf_strcpy :: "mem \<Rightarrow> u32 \<Rightarrow> kfault + u8 list" where
  "elf_strcpy m src = (let bs = map (\<lambda>i. load8 m (src + of_nat i)) [0..<DYNLINK_NAME] in
     if 0 \<in> set bs then Inr (takeWhile (\<lambda>c. c \<noteq> 0) bs) else Inl BadPointer)"

definition find_function_from_so :: "DynLinkTable \<Rightarrow> u8 list \<Rightarrow> u32" where
  "find_function_from_so tbl fname =
     (case List.find (\<lambda>e. elf_strcmp (char_at fname) (dl_name e) = 0) tbl of
        Some e \<Rightarrow> dl_addr e | None \<Rightarrow> - 1)"

section \<open>Checks\<close>

definition PT_LOAD :: u32 where "PT_LOAD = 1"

definition elf_header_ok :: "Elf32_Ehdr \<Rightarrow> bool" where
  "elf_header_ok h \<longleftrightarrow> e_ident h ! 0 = 0x7f \<and> e_ident h ! 1 = 0x45 \<and> e_ident h ! 2 = 0x4c \<and>
     e_ident h ! 3 = 0x46 \<and> e_type h = 3 \<and> e_machine h = 243"

definition elf_loads_ok :: "Elf32_Phdr \<Rightarrow> Elf32_Phdr \<Rightarrow> bool" where
  "elf_loads_ok first second \<longleftrightarrow>
     p_type first = PT_LOAD \<and> p_offset first = 0 \<and> p_vaddr first = 0 \<and> p_paddr first = 0 \<and>
     p_type second = PT_LOAD \<and> p_vaddr second = p_paddr second \<and> p_offset second \<le> p_vaddr second"

section \<open>Sections\<close>

record ElfSecs =
  dynsym_start :: u32
  dynsym_shdr :: u32
  dynstr_start :: u32
  reladyn_start :: u32
  reladyn_shdr :: u32
  relaplt_start :: u32
  relaplt_shdr :: u32

definition no_secs :: ElfSecs where
  "no_secs = \<lparr>dynsym_start = 0, dynsym_shdr = 0, dynstr_start = 0, reladyn_start = 0, reladyn_shdr = 0,
     relaplt_start = 0, relaplt_shdr = 0\<rparr>"

definition str_dynsym :: "u8 list" where "str_dynsym = [0x2e, 0x64, 0x79, 0x6e, 0x73, 0x79, 0x6d]"
definition str_dynstr :: "u8 list" where "str_dynstr = [0x2e, 0x64, 0x79, 0x6e, 0x73, 0x74, 0x72]"
definition str_rela_dyn :: "u8 list" where
  "str_rela_dyn = [0x2e, 0x72, 0x65, 0x6c, 0x61, 0x2e, 0x64, 0x79, 0x6e]"
definition str_rela_plt :: "u8 list" where
  "str_rela_plt = [0x2e, 0x72, 0x65, 0x6c, 0x61, 0x2e, 0x70, 0x6c, 0x74]"

definition note_section :: "mem \<Rightarrow> u32 \<Rightarrow> u32 \<Rightarrow> u32 \<Rightarrow> ElfSecs \<Rightarrow> ElfSecs" where
  "note_section m b strtab shdr_addr secs =
     (let shdr = read_shdr m shdr_addr; sec_start = b + sh_offset shdr;
          name = (\<lambda>i. load8 m (strtab + sh_name shdr + of_nat i)) in
      if elf_strcmp name str_dynsym = 0 then secs\<lparr>dynsym_start := sec_start, dynsym_shdr := shdr_addr\<rparr>
      else if elf_strcmp name str_dynstr = 0 then secs\<lparr>dynstr_start := sec_start\<rparr>
      else if elf_strcmp name str_rela_dyn = 0 then secs\<lparr>reladyn_start := sec_start, reladyn_shdr := shdr_addr\<rparr>
      else if elf_strcmp name str_rela_plt = 0 then secs\<lparr>relaplt_start := sec_start, relaplt_shdr := shdr_addr\<rparr>
      else secs)"

definition find_sections :: "mem \<Rightarrow> u32 \<Rightarrow> Elf32_Ehdr \<Rightarrow> ElfSecs" where
  "find_sections m b h =
     (let shdr_base = b + e_shoff h;
          strtab = b + sh_offset (read_shdr m (shdr_base + ucast (e_shstrndx h) * sizeof_Shdr))
      in foldl (\<lambda>secs i. note_section m b strtab (shdr_base + of_nat i * ucast (e_shentsize h)) secs)
           no_secs [0..<unat (e_shnum h)])"

text \<open>The number of entries of a section; a null header pointer is dereferenced.\<close>

definition entry_count :: "mem \<Rightarrow> u32 \<Rightarrow> kfault + u32" where
  "entry_count m shdr_addr =
     (if shdr_addr = 0 then Inl BadPointer
      else let shdr = read_shdr m shdr_addr in
        if sh_entsize shdr = 0 then Inl DivByZero else Inr (sh_size shdr div sh_entsize shdr))"

section \<open>Relocation\<close>

definition sym_at :: "mem \<Rightarrow> ElfSecs \<Rightarrow> int \<Rightarrow> Elf32_Sym" where
  "sym_at m secs rinfo = read_sym m (dynsym_start secs + word_of_int (rinfo sdiv 0x100) * sizeof_Sym)"

text \<open>The table of exported symbols of a library.\<close>

fun fill_table :: "mem \<Rightarrow> u32 \<Rightarrow> ElfSecs \<Rightarrow> nat list \<Rightarrow> kfault + DynLinkTable" where
  "fill_table m b secs [] = Inr []"
| "fill_table m b secs (j # js) =
     (let entry = read_sym m (dynsym_start secs + of_nat j * sizeof_Sym) in
      bindE (elf_strcpy m (dynstr_start secs + st_name entry)) (\<lambda>name.
      bindE (fill_table m b secs js) (\<lambda>tbl.
      Inr (\<lparr>dl_addr = b + st_value entry, dl_name = name\<rparr> # tbl))))"

text \<open>
  \<^verbatim>\<open>.rela.dyn\<close>: \<open>slide\<close> is the distance between the addresses in the file and the memory image at
  the time of patching.
\<close>

definition patch_rela_dyn :: "u32 \<Rightarrow> u32 \<Rightarrow> ElfSecs \<Rightarrow> nat \<Rightarrow> mem \<Rightarrow> mem" where
  "patch_rela_dyn b slide secs j m =
     (let r = read_rela m (reladyn_start secs + of_nat j * sizeof_Rela)
      in store32 m (b + (r_offset r - slide)) (b + st_value (sym_at m secs (r_info r)) + r_addend r))"

text \<open>
  Both patching loops read the number of entries again in every round, from the image that they
  are changing.
\<close>

function patch_dyn_loop :: "u32 \<Rightarrow> u32 \<Rightarrow> ElfSecs \<Rightarrow> nat \<Rightarrow> mem \<Rightarrow> kfault + mem" where
  "patch_dyn_loop b slide secs j m =
     bindE (entry_count m (reladyn_shdr secs)) (\<lambda>n.
     if j < unat n then patch_dyn_loop b slide secs (Suc j) (patch_rela_dyn b slide secs j m) else Inr m)"
  by pat_completeness auto

termination
proof (relation "measure (\<lambda>(b, slide, secs, j, m). 2 ^ 32 - j)", goal_cases)
  case (2 b slide secs j m n)
  then have "j < 2 ^ 32" using unat_lt32 [of n] by simp
  then show ?case by simp
qed simp

function patch_plt_loop :: "u32 \<Rightarrow> u32 \<Rightarrow> ElfSecs \<Rightarrow> nat \<Rightarrow> mem \<Rightarrow> kfault + bool \<times> mem" where
  "patch_plt_loop b slide secs j m =
     bindE (entry_count m (relaplt_shdr secs)) (\<lambda>n.
     if j < unat n then
       let r = read_rela m (relaplt_start secs + of_nat j * sizeof_Rela) in
       if r_info r smod 0x100 \<noteq> 5 then Inr (False, m)
       else patch_plt_loop b slide secs (Suc j)
         (store32 m (b + (r_offset r - slide)) (b + st_value (sym_at m secs (r_info r))))
     else Inr (True, m))"
  by pat_completeness auto

termination
proof (relation "measure (\<lambda>(b, slide, secs, j, m). 2 ^ 32 - j)", goal_cases)
  case (2 b slide secs j m n)
  then have "j < 2 ^ 32" using unat_lt32 [of n] by simp
  then show ?case by simp
qed simp

declare patch_dyn_loop.simps [simp del] patch_plt_loop.simps [simp del]

section \<open>The second LOAD segment\<close>

definition int_index :: "u32 \<Rightarrow> int \<Rightarrow> u32" where
  "int_index b x = b + 4 * word_of_int (x sdiv 4)"

function zero_loop :: "u32 \<Rightarrow> int \<Rightarrow> int \<Rightarrow> mem \<Rightarrow> mem" where
  "zero_loop b start i m =
     (if 0 \<le> i then zero_loop b start (i - 4) (store32 m (int_index b (start + i)) 0) else m)"
  by pat_completeness auto
termination by (relation "measure (\<lambda>(b, s, i, m). nat (i + 4))") auto

function copy_loop :: "u32 \<Rightarrow> int \<Rightarrow> int \<Rightarrow> int \<Rightarrow> mem \<Rightarrow> mem" where
  "copy_loop b dst src i m =
     (if 0 \<le> i then copy_loop b dst src (i - 4)
        (store32 m (int_index b (dst + i)) (load32 m (int_index b (src + i)))) else m)"
  by pat_completeness auto
termination by (relation "measure (\<lambda>(b, d, s, i, m). nat (i + 4))") auto

declare zero_loop.simps [simp del] copy_loop.simps [simp del]

definition second_load :: "u32 \<Rightarrow> int \<Rightarrow> int \<Rightarrow> int \<Rightarrow> int \<Rightarrow> mem \<Rightarrow> mem" where
  "second_load b load2_offset load2_addr load2_filesize load2_memsize m =
     copy_loop b load2_addr load2_offset (load2_filesize - 4)
       (zero_loop b (load2_addr + load2_memsize - load2_filesize) (load2_memsize - load2_filesize - 4) m)"

definition second_load_of :: "u32 \<Rightarrow> Elf32_Phdr \<Rightarrow> mem \<Rightarrow> mem" where
  "second_load_of b ph m = second_load b (sint (p_offset ph)) (sint (p_vaddr ph)) (sint (p_filesz ph)) (sint (p_memsz ph)) m"

section \<open>Loading a library\<close>

definition load_shared_library :: "u32 \<Rightarrow> DynLinkTable \<Rightarrow> mem \<Rightarrow> kfault + int \<times> DynLinkTable \<times> mem" where
  "load_shared_library b tbl m =
     (let h = read_ehdr m b; ph = b + e_phoff h;
          first = read_phdr m ph; second = read_phdr m (ph + sizeof_Phdr) in
      if \<not> elf_header_ok h then Inr (- 1, tbl, m)
      else if \<not> elf_loads_ok first second then Inr (- 1, tbl, m)
      else let slide = p_vaddr second - p_offset second; secs = find_sections m b h in
      if dynsym_start secs AND reladyn_start secs AND relaplt_start secs = 0 then Inr (- 1, tbl, m)
      else bindE (entry_count m (dynsym_shdr secs)) (\<lambda>n.
        if nat (sint n) > DYNLINK_MAX then Inl BadPointer
        else bindE (fill_table m b secs [0..<nat (sint n)]) (\<lambda>tbl.
        bindE (patch_dyn_loop b slide secs 0 m) (\<lambda>m.
        bindE (patch_plt_loop b slide secs 0 m) (\<lambda>(ok, m).
        if \<not> ok then Inr (- 1, tbl, m) else Inr (0, tbl, second_load_of b second m))))))"

section \<open>Loading an executable\<close>

text \<open>The names and places of the procedure linkage table, read before the image is overwritten.\<close>

fun collect_plt :: "mem \<Rightarrow> u32 \<Rightarrow> ElfSecs \<Rightarrow> nat list \<Rightarrow> kfault + DynLinkTable option" where
  "collect_plt m b secs [] = Inr (Some [])"
| "collect_plt m b secs (j # js) =
     (let r = read_rela m (relaplt_start secs + of_nat j * sizeof_Rela) in
      if r_info r smod 0x100 \<noteq> 5 then Inr None
      else bindE (elf_strcpy m (dynstr_start secs + st_name (sym_at m secs (r_info r)))) (\<lambda>name.
        bindE (collect_plt m b secs js) (\<lambda>rest. Inr (case rest of
          None \<Rightarrow> None | Some tbl \<Rightarrow> Some (\<lparr>dl_addr = b + r_offset r, dl_name = name\<rparr> # tbl)))))"

definition link_plt :: "DynLinkTable \<Rightarrow> DynLinkTable \<Rightarrow> mem \<Rightarrow> mem" where
  "link_plt libs tbl m = foldl (\<lambda>m e. store32 m (dl_addr e) (find_function_from_so libs (dl_name e))) m tbl"

text \<open>
  The result: the return code, and what is stored through \<^verbatim>\<open>entry_addr\<close> and \<^verbatim>\<open>stack_addr\<close>
  (\<open>None\<close> where nothing is).
\<close>

definition load_dynamic_exec :: "u32 \<Rightarrow> DynLinkTable \<Rightarrow> mem \<Rightarrow> kfault + int \<times> u32 option \<times> u32 option \<times> mem" where
  "load_dynamic_exec b libs m =
     (let h = read_ehdr m b; ph = b + e_phoff h;
          first = read_phdr m (ph + 2 * sizeof_Phdr); second = read_phdr m (ph + 3 * sizeof_Phdr);
          entry = Some (e_entry h + b) in
      if \<not> elf_header_ok h then Inr (- 1, Some 0, None, m)
      else if \<not> elf_loads_ok first second then Inr (- 1, entry, None, m)
      else let secs = find_sections m b h in
      bindE (entry_count m (relaplt_shdr secs)) (\<lambda>np.
      if nat (sint np) > DYNLINK_MAX then Inl BadPointer
      else bindE (collect_plt m b secs [0..<nat (sint np)]) (\<lambda>tbl. case tbl of
          None \<Rightarrow> Inr (- 1, entry, None, m)
        | Some tbl \<Rightarrow>
            let m = second_load_of b second m;
                stack = Some (b + p_vaddr second + p_memsz second);
                m = link_plt libs tbl m in
            bindE (patch_dyn_loop b 0 secs 0 m) (\<lambda>m. Inr (0, entry, stack, m)))))"

text \<open>On strings, \<^verbatim>\<open>elf_strcmp\<close> decides equality.\<close>

lemma elf_strcmp_string:
  assumes "\<forall>i<length t. a i = t ! i" "a (length t) = 0" "0 \<notin> set t" "0 \<notin> set b"
  shows "elf_strcmp a b = (if t = b then 0 else 1)"
proof -
  have at: "a i = char_at t i" if "i \<le> length t" for i
    using assms(1,2) that by (cases "i = length t") (auto simp: char_at_def)
  have nz: "char_at s i = 0 \<longleftrightarrow> length s \<le> i" if "0 \<notin> set s" for s i
    using that by (auto simp: char_at_def) (metis nth_mem)
  have "strcmp_from a b i = (if t = b then 0 else 1)" if "i \<le> length t" "i \<le> length b" "take i t = take i b" for i
    using that
  proof (induction "length t - i" arbitrary: i)
    case 0
    then have i: "i = length t" by simp
    then have "a i = 0" using assms(2) by simp
    moreover have "char_at b i = 0 \<longleftrightarrow> i = length b" using nz [OF assms(4), of i] "0.prems"(2) by auto
    moreover have "t = b \<longleftrightarrow> i = length b" using "0.prems"(3) i by auto
    ultimately show ?case by (subst strcmp_from.simps) simp
  next
    case (Suc n)
    then have i: "i < length t" by simp
    show ?case
    proof (cases "i < length b \<and> t ! i = b ! i")
      case True
      then have "take (Suc i) t = take (Suc i) b" using Suc.prems(3) i by (simp add: take_Suc_conv_app_nth)
      with Suc.hyps(1) [of "Suc i"] Suc.hyps(2) True i show ?thesis
        using at [of i] nz [OF assms(3), of i]
        by (subst strcmp_from.simps) (simp add: char_at_def)
    next
      case False
      then have "t \<noteq> b" using i by auto
      with False i show ?thesis
        using at [of i] nz [OF assms(3), of i] nz [OF assms(4), of i]
        by (subst strcmp_from.simps) (auto simp: char_at_def)
    qed
  qed
  from this [of 0] show ?thesis by (simp add: elf_strcmp_def)
qed

section \<open>The effect of the second LOAD\<close>

text \<open>Words of the image, by their index.\<close>

definition word_at :: "mem \<Rightarrow> u32 \<Rightarrow> nat \<Rightarrow> u32" where
  "word_at m b i = load32 m (b + 4 * of_nat i)"

lemma int_index_nat: "int_index b (4 * int n) = b + 4 * of_nat n"
proof -
  have "(4 * int n) sdiv 4 = int n"
    by (cases "n = 0") (simp_all add: signed_divide_int_def)
  then show ?thesis by (simp add: int_index_def)
qed

lemma word_at_store:
  assumes "i < 2 ^ 30" "j < 2 ^ 30"
  shows "word_at (store32 m (b + 4 * of_nat i) v) b j = (if j = i then v else word_at m b j)"
proof (cases "j = i")
  case False
  have u: "unat (of_nat k :: u32) = k" if "k < 2 ^ 32" for k
    using that by (simp add: unat_of_nat take_bit_nat_eq_self)
  consider "i < j" | "j < i" using False by linarith
  then show ?thesis
  proof cases
    case 1
    have "b + 4 * of_nat j - (b + 4 * of_nat i) = (of_nat (4 * (j - i)) :: u32)"
      using 1 by (simp add: of_nat_diff algebra_simps)
    then have "unat (b + 4 * of_nat j - (b + 4 * of_nat i)) = 4 * (j - i)"
      using u [of "4 * (j - i)"] assms by (simp only:) simp
    then show ?thesis
      using load32_store32_offset [of "b + 4 * of_nat j" "b + 4 * of_nat i" "j - i"] 1 assms
      by (simp add: word_at_def)
  next
    case 2
    have "b + 4 * of_nat j - (b + 4 * of_nat i) = - (of_nat (4 * (i - j)) :: u32)"
      using 2 by (simp add: of_nat_diff algebra_simps)
    moreover have "unat (of_nat (4 * (i - j)) :: u32) = 4 * (i - j)" using u [of "4 * (i - j)"] assms by simp
    moreover from this have "(of_nat (4 * (i - j)) :: u32) \<noteq> 0" using 2 by (metis diff_is_0_eq linorder_not_less mult_is_0 unat_0 zero_neq_numeral)
    ultimately have "unat (b + 4 * of_nat j - (b + 4 * of_nat i)) = 4 * (2 ^ 30 - (i - j))"
      using unat_uminus_nonzero [of "of_nat (4 * (i - j))"] assms by simp
    then show ?thesis
      using load32_store32_offset [of "b + 4 * of_nat j" "b + 4 * of_nat i" "2 ^ 30 - (i - j)"] 2 assms
      by (simp add: word_at_def)
  qed
qed (simp add: word_at_def)

lemma zero_loop_words:
  assumes "z + n < 2 ^ 30" "j < 2 ^ 30"
  shows "word_at (zero_loop b (4 * int z) (4 * int n - 4) m) b j = (if z \<le> j \<and> j < z + n then 0 else word_at m b j)"
  using assms(1)
proof (induction n arbitrary: m)
  case 0
  then show ?case by (subst zero_loop.simps) auto
next
  case (Suc n)
  have i: "int_index b (4 * int z + (4 * int (Suc n) - 4)) = b + 4 * of_nat (z + n)"
    using int_index_nat [of b "z + n"] by (simp add: algebra_simps)
  have "zero_loop b (4 * int z) (4 * int (Suc n) - 4) m =
      zero_loop b (4 * int z) (4 * int n - 4) (store32 m (b + 4 * of_nat (z + n)) 0)"
    by (subst zero_loop.simps) (simp add: i [simplified])
  with Suc word_at_store [of "z + n" j m b 0] assms(2) show ?case by auto
qed

lemma copy_loop_words:
  assumes "a + n < 2 ^ 30" "j < 2 ^ 30" "s \<le> a"
  shows "word_at (copy_loop b (4 * int a) (4 * int s) (4 * int n - 4) m) b j =
    (if a \<le> j \<and> j < a + n then word_at m b (s + (j - a)) else word_at m b j)"
  using assms(1)
proof (induction n arbitrary: m)
  case 0
  then show ?case by (subst copy_loop.simps) auto
next
  case (Suc n)
  let ?m = "store32 m (b + 4 * of_nat (a + n)) (word_at m b (s + n))"
  have i: "int_index b (4 * int a + (4 * int (Suc n) - 4)) = b + 4 * of_nat (a + n)"
    "int_index b (4 * int s + (4 * int (Suc n) - 4)) = b + 4 * of_nat (s + n)"
    using int_index_nat [of b "a + n"] int_index_nat [of b "s + n"] by (simp_all add: algebra_simps)
  have step: "copy_loop b (4 * int a) (4 * int s) (4 * int (Suc n) - 4) m =
      copy_loop b (4 * int a) (4 * int s) (4 * int n - 4) ?m"
    by (subst copy_loop.simps) (simp add: i [simplified] word_at_def)
  have w: "word_at ?m b k = (if k = a + n then word_at m b (s + n) else word_at m b k)" if "k < 2 ^ 30" for k
    using word_at_store [of "a + n" k m b "word_at m b (s + n)"] that Suc.prems by simp
  consider "a \<le> j" "j < a + n" | "j = a + n" | "\<not> (a \<le> j \<and> j < a + Suc n)" by linarith
  then show ?case
  proof cases
    case 1
    then have "s + (j - a) < 2 ^ 30" "s + (j - a) \<noteq> a + n" using assms(3) Suc.prems by linarith+
    with 1 step Suc w show ?thesis by simp
  next
    case 2
    with step Suc w show ?thesis by simp
  next
    case 3
    then have "j \<noteq> a + n" by linarith
    with 3 step Suc w assms(2) show ?thesis by auto
  qed
qed

section \<open>Properties\<close>

lemma second_load_words:
  assumes "a + f \<le> a + s" "a + f < 2 ^ 30" "a + 2 * s < 2 ^ 30 + 2 * f" "off \<le> a" "j < 2 ^ 30"
  shows "word_at (second_load b (4 * int off) (4 * int a) (4 * int f) (4 * int s) m) b j =
    (if a \<le> j \<and> j < a + f
     then (if a + (s - f) \<le> off + (j - a) \<and> off + (j - a) < a + 2 * (s - f) then 0 else word_at m b (off + (j - a)))
     else if a + (s - f) \<le> j \<and> j < a + 2 * (s - f) then 0 else word_at m b j)"
proof -
  let ?z = "zero_loop b (4 * int a + 4 * int s - 4 * int f) (4 * int s - 4 * int f - 4) m"
  have e: "4 * int a + 4 * int s - 4 * int f = 4 * int (a + (s - f))" "4 * int s - 4 * int f - 4 = 4 * int (s - f) - 4"
    using assms(1) by (simp_all add: of_nat_diff)
  have bound: "a + (s - f) + (s - f) < 2 ^ 30" using assms(1,3) by linarith
  have z: "word_at ?z b k = (if a + (s - f) \<le> k \<and> k < a + 2 * (s - f) then 0 else word_at m b k)"
    if "k < 2 ^ 30" for k
    unfolding e using zero_loop_words [OF bound that, of b m] by (simp only: mult_2 add.assoc)
  show ?thesis
    unfolding second_load_def
    using copy_loop_words [OF assms(2,5,4), of b ?z] z [of j] z [of "off + (j - a)"] assms(2,4,5) by auto
qed

text \<open>
  C25: Loading the second LOAD segment moves its words from their place in the file to their
  address, also where the two overlap, provided the words the loader zeroes are not among them.
\<close>

theorem second_load_moves:
  assumes "f \<le> s" "off \<le> a" "off + f \<le> a + (s - f)" "a + f < 2 ^ 30" "a + 2 * s < 2 ^ 30 + 2 * f" "k < f"
  shows "word_at (second_load b (4 * int off) (4 * int a) (4 * int f) (4 * int s) m) b (a + k) = word_at m b (off + k)"
proof -
  have "off + k < a + (s - f)" using assms(3,6) by linarith
  then show ?thesis using second_load_words [of a f s off "a + k" b m] assms by simp
qed

text \<open>
  The loader zeroes the wrong words for the part of the segment that is not in the file: when
  at least half of the segment is in the file, its last word keeps what was in memory before,
  so variables without an initial value do not start at zero.
\<close>

theorem second_load_bss_not_cleared:
  assumes "f < s" "s < 2 * f" "off \<le> a" "a + 2 * s < 2 ^ 30"
  shows "word_at (second_load b (4 * int off) (4 * int a) (4 * int f) (4 * int s) m) b (a + s - 1) = word_at m b (a + s - 1)"
proof -
  obtain d where d: "s = f + d" "0 < d" using assms(1) by (metis less_imp_add_positive)
  let ?j = "a + (f + d) - 1"
  have "\<not> (a \<le> ?j \<and> ?j < a + f)" "\<not> (a + (f + d - f) \<le> ?j \<and> ?j < a + 2 * (f + d - f))"
    using d assms(2) by auto
  then show ?thesis
    using second_load_words [of a f "f + d" off ?j b m] d assms by simp
qed

text \<open>Three words, two of them in the file: words 8 and 9 of the image move to 10 and 11; 12 is to be cleared.\<close>

definition elf_demo :: mem where
  "elf_demo = store_words (\<lambda>_. 0) 0x20000020 [11, 22, 33, 44, 55]"

lemma elf_demo_words: "word_at elf_demo 0x20000000 8 = 11" "word_at elf_demo 0x20000000 12 = 55"
  by (simp_all add: elf_demo_def word_at_def load32_def store32_def)

theorem second_load_moves_witness:
  "word_at (second_load 0x20000000 (4 * int 8) (4 * int 10) (4 * int 2) (4 * int 3) elf_demo) 0x20000000 10 = 11"
  using second_load_moves [of 2 3 8 10 0 "0x20000000" elf_demo] elf_demo_words by simp

theorem second_load_bss_not_cleared_witness:
  "word_at (second_load 0x20000000 (4 * int 8) (4 * int 10) (4 * int 2) (4 * int 3) elf_demo) 0x20000000 12 = 55"
  using second_load_bss_not_cleared [of 2 3 8 10 "0x20000000" elf_demo] elf_demo_words by simp

section \<open>A program image\<close>

text \<open>
  The image of a program that is not linked to any library: the header, four program headers of which the
  last two are LOAD, the sections \<^verbatim>\<open>.shstrtab\<close>, \<^verbatim>\<open>.rela.dyn\<close> and \<^verbatim>\<open>.rela.plt\<close>, and the section names.
\<close>

definition elf_words :: "u32 list" where
  "elf_words =
    [0x464c457f, 0, 0, 0, 0xf30003, 1, 64, 52, 180, 0, 0x200034, 0x280004, 3] @
     replicate 16 0 @
     [1, 0, 0, 0, 0, 0, 0, 0] @
     [1, 0, 0x1000, 0x1000, 0, 0, 0, 0] @
     [0, 0, 0, 0, 0x12c, 0, 0, 0, 0, 0] @
     [1, 0, 0, 0, 0, 0, 0, 0, 0, 12] @
     [11, 0, 0, 0, 0, 0, 0, 0, 0, 12] @
     [0x65722e00, 0x642e616c, 0x2e006e79, 0x616c6572, 0x746c702e, 0]"

definition elf_mem :: mem where
  "elf_mem = store_words (\<lambda>_. 0) 0x20110000 elf_words"

lemma elf_mem_words: "load_words elf_mem 0x20110000 81 = elf_words"
  using load_words_store_words [of elf_words "\<lambda>_. 0" "0x20110000"] by (simp add: elf_mem_def elf_words_def)

lemmas elf_mem_at = elf_mem_words [unfolded load_words_def elf_words_def, simplified upt_rec [of 0 81] upt_rec [of "Suc 0" 81] numeral_2_eq_2 [symmetric], simplified]

lemma elf_mem_header:
  "elf_header_ok (read_ehdr elf_mem 0x20110000)" "e_entry (read_ehdr elf_mem 0x20110000) = 0x40"
  "e_phoff (read_ehdr elf_mem 0x20110000) = 52" "e_shoff (read_ehdr elf_mem 0x20110000) = 180"
  "e_shentsize (read_ehdr elf_mem 0x20110000) = 40" "e_shnum (read_ehdr elf_mem 0x20110000) = 3"
  "e_shstrndx (read_ehdr elf_mem 0x20110000) = 0"
  using elf_mem_at load8_of_load32 [of elf_mem "0x20110000"] load16_of_load32 [of elf_mem "0x20110010"]
    load16_of_load32 [of elf_mem "0x2011002c"] load16_of_load32 [of elf_mem "0x20110030"]
  by (simp_all add: elf_header_ok_def read_ehdr_def)

lemma loops_done: "i < 0 \<Longrightarrow> zero_loop b d i m = m" "i < 0 \<Longrightarrow> copy_loop b d s i m = m"
  by (subst zero_loop.simps copy_loop.simps, simp)+

lemma elf_mem_loads:
  "elf_loads_ok (read_phdr elf_mem 0x20110074) (read_phdr elf_mem 0x20110094)"
  "second_load_of 0x20110000 (read_phdr elf_mem 0x20110094) elf_mem = elf_mem"
  "p_vaddr (read_phdr elf_mem 0x20110094) = 0x1000" "p_memsz (read_phdr elf_mem 0x20110094) = 0"
  using elf_mem_at
  by (simp_all add: elf_loads_ok_def read_phdr_def PT_LOAD_def second_load_of_def second_load_def
      loops_done)

lemma elf_mem_shdrs:
  "sh_offset (read_shdr elf_mem 0x201100b4) = 300" "sh_name (read_shdr elf_mem 0x201100b4) = 0"
  "sh_name (read_shdr elf_mem 0x201100dc) = 1" "sh_name (read_shdr elf_mem 0x20110104) = 11"
  "sh_offset (read_shdr elf_mem 0x201100dc) = 0" "sh_offset (read_shdr elf_mem 0x20110104) = 0"
  "entry_count elf_mem 0x201100dc = Inr 0" "entry_count elf_mem 0x20110104 = Inr 0"
  using elf_mem_at by (simp_all add: read_shdr_def entry_count_def)

lemmas elf_mem_strtab = load8_of_load32 [of elf_mem "0x2011012c"] load8_of_load32 [of elf_mem "0x20110130"]
  load8_of_load32 [of elf_mem "0x20110134"] load8_of_load32 [of elf_mem "0x20110138"]
  load8_of_load32 [of elf_mem "0x2011013c"] load8_of_load32 [of elf_mem "0x20110140"]

lemma elf_mem_chars:
  "load8 elf_mem 0x2011012c = 0x0" "load8 elf_mem 0x2011012d = 0x2e" "load8 elf_mem 0x2011012e = 0x72"
  "load8 elf_mem 0x2011012f = 0x65" "load8 elf_mem 0x20110130 = 0x6c" "load8 elf_mem 0x20110131 = 0x61"
  "load8 elf_mem 0x20110132 = 0x2e" "load8 elf_mem 0x20110133 = 0x64" "load8 elf_mem 0x20110134 = 0x79"
  "load8 elf_mem 0x20110135 = 0x6e" "load8 elf_mem 0x20110136 = 0x0" "load8 elf_mem 0x20110137 = 0x2e"
  "load8 elf_mem 0x20110138 = 0x72" "load8 elf_mem 0x20110139 = 0x65" "load8 elf_mem 0x2011013a = 0x6c"
  "load8 elf_mem 0x2011013b = 0x61" "load8 elf_mem 0x2011013c = 0x2e" "load8 elf_mem 0x2011013d = 0x70"
  "load8 elf_mem 0x2011013e = 0x6c" "load8 elf_mem 0x2011013f = 0x74" "load8 elf_mem 0x20110140 = 0x0"
  using elf_mem_at by (simp_all add: elf_mem_strtab [simplified])

lemma elf_mem_names:
  "\<forall>i<length str_rela_dyn. load8 elf_mem (0x2011012d + of_nat i) = str_rela_dyn ! i"
  "\<forall>i<length str_rela_plt. load8 elf_mem (0x20110137 + of_nat i) = str_rela_plt ! i"
  unfolding All_less_upt
  by (simp_all add: str_rela_dyn_def str_rela_plt_def upt_rec [of 0 9] upt_rec [of "Suc 0" 9]
      numeral_2_eq_2 [symmetric] elf_mem_chars)

lemmas section_names = str_dynsym_def str_dynstr_def str_rela_dyn_def str_rela_plt_def

lemma elf_mem_cmp:
  assumes "0 \<notin> set s"
  shows "elf_strcmp (\<lambda>i. load8 elf_mem (0x2011012c + of_nat i)) s = (if s = [] then 0 else 1)"
    "elf_strcmp (\<lambda>i. load8 elf_mem (0x2011012d + of_nat i)) s = (if str_rela_dyn = s then 0 else 1)"
    "elf_strcmp (\<lambda>i. load8 elf_mem (0x20110137 + of_nat i)) s = (if str_rela_plt = s then 0 else 1)"
proof -
  show "elf_strcmp (\<lambda>i. load8 elf_mem (0x2011012c + of_nat i)) s = (if s = [] then 0 else 1)"
    by (subst elf_strcmp_string [of "[]"]) (auto simp: elf_mem_chars assms)
  have z: "0 \<notin> set str_rela_dyn" "0 \<notin> set str_rela_plt" "length str_rela_dyn = 9" "length str_rela_plt = 9"
    by (simp_all add: section_names)
  show "elf_strcmp (\<lambda>i. load8 elf_mem (0x2011012d + of_nat i)) s = (if str_rela_dyn = s then 0 else 1)"
    by (rule elf_strcmp_string) (use elf_mem_names z in \<open>simp_all add: elf_mem_chars assms\<close>)
  show "elf_strcmp (\<lambda>i. load8 elf_mem (0x20110137 + of_nat i)) s = (if str_rela_plt = s then 0 else 1)"
    by (rule elf_strcmp_string) (use elf_mem_names z in \<open>simp_all add: elf_mem_chars assms\<close>)
qed

lemma elf_mem_secs:
  "find_sections elf_mem 0x20110000 (read_ehdr elf_mem 0x20110000) = no_secs\<lparr>reladyn_start := 0x20110000,
     reladyn_shdr := 0x201100dc, relaplt_start := 0x20110000, relaplt_shdr := 0x20110104\<rparr>"
proof -
  have nz: "0 \<notin> set str_dynsym" "0 \<notin> set str_dynstr" "0 \<notin> set str_rela_dyn" "0 \<notin> set str_rela_plt"
    and ne: "str_dynsym \<noteq> []" "str_dynstr \<noteq> []" "str_rela_dyn \<noteq> []" "str_rela_plt \<noteq> []"
      "str_rela_dyn \<noteq> str_dynsym" "str_rela_dyn \<noteq> str_dynstr" "str_rela_plt \<noteq> str_dynsym"
      "str_rela_plt \<noteq> str_dynstr" "str_rela_plt \<noteq> str_rela_dyn"
    by (simp_all add: section_names)
  have "note_section elf_mem 0x20110000 0x2011012c 0x201100b4 secs = secs"
    "note_section elf_mem 0x20110000 0x2011012c 0x201100dc secs =
       secs\<lparr>reladyn_start := 0x20110000, reladyn_shdr := 0x201100dc\<rparr>"
    "note_section elf_mem 0x20110000 0x2011012c 0x20110104 secs =
       secs\<lparr>relaplt_start := 0x20110000, relaplt_shdr := 0x20110104\<rparr>" for secs
    by (simp_all add: note_section_def Let_def elf_mem_shdrs elf_mem_cmp nz ne)
  then show ?thesis
    by (simp add: find_sections_def elf_mem_header elf_mem_shdrs sizeof_Shdr_def Let_def
        upt_rec [of 0 3] upt_rec [of "Suc 0" 3] numeral_2_eq_2 [symmetric])
qed

lemma elf_mem_loaded:
  "load_dynamic_exec 0x20110000 libs elf_mem = Inr (0, Some 0x20110040, Some 0x20111000, elf_mem)"
proof -
  have "patch_dyn_loop 0x20110000 0 secs 0 elf_mem = Inr elf_mem" if "reladyn_shdr secs = 0x201100dc" for secs
    using that by (subst patch_dyn_loop.simps) (simp add: elf_mem_shdrs)
  then show ?thesis
    by (simp add: load_dynamic_exec_def Let_def elf_mem_header elf_mem_loads elf_mem_secs elf_mem_shdrs
        sizeof_Phdr_def link_plt_def)
qed

end
