(* ===== verification/Boot.thy ===== *)
theory Boot
  imports Trap SDLoad Elf Uart
begin

text \<open>
  Starting the kernel, \<^verbatim>\<open>sdboot.c\<close>, with the boot loaders \<^verbatim>\<open>boot/bootrom/bootrom.c\<close> and
  \<^verbatim>\<open>boot/uartbl/uartbl.c\<close>.  The process manager and the memory are those of \<open>kstate\<close>, the SD card is
  a block device, and the video memory is a map from word offsets.  Messages are not modelled, the
  bytes read from the console are.  The C++ test and the floating point test have no effect on this
  state.
\<close>

section \<open>The boot ROM and the UART boot loader\<close>

definition psram_base :: u32 where "psram_base = 0x20000000"

text \<open>\<^verbatim>\<open>while (!*sd_ready);\<close> with a bound on the polls.\<close>

fun wait_card :: "nat \<Rightarrow> SDCard \<Rightarrow> kfault + SDCard" where
  "wait_card 0 sd = Inl Hang"
| "wait_card (Suc n) sd = (let sd = sd_tick sd in if mm_busy sd = 0 then Inr sd else wait_card n sd)"

text \<open>The 128 words of the cache; each access lets the card go on.\<close>

fun copy_cache :: "nat list \<Rightarrow> u32 \<Rightarrow> mem \<Rightarrow> SDCard \<Rightarrow> mem \<times> SDCard" where
  "copy_cache [] base m sd = (m, sd)"
| "copy_cache (i # is) base m sd = (let sd = sd_tick sd in
     copy_cache is base (store32 m (base + 4 * of_nat i) (mm_cache sd ! i)) sd)"

fun load_sectors :: "nat \<Rightarrow> nat list \<Rightarrow> mem \<Rightarrow> SDCard \<Rightarrow> kfault + mem \<times> SDCard" where
  "load_sectors fuel [] m sd = Inr (m, sd)"
| "load_sectors fuel (sector # ss) m sd =
     bindE (wait_card fuel sd) (\<lambda>sd.
     bindE (wait_card fuel (sd_start SD_Read (sd_write_address (of_nat sector) sd))) (\<lambda>sd.
     let (m, sd) = copy_cache [0..<128] (psram_base + 4 * (of_nat sector * 128)) m sd in
     load_sectors fuel ss m sd))"

text \<open>
  The memory test pattern at the beginning is overwritten later.  Without a card, the DMA unit
  stores what comes in on the UART from the given address on: \<open>dma\<close> is a parameter.  The result is
  the address control is transferred to.
\<close>

definition test_pattern :: "mem \<Rightarrow> mem" where
  "test_pattern m = (let put = foldl (\<lambda>m i. store32 m (psram_base + 4 * of_nat i) (of_nat i)) in
     put (put m [0..<64]) [0x4000..<64 + 0x4000])"

definition c_start :: "nat \<Rightarrow> (u32 \<Rightarrow> mem \<Rightarrow> mem) \<Rightarrow> bool \<Rightarrow> mem \<Rightarrow> SDCard \<Rightarrow> kfault + u32 \<times> mem \<times> SDCard" where
  "c_start fuel dma sd_ncd m sd =
     (let m = test_pattern m in
      if \<not> sd_ncd then bindE (load_sectors fuel [0..<500] m sd) (\<lambda>(m, sd). Inr (0x20000000, m, sd))
      else let m = foldl (\<lambda>m i. store32 m (psram_base + 4 * of_nat i) 0) m [0..<1024]
        in Inr (0x20001000, dma 0x20001000 m, sd))"

definition sd_uart_bl :: "(u32 \<Rightarrow> mem \<Rightarrow> mem) \<Rightarrow> mem \<Rightarrow> mem" where
  "sd_uart_bl dma m = dma 0x20001000 m"

section \<open>Memory and video tests\<close>

definition test_addrs :: "u32 list" where
  "test_addrs = map (\<lambda>k. of_nat (4 * k)) [0..<0x4000 div 4]"

text \<open>A word that reads back wrong makes the test call an address outside memory.\<close>

definition memory_test :: "mem \<Rightarrow> kfault + mem" where
  "memory_test m = (let m = foldl (\<lambda>m i. store32 m (0x20100000 + i) i) m test_addrs in
     if list_all (\<lambda>i. load32 m (0x20100000 + i) = i) test_addrs then Inr m else Inl BadPointer)"

type_synonym video_mem = "int \<Rightarrow> u32"

definition lcd_fillcube :: "int \<Rightarrow> int \<Rightarrow> int \<Rightarrow> int \<Rightarrow> u32 \<Rightarrow> video_mem \<Rightarrow> video_mem" where
  "lcd_fillcube a b c d color v =
     foldl (\<lambda>v i. foldl (\<lambda>v j. v(i * 120 + j := color)) v [a sdiv 4..c sdiv 4 - 1]) v [b..d - 1]"

definition base_color_arr :: "int list" where
  "base_color_arr = [0x00, 0x03, 0xe0, 0x1c, 0x1f, 0xe3, 0xfc, 0xff]"

text \<open>A colour byte repeated in the four bytes of a word.\<close>

definition four_pixels :: "int \<Rightarrow> u32" where
  "four_pixels clr = (let c = word_of_int clr in c + push_bit 8 c + push_bit 16 c + push_bit 24 c)"

definition hdmi_color :: "int \<Rightarrow> int \<Rightarrow> int" where
  "hdmi_color i j = (if j < 40 then base_color_arr ! nat (i sdiv (240 sdiv 8)) else i * 2 + j * 4) smod 0x100"

definition hdmi_test :: "video_mem \<Rightarrow> video_mem" where
  "hdmi_test v =
     (let v = foldl (\<lambda>v j. v(j := 0)) v [0..19199];
          v = v(19218 := 0x03e01c1f, 0 := 0x03e01c1f, 10000 := 0x03e01c1f)
      in foldl (\<lambda>v i. foldl (\<lambda>v j. v(i * 80 + j := four_pixels (hdmi_color i j))) v [0..79]) v [0..239])"

definition lcd_color :: "int \<Rightarrow> int \<Rightarrow> int" where
  "lcd_color i j = (if j < 60 then base_color_arr ! nat (i sdiv (320 sdiv 8)) else i * 2 + j * 4) smod 0x100"

text \<open>The LCD test paints a picture, clears it, and then runs its animation for ever; one round of it.\<close>

definition lcd_picture :: "video_mem \<Rightarrow> video_mem" where
  "lcd_picture v =
     (let v = (foldl (\<lambda>v j. v(j := 0)) v [0..38398])(4177920 := 0);
          v = foldl (\<lambda>v i. foldl (\<lambda>v j. v(i * 120 + j := four_pixels (lcd_color i j))) v [0..119]) v [0..319]
      in foldl (\<lambda>v j. v(j := 0)) v [0..38399])"

definition lcd_round :: "int \<times> u32 \<times> video_mem \<Rightarrow> int \<times> u32 \<times> video_mem" where
  "lcd_round s = (case s of (i, j, v) \<Rightarrow>
     let v = lcd_fillcube i i (i + 60) (i + 1) 0 v;
         v = lcd_fillcube i i (i + 1) (i + 60) 0 v;
         i = i + 1;
         i = (if i = 200 then 0 else i);
         v = lcd_fillcube i i (i + 60) (i + 60) (j + push_bit 8 j + push_bit 16 j) v
     in (i, j + 1, v))"

section \<open>Loading programs\<close>

text \<open>
  The return value of the loader is not looked at.  A loader that failed leaves the stack address
  unset; without a free process slot the table is accessed at -1; a name of 16 bytes or more
  runs over the field.
\<close>

definition new_process_from_elf_in_memory ::
  "u32 \<Rightarrow> string \<Rightarrow> DynLinkTable \<Rightarrow> kstate \<Rightarrow> kfault + int \<times> kstate" where
  "new_process_from_elf_in_memory elf_addr nm libs s =
     bindE (load_dynamic_exec elf_addr libs (kmem s)) (\<lambda>(_, entry, stack, m).
     let pm = procmanager s; avail_pid = getavailpid pm in
     bindE (slot avail_pid) (\<lambda>k.
     if 16 \<le> length nm then Inl BadPointer
     else case (entry, stack) of
       (Some entry, Some stack) \<Rightarrow> Inr (avail_pid, s\<lparr>kmem := m, procmanager := upd_proc k (\<lambda>P. P\<lparr>
          pid := avail_pid, p_name := nm, p_msg := 0, p_recvfrom := IPC_TARGET_NONE, p_sendto := IPC_TARGET_NONE,
          queue_sending := None, queue_sending_next := None, p_pc := entry,
          p_regs := (p_regs P)\<lparr>reg_sp := stack\<rparr>, p_state := PROC_STATE_READY\<rparr>) pm\<rparr>)
     | _ \<Rightarrow> Inl Uninit))"

definition LIBCSO_LOAD_ADDR :: u32 where "LIBCSO_LOAD_ADDR = 0x20700000"

definition load_libcso :: "'o BlkOps \<Rightarrow> nat \<Rightarrow> DynLinkTable \<Rightarrow> kstate \<Rightarrow> 'o Blk \<Rightarrow> kfault + DynLinkTable \<times> kstate \<times> 'o Blk" where
  "load_libcso ops fuel libs s sdblk0 =
     bindE (sdcard_to_memory ops fuel 0x100000 (0x100000 div 4) LIBCSO_LOAD_ADDR sdblk0 (kmem s)) (\<lambda>(m, sdblk0).
     bindE (load_shared_library LIBCSO_LOAD_ADDR libs m) (\<lambda>(_, libs, m). Inr (libs, s\<lparr>kmem := m\<rparr>, sdblk0)))"

definition loadelf :: "'o BlkOps \<Rightarrow> nat \<Rightarrow> DynLinkTable \<Rightarrow> kstate \<Rightarrow> 'o Blk \<Rightarrow> kfault + kstate \<times> 'o Blk" where
  "loadelf ops fuel libs s sdblk0 =
     bindE (sdcard_to_memory ops fuel 0x5000 16384 0x20110000 sdblk0 (kmem s)) (\<lambda>(m, sdblk0).
     bindE (new_process_from_elf_in_memory 0x20110000 ''elf_p'' libs (s\<lparr>kmem := m\<rparr>)) (\<lambda>(_, s). Inr (s, sdblk0)))"

section \<open>The start of the kernel\<close>

definition interrupt_ctrl :: u32 where "interrupt_ctrl = 0x98000000"

definition setupIRQ :: "u32 \<Rightarrow> kstate \<Rightarrow> kstate" where
  "setupIRQ isr_asm s = s\<lparr>kmem := store32 (kmem s) interrupt_ctrl 0, mscratch := REGS_SAVE_ADDR,
     mtvec := isr_asm, mstatus := 0x00000088, mie := 0x00000888\<rparr>"

text \<open>
  The console and the card are device states inside their character and block device.  The card is
  reset by its initialisation only; what the receiver holds before \<^verbatim>\<open>hardware_init\<close> resets it is not
  part of the bytes that come in.
\<close>

record machine =
  mc_k :: kstate
  mc_tty0 :: "Uart Chr"
  mc_sdblk0 :: "SDCard Blk"
  mc_video :: video_mem
  mc_libs :: DynLinkTable

definition tty_init :: "machine \<Rightarrow> machine" where
  "tty_init s = s\<lparr>mc_tty0 := snd (get_uart_chr (chr_obj (mc_tty0 s)))\<rparr>"

definition hardware_init :: "machine \<Rightarrow> machine" where
  "hardware_init s = tty_init (s\<lparr>mc_sdblk0 := sdcard_init (blk_obj (mc_sdblk0 s))\<rparr>)"

definition hardware_test :: "machine \<Rightarrow> machine" where
  "hardware_test s = s\<lparr>mc_video := hdmi_test (mc_video s)\<rparr>"

text \<open>
  The addresses of the functions that the process table is initialised with are parameters.  The
  result is the machine at the idle loop, with interrupts enabled.
\<close>

definition sd_c_start :: "nat \<Rightarrow> u32 \<Rightarrow> u32 \<Rightarrow> u32 \<Rightarrow> u32 \<Rightarrow> u32 \<Rightarrow> u32 \<Rightarrow> u32 \<Rightarrow> machine \<Rightarrow> kfault + machine" where
  "sd_c_start fuel proc1 proc2 proc3 fs tty uarttty0 isr_asm s =
     bindE (memory_test (kmem (mc_k s))) (\<lambda>m.
     let s = hardware_test (hardware_init (s\<lparr>mc_k := (mc_k s)\<lparr>kmem := m\<rparr>\<rparr>)) in
     bindE (uart_getchar (chr_obj (mc_tty0 s))) (\<lambda>(_, u). bindE (uart_getchar u) (\<lambda>(_, u).
     let s = s\<lparr>mc_tty0 := (mc_tty0 s)\<lparr>chr_obj := u\<rparr>\<rparr>; k = mc_k s;
         k = k\<lparr>procmanager := prepare_processes proc1 proc2 proc3 fs tty uarttty0 (procmanager k)\<rparr> in
     bindE (load_libcso sd_ops fuel (mc_libs s) k (mc_sdblk0 s)) (\<lambda>(libs, k, blk).
     bindE (loadelf sd_ops fuel libs k blk) (\<lambda>(k, blk).
     Inr (s\<lparr>mc_libs := libs, mc_sdblk0 := blk, mc_k := setupIRQ isr_asm k\<rparr>))))))"

section \<open>Loading by the boot ROM\<close>

lemma store_words_append:
  "store_words m a (xs @ ys) = store_words (store_words m a xs) (a + 4 * of_nat (length xs)) ys"
  by (induction xs arbitrary: m a) (simp_all add: algebra_simps)

lemma foldl_store_words:
  "foldl (\<lambda>m i. store32 m (a + 4 * of_nat i) (f i)) m [n..<n + k] = store_words m (a + 4 * of_nat n) (map f [n..<n + k])"
proof (induction k)
  case (Suc k)
  then show ?case by (simp add: store_words_append algebra_simps)
qed simp

lemma copy_cache_idle:
  "mm_busy sd = 0 \<Longrightarrow> copy_cache is base m sd = (foldl (\<lambda>m i. store32 m (base + 4 * of_nat i) (mm_cache sd ! i)) m is, sd)"
  by (induction "is" arbitrary: m) (simp_all add: sd_tick_def)

lemma sd_ops_simps:
  "op_isready sd_ops = sd_blk_isready" "op_load sd_ops = sd_blk_load" "op_ioctl sd_ops = sd_blk_ioctl"
  by (simp_all add: sd_ops_def)

lemma wait_card_blk:
  "wait_blk sd_ops n b = (case wait_card n (blk_obj b) of Inl e \<Rightarrow> Inl e | Inr sd \<Rightarrow> Inr (b\<lparr>blk_obj := sd\<rparr>))"
proof (induction n arbitrary: b)
  case (Suc n)
  then show ?case by (auto simp: sd_ops_simps sd_blk_isready_def Let_def split: sum.splits)
qed simp

lemma wait_card_load:
  assumes "mm_busy sd = 0" "\<not> mm_dirty sd" "sec < 2 ^ 23" "sd_latency sd < fuel"
  shows "wait_card fuel (sd_start SD_Read (sd_write_address (of_nat sec) sd)) =
    Inr (sd\<lparr>mm_address := of_nat sec, mm_op := SD_Read, mm_cache := read_sector (sd_disk sd) sec\<rparr>)"
proof -
  let ?b = "\<lparr>blk_sector = 0, blk_obtained = 0, blk_obj = sd\<rparr>"
  have "fetch_sector sd_ops fuel (of_nat sec) ?b = Inr (?b\<lparr>blk_obj := sd\<lparr>mm_address := of_nat sec,
      mm_op := SD_Read, mm_cache := read_sector (sd_disk sd) sec\<rparr>\<rparr>)"
    using fetch_sd [of ?b sec fuel] assms by (simp add: sd_idle_def)
  then show ?thesis
    by (auto simp: fetch_sector_def wait_card_blk sd_ops_simps sd_blk_load_def sd_blk_ioctl_def split: sum.splits)
qed

lemma load_sectors_correct:
  assumes "mm_busy sd = 0" "\<not> mm_dirty sd" "s + n < 2 ^ 23" "sd_latency sd < fuel"
  shows "\<exists>sd'. load_sectors fuel [s..<s + n] m sd =
    Inr (store_words m (psram_base + 4 * of_nat (128 * s)) (concat (map (read_sector (sd_disk sd)) [s..<s + n])), sd')"
  using assms
proof (induction n arbitrary: s m sd)
  case 0
  then show ?case by simp
next
  case (Suc n)
  let ?sd = "sd\<lparr>mm_address := of_nat s, mm_op := SD_Read, mm_cache := read_sector (sd_disk sd) s\<rparr>"
  let ?a = "psram_base + 4 * of_nat (128 * s)"
  let ?m = "store_words m ?a (read_sector (sd_disk sd) s)"
  have w: "wait_card fuel sd = Inr sd" using Suc.prems by (cases fuel) (simp_all add: sd_tick_def)
  have l: "wait_card fuel (sd_start SD_Read (sd_write_address (of_nat s) sd)) = Inr ?sd"
    using Suc.prems by (intro wait_card_load) simp_all
  have len: "length (read_sector (sd_disk sd) s) = 128" by (simp add: read_sector_def)
  have "map ((!) (read_sector (sd_disk sd) s)) [0..<128] = read_sector (sd_disk sd) s"
    using map_nth [of "read_sector (sd_disk sd) s"] len by simp
  then have c: "copy_cache [0..<128] (psram_base + 4 * (of_nat s * 128)) m ?sd = (?m, ?sd)"
    using foldl_store_words [of ?a "(!) (read_sector (sd_disk sd) s)" m 0 128] Suc.prems(1)
    by (simp add: copy_cache_idle mult.commute)
  have nxt: "?a + 4 * of_nat 128 = psram_base + 4 * of_nat (128 * Suc s)" by (simp add: algebra_simps)
  let ?rest = "concat (map (read_sector (sd_disk sd)) [Suc s..<Suc s + n])"
  from Suc.IH [of ?sd "Suc s" ?m] Suc.prems obtain sd' where
    "load_sectors fuel [Suc s..<Suc s + n] ?m ?sd =
       Inr (store_words ?m (psram_base + 4 * of_nat (128 * Suc s)) ?rest, sd')" by auto
  moreover have "load_sectors fuel (s # [Suc s..<Suc s + n]) m sd = load_sectors fuel [Suc s..<Suc s + n] ?m ?sd"
    unfolding load_sectors.simps w l bindE_simps c Let_def case_prod_conv ..
  moreover have "store_words ?m (psram_base + 4 * of_nat (128 * Suc s)) ?rest =
      store_words m ?a (read_sector (sd_disk sd) s @ ?rest)"
    by (simp only: store_words_append len nxt)
  moreover have "[s..<s + Suc n] = s # [Suc s..<Suc s + n]" by (simp add: upt_conv_Cons del: upt_Suc)
  ultimately show ?case by (simp only: list.map concat.simps) blast
qed

lemma concat_sectors: "concat (map (read_sector d) [0..<n]) = map (\<lambda>k. le_word d (4 * k)) [0..<128 * n]"
proof (induction n)
  case (Suc n)
  have "read_sector d n = map (\<lambda>k. le_word d (4 * k)) [128 * n..<128 * n + 128]"
    by (rule nth_equalityI) (simp_all add: read_sector_def algebra_simps)
  moreover have "[0..<128 * Suc n] = [0..<128 * n] @ [128 * n..<128 * n + 128]"
    using upt_add_eq_append [of 0 "128 * n" 128] by (simp add: add.commute del: upt_Suc)
  ultimately show ?case using Suc by simp
qed simp

section \<open>Properties\<close>

text \<open>
  C28: With a card in the slot, however long its transfers take, the boot ROM copies the first 500
  sectors of the card to the start of the memory and passes control there.
\<close>

theorem bootrom_loads_kernel:
  assumes "mm_busy sd = 0" "\<not> mm_dirty sd" "sd_latency sd < fuel"
  shows "\<exists>m' sd'. c_start fuel dma False m sd = Inr (0x20000000, m', sd') \<and>
    (\<forall>k<64000. load32 m' (0x20000000 + 4 * of_nat k) = le_word (sd_disk sd) (4 * k))"
proof -
  let ?ws = "map (\<lambda>k. le_word (sd_disk sd) (4 * k)) [0..<64000]"
  obtain sd' where "load_sectors fuel [0..<500] (test_pattern m) sd =
      Inr (store_words (test_pattern m) psram_base ?ws, sd')"
    using load_sectors_correct [OF assms(1,2) _ assms(3), of 0 500 "test_pattern m"]
    by (auto simp: concat_sectors simp del: upt_Suc)
  then have "c_start fuel dma False m sd = Inr (0x20000000, store_words (test_pattern m) psram_base ?ws, sd')"
    by (simp add: c_start_def Let_def)
  moreover have "load32 (store_words (test_pattern m) psram_base ?ws) (0x20000000 + 4 * of_nat k) =
      le_word (sd_disk sd) (4 * k)" if "k < 64000" for k
    using load32_store_words_in [of k ?ws "test_pattern m" psram_base] that by (simp add: psram_base_def)
  ultimately show ?thesis by blast
qed

theorem bootrom_loads_kernel_witness:
  "\<exists>m' sd'. c_start 10 (\<lambda>a m. m) False (\<lambda>_. 0) (blk_obj (card 7)) = Inr (0x20000000, m', sd') \<and>
    load32 m' 0x20000004 = le_word of_nat 4"
proof -
  obtain m' sd' where *: "c_start 10 (\<lambda>a m. m) False (\<lambda>_. 0) (blk_obj (card 7)) = Inr (0x20000000, m', sd')"
    "\<forall>k<64000. load32 m' (0x20000000 + 4 * of_nat k) = le_word of_nat (4 * k)"
    using bootrom_loads_kernel [of "blk_obj (card 7)" 10 "\<lambda>a m. m" "\<lambda>_. 0"] by (auto simp: card_def)
  moreover from *(2) have "load32 m' 0x20000004 = le_word of_nat 4" by (auto dest: spec [of _ 1])
  ultimately show ?thesis by blast
qed

text \<open>The memory test passes on memory that keeps what is written to it.\<close>

lemma memory_test_passes: "\<exists>m'. memory_test m = Inr m'"
proof -
  let ?m = "foldl (\<lambda>m i. store32 m (0x20100000 + i) i) m test_addrs"
  have fold: "foldl (\<lambda>m i. store32 m (b + i) i) m (map (\<lambda>k. of_nat (4 * k)) [0..<n]) =
      store_words m b (map (\<lambda>k. of_nat (4 * k)) [0..<n])" for b :: u32 and n
    using foldl_store_words [of b "\<lambda>k. of_nat (4 * k)" m 0 n] by (simp add: foldl_map)
  have "?m = store_words m 0x20100000 test_addrs"
    unfolding test_addrs_def by (rule fold)
  moreover have "load32 (store_words m 0x20100000 test_addrs) (0x20100000 + 4 * of_nat k) = of_nat (4 * k)"
    if "k < 4096" for k
    using load32_store_words_in [of k test_addrs m "0x20100000"] that by (simp add: test_addrs_def)
  ultimately have "list_all (\<lambda>i. load32 ?m (0x20100000 + i) = i) test_addrs"
    by (simp add: list_all_iff test_addrs_def)
  then show ?thesis by (simp add: memory_test_def)
qed

lemma getavailpid_free:
  assumes "getavailpid pm = int k"
  shows "k < 64" "pid (proc_table pm k) = - 1"
  using assms by (auto simp: getavailpid_def avail_from_spec find_upt_Some split: option.splits)

text \<open>
  C29: A program whose image the loader accepts becomes a process in the least free slot of the
  table: ready, with its entry point, its stack and no message pending; the other slots and the
  invariant of the process table are kept.
\<close>

theorem new_process_registered:
  assumes "kernel_inv (procmanager s)" "getavailpid (procmanager s) = int k" "length nm < 16"
    and "load_dynamic_exec elf_addr libs (kmem s) = Inr (0, Some entry, Some stack, m)"
  shows "\<exists>s'. new_process_from_elf_in_memory elf_addr nm libs s = Inr (int k, s') \<and> kernel_inv (procmanager s') \<and>
    is_ready (procmanager s') k \<and> p_pc (proc_table (procmanager s') k) = entry \<and>
    reg_sp (p_regs (proc_table (procmanager s') k)) = stack \<and>
    queue_sending (proc_table (procmanager s') k) = None \<and> p_msg (proc_table (procmanager s') k) = 0 \<and>
    kmem s' = m \<and> (\<forall>j. j \<noteq> k \<longrightarrow> proc_table (procmanager s') j = proc_table (procmanager s) j)"
proof -
  have "k < 64" "k \<noteq> proc_running (procmanager s)"
    using getavailpid_free [OF assms(2)] assms(1) by (auto simp: kernel_inv_def ipc_inv_def sched_ok_def pm_wf_def)
  let ?f = "\<lambda>P. P\<lparr>pid := int k, p_name := nm, p_msg := 0, p_recvfrom := IPC_TARGET_NONE, p_sendto := IPC_TARGET_NONE,
          queue_sending := None, queue_sending_next := None, p_pc := entry,
          p_regs := (p_regs P)\<lparr>reg_sp := stack\<rparr>, p_state := PROC_STATE_READY\<rparr>"
  let ?s = "s\<lparr>kmem := m, procmanager := upd_proc k ?f (procmanager s)\<rparr>"
  have "new_process_from_elf_in_memory elf_addr nm libs s = Inr (int k, ?s)"
    using assms(2-4) \<open>k < 64\<close> by (simp add: new_process_from_elf_in_memory_def Let_def)
  moreover have "kernel_inv (upd_proc k ?f (procmanager s))"
    using assms(1) \<open>k \<noteq> proc_running (procmanager s)\<close> by (intro kernel_inv_upd_ready) simp_all
  moreover have "is_ready (upd_proc k ?f (procmanager s)) k" by (simp add: is_ready_def)
  ultimately show ?thesis by (intro exI [of _ ?s]) simp
qed

lemma booted_free: "getavailpid (procmanager booted) = 4"
proof -
  have "List.find (\<lambda>k. pid (proc_table (procmanager booted) k) = - 1) [1..<64] = Some 4"
    by (simp add: find_upt_Some booted_def prepare_processes_def register_kproc_def Let_def init_table
        start_proc_def clear_proc_def proc_consts)
  then show ?thesis by (simp add: getavailpid_def avail_from_spec)
qed

theorem new_process_registered_witness:
  "\<exists>s'. new_process_from_elf_in_memory 0x20110000 ''elf_p'' [] (booted\<lparr>kmem := elf_mem\<rparr>) = Inr (4, s') \<and>
     kernel_inv (procmanager s') \<and> is_ready (procmanager s') 4 \<and> p_pc (proc_table (procmanager s') 4) = 0x20110040"
proof -
  have "load_dynamic_exec 0x20110000 [] (kmem (booted\<lparr>kmem := elf_mem\<rparr>)) = Inr (0, Some 0x20110040, Some 0x20111000, elf_mem)"
    by (simp add: elf_mem_loaded)
  from new_process_registered [of "booted\<lparr>kmem := elf_mem\<rparr>" 4 "''elf_p''", OF _ _ _ this] show ?thesis
    by (auto simp: booted_inv booted_free)
qed

text \<open>
  A program that the loader rejects is not noticed: the process is set up with the variables that
  the loader was to fill in, of which the stack address was never written.
\<close>

theorem rejected_image_unset_stack:
  assumes "\<not> elf_header_ok (read_ehdr (kmem s) elf_addr)" "getavailpid (procmanager s) = int k" "length nm < 16"
  shows "new_process_from_elf_in_memory elf_addr nm libs s = Inl Uninit"
  using assms getavailpid_free [OF assms(2)]
  by (simp add: new_process_from_elf_in_memory_def load_dynamic_exec_def Let_def)

theorem rejected_image_unset_stack_witness:
  "new_process_from_elf_in_memory 0x20110000 ''elf_p'' [] (booted\<lparr>kmem := \<lambda>_. 0\<rparr>) = Inl Uninit"
proof -
  have "\<not> elf_header_ok (read_ehdr (\<lambda>_. 0) 0x20110000)"
    by (simp add: elf_header_ok_def read_ehdr_def load8_def)
  then show ?thesis
    using rejected_image_unset_stack [of "booted\<lparr>kmem := \<lambda>_. 0\<rparr>" "0x20110000" 4 "''elf_p''" "[]"] booted_free by simp
qed

end
