(* ===== verification/CMUtil.thy ===== *)
theory CMUtil
  imports Prelude
begin

text \<open>
  \<^verbatim>\<open>pCPU/coremark/core_util.c\<close> as this port configures it (seeds from volatile variables): the
  seed reader and the 16-bit checksum that every CoreMark algorithm reports through.  The
  checksum is proved to be the remainder of a division of binary polynomials, and to be linear
  and injective in the value added to it.
\<close>

section \<open>Seeds\<close>

text \<open>The five volatile variables are read at the time of the call: they are an argument.\<close>

definition get_seed_32 :: "(nat \<Rightarrow> u32) \<Rightarrow> int \<Rightarrow> u32" where
  "get_seed_32 seed_volatile i =
     (if i = 1 then seed_volatile 1
      else if i = 2 then seed_volatile 2
      else if i = 3 then seed_volatile 3
      else if i = 4 then seed_volatile 4
      else if i = 5 then seed_volatile 5
      else 0)"

section \<open>The checksum\<close>

text \<open>One round of the loop of \<^verbatim>\<open>crcu8\<close>, and the eight rounds.\<close>

definition crcu8_round :: "u8 \<Rightarrow> u16 \<Rightarrow> u8 \<times> u16" where
  "crcu8_round data crc =
     (let x16 = (data AND 1) XOR ((ucast crc :: u8) AND 1);
          data' = drop_bit 1 data;
          crc1 = (if x16 = 1 then crc XOR 0x4002 else crc);
          carry = (if x16 = 1 then (1 :: u8) else 0);
          crc2 = drop_bit 1 crc1;
          crc3 = (if carry \<noteq> 0 then crc2 OR 0x8000 else crc2 AND 0x7fff)
      in (data', crc3))"

fun crcu8_loop :: "nat \<Rightarrow> u8 \<Rightarrow> u16 \<Rightarrow> u16" where
  "crcu8_loop 0 data crc = crc"
| "crcu8_loop (Suc n) data crc = (case crcu8_round data crc of (data', crc') \<Rightarrow> crcu8_loop n data' crc')"

definition crcu8 :: "u8 \<Rightarrow> u16 \<Rightarrow> u16" where
  "crcu8 data crc = crcu8_loop 8 data crc"

lemma crcu8_eight: "crcu8 d c = crcu8_loop (Suc (Suc (Suc (Suc (Suc (Suc (Suc (Suc 0)))))))) d c"
  by (simp add: crcu8_def numeral_eq_Suc)

definition crcu16 :: "u16 \<Rightarrow> u16 \<Rightarrow> u16" where
  "crcu16 newval crc =
     (let crc = crcu8 (ucast newval) crc;
          crc = crcu8 (ucast (drop_bit 8 newval)) crc
      in crc)"

text \<open>\<^verbatim>\<open>crc16\<close> takes a signed value and converts it back: the same bits.\<close>

definition crc16 :: "u16 \<Rightarrow> u16 \<Rightarrow> u16" where
  "crc16 newval crc = crcu16 newval crc"

text \<open>With these the simplifier evaluates a checksum.\<close>

lemmas crc_eval = crc16_def crcu16_def crcu8_eight crcu8_round_def

definition crcu32 :: "u32 \<Rightarrow> u16 \<Rightarrow> u16" where
  "crcu32 newval crc =
     (let crc = crc16 (ucast newval) crc;
          crc = crc16 (ucast (drop_bit 16 newval)) crc
      in crc)"

section \<open>Check of the integer types\<close>

text \<open>
  The sizes the compiler gives to the six types that are tested, and to \<^verbatim>\<open>int*\<close>, are the
  argument; each mismatch prints a line and is counted.
\<close>

record type_sizes =
  sz_u8 :: nat
  sz_u16 :: nat
  sz_s16 :: nat
  sz_s32 :: nat
  sz_u32 :: nat
  sz_ptr_int :: nat
  sz_ptr :: nat

definition check_data_types :: "type_sizes \<Rightarrow> u8" where
  "check_data_types z =
     (let retval = (0 :: u8);
          retval = (if sz_u8 z \<noteq> 1 then retval + 1 else retval);
          retval = (if sz_u16 z \<noteq> 2 then retval + 1 else retval);
          retval = (if sz_s16 z \<noteq> 2 then retval + 1 else retval);
          retval = (if sz_s32 z \<noteq> 4 then retval + 1 else retval);
          retval = (if sz_u32 z \<noteq> 4 then retval + 1 else retval);
          retval = (if sz_ptr_int z \<noteq> sz_ptr z then retval + 1 else retval)
      in retval)"

definition rv32_sizes :: type_sizes where
  "rv32_sizes = \<lparr>sz_u8 = 1, sz_u16 = 2, sz_s16 = 2, sz_s32 = 4, sz_u32 = 4, sz_ptr_int = 4, sz_ptr = 4\<rparr>"

lemma check_data_types_rv32: "check_data_types rv32_sizes = 0"
  by (simp add: check_data_types_def rv32_sizes_def)

section \<open>The checksum as a shift register\<close>

text \<open>
  The textbook register: the incoming bit meets the lowest bit of the register, the register
  moves down, and the polynomial is added when the two differ.
\<close>

definition crc_bit :: "bool \<Rightarrow> u16 \<Rightarrow> u16" where
  "crc_bit b c = (if b \<noteq> bit c 0 then drop_bit 1 c XOR 0xA001 else drop_bit 1 c)"

fun crc_bits :: "bool list \<Rightarrow> u16 \<Rightarrow> u16" where
  "crc_bits [] c = c"
| "crc_bits (b # bs) c = crc_bits bs (crc_bit b c)"

lemma crc_bits_append: "crc_bits (as @ bs) c = crc_bits bs (crc_bits as c)"
  by (induction as arbitrary: c) simp_all

definition word_bits :: "'a::len word \<Rightarrow> bool list" where
  "word_bits w = map (bit w) [0..<LENGTH('a)]"

lemma length_word_bits [simp]: "length (word_bits (w :: 'a::len word)) = LENGTH('a)"
  by (simp add: word_bits_def)

lemma word_bits_inject: "word_bits v = word_bits w \<longleftrightarrow> v = w"
  by (auto simp: word_bits_def intro: bit_word_eqI)

lemma and_one_eq: "(w :: 'a::len word) AND 1 = of_bool (bit w 0)"
  by (simp add: and_one_eq mod_2_eq_odd bit_0)

lemma crcu8_round_bit:
  "crcu8_round d c = (drop_bit 1 d, crc_bit (bit d 0) c)"
proof -
  have m: "(0x7fff :: u16) = mask 15" by (simp add: mask_eq_exp_minus_1)
  have clear: "drop_bit 1 c AND 0x7fff = drop_bit 1 c"
    unfolding m by (rule bit_word_eqI) (auto simp: bit_simps dest: bit_imp_le_length)
  have "drop_bit 1 (c XOR 0x4002) OR 0x8000 = drop_bit 1 c XOR 0xA001"
  proof (rule bit_word_eqI)
    fix n assume "n < LENGTH(16)"
    then consider "n \<in> set [0..<15]" | "n = 15" by fastforce
    then show "bit (drop_bit 1 (c XOR 0x4002) OR 0x8000) n = bit (drop_bit 1 c XOR 0xA001) n"
      by cases (auto simp: bit_simps upt_rec bit_numeral_rec dest: bit_imp_le_length)
  qed
  with clear show ?thesis
    by (simp add: crcu8_round_def crc_bit_def and_one_eq bit_simps)
qed

lemma crcu8_loop_bits:
  "crcu8_loop n d c = crc_bits (map (bit d) [0..<n]) c"
proof (induction n arbitrary: d c)
  case (Suc n)
  have "map (bit d) [0..<Suc n] = bit d 0 # map (bit (drop_bit 1 d)) [0..<n]"
    by (simp only: upt_rec [of 0 "Suc n"] map_Suc_upt [symmetric])
      (simp add: comp_def bit_drop_bit_eq)
  then show ?case by (simp add: crcu8_round_bit Suc.IH)
qed simp

lemma crcu8_bits: "crcu8 d c = crc_bits (word_bits d) c"
  by (simp add: crcu8_def crcu8_loop_bits word_bits_def)

lemma word_bits_halves:
  "word_bits (ucast v :: u8) @ word_bits (ucast (drop_bit 8 v) :: u8) = word_bits (v :: u16)"
  by (rule nth_equalityI) (auto simp: word_bits_def nth_append bit_simps)

lemma crcu16_bits: "crcu16 v c = crc_bits (word_bits v) c"
  by (simp add: crcu16_def Let_def crcu8_bits crc_bits_append [symmetric] word_bits_halves)

lemma word_bits_halves32:
  "word_bits (ucast v :: u16) @ word_bits (ucast (drop_bit 16 v) :: u16) = word_bits (v :: u32)"
  by (rule nth_equalityI) (auto simp: word_bits_def nth_append bit_simps)

lemma crcu32_bits: "crcu32 v c = crc_bits (word_bits v) c"
  by (simp add: crcu32_def crc16_def Let_def crcu16_bits crc_bits_append [symmetric] word_bits_halves32)

section \<open>The checksum as a remainder of polynomials\<close>

text \<open>
  A binary polynomial is the list of its coefficients, highest degree first.  \<open>gdiv p ds\<close> divides
  \<open>ds\<close> by the polynomial with leading coefficient 1 and tail \<open>p\<close>, as one does on paper: whenever
  the leading coefficient is 1, the divisor is subtracted.  What is left when no more than
  \<open>length p\<close> coefficients remain is the remainder.
\<close>

fun add_front :: "bool list \<Rightarrow> bool list \<Rightarrow> bool list" where
  "add_front [] ds = ds"
| "add_front ps [] = ps"
| "add_front (p # ps) (d # ds) = (p \<noteq> d) # add_front ps ds"

lemma length_add_front [simp, termination_simp]: "length (add_front ps ds) = max (length ps) (length ds)"
  by (induction ps ds rule: add_front.induct) auto

fun gdiv :: "bool list \<Rightarrow> bool list \<Rightarrow> bool list" where
  "gdiv p [] = []"
| "gdiv p (d # ds) =
     (if length (d # ds) \<le> length p then d # ds
      else gdiv p (if d then add_front p ds else ds))"

text \<open>The divisor of the code is \<open>x^16 + x^15 + x^2 + 1\<close>.\<close>

definition crc_poly :: "bool list" where
  "crc_poly = [True, False, False, False, False, False, False, False,
     False, False, False, False, False, True, False, True]"

text \<open>
  The register, read from its lowest bit, holds the coefficients that are still to be combined
  with the message; that is the invariant of the division.
\<close>

lemma add_front_Nil [simp]: "add_front ps [] = ps"
  by (cases ps) simp_all

lemma add_front_assoc:
  "length ps = length qs \<Longrightarrow> length ps \<le> length ds \<Longrightarrow>
     add_front ps (add_front qs ds) = add_front (map2 (\<noteq>) ps qs) ds"
proof (induction ps qs arbitrary: ds rule: list_induct2)
  case (Cons x xs y ys)
  then show ?case by (cases ds) auto
qed simp

lemma add_front_pad:
  "length ps < length ds \<Longrightarrow> add_front (ps @ [False]) ds = add_front ps ds"
proof (induction ps arbitrary: ds)
  case Nil
  then show ?case by (cases ds) auto
next
  case (Cons p ps)
  then show ?case by (cases ds) auto
qed

lemma add_front_zeros: "add_front ps (replicate (length ps) False) = ps"
  by (induction ps) simp_all

lemma add_front_null: "n \<le> length ds \<Longrightarrow> add_front (replicate n False) ds = ds"
proof (induction n arbitrary: ds)
  case (Suc n)
  then show ?case by (cases ds) auto
qed simp

lemma gdiv_done: "length ds \<le> length p \<Longrightarrow> gdiv p ds = ds"
  by (cases ds) simp_all

lemma word_bits_Cons: "word_bits (c :: u16) = bit c 0 # map (bit c) [1..<16]"
  by (simp add: word_bits_def upt_rec)

lemma word_bits_shift: "word_bits (drop_bit 1 (c :: u16)) = map (bit c) [1..<16] @ [False]"
  by (rule nth_equalityI) (auto simp: word_bits_def nth_append bit_simps dest: bit_imp_le_length)

lemma word_bits_xor: "word_bits (v XOR w :: 'a::len word) = map2 (\<noteq>) (word_bits v) (word_bits w)"
  by (rule nth_equalityI) (auto simp: word_bits_def bit_simps)

lemma crc_poly_bits: "word_bits (0xA001 :: u16) = crc_poly"
  by (simp add: word_bits_def crc_poly_def upt_rec bit_numeral_rec)

lemma length_crc_poly [simp]: "length crc_poly = 16"
  by (simp add: crc_poly_def)

lemma crc_division:
  "gdiv crc_poly (add_front (word_bits c) (ms @ replicate 16 False)) = word_bits (crc_bits ms c)"
proof (induction ms arbitrary: c)
  case Nil
  have "add_front (word_bits c) (replicate 16 False) = word_bits c"
    using add_front_zeros [of "word_bits c"] by simp
  then show ?case by (simp add: gdiv_done)
next
  case (Cons m ms)
  let ?D = "ms @ replicate 16 False" and ?r = "map (bit c) [1..<16]"
  have shift: "add_front ?r ?D = add_front (word_bits (drop_bit 1 c)) ?D"
    unfolding word_bits_shift by (rule add_front_pad [symmetric]) simp
  have sub: "add_front crc_poly (add_front ?r ?D) = add_front (word_bits (drop_bit 1 c XOR 0xA001)) ?D"
    unfolding shift xor.commute [of "drop_bit 1 c"]
    by (subst add_front_assoc) (simp_all add: word_bits_xor crc_poly_bits)
  have "add_front (word_bits c) ((m # ms) @ replicate 16 False) = (bit c 0 \<noteq> m) # add_front ?r ?D"
    by (simp add: word_bits_Cons)
  also have "gdiv crc_poly \<dots> =
      gdiv crc_poly (if bit c 0 \<noteq> m then add_front crc_poly (add_front ?r ?D) else add_front ?r ?D)"
    by simp
  also have "\<dots> = gdiv crc_poly (add_front (word_bits (crc_bit m c)) ?D)"
    unfolding sub [unfolded shift] shift crc_bit_def by auto
  finally show ?case by (simp add: Cons.IH)
qed

lemma crc_bits_foldl:
  "foldl (\<lambda>crc v. crc16 v crc) c vs = crc_bits (concat (map word_bits vs)) c"
  by (induction vs arbitrary: c) (simp_all add: crc16_def crcu16_bits crc_bits_append)

section \<open>What the checksum is\<close>

text \<open>
  C14: The checksum of a sequence of 16-bit values, started from zero, is the remainder of the
  message polynomial (the values' bits in the order they are fed, lowest bit of each first,
  followed by sixteen zeros) divided by \<open>x^16 + x^15 + x^2 + 1\<close>: the loop over carry flags of
  \<^verbatim>\<open>crcu8\<close>, called twice by \<^verbatim>\<open>crcu16\<close>, computes the cyclic redundancy code.
\<close>

theorem crc16_is_remainder:
  "word_bits (foldl (\<lambda>crc v. crc16 v crc) 0 vs)
     = gdiv crc_poly (concat (map word_bits vs) @ replicate 16 False)"
proof -
  have "word_bits (0 :: u16) = replicate 16 False"
    by (simp add: word_bits_def upt_rec numeral_eq_Suc)
  then show ?thesis
    using crc_division [of 0 "concat (map word_bits vs)"] by (simp add: crc_bits_foldl add_front_null)
qed

section \<open>What the checksum distinguishes\<close>

lemma crc_bit_linear: "crc_bit (a \<noteq> b) (c XOR d) = crc_bit a c XOR crc_bit b d"
  by (auto simp: crc_bit_def bit_simps ac_simps)

lemma crc_bits_linear:
  "length as = length bs \<Longrightarrow> crc_bits (map2 (\<noteq>) as bs) (c XOR d) = crc_bits as c XOR crc_bits bs d"
  by (induction as bs arbitrary: c d rule: list_induct2) (simp_all add: crc_bit_linear [simplified])

lemma crc_bits_zero:
  "crc_bits bs c = 0 \<Longrightarrow> length bs \<le> 16 \<Longrightarrow> bit c i \<longleftrightarrow> i < length bs \<and> bs ! i"
proof (induction bs arbitrary: c i)
  case (Cons b bs)
  have rest: "bit (crc_bit b c) j \<longleftrightarrow> j < length bs \<and> bs ! j" for j
    using Cons by simp
  have "bit (crc_bit b c) 15 \<longleftrightarrow> b \<noteq> bit c 0"
    by (auto simp: crc_bit_def bit_simps bit_numeral_rec dest: bit_imp_le_length)
  with rest [of 15] Cons.prems have b: "b = bit c 0" by simp
  show ?case
    using b rest [of "i - 1"] by (cases i) (simp_all add: crc_bit_def bit_simps)
qed simp

lemma crc_bits_matching:
  "(\<And>i. bit c i \<longleftrightarrow> i < length bs \<and> bs ! i) \<Longrightarrow> crc_bits bs c = 0"
proof (induction bs arbitrary: c)
  case Nil
  then show ?case by (auto intro: bit_word_eqI)
next
  case (Cons b bs)
  have "bit (drop_bit 1 c) i \<longleftrightarrow> i < length bs \<and> bs ! i" for i
    using Cons.prems [of "Suc i"] by (simp add: bit_simps)
  moreover have "crc_bit b c = drop_bit 1 c"
    using Cons.prems [of 0] by (simp add: crc_bit_def)
  ultimately show ?case by (simp add: Cons.IH)
qed

lemma crcu16_linear: "crcu16 (v XOR w) (c XOR d) = crcu16 v c XOR crcu16 w d"
  using crc_bits_linear [of "word_bits v" "word_bits w" c d] by (simp add: crcu16_bits word_bits_xor)

lemma crcu16_zero: "crcu16 v c = 0 \<longleftrightarrow> v = c"
proof
  assume "crcu16 v c = 0"
  then have "bit c i \<longleftrightarrow> bit v i" if "i < 16" for i
    using crc_bits_zero [of "word_bits v" c i] that by (simp add: crcu16_bits word_bits_def)
  then show "v = c" by (intro bit_word_eqI) simp
next
  assume "v = c"
  then show "crcu16 v c = 0"
    using bit_imp_le_length [of c] unfolding crcu16_bits
    by (intro crc_bits_matching) (force simp: word_bits_def)
qed

lemma xor_eq_0_word: "(v :: 'a::len word) XOR w = 0 \<longleftrightarrow> v = w"
proof
  assume "v XOR w = 0"
  then have "bit v n = bit w n" for n
    using bit_xor_iff [of v w n] by simp
  then show "v = w" by (simp add: bit_word_eqI)
qed simp

text \<open>
  One step of the checksum gives the same register exactly when the value and the old
  register together are the same: for a fixed register it is a bijection in the value, and for a
  fixed value a bijection in the register.  A single changed result of an algorithm therefore
  always changes the checksum it is added to.
\<close>

theorem crcu16_injective: "crcu16 v c = crcu16 w d \<longleftrightarrow> v XOR c = w XOR d"
proof -
  have "crcu16 v c = crcu16 w d \<longleftrightarrow> crcu16 (v XOR w) (c XOR d) = 0"
    by (simp add: crcu16_linear xor_eq_0_word)
  also have "\<dots> \<longleftrightarrow> v XOR w = c XOR d" by (rule crcu16_zero)
  also have "\<dots> \<longleftrightarrow> (v XOR w) XOR (c XOR d) = 0" by (simp add: xor_eq_0_word)
  also have "(v XOR w) XOR (c XOR d) = (v XOR c) XOR (w XOR d)" by (simp add: ac_simps)
  finally show ?thesis by (simp add: xor_eq_0_word)
qed

end
