(* ===== verification/CMSeeds.thy ===== *)
theory CMSeeds
  imports CMUtil
begin

text \<open>
  The reader of seeds from the command line in \<^verbatim>\<open>pCPU/coremark/core_util.c\<close> (\<^verbatim>\<open>SEED_ARG\<close>, which this
  port does not select): an optional sign, a decimal or hexadecimal number and an optional factor
  \<^verbatim>\<open>K\<close> or \<^verbatim>\<open>M\<close>.  It is proved to read back what a printer of numbers writes.  A string is the list of
  its bytes with the terminating zero; a read behind the end of the list is \<open>BadPointer\<close>.  Values
  are 32-bit words, on which the signed arithmetic wraps.
\<close>

section \<open>The code\<close>

definition char_at :: "u8 list \<Rightarrow> kfault + u8" where
  "char_at s = (case s of [] \<Rightarrow> Inl BadPointer | c # _ \<Rightarrow> Inr c)"

definition is_dec :: "u8 \<Rightarrow> bool" where "is_dec c \<longleftrightarrow> 0x30 \<le> c \<and> c \<le> 0x39"
definition is_lhex :: "u8 \<Rightarrow> bool" where "is_lhex c \<longleftrightarrow> 0x61 \<le> c \<and> c \<le> 0x66"

definition hex_digit :: "u8 \<Rightarrow> u32" where
  "hex_digit c = (let digit = ucast c - 0x30 in if 9 < sint digit then 10 + ucast c - 0x61 else digit)"

fun hex_loop :: "u8 list \<Rightarrow> u32 \<Rightarrow> kfault + u8 list \<times> u32" where
  "hex_loop [] retval = Inl BadPointer"
| "hex_loop (c # cs) retval =
     (if is_dec c \<or> is_lhex c then hex_loop cs (retval * 16 + hex_digit c) else Inr (c # cs, retval))"

fun dec_loop :: "u8 list \<Rightarrow> u32 \<Rightarrow> kfault + u8 list \<times> u32" where
  "dec_loop [] retval = Inl BadPointer"
| "dec_loop (c # cs) retval =
     (if is_dec c then dec_loop cs (retval * 10 + (ucast c - 0x30)) else Inr (c # cs, retval))"

text \<open>The second character of the prefix \<^verbatim>\<open>0x\<close> is only read if the first one is a zero.\<close>

definition hex_mode :: "u8 list \<Rightarrow> kfault + bool" where
  "hex_mode s = bindE (char_at s) (\<lambda>c0.
     if c0 = 0x30 then bindE (char_at (tl s)) (\<lambda>c1. Inr (c1 = 0x78)) else Inr False)"

definition parseval :: "u8 list \<Rightarrow> kfault + u32" where
  "parseval valstring =
     bindE (char_at valstring) (\<lambda>c.
     let (neg, valstring) = (if c = 0x2d then (- 1, tl valstring) else (1, valstring)) in
     bindE (hex_mode valstring) (\<lambda>hexmode.
     let valstring = (if hexmode then drop 2 valstring else valstring) in
     bindE (if hexmode then hex_loop valstring 0 else dec_loop valstring 0) (\<lambda>(valstring, retval).
     bindE (char_at valstring) (\<lambda>c.
       let retval = (if c = 0x4b then retval * 1024 else retval);
           retval = (if c = 0x4d then retval * (1024 * 1024) else retval)
       in Inr (retval * neg)))))"

definition get_seed_args :: "nat \<Rightarrow> u8 list list \<Rightarrow> kfault + u32" where
  "get_seed_args i argv = (if i < length argv then parseval (argv ! i) else Inr 0)"

section \<open>A printer of numbers\<close>

text \<open>The digits of a number in a base, most significant first; lower case letters.\<close>

definition digit_char :: "nat \<Rightarrow> u8" where
  "digit_char d = of_nat (if d < 10 then 0x30 + d else 0x57 + d)"

function digits :: "nat \<Rightarrow> nat \<Rightarrow> u8 list" where
  "digits b n = (if b < 2 \<or> n < b then [digit_char n] else digits b (n div b) @ [digit_char (n mod b)])"
  by pat_completeness auto
termination by (relation "measure snd") auto

declare digits.simps [simp del]

definition show_dec :: "int \<Rightarrow> u8 list" where
  "show_dec k = (if k < 0 then [0x2d] else []) @ digits 10 (nat \<bar>k\<bar>)"

definition show_hex :: "int \<Rightarrow> u8 list" where
  "show_hex k = (if k < 0 then [0x2d] else []) @ [0x30, 0x78] @ digits 16 (nat \<bar>k\<bar>)"

section \<open>Reading back\<close>

lemma digit_char_dec: "d < 10 \<Longrightarrow> is_dec (digit_char d) \<and> ucast (digit_char d) - (0x30 :: u32) = of_nat d"
proof -
  assume "d < 10"
  then have "d \<in> set [0..<10]" by simp
  then show ?thesis by (auto simp: upt_rec digit_char_def is_dec_def)
qed

lemma digit_char_hex:
  "d < 16 \<Longrightarrow> (is_dec (digit_char d) \<or> is_lhex (digit_char d)) \<and> hex_digit (digit_char d) = of_nat d"
proof -
  assume "d < 16"
  then have "d \<in> set [0..<16]" by simp
  then show ?thesis by (auto simp: upt_rec digit_char_def is_dec_def is_lhex_def hex_digit_def)
qed

text \<open>Both loops over the digits of a number, whatever was read before.\<close>

lemma of_nat_split: "(of_nat n :: u32) = of_nat (n div b) * of_nat b + of_nat (n mod b)"
  by (metis of_nat_mult of_nat_add div_mult_mod_eq)

lemma digits_step: "2 \<le> b \<Longrightarrow> \<not> n < b \<Longrightarrow> digits b n = digits b (n div b) @ [digit_char (n mod b)]"
  by (subst digits.simps) simp

lemma digits_last: "n < b \<Longrightarrow> digits b n = [digit_char n]"
  by (subst digits.simps) simp

lemma dec_loop_digit: "d < 10 \<Longrightarrow> dec_loop (digit_char d # rest) r = dec_loop rest (r * 10 + of_nat d)"
  using digit_char_dec [of d] by simp

lemma hex_loop_digit: "d < 16 \<Longrightarrow> hex_loop (digit_char d # rest) r = hex_loop rest (r * 16 + of_nat d)"
  using digit_char_hex [of d] by simp

lemma dec_loop_digits: "dec_loop (digits 10 n @ rest) 0 = dec_loop rest (of_nat n)"
proof (induction n arbitrary: rest rule: less_induct)
  case (less n)
  show ?case
  proof (cases "n < 10")
    case True
    then show ?thesis using dec_loop_digit [of n rest 0] by (simp add: digits_last)
  next
    case False
    then have "dec_loop (digits 10 n @ rest) 0 = dec_loop (digit_char (n mod 10) # rest) (of_nat (n div 10))"
      using less [of "n div 10"] digits_step [of 10 n] by simp
    also have "\<dots> = dec_loop rest (of_nat n)"
      using dec_loop_digit [of "n mod 10"] of_nat_split [of n 10] by simp
    finally show ?thesis .
  qed
qed

lemma hex_loop_digits: "hex_loop (digits 16 n @ rest) 0 = hex_loop rest (of_nat n)"
proof (induction n arbitrary: rest rule: less_induct)
  case (less n)
  show ?case
  proof (cases "n < 16")
    case True
    then show ?thesis using hex_loop_digit [of n rest 0] by (simp add: digits_last)
  next
    case False
    then have "hex_loop (digits 16 n @ rest) 0 = hex_loop (digit_char (n mod 16) # rest) (of_nat (n div 16))"
      using less [of "n div 16"] digits_step [of 16 n] by simp
    also have "\<dots> = hex_loop rest (of_nat n)"
      using hex_loop_digit [of "n mod 16"] of_nat_split [of n 16] by simp
    finally show ?thesis .
  qed
qed

text \<open>What starts with a digit is no sign, and decimal digits never look like the prefix \<^verbatim>\<open>0x\<close>.\<close>

lemma digit_char_plain:
  "d < 10 \<Longrightarrow> digit_char d \<noteq> 0x2d \<and> digit_char d \<noteq> 0x78 \<and> (digit_char d = 0x30 \<longleftrightarrow> d = 0)"
proof -
  assume "d < 10"
  then have "d \<in> set [0..<10]" by simp
  then show ?thesis by (auto simp: upt_rec digit_char_def)
qed

lemma digits_dec_chars: "\<exists>d ds. digits 10 n = digit_char d # map digit_char ds \<and> d < 10 \<and> (\<forall>x \<in> set ds. x < 10)"
proof (induction n rule: less_induct)
  case (less n)
  show ?case
  proof (cases "n < 10")
    case True
    then show ?thesis by (intro exI [of _ n] exI [of _ "[]"]) (simp add: digits_last)
  next
    case False
    then obtain d ds where "digits 10 (n div 10) = digit_char d # map digit_char ds" "d < 10" "\<forall>x \<in> set ds. x < 10"
      using less [of "n div 10"] by auto
    then show ?thesis
      using False by (intro exI [of _ d] exI [of _ "ds @ [n mod 10]"]) (auto simp: digits_step)
  qed
qed

definition is_end :: "u8 \<Rightarrow> bool" where
  "is_end c \<longleftrightarrow> c = 0 \<or> c = 0x4b \<or> c = 0x4d"

lemma hex_mode_dec:
  assumes "is_end c"
  shows "hex_mode (digits 10 n @ c # rest) = Inr False"
proof -
  obtain d ds where d: "digits 10 n = digit_char d # map digit_char ds" "d < 10" "\<forall>x \<in> set ds. x < 10"
    using digits_dec_chars by blast
  have "c \<noteq> 0x78" using assms by (auto simp: is_end_def)
  moreover have "\<forall>x xs. ds = x # xs \<longrightarrow> digit_char x \<noteq> 0x78" using d(3) digit_char_plain by auto
  ultimately show ?thesis using d(1) by (cases ds) (auto simp: hex_mode_def char_at_def)
qed

lemma loop_end:
  assumes "is_end c"
  shows "dec_loop (c # rest) r = Inr (c # rest, r)" "hex_loop (c # rest) r = Inr (c # rest, r)"
  using assms by (auto simp: is_end_def is_dec_def is_lhex_def)

definition factor :: "u8 \<Rightarrow> u32" where
  "factor c = (if c = 0x4b then 1024 else if c = 0x4d then 1024 * 1024 else 1)"

lemma parseval_plain:
  assumes "is_end c" "s = digits 10 n @ c # rest \<or> s = [0x30, 0x78] @ digits 16 n @ c # rest"
  shows "parseval s = Inr (of_nat n * factor c)" "parseval (0x2d # s) = Inr (- (of_nat n * factor c))"
proof -
  obtain d ds where d: "digits 10 n = digit_char d # map digit_char ds" "d < 10"
    using digits_dec_chars by blast
  obtain a as where s: "s = a # as" "a \<noteq> 0x2d"
    using assms(2) d digit_char_plain [of d] by auto
  have run: "\<exists>h. hex_mode s = Inr h \<and>
      (if h then hex_loop (drop 2 s) 0 else dec_loop s 0) = Inr (c # rest, of_nat n)"
    using assms(2)
  proof
    assume e: "s = digits 10 n @ c # rest"
    then show ?thesis
      using hex_mode_dec [OF assms(1)] dec_loop_digits [of n "c # rest"] loop_end(1) [OF assms(1)] by auto
  next
    assume e: "s = [0x30, 0x78] @ digits 16 n @ c # rest"
    then show ?thesis
      using hex_loop_digits [of n "c # rest"] loop_end(2) [OF assms(1), of rest]
      by (intro exI [of _ True]) (simp add: hex_mode_def char_at_def)
  qed
  then obtain h where h: "hex_mode s = Inr h" "(if h then hex_loop (drop 2 s) 0 else dec_loop s 0) = Inr (c # rest, of_nat n)"
    by blast
  have l: "(if h then hex_loop (if h then drop 2 s else s) 0 else dec_loop (if h then drop 2 s else s) 0)
      = Inr (c # rest, of_nat n)"
    using h(2) by (cases h) simp_all
  have k: "char_at s = Inr a" "char_at (0x2d # s) = Inr 0x2d" "char_at (c # rest) = Inr c"
    using s by (simp_all add: char_at_def)
  show "parseval s = Inr (of_nat n * factor c)" "parseval (0x2d # s) = Inr (- (of_nat n * factor c))"
    using s(2) k h(1) l assms(1) by (auto simp: parseval_def factor_def is_end_def Let_def)
qed

text \<open>
  C38: Reading back a number written in decimal or, in lower case letters, in hexadecimal, with a sign
  if it is negative, gives the number modulo \<open>2 ^ 32\<close>, times 1024 or 1024 squared if the letter \<^verbatim>\<open>K\<close> or
  \<^verbatim>\<open>M\<close> follows.  What comes behind the end of the string is not read.
\<close>

theorem parseval_reads_back:
  assumes "is_end c"
  shows "parseval (show_dec k @ c # rest) = Inr (of_int k * factor c) \<and>
    parseval (show_hex k @ c # rest) = Inr (of_int k * factor c)"
proof (cases "k < 0")
  case True
  have "(of_int k :: u32) = - of_nat (nat \<bar>k\<bar>)" using True by simp
  then show ?thesis
    using True parseval_plain(2) [OF assms, of _ "nat \<bar>k\<bar>" rest] by (simp add: show_dec_def show_hex_def)
next
  case False
  then have "(of_int k :: u32) = of_nat (nat \<bar>k\<bar>)" by simp
  then show ?thesis
    using False parseval_plain(1) [OF assms, of _ "nat \<bar>k\<bar>" rest] by (simp add: show_dec_def show_hex_def)
qed

lemma parseval_reads_back_witness:
  "parseval [0x2d, 0x32, 0x4b, 0] = Inr (- 2048) \<and> parseval [0x2d, 0x30, 0x78, 0x32, 0x4b, 0] = Inr (- 2048)"
  using parseval_reads_back [of "0x4b" "- 2" "[0]"]
  by (simp add: is_end_def factor_def show_dec_def show_hex_def digits_last digit_char_def)

text \<open>No argument, no seed.\<close>

lemma get_seed_args_missing: "length argv \<le> i \<Longrightarrow> get_seed_args i argv = Inr 0"
  by (simp add: get_seed_args_def)

end
