(* ===== verification/CMState.thy ===== *)
theory CMState
  imports CMUtil
begin

text \<open>
  \<^verbatim>\<open>pCPU/coremark/core_state.c\<close>: the scanner that classifies the numbers of a comma separated
  text, the routine that fills the text, and the benchmark that scans, corrupts, scans again and
  repairs it.  The text is the memory block as a list of bytes; an access outside it is the fault
  \<open>BadPointer\<close>, so that a theorem that a routine returns says it stays inside the block.
\<close>

section \<open>States and counters\<close>

datatype CORE_STATE = CORE_START | CORE_INVALID | CORE_S1 | CORE_S2 | CORE_INT | CORE_FLOAT
  | CORE_EXPONENT | CORE_SCIENTIFIC

definition all_states :: "CORE_STATE list" where
  "all_states = [CORE_START, CORE_INVALID, CORE_S1, CORE_S2, CORE_INT, CORE_FLOAT,
     CORE_EXPONENT, CORE_SCIENTIFIC]"

type_synonym counts = "CORE_STATE \<Rightarrow> u32"

definition incr :: "CORE_STATE \<Rightarrow> counts \<Rightarrow> counts" where
  "incr s c = c(s := c s + 1)"

section \<open>The scanner\<close>

text \<open>Characters the code compares with.\<close>

definition ch_comma :: u8 where "ch_comma = 0x2c"
definition ch_plus :: u8 where "ch_plus = 0x2b"
definition ch_minus :: u8 where "ch_minus = 0x2d"
definition ch_dot :: u8 where "ch_dot = 0x2e"
definition ch_0 :: u8 where "ch_0 = 0x30"
definition ch_9 :: u8 where "ch_9 = 0x39"
definition ch_E :: u8 where "ch_E = 0x45"
definition ch_e :: u8 where "ch_e = 0x65"

lemmas ch_defs = ch_comma_def ch_plus_def ch_minus_def ch_dot_def ch_0_def ch_9_def ch_E_def ch_e_def

definition ee_isdigit :: "u8 \<Rightarrow> bool" where
  "ee_isdigit c \<longleftrightarrow> ch_0 \<le> c \<and> c \<le> ch_9"

text \<open>The body of the \<^verbatim>\<open>switch\<close>; in state \<open>CORE_INVALID\<close> the loop has ended.\<close>

definition fsm_step :: "CORE_STATE \<Rightarrow> u8 \<Rightarrow> counts \<Rightarrow> CORE_STATE \<times> counts" where
  "fsm_step state c cnt =
     (case state of
        CORE_START \<Rightarrow>
          (let (state', cnt') =
             (if ee_isdigit c then (CORE_INT, cnt)
              else if c = ch_plus \<or> c = ch_minus then (CORE_S1, cnt)
              else if c = ch_dot then (CORE_FLOAT, cnt)
              else (CORE_INVALID, incr CORE_INVALID cnt))
           in (state', incr CORE_START cnt'))
      | CORE_S1 \<Rightarrow>
          (if ee_isdigit c then (CORE_INT, incr CORE_S1 cnt)
           else if c = ch_dot then (CORE_FLOAT, incr CORE_S1 cnt)
           else (CORE_INVALID, incr CORE_S1 cnt))
      | CORE_INT \<Rightarrow>
          (if c = ch_dot then (CORE_FLOAT, incr CORE_INT cnt)
           else if \<not> ee_isdigit c then (CORE_INVALID, incr CORE_INT cnt)
           else (CORE_INT, cnt))
      | CORE_FLOAT \<Rightarrow>
          (if c = ch_E \<or> c = ch_e then (CORE_S2, incr CORE_FLOAT cnt)
           else if \<not> ee_isdigit c then (CORE_INVALID, incr CORE_FLOAT cnt)
           else (CORE_FLOAT, cnt))
      | CORE_S2 \<Rightarrow>
          (if c = ch_plus \<or> c = ch_minus then (CORE_EXPONENT, incr CORE_S2 cnt)
           else (CORE_INVALID, incr CORE_S2 cnt))
      | CORE_EXPONENT \<Rightarrow>
          (if ee_isdigit c then (CORE_SCIENTIFIC, incr CORE_EXPONENT cnt)
           else (CORE_INVALID, incr CORE_EXPONENT cnt))
      | CORE_SCIENTIFIC \<Rightarrow>
          (if \<not> ee_isdigit c then (CORE_INVALID, incr CORE_INVALID cnt)
           else (CORE_SCIENTIFIC, cnt))
      | CORE_INVALID \<Rightarrow> (state, cnt))"

text \<open>The loop of \<^verbatim>\<open>core_state_transition\<close>, from position \<open>i\<close>.\<close>

function transition_loop :: "u8 list \<Rightarrow> nat \<Rightarrow> CORE_STATE \<Rightarrow> counts \<Rightarrow> kfault + (nat \<times> CORE_STATE \<times> counts)"
where
  "transition_loop m i state cnt =
     (if length m \<le> i then Inl BadPointer
      else if m ! i = 0 \<or> state = CORE_INVALID then Inr (i, state, cnt)
      else if m ! i = ch_comma then Inr (i + 1, state, cnt)
      else (case fsm_step state (m ! i) cnt of (state', cnt') \<Rightarrow> transition_loop m (i + 1) state' cnt'))"
  by pat_completeness auto
termination by (relation "measure (\<lambda>(m, i, _). length m - i)") auto

declare transition_loop.simps [simp del]

definition core_state_transition :: "u8 list \<Rightarrow> nat \<Rightarrow> counts \<Rightarrow> kfault + (nat \<times> CORE_STATE \<times> counts)"
where
  "core_state_transition m i cnt = transition_loop m i CORE_START cnt"

section \<open>The benchmark\<close>

text \<open>
  Both passes over the text: scan tokens until a zero byte.  A scan that starts at a byte that is
  not zero moves the position, so the recursion is on the rest of the block.
\<close>

lemma transition_loop_mono:
  "transition_loop m i state cnt = Inr (j, fs, cnt') \<Longrightarrow> i \<le> j"
  by (induction m i state cnt rule: transition_loop.induct)
    (subst (asm) (2) transition_loop.simps, auto split: if_splits prod.splits)

lemma core_state_transition_moves:
  "core_state_transition m i cnt = Inr (j, fs, cnt') \<Longrightarrow> m ! i \<noteq> 0 \<Longrightarrow> i < j"
  unfolding core_state_transition_def
  by (subst (asm) transition_loop.simps)
    (auto split: if_splits prod.splits dest!: transition_loop_mono)

function scan_all :: "u8 list \<Rightarrow> nat \<Rightarrow> counts \<Rightarrow> counts \<Rightarrow> kfault + (counts \<times> counts)" where
  "scan_all m i final track =
     (if length m \<le> i then Inl BadPointer
      else if m ! i = 0 then Inr (final, track)
      else (case core_state_transition m i track of
              Inl e \<Rightarrow> Inl e
            | Inr (j, fstate, track') \<Rightarrow> scan_all m j (incr fstate final) track'))"
  by pat_completeness auto
termination
  by (relation "measure (\<lambda>(m, i, _). length m - i)") (auto dest!: core_state_transition_moves)

declare scan_all.simps [simp del]

text \<open>
  Both corruption loops: every \<open>step\<close>-th byte up to \<open>blksize\<close> is combined with the seed, except
  a comma.  \<open>step\<close> is a signed 16-bit value added to a pointer; a step of zero never ends, and a
  negative one leaves the block.
\<close>

function corrupt_from :: "nat \<Rightarrow> nat \<Rightarrow> u8 \<Rightarrow> nat \<Rightarrow> u8 list \<Rightarrow> kfault + u8 list" where
  "corrupt_from blksize step seed i m =
     (if blksize \<le> i then Inr m
      else if length m \<le> i then Inl BadPointer
      else let m' = (if m ! i \<noteq> ch_comma then m[i := m ! i XOR seed] else m)
        in if step = 0 then Inl Hang
           else corrupt_from blksize step seed (i + step) m')"
  by pat_completeness auto
termination by (relation "measure (\<lambda>(b, _, _, i, _). b - i)") auto

declare corrupt_from.simps [simp del]

definition corrupt :: "nat \<Rightarrow> u16 \<Rightarrow> u16 \<Rightarrow> u8 list \<Rightarrow> kfault + u8 list" where
  "corrupt blksize seed step m =
     (if sint step < 0 \<and> 0 < blksize then Inl BadPointer
      else corrupt_from blksize (nat (sint step)) (ucast seed) 0 m)"

definition core_bench_state ::
  "nat \<Rightarrow> u8 list \<Rightarrow> u16 \<Rightarrow> u16 \<Rightarrow> u16 \<Rightarrow> u16 \<Rightarrow> kfault + (u16 \<times> u8 list)" where
  "core_bench_state blksize memblock seed1 seed2 step crc =
     bindE (scan_all memblock 0 (\<lambda>_. 0) (\<lambda>_. 0)) (\<lambda>(final_counts, track_counts).
     bindE (corrupt blksize seed1 step memblock) (\<lambda>memblock.
     bindE (scan_all memblock 0 final_counts track_counts) (\<lambda>(final_counts, track_counts).
     bindE (corrupt blksize seed2 step memblock) (\<lambda>memblock.
       Inr (foldl (\<lambda>crc s. crcu32 (track_counts s) (crcu32 (final_counts s) crc)) crc all_states,
            memblock)))))"

section \<open>Filling the text\<close>

definition bytes :: "string \<Rightarrow> u8 list" where
  "bytes s = map of_char s"

definition intpat :: "u8 list list" where
  "intpat = map bytes [''5012'', ''1234'', ''-874'', ''+122'']"

definition floatpat :: "u8 list list" where
  "floatpat = map bytes [''35.54400'', ''.1234500'', ''-110.700'', ''+0.64400'']"

definition scipat :: "u8 list list" where
  "scipat = map bytes [''5.500e+3'', ''-.123e-2'', ''-87e+832'', ''+0.6e-12'']"

definition errpat :: "u8 list list" where
  "errpat = map bytes [''T0.3e-1F'', ''-T.T++Tq'', ''1T3.4e4z'', ''34.0e-T^'']"

text \<open>The \<^verbatim>\<open>switch\<close> on the seed: the pattern and its length.\<close>

definition pick_pattern :: "u16 \<Rightarrow> u8 list \<times> nat" where
  "pick_pattern seed =
     (let k = unat (drop_bit 3 seed AND 3); s = seed AND 7
      in if s = 0 \<or> s = 1 \<or> s = 2 then (intpat ! k, 4)
         else if s = 3 \<or> s = 4 then (floatpat ! k, 8)
         else if s = 5 \<or> s = 6 then (scipat ! k, 8)
         else (errpat ! k, 8))"

text \<open>Stores to consecutive positions; no block is as long as the address space.\<close>

definition put_bytes :: "nat \<Rightarrow> u8 list \<Rightarrow> u8 list \<Rightarrow> kfault + u8 list" where
  "put_bytes at bs m =
     (if at + length bs \<le> length m \<and> length m < 2 ^ 32
      then Inr (take at m @ bs @ drop (at + length bs) m) else Inl BadPointer)"

lemma put_bytes_simps:
  "put_bytes at bs m = Inr m' \<longleftrightarrow> at + length bs \<le> length m \<and> length m < 2 ^ 32 \<and>
     m' = take at m @ bs @ drop (at + length bs) m"
  by (auto simp: put_bytes_def)

lemma put_bytes_length: "put_bytes at bs m = Inr m' \<Longrightarrow> length m' = length m"
  by (auto simp: put_bytes_simps)

lemma pick_pattern_pos: "pick_pattern seed = (buf, n) \<Longrightarrow> 0 < n"
  by (auto simp: pick_pattern_def Let_def split: if_splits)

text \<open>
  The filling loop; \<open>tot\<close>, \<open>next\<close> and \<open>size\<close> are unsigned 32-bit values.  A pattern is stored
  in the round after the one that chose it, if it still fits.
\<close>

function fill_loop :: "nat \<Rightarrow> nat \<Rightarrow> nat \<Rightarrow> u8 list \<Rightarrow> u16 \<Rightarrow> u8 list \<Rightarrow> kfault + (nat \<times> u8 list)" where
  "fill_loop sz tot n buf seed p =
     (if (tot + n + 1) mod 2 ^ 32 < sz then
        case (if 0 < n then put_bytes tot (take n buf @ [ch_comma]) p else Inr p) of
          Inl e \<Rightarrow> Inl e
        | Inr p' \<Rightarrow>
            let tot' = (if 0 < n then tot + n + 1 else tot);
                seed' = seed + 1
            in case pick_pattern seed' of (buf', n') \<Rightarrow> fill_loop sz tot' n' buf' seed' p'
      else Inr (tot, p))"
  by pat_completeness auto

termination
  by (relation "measure (\<lambda>(_, tot, n, _, _, p). 2 * (length p - tot) + (if n = 0 then 1 else 0))")
    (auto simp: put_bytes_simps dest!: pick_pattern_pos [OF sym] split: if_splits)

declare fill_loop.simps [simp del]

definition core_init_state :: "nat \<Rightarrow> u16 \<Rightarrow> u8 list \<Rightarrow> kfault + u8 list" where
  "core_init_state sz seed p =
     bindE (fill_loop ((sz + 2 ^ 32 - 1) mod 2 ^ 32) 0 0 [] seed p) (\<lambda>(tot, p).
       put_bytes tot (replicate (sz - tot) 0) p)"

section \<open>What the scanner recognises\<close>

text \<open>
  The reference: the grammar of the tokens.  An optional sign, digits, a point and digits, an
  exponent letter with a sign and digits; a token that stops early has the state of the part that
  was read, anything else is invalid.
\<close>

definition drop_sign :: "u8 list \<Rightarrow> u8 list" where
  "drop_sign w = (case w of [] \<Rightarrow> [] | c # cs \<Rightarrow> if c = ch_plus \<or> c = ch_minus then cs else w)"

definition classify_exponent :: "u8 list \<Rightarrow> CORE_STATE" where
  "classify_exponent w =
     (case w of
        [] \<Rightarrow> CORE_S2
      | s # ds \<Rightarrow>
          if s \<noteq> ch_plus \<and> s \<noteq> ch_minus then CORE_INVALID
          else if ds = [] then CORE_EXPONENT
          else if list_all ee_isdigit ds then CORE_SCIENTIFIC
          else CORE_INVALID)"

definition classify_fraction :: "u8 list \<Rightarrow> CORE_STATE" where
  "classify_fraction w =
     (case dropWhile ee_isdigit w of
        [] \<Rightarrow> CORE_FLOAT
      | c # cs \<Rightarrow> if c = ch_E \<or> c = ch_e then classify_exponent cs else CORE_INVALID)"

definition classify_number :: "u8 list \<Rightarrow> CORE_STATE" where
  "classify_number w =
     (case dropWhile ee_isdigit w of
        [] \<Rightarrow> CORE_INT
      | c # cs \<Rightarrow> if c = ch_dot then classify_fraction cs else CORE_INVALID)"

definition classify :: "u8 list \<Rightarrow> CORE_STATE" where
  "classify w =
     (if w = [] then CORE_START
      else if drop_sign w = [] then CORE_S1
      else classify_number (drop_sign w))"

fun fsm_run :: "CORE_STATE \<Rightarrow> u8 list \<Rightarrow> CORE_STATE" where
  "fsm_run s [] = s"
| "fsm_run s (c # cs) = fsm_run (fst (fsm_step s c (\<lambda>_. 0))) cs"

lemma fsm_step_counts: "fst (fsm_step s c cnt) = fst (fsm_step s c (\<lambda>_. 0))"
  by (cases s) (simp_all add: fsm_step_def)

lemma fsm_run_invalid [simp]: "fsm_run CORE_INVALID w = CORE_INVALID"
  by (induction w) (simp_all add: fsm_step_def)

lemma isdigit_not [simp]:
  "\<not> ee_isdigit ch_dot" "\<not> ee_isdigit ch_plus" "\<not> ee_isdigit ch_minus"
  "\<not> ee_isdigit ch_E" "\<not> ee_isdigit ch_e" "\<not> ee_isdigit ch_comma" "\<not> ee_isdigit 0"
  by (simp_all add: ee_isdigit_def ch_defs)

lemma ch_distinct [simp]:
  "ch_dot \<noteq> ch_plus" "ch_dot \<noteq> ch_minus" "ch_plus \<noteq> ch_dot" "ch_minus \<noteq> ch_dot"
  by (simp_all add: ch_defs)

lemma fsm_run_scientific:
  "fsm_run CORE_SCIENTIFIC w = (if list_all ee_isdigit w then CORE_SCIENTIFIC else CORE_INVALID)"
  by (induction w) (simp_all add: fsm_step_def)

lemma fsm_run_S2: "fsm_run CORE_S2 w = classify_exponent w"
proof (cases w)
  case (Cons s ds)
  then show ?thesis
    by (cases ds) (simp_all add: classify_exponent_def fsm_step_def fsm_run_scientific)
qed (simp add: classify_exponent_def)

lemma fsm_run_float: "fsm_run CORE_FLOAT w = classify_fraction w"
  by (induction w) (auto simp: classify_fraction_def fsm_step_def fsm_run_S2)

lemma fsm_run_int: "fsm_run CORE_INT w = classify_number w"
  by (induction w) (auto simp: classify_number_def fsm_step_def fsm_run_float)

lemma fsm_run_S1:
  "w \<noteq> [] \<Longrightarrow> fsm_run CORE_S1 w = classify_number w"
  by (cases w) (auto simp: fsm_step_def fsm_run_int fsm_run_float classify_number_def)

lemma fsm_run_start: "fsm_run CORE_START w = classify w"
proof (cases w)
  case (Cons c cs)
  have "fsm_run CORE_START w = classify_number w" if "c \<noteq> ch_plus" "c \<noteq> ch_minus"
    using that Cons
    by (auto simp: fsm_step_def fsm_run_int fsm_run_float classify_number_def)
  moreover have "fsm_run CORE_START w = fsm_run CORE_S1 cs" if "c = ch_plus \<or> c = ch_minus"
    using that Cons by (auto simp: fsm_step_def)
  ultimately show ?thesis
    using Cons by (auto simp: classify_def drop_sign_def fsm_run_S1)
qed (simp add: classify_def)

lemma transition_loop_token:
  assumes "0 \<notin> set w" "ch_comma \<notin> set w" "t = 0 \<or> t = ch_comma"
  shows "\<exists>j cnt'. transition_loop (pre @ w @ t # post) (length pre) s cnt = Inr (j, fsm_run s w, cnt') \<and>
    j \<le> length pre + length w + of_bool (t = ch_comma) \<and>
    (fsm_run s w \<noteq> CORE_INVALID \<longrightarrow> j = length pre + length w + of_bool (t = ch_comma))"
  using assms
proof (induction w arbitrary: pre s cnt)
  case Nil
  then show ?case
    by (subst transition_loop.simps) (auto simp: ch_defs)
next
  case (Cons c cs)
  show ?case
  proof (cases "s = CORE_INVALID")
    case True
    then show ?thesis by (subst transition_loop.simps) (simp del: fsm_run.simps)
  next
    case False
    obtain s' cnt' where step: "fsm_step s c cnt = (s', cnt')" by fastforce
    then have s': "s' = fst (fsm_step s c (\<lambda>_. 0))" using fsm_step_counts [of s c cnt] by simp
    have "transition_loop (pre @ (c # cs) @ t # post) (length pre) s cnt
        = transition_loop ((pre @ [c]) @ cs @ t # post) (length (pre @ [c])) s' cnt'"
      using Cons.prems False step by (subst transition_loop.simps) auto
    then show ?thesis
      using Cons.IH [of "pre @ [c]" s' cnt'] Cons.prems by (simp add: s')
  qed
qed

text \<open>
  C10: On a token of the text (bytes up to the next comma or zero byte) the scanner ends in the
  state the grammar of numbers gives the token, whatever surrounds it, and it never runs past
  the terminator; unless the token is invalid, it stops exactly behind the comma, or at the zero.
\<close>

theorem core_state_transition_classifies:
  assumes "0 \<notin> set w" "ch_comma \<notin> set w" "t = 0 \<or> t = ch_comma"
  shows "\<exists>j cnt'. core_state_transition (pre @ w @ t # post) (length pre) cnt = Inr (j, classify w, cnt') \<and>
    j \<le> length pre + length w + of_bool (t = ch_comma) \<and>
    (classify w \<noteq> CORE_INVALID \<longrightarrow> j = length pre + length w + of_bool (t = ch_comma))"
  using transition_loop_token [OF assms, where s = CORE_START]
  by (simp add: core_state_transition_def fsm_run_start)

lemma core_state_transition_classifies_witness:
  "\<exists>j cnt'. core_state_transition (bytes ''5,'' @ bytes ''-.5e+3'' @ ch_comma # [0]) 2 (\<lambda>_. 0)
      = Inr (j, CORE_SCIENTIFIC, cnt') \<and> j = 9"
proof -
  have c: "classify (bytes ''-.5e+3'') = CORE_SCIENTIFIC" by code_simp
  have "0 \<notin> set (bytes ''-.5e+3'')" "ch_comma \<notin> set (bytes ''-.5e+3'')"
    "length (bytes ''5,'') = 2" "length (bytes ''-.5e+3'') = 6"
    by (simp_all add: bytes_def ch_defs)
  with core_state_transition_classifies [of "bytes ''-.5e+3''" ch_comma "bytes ''5,''" "[0]" "\<lambda>_. 0"] c
  show ?thesis by auto
qed

section \<open>Staying inside the block\<close>

lemma transition_loop_stops:
  "i \<le> z \<Longrightarrow> z < length m \<Longrightarrow> m ! z = 0 \<Longrightarrow>
     \<exists>j fs cnt'. transition_loop m i s cnt = Inr (j, fs, cnt') \<and> j \<le> z"
proof (induction m i s cnt rule: transition_loop.induct)
  case (1 m i s cnt)
  show ?case
  proof (cases "m ! i = 0 \<or> s = CORE_INVALID \<or> m ! i = ch_comma")
    case True
    then show ?thesis
      using 1 by (subst transition_loop.simps) (auto simp: ch_defs Suc_le_eq intro: le_neq_trans)
  next
    case False
    obtain s' cnt' where step: "fsm_step s (m ! i) cnt = (s', cnt')" by fastforce
    from False 1 have "i + 1 \<le> z" by (cases "i = z") auto
    then have "\<exists>j fs cnt''. transition_loop m (i + 1) s' cnt' = Inr (j, fs, cnt'') \<and> j \<le> z"
      using 1 False step by simp
    then show ?thesis
      using False 1 step by (subst transition_loop.simps) auto
  qed
qed

lemma scan_all_stops:
  "i \<le> z \<Longrightarrow> z < length m \<Longrightarrow> m ! z = 0 \<Longrightarrow> \<exists>f t. scan_all m i final track = Inr (f, t)"
proof (induction m i final track rule: scan_all.induct)
  case (1 m i final track)
  show ?case
  proof (cases "m ! i = 0")
    case True
    then show ?thesis using 1 by (subst scan_all.simps) simp
  next
    case False
    obtain j fs t' where j: "core_state_transition m i track = Inr (j, fs, t')" "j \<le> z"
      using transition_loop_stops [of i z m CORE_START track] 1 by (auto simp: core_state_transition_def)
    then have "\<exists>f t. scan_all m j (incr fs final) t' = Inr (f, t)"
      using 1 False by auto
    then show ?thesis using j False 1 by (subst scan_all.simps) auto
  qed
qed

section \<open>Corruption and its repair\<close>

definition corrupted :: "nat \<Rightarrow> nat \<Rightarrow> u8 \<Rightarrow> u8 list \<Rightarrow> nat \<Rightarrow> u8" where
  "corrupted blksize step seed m k =
     (if k < blksize \<and> step dvd k \<and> m ! k \<noteq> ch_comma then m ! k XOR seed else m ! k)"

lemma corrupt_from_nth:
  assumes "0 < step" "blksize \<le> length m"
  shows "\<exists>m'. corrupt_from blksize step seed i m = Inr m' \<and> length m' = length m \<and>
    (\<forall>k < length m. m' ! k =
      (if i \<le> k \<and> k < blksize \<and> step dvd (k - i) \<and> m ! k \<noteq> ch_comma then m ! k XOR seed else m ! k))"
  using assms
proof (induction blksize step seed i m rule: corrupt_from.induct)
  case (1 blksize step seed i m)
  show ?case
  proof (cases "blksize \<le> i")
    case True
    then show ?thesis by (subst corrupt_from.simps) auto
  next
    case False
    let ?m = "if m ! i \<noteq> ch_comma then m[i := m ! i XOR seed] else m"
    have inside: "\<not> length m \<le> i" and len: "length ?m = length m" using False "1.prems" by auto
    obtain m' where m': "corrupt_from blksize step seed (i + step) ?m = Inr m'" "length m' = length m"
      "\<forall>k < length m. m' ! k =
        (if i + step \<le> k \<and> k < blksize \<and> step dvd (k - (i + step)) \<and> ?m ! k \<noteq> ch_comma
         then ?m ! k XOR seed else ?m ! k)"
      using "1.IH" [OF False inside refl] "1.prems" len by auto
    have "step dvd (k - i) \<longleftrightarrow> k = i \<or> step dvd (k - (i + step)) \<and> i + step \<le> k" if "i \<le> k" for k
    proof (cases "i + step \<le> k")
      case True
      have "k - (i + step) = k - i - step" by simp
      then show ?thesis using True "1.prems"(1) dvd_minus_self [of step "k - i"] by auto
    next
      case False
      then show ?thesis using that "1.prems"(1) nat_dvd_not_less [of "k - i" step]
        by (cases "k = i") auto
    qed
    moreover have "corrupt_from blksize step seed i m = Inr m'"
      using m'(1) False 1 by (subst corrupt_from.simps) simp
    ultimately show ?thesis
      using m'(2,3) False "1.prems" by (auto simp: nth_list_update)
  qed
qed

lemma corrupt_nth:
  assumes "0 < sint step" "blksize \<le> length m"
  shows "\<exists>m'. corrupt blksize seed step m = Inr m' \<and> length m' = length m \<and>
    (\<forall>k < length m. m' ! k = corrupted blksize (nat (sint step)) (ucast seed) m k)"
  using corrupt_from_nth [of "nat (sint step)" blksize m "ucast seed" 0] assms
  by (simp add: corrupt_def corrupted_def)

lemma core_bench_state_total:
  assumes "0 < sint step" "blksize \<le> length m" "z < length m" "m ! z = 0" "\<not> nat (sint step) dvd z"
  shows "\<exists>crc' m'. core_bench_state blksize m seed1 seed2 step crc = Inr (crc', m') \<and>
    length m' = length m \<and> m' ! z = 0"
proof -
  obtain m1 where m1: "corrupt blksize seed1 step m = Inr m1" "length m1 = length m" "m1 ! z = 0"
    using corrupt_nth [of step blksize m seed1] assms by (auto simp: corrupted_def)
  obtain m2 where m2: "corrupt blksize seed2 step m1 = Inr m2" "length m2 = length m" "m2 ! z = 0"
    using corrupt_nth [of step blksize m1 seed2] assms m1 by (auto simp: corrupted_def)
  obtain f t where s1: "scan_all m 0 (\<lambda>_. 0) (\<lambda>_. 0) = Inr (f, t)"
    using scan_all_stops [of 0 z m] assms by blast
  obtain f' t' where s2: "scan_all m1 0 f t = Inr (f', t')"
    using scan_all_stops [of 0 z m1] assms m1 by fastforce
  show ?thesis by (simp add: core_bench_state_def s1 s2 m1 m2)
qed

text \<open>
  C34: The benchmark reads and writes inside its block and ends, for any seeds: it is enough that
  some byte the step does not reach is zero.  That byte is still zero afterwards, so the next run
  is safe too.
\<close>

theorem core_bench_state_safe:
  assumes "0 < sint step" "blksize \<le> length m" "z < length m" "m ! z = 0" "\<not> nat (sint step) dvd z"
  shows "\<exists>crc' m'. core_bench_state blksize m seed1 seed2 step crc = Inr (crc', m') \<and>
    length m' = length m \<and> m' ! z = 0"
  by (rule core_bench_state_total [OF assms])

lemma corrupt_twice:
  assumes "0 < sint step" "blksize \<le> length m" "(ucast seed1 :: u8) = ucast seed2"
    "\<forall>k < blksize. nat (sint step) dvd k \<longrightarrow> m ! k \<noteq> ch_comma \<longrightarrow> m ! k XOR ucast seed1 \<noteq> ch_comma"
    "corrupt blksize seed1 step m = Inr m1"
  shows "corrupt blksize seed2 step m1 = Inr m"
proof -
  have m1: "length m1 = length m"
    "\<forall>k < length m. m1 ! k = corrupted blksize (nat (sint step)) (ucast seed1) m k"
    using corrupt_nth [of step blksize m seed1] assms(1,2,5) by auto
  obtain m2 where m2: "corrupt blksize seed2 step m1 = Inr m2" "length m2 = length m1"
    "\<forall>k < length m1. m2 ! k = corrupted blksize (nat (sint step)) (ucast seed2) m1 k"
    using corrupt_nth [of step blksize m1 seed2] assms(1,2) m1(1) by auto
  have "m2 = m"
  proof (rule nth_equalityI)
    show "length m2 = length m" using m1 m2 by simp
    show "m2 ! k = m ! k" if "k < length m2" for k
      using that m1 m2 assms(3,4) by (auto simp: corrupted_def xor.assoc)
  qed
  with m2 show ?thesis by simp
qed

lemma core_bench_state_repairs:
  assumes "0 < sint step" "blksize \<le> length m" "z < length m" "m ! z = 0" "\<not> nat (sint step) dvd z"
    "(ucast seed1 :: u8) = ucast seed2"
    "\<forall>k < blksize. nat (sint step) dvd k \<longrightarrow> m ! k \<noteq> ch_comma \<longrightarrow> m ! k XOR ucast seed1 \<noteq> ch_comma"
  shows "\<exists>crc'. core_bench_state blksize m seed1 seed2 step crc = Inr (crc', m)"
proof -
  obtain crc' m' where run: "core_bench_state blksize m seed1 seed2 step crc = Inr (crc', m')"
    using core_bench_state_total [OF assms(1-5)] by blast
  obtain m1 where m1: "corrupt blksize seed1 step m = Inr m1"
    using corrupt_nth [of step blksize m seed1] assms by auto
  from run m1 corrupt_twice [OF assms(1,2,6,7) m1] have "m' = m"
    by (auto simp: core_bench_state_def bindE_Inr_iff)
  with run show ?thesis by blast
qed

lemma core_bench_state_safe_witness:
  "\<exists>crc' m'. core_bench_state 4 [ch_9, ch_comma, 0, 0] 3 5 2 0 = Inr (crc', m') \<and>
    length m' = 4 \<and> m' ! 3 = 0"
proof -
  obtain crc' m' where "core_bench_state 4 [ch_9, ch_comma, 0, 0] 3 5 2 0 = Inr (crc', m')"
    "length m' = 4" "m' ! 3 = 0"
    using core_bench_state_safe [of 2 4 "[ch_9, ch_comma, 0, 0]" 3 3 5 0] by auto
  then show ?thesis by blast
qed

section \<open>The initial text\<close>

definition patterns :: "u8 list list" where
  "patterns = intpat @ floatpat @ scipat @ errpat"

definition text_of :: "u8 list list \<Rightarrow> u8 list" where
  "text_of toks = concat (map (\<lambda>t. t @ [ch_comma]) toks)"

lemma pick_pattern_in:
  assumes "pick_pattern seed = (buf, n)"
  shows "buf \<in> set patterns \<and> length buf = n \<and> n \<le> 8"
proof -
  have "drop_bit 3 seed AND 3 \<le> 3" by (rule word_and_le1)
  then have "unat (drop_bit 3 seed AND 3) \<le> unat (3 :: u16)" by (simp only: word_le_nat_alt)
  then have "unat (drop_bit 3 seed AND 3) \<in> set [0..<4]" by simp
  then show ?thesis
    using assms
    by (auto simp: pick_pattern_def Let_def patterns_def intpat_def floatpat_def scipat_def errpat_def
        upt_rec bytes_def split: if_splits)
qed

lemma text_of_Nil [simp]: "text_of [] = []"
  by (simp add: text_of_def)

lemma text_of_snoc: "text_of (toks @ [t]) = text_of toks @ t @ [ch_comma]"
  by (simp add: text_of_def)

lemma fill_loop_text:
  assumes "sz \<le> length p" "length p < 2 ^ 32 - 16" "tot \<le> sz - 1" "n = length buf" "n \<le> 8" "0 < sz"
    "tot = length (text_of toks)" "take tot p = text_of toks" "set toks \<subseteq> set patterns"
    "n = 0 \<or> buf \<in> set patterns"
  shows "\<exists>tot' p' toks'. fill_loop sz tot n buf seed p = Inr (tot', p') \<and> length p' = length p \<and>
    tot \<le> tot' \<and> tot' \<le> sz - 1 \<and> tot' = length (text_of toks') \<and> p' = text_of toks' @ drop tot' p \<and>
    set toks' \<subseteq> set patterns"
  using assms
proof (induction sz tot n buf seed p arbitrary: toks rule: fill_loop.induct)
  case (1 sz tot n buf seed p)
  obtain buf' n' where pick: "pick_pattern (seed + 1) = (buf', n')" by fastforce
  note pk = pick_pattern_in [OF pick]
  show ?case
  proof (cases "(tot + n + 1) mod 2 ^ 32 < sz")
    case False
    then have "fill_loop sz tot n buf seed p = Inr (tot, p)" by (subst fill_loop.simps) simp
    moreover have "p = text_of toks @ drop tot p"
      using append_take_drop_id [of tot p] "1.prems" by metis
    ultimately show ?thesis using "1.prems" by blast
  next
    case True
    then have lt: "tot + n + 1 < sz" using "1.prems" by simp
    show ?thesis
    proof (cases "n = 0")
      case True
      have "fill_loop sz tot n buf seed p = fill_loop sz tot n' buf' (seed + 1) p"
        using True lt "1.prems" pick by (subst fill_loop.simps) simp
      moreover have "\<exists>tot' p' toks'. fill_loop sz tot n' buf' (seed + 1) p = Inr (tot', p') \<and>
        length p' = length p \<and> tot \<le> tot' \<and> tot' \<le> sz - 1 \<and> tot' = length (text_of toks') \<and>
        p' = text_of toks' @ drop tot' p \<and> set toks' \<subseteq> set patterns"
        using "1.prems" pick pk lt True
        by (intro "1.IH" [of p tot "seed + 1" buf' n' toks]) auto
      ultimately show ?thesis by simp
    next
      case False
      let ?p = "take tot p @ (buf @ [ch_comma]) @ drop (tot + n + 1) p"
      have put: "put_bytes tot (take n buf @ [ch_comma]) p = Inr ?p"
        using lt "1.prems" by (simp add: put_bytes_def)
      have step: "fill_loop sz tot n buf seed p = fill_loop sz (tot + n + 1) n' buf' (seed + 1) ?p"
        using False lt "1.prems" pick put by (subst fill_loop.simps) simp
      have len: "length ?p = length p" using put_bytes_length [OF put] .
      have "\<exists>tot' p' toks'. fill_loop sz (tot + n + 1) n' buf' (seed + 1) ?p = Inr (tot', p') \<and>
        length p' = length ?p \<and> tot + n + 1 \<le> tot' \<and> tot' \<le> sz - 1 \<and> tot' = length (text_of toks') \<and>
        p' = text_of toks' @ drop tot' ?p \<and> set toks' \<subseteq> set patterns"
        using "1.prems" pick pk lt False put len
        by (intro "1.IH" [of ?p "tot + n + 1" "seed + 1" buf' n' "toks @ [buf]"])
          (auto simp: text_of_snoc)
      then obtain tot' p' toks' where r: "fill_loop sz (tot + n + 1) n' buf' (seed + 1) ?p = Inr (tot', p')"
        "length p' = length ?p" "tot + n + 1 \<le> tot'" "tot' \<le> sz - 1" "tot' = length (text_of toks')"
        "p' = text_of toks' @ drop tot' ?p" "set toks' \<subseteq> set patterns" by blast
      have "drop tot' ?p = drop tot' p"
        using r(3) lt "1.prems" by (simp add: drop_Cons' min_def)
      with r step len show ?thesis by auto
    qed
  qed
qed

lemma core_init_state_fills:
  assumes "0 < sz" "sz \<le> length p" "length p < 2 ^ 32 - 16"
  shows "\<exists>toks. core_init_state sz seed p =
      Inr (text_of toks @ replicate (sz - length (text_of toks)) 0 @ drop sz p) \<and>
    set toks \<subseteq> set patterns \<and> (length (text_of toks) = 0 \<or> length (text_of toks) + 2 \<le> sz)"
proof -
  have m: "(sz + 2 ^ 32 - 1) mod 2 ^ 32 = sz - 1"
  proof -
    have "sz + 2 ^ 32 - 1 = (sz - 1) + 2 ^ 32" using assms by simp
    then have "(sz + 2 ^ 32 - 1) mod 2 ^ 32 = ((sz - 1) + 2 ^ 32) mod 2 ^ 32" by (simp only:)
    also have "\<dots> = (sz - 1) mod 2 ^ 32" by (rule mod_add_self2)
    also have "\<dots> = sz - 1" using assms by (intro mod_less) simp
    finally show ?thesis .
  qed
  show ?thesis
  proof (cases "sz = 1")
    case True
    then have "fill_loop 0 0 0 [] seed p = Inr (0, p)" by (subst fill_loop.simps) simp
    then show ?thesis
      using True m assms
      by (intro exI [of _ "[]"]) (auto simp: core_init_state_def put_bytes_def text_of_def)
  next
    case False
    then have "sz - 1 \<le> length p" "0 < sz - 1" using assms by auto
    then obtain tot p' toks where r: "fill_loop (sz - 1) 0 0 [] seed p = Inr (tot, p')"
      "length p' = length p" "tot \<le> sz - 1 - 1" "tot = length (text_of toks)"
      "p' = text_of toks @ drop tot p" "set toks \<subseteq> set patterns"
      using fill_loop_text [of "sz - 1" p 0 0 "[]" "[]" seed] assms(3) by auto
    then show ?thesis
      using m assms False
      by (intro exI [of _ toks]) (auto simp: core_init_state_def put_bytes_def)
  qed
qed

text \<open>
  For every size of at least one byte and every seed, filling the block succeeds inside it
  and leaves a sequence of tokens of the pattern tables, each followed by a comma, and then zero
  bytes up to the size: at least two if the size is at least two.  What follows the size is
  untouched.
\<close>

theorem core_init_state_text:
  assumes "0 < sz" "sz \<le> length p" "length p < 2 ^ 32 - 16"
  shows "\<exists>toks. core_init_state sz seed p =
      Inr (text_of toks @ replicate (sz - length (text_of toks)) 0 @ drop sz p) \<and>
    set toks \<subseteq> set patterns \<and> (length (text_of toks) = 0 \<or> length (text_of toks) + 2 \<le> sz)"
  by (rule core_init_state_fills [OF assms])

lemma core_init_state_text_witness:
  "\<exists>toks. core_init_state 20 5 (replicate 30 7) =
      Inr (text_of toks @ replicate (20 - length (text_of toks)) 0 @ drop 20 (replicate 30 7)) \<and>
    set toks \<subseteq> set patterns \<and> (length (text_of toks) = 0 \<or> length (text_of toks) + 2 \<le> 20)"
  by (rule core_init_state_text) simp_all

text \<open>The bytes of the patterns, and the seeds of the three run types, which spare the comma.\<close>

definition pattern_bytes :: "u8 list" where
  "pattern_bytes = remdups (concat patterns)"

lemma text_of_bytes: "set toks \<subseteq> set patterns \<Longrightarrow> set (text_of toks) \<subseteq> insert ch_comma (set pattern_bytes)"
  by (auto simp: text_of_def pattern_bytes_def)

definition repairing_seed :: "u16 \<Rightarrow> bool" where
  "repairing_seed seed \<longleftrightarrow>
     list_all (\<lambda>b. b \<noteq> ch_comma \<longrightarrow> b XOR ucast seed \<noteq> ch_comma) (0 # pattern_bytes)"

lemma run_seeds_repair:
  "repairing_seed 0" "repairing_seed 0x3415" "repairing_seed 8"
  by (code_simp+)

definition safe_text :: "u16 \<Rightarrow> nat \<Rightarrow> u8 list \<Rightarrow> bool" where
  "safe_text seed blksize m \<longleftrightarrow> 2 \<le> blksize \<and> blksize \<le> length m \<and>
     m ! (blksize - 1) = 0 \<and> m ! (blksize - 2) = 0 \<and>
     (\<forall>k < blksize. m ! k \<noteq> ch_comma \<longrightarrow> m ! k XOR ucast seed \<noteq> ch_comma)"

lemma init_safe_text:
  assumes "2 \<le> sz" "sz \<le> length p" "length p < 2 ^ 32 - 16" "repairing_seed seed"
    "core_init_state sz s p = Inr m"
  shows "safe_text seed sz m"
proof -
  obtain toks where m: "m = text_of toks @ replicate (sz - length (text_of toks)) 0 @ drop sz p"
    and t: "set toks \<subseteq> set patterns" "length (text_of toks) = 0 \<or> length (text_of toks) + 2 \<le> sz"
    using core_init_state_fills [of sz p s] assms by auto
  have zero: "m ! k = 0" if "length (text_of toks) \<le> k" "k < sz" for k
  proof -
    have "k - length (text_of toks) < sz - length (text_of toks)" using that by simp
    then show ?thesis using that by (simp add: m nth_append)
  qed
  have "m ! k \<in> insert ch_comma (set (0 # pattern_bytes))" if "k < sz" for k
  proof (cases "k < length (text_of toks)")
    case True
    then have "text_of toks ! k \<in> set (text_of toks)" by (rule nth_mem)
    then have "text_of toks ! k \<in> insert ch_comma (set pattern_bytes)"
      using text_of_bytes [OF t(1)] by blast
    then show ?thesis using True by (auto simp: m nth_append)
  qed (use that zero in simp)
  then have "m ! k \<noteq> ch_comma \<longrightarrow> m ! k XOR ucast seed \<noteq> ch_comma" if "k < sz" for k
    using that assms(4) unfolding repairing_seed_def list_all_iff by blast
  moreover have "length (text_of toks) + 2 \<le> sz" using t(2) assms(1) by auto
  moreover have "sz \<le> length m" using m assms(2) t(2) by auto
  ultimately show ?thesis
    using assms(1) zero [of "sz - 1"] zero [of "sz - 2"] unfolding safe_text_def by auto
qed

lemma safe_text_zero:
  assumes "safe_text seed blksize m" "2 \<le> step"
  shows "\<exists>z < blksize. m ! z = 0 \<and> \<not> step dvd z"
proof (cases "step dvd (blksize - 1)")
  case True
  have "\<not> step dvd (blksize - 2)"
  proof
    assume "step dvd (blksize - 2)"
    then have "step dvd ((blksize - 1) - (blksize - 2))" by (rule dvd_diff_nat [OF True])
    then show False using assms by (simp add: safe_text_def)
  qed
  then show ?thesis using assms by (intro exI [of _ "blksize - 2"]) (auto simp: safe_text_def)
next
  case False
  then show ?thesis using assms by (intro exI [of _ "blksize - 1"]) (auto simp: safe_text_def)
qed

text \<open>
  C22: After the benchmark has scanned, corrupted, scanned again and repaired the text it was
  given by \<^verbatim>\<open>core_init_state\<close>, the text is what it was, byte for byte, if both seeds are equal and
  none of the pattern bytes combined with the seed is a comma; it always finishes inside the
  block.  The seeds 0, 0x3415 and 8 of the three run types satisfy the condition
  (lemma \<open>run_seeds_repair\<close>).
\<close>

theorem core_bench_state_restores:
  assumes "core_init_state blksize s p = Inr m" "2 \<le> blksize" "blksize \<le> length p"
    "length p < 2 ^ 32 - 16" "repairing_seed seed" "2 \<le> sint step"
  shows "\<exists>crc'. core_bench_state blksize m seed seed step crc = Inr (crc', m)"
proof -
  have safe: "safe_text seed blksize m" by (rule init_safe_text) (use assms in auto)
  then obtain z where "z < blksize" "m ! z = 0" "\<not> nat (sint step) dvd z"
    using safe_text_zero [of seed blksize m "nat (sint step)"] assms by (auto simp: nat_le_iff le_nat_iff)
  then show ?thesis
    using safe assms(6) by (intro core_bench_state_repairs [of _ _ _ z]) (auto simp: safe_text_def)
qed

definition text64 :: "u8 list" where
  "text64 = (case core_init_state 64 0 (replicate 64 0) of Inr m \<Rightarrow> m | Inl _ \<Rightarrow> [])"

lemma text64_init: "core_init_state 64 0 (replicate 64 0) = Inr text64"
  using core_init_state_fills [of 64 "replicate 64 0" 0] by (auto simp: text64_def)

lemma core_bench_state_restores_witness:
  "\<exists>crc'. core_bench_state 64 text64 0x3415 0x3415 0x22 0 = Inr (crc', text64)"
  by (rule core_bench_state_restores [OF text64_init]) (simp_all add: run_seeds_repair)

text \<open>
  The comment of the second corruption loop promises that it undoes the first if the seeds
  are equal.  It does not when a byte combined with the seed gives a comma, because commas are
  skipped: with seed 0x1e the digit 2 stays a comma.
\<close>

theorem core_bench_state_not_undone:
  "\<exists>crc'. core_bench_state 4 [0x32, 0, 0, 0] 0x1e 0x1e 4 0 = Inr (crc', [ch_comma, 0, 0, 0])"
proof -
  let ?m = "[0x32, 0, 0, 0] :: u8 list"
  obtain crc' m' where run: "core_bench_state 4 ?m 0x1e 0x1e 4 0 = Inr (crc', m')"
    using core_bench_state_total [of 4 4 ?m 3 "0x1e" "0x1e" 0] by auto
  have "corrupt 4 0x1e 4 ?m = Inr [ch_comma, 0, 0, 0]"
    "corrupt 4 0x1e 4 [ch_comma, 0, 0, 0] = Inr [ch_comma, 0, 0, 0]"
    by (simp_all add: corrupt_def corrupt_from.simps ch_defs)
  with run show ?thesis by (auto simp: core_bench_state_def bindE_Inr_iff)
qed

text \<open>
  The tables of \<^verbatim>\<open>core_state.c\<close>, classified: each pattern is what its table says, except that
  \<open>-87e+832\<close>, listed as scientific, is invalid for the scanner, which wants a point before the
  exponent.
\<close>

theorem pattern_classes:
  "map classify intpat = replicate 4 CORE_INT \<and>
   map classify floatpat = replicate 4 CORE_FLOAT \<and>
   map classify scipat = [CORE_SCIENTIFIC, CORE_SCIENTIFIC, CORE_INVALID, CORE_SCIENTIFIC] \<and>
   map classify errpat = replicate 4 CORE_INVALID"
  by code_simp

end
