(* ===== verification/CMMatrix.thy ===== *)
theory CMMatrix
  imports CMUtil
begin

text \<open>
  \<^verbatim>\<open>pCPU/coremark/core_matrix.c\<close>: the matrix operations, the test that runs them all and the
  initialisation.  Elements of \<open>A\<close> and \<open>B\<close> (\<^verbatim>\<open>MATDAT\<close>) are 16-bit words, those of the result \<open>C\<close>
  (\<^verbatim>\<open>MATRES\<close>) 32-bit words, both signed; sums and products wrap as the compiled code does.  A
  matrix is the list of its rows one after the other, an access behind its end is \<open>BadPointer\<close>.
  That the three matrices do not overlap is proved of the addresses the initialisation chooses.
\<close>

section \<open>Array accesses and counting loops\<close>

definition rd :: "'a list \<Rightarrow> nat \<Rightarrow> kfault + 'a" where
  "rd xs i = (if i < length xs then Inr (xs ! i) else Inl BadPointer)"

definition wr :: "'a list \<Rightarrow> nat \<Rightarrow> 'a \<Rightarrow> kfault + 'a list" where
  "wr xs i v = (if i < length xs then Inr (xs[i := v]) else Inl BadPointer)"

text \<open>\<^verbatim>\<open>for (k = a; k < b; k++)\<close> with a body that may stop.\<close>

function for_loop :: "nat \<Rightarrow> nat \<Rightarrow> (nat \<Rightarrow> 's \<Rightarrow> kfault + 's) \<Rightarrow> 's \<Rightarrow> kfault + 's" where
  "for_loop a b body s = (if a < b then bindE (body a s) (for_loop (a + 1) b body) else Inr s)"
  by pat_completeness auto
termination by (relation "measure (\<lambda>(a, b, _). b - a)") auto

declare for_loop.simps [simp del]

text \<open>The rule of such a loop: an invariant that every round keeps holds at the end.\<close>

lemma for_loop_invariant:
  assumes "I a s" "a \<le> b"
    "\<And>k s. a \<le> k \<Longrightarrow> k < b \<Longrightarrow> I k s \<Longrightarrow> \<exists>s'. body k s = Inr s' \<and> I (k + 1) s'"
  shows "\<exists>s'. for_loop a b body s = Inr s' \<and> I b s'"
  using assms
proof (induction "b - a" arbitrary: a s)
  case 0
  then show ?case by (subst for_loop.simps) auto
next
  case (Suc n)
  then obtain s' where s': "body a s = Inr s'" "I (a + 1) s'" by fastforce
  then have "\<exists>s''. for_loop (a + 1) b body s' = Inr s'' \<and> I b s''"
    using Suc by (intro Suc.hyps(1)) auto
  then show ?case
    using Suc.hyps(2) s' by (subst for_loop.simps) auto
qed

lemma rd_in [simp]: "i < length xs \<Longrightarrow> rd xs i = Inr (xs ! i)"
  by (simp add: rd_def)

lemma wr_in [simp]: "i < length xs \<Longrightarrow> wr xs i v = Inr (xs[i := v])"
  by (simp add: wr_def)

section \<open>Operations\<close>

definition sx :: "u16 \<Rightarrow> u32" where
  "sx v = scast v"

definition matrix_big :: "u16 \<Rightarrow> u16" where
  "matrix_big x = 0xf000 OR x"

definition matrix_clip :: "u16 \<Rightarrow> bool \<Rightarrow> u16" where
  "matrix_clip x y = (if y then x AND 0x0ff else x AND 0xffff)"

definition bit_extract :: "u32 \<Rightarrow> nat \<Rightarrow> nat \<Rightarrow> u32" where
  "bit_extract x f t = signed_drop_bit f x AND NOT (push_bit t 0xffffffff)"

definition matrix_mul_const :: "nat \<Rightarrow> u32 list \<Rightarrow> u16 list \<Rightarrow> u16 \<Rightarrow> kfault + u32 list" where
  "matrix_mul_const N C A val =
     for_loop 0 N (\<lambda>i. for_loop 0 N (\<lambda>j C.
       bindE (rd A (i * N + j)) (\<lambda>a. wr C (i * N + j) (sx a * sx val)))) C"

definition matrix_add_const :: "nat \<Rightarrow> u16 list \<Rightarrow> u16 \<Rightarrow> kfault + u16 list" where
  "matrix_add_const N A val =
     for_loop 0 N (\<lambda>i. for_loop 0 N (\<lambda>j A.
       bindE (rd A (i * N + j)) (\<lambda>a. wr A (i * N + j) (a + val)))) A"

definition matrix_mul_vect :: "nat \<Rightarrow> u32 list \<Rightarrow> u16 list \<Rightarrow> u16 list \<Rightarrow> kfault + u32 list" where
  "matrix_mul_vect N C A B =
     for_loop 0 N (\<lambda>i C.
       bindE (wr C i 0) (for_loop 0 N (\<lambda>j C.
         bindE (rd A (i * N + j)) (\<lambda>a. bindE (rd B j) (\<lambda>b. bindE (rd C i) (\<lambda>c.
           wr C i (c + sx a * sx b))))))) C"

definition matrix_mul_matrix :: "nat \<Rightarrow> u32 list \<Rightarrow> u16 list \<Rightarrow> u16 list \<Rightarrow> kfault + u32 list" where
  "matrix_mul_matrix N C A B =
     for_loop 0 N (\<lambda>i. for_loop 0 N (\<lambda>j C.
       bindE (wr C (i * N + j) 0) (for_loop 0 N (\<lambda>k C.
         bindE (rd A (i * N + k)) (\<lambda>a. bindE (rd B (k * N + j)) (\<lambda>b. bindE (rd C (i * N + j)) (\<lambda>c.
           wr C (i * N + j) (c + sx a * sx b)))))))) C"

definition matrix_mul_matrix_bitextract ::
  "nat \<Rightarrow> u32 list \<Rightarrow> u16 list \<Rightarrow> u16 list \<Rightarrow> kfault + u32 list" where
  "matrix_mul_matrix_bitextract N C A B =
     for_loop 0 N (\<lambda>i. for_loop 0 N (\<lambda>j C.
       bindE (wr C (i * N + j) 0) (for_loop 0 N (\<lambda>k C.
         bindE (rd A (i * N + k)) (\<lambda>a. bindE (rd B (k * N + j)) (\<lambda>b. bindE (rd C (i * N + j)) (\<lambda>c.
           let tmp = sx a * sx b
           in wr C (i * N + j) (c + bit_extract tmp 2 4 * bit_extract tmp 5 7)))))))) C"

text \<open>
  \<^verbatim>\<open>matrix_sum\<close>: the running values \<open>tmp\<close>, \<open>prev\<close> and the result.
\<close>

definition matrix_sum_step :: "u16 \<Rightarrow> u32 \<Rightarrow> u32 \<times> u32 \<times> u16 \<Rightarrow> u32 \<times> u32 \<times> u16" where
  "matrix_sum_step clipval cur s =
     (case s of (tmp, prev, ret) \<Rightarrow>
        let tmp = tmp + cur
        in if sint tmp > sint clipval then (0, cur, ret + 10)
           else (tmp, cur, ret + (if sint cur > sint prev then 1 else 0)))"

definition matrix_sum :: "nat \<Rightarrow> u32 list \<Rightarrow> u16 \<Rightarrow> kfault + u16" where
  "matrix_sum N C clipval =
     bindE (for_loop 0 N (\<lambda>i. for_loop 0 N (\<lambda>j s.
       bindE (rd C (i * N + j)) (\<lambda>cur. Inr (matrix_sum_step clipval cur s)))) (0, 0, 0))
     (\<lambda>(tmp, prev, ret). Inr ret)"

text \<open>\<^verbatim>\<open>matrix_test\<close> returns the checksum and the arrays it has written.\<close>

definition matrix_test ::
  "nat \<Rightarrow> u32 list \<Rightarrow> u16 list \<Rightarrow> u16 list \<Rightarrow> u16 \<Rightarrow> kfault + (u16 \<times> u32 list \<times> u16 list)" where
  "matrix_test N C A B val =
     (let clipval = matrix_big val in
      bindE (matrix_add_const N A val) (\<lambda>A.
      bindE (matrix_mul_const N C A val) (\<lambda>C.
      bindE (matrix_sum N C clipval) (\<lambda>s.
      let crc = crc16 s 0 in
      bindE (matrix_mul_vect N C A B) (\<lambda>C.
      bindE (matrix_sum N C clipval) (\<lambda>s.
      let crc = crc16 s crc in
      bindE (matrix_mul_matrix N C A B) (\<lambda>C.
      bindE (matrix_sum N C clipval) (\<lambda>s.
      let crc = crc16 s crc in
      bindE (matrix_mul_matrix_bitextract N C A B) (\<lambda>C.
      bindE (matrix_sum N C clipval) (\<lambda>s.
      let crc = crc16 s crc in
      bindE (matrix_add_const N A (- val)) (\<lambda>A.
        Inr (crc, C, A))))))))))))"

text \<open>The parameters of a benchmark: dimension, addresses and contents of the matrices.\<close>

record mat_params =
  matN :: nat
  addrA :: nat
  addrB :: nat
  addrC :: nat
  matA :: "u16 list"
  matB :: "u16 list"
  matC :: "u32 list"

definition core_bench_matrix :: "mat_params \<Rightarrow> u16 \<Rightarrow> u16 \<Rightarrow> kfault + (u16 \<times> mat_params)" where
  "core_bench_matrix p seed crc =
     bindE (matrix_test (matN p) (matC p) (matA p) (matB p) seed) (\<lambda>(r, C, A).
       Inr (crc16 r crc, p\<lparr>matC := C, matA := A\<rparr>))"

section \<open>Initialisation\<close>

text \<open>
  The search for the dimension: \<open>j\<close> is an unsigned 32-bit value.  The loop ends unless \<open>blksize\<close>
  is above every multiple of 8 that fits; the number of rounds allowed is the first argument.
\<close>

fun matrix_dim :: "nat \<Rightarrow> nat \<Rightarrow> nat \<Rightarrow> nat \<Rightarrow> kfault + nat" where
  "matrix_dim 0 blksize i j = Inl Hang"
| "matrix_dim (Suc fuel) blksize i j =
     (if j < blksize
      then let i = (i + 1) mod 2 ^ 32 in matrix_dim fuel blksize i ((i * i * 2 * 4) mod 2 ^ 32)
      else Inr ((i + 2 ^ 32 - 1) mod 2 ^ 32))"

definition align_mem :: "nat \<Rightarrow> nat" where
  "align_mem x = (x + 4 - 1) div 4 * 4"

text \<open>
  One element: order and seed are signed 32-bit values, and each sum and product of them that does
  not fit is an \<open>Overflow\<close>; \<^verbatim>\<open>%\<close> truncates towards zero, and the stores convert to 16 bits.
\<close>

definition fits32 :: "int \<Rightarrow> bool" where
  "fits32 x \<longleftrightarrow> - (2 ^ 31) \<le> x \<and> x < 2 ^ 31"

definition s32 :: "int \<Rightarrow> kfault + int" where
  "s32 x = (if fits32 x then Inr x else Inl Overflow)"

definition init_element :: "int \<times> int \<Rightarrow> kfault + ((int \<times> int) \<times> u16 \<times> u16)" where
  "init_element s =
     (case s of (order, seed) \<Rightarrow>
        bindE (s32 (order * seed)) (\<lambda>prod.
        let seed = c_mod prod 65536 in
        bindE (s32 (seed + order)) (\<lambda>sum.
        let val = word_of_int sum :: u16;
            val = matrix_clip val False;
            b = val in
        bindE (s32 (sint val + order)) (\<lambda>sum.
        let val = word_of_int sum :: u16;
            val = matrix_clip val True;
            a = val in
        bindE (s32 (order + 1)) (\<lambda>order.
          Inr ((order, seed), a, b))))))"

definition fill_matrices :: "nat \<Rightarrow> int \<Rightarrow> u16 list \<Rightarrow> u16 list \<Rightarrow> kfault + (u16 list \<times> u16 list)" where
  "fill_matrices N seed A B =
     bindE (for_loop 0 N (\<lambda>i. for_loop 0 N (\<lambda>j (s, A, B).
       bindE (init_element s) (\<lambda>(s, a, b).
         bindE (wr B (i * N + j) b) (\<lambda>B. bindE (wr A (i * N + j) a) (\<lambda>A. Inr (s, A, B))))))
       ((1, seed), A, B))
     (\<lambda>(_, A, B). Inr (A, B))"

text \<open>
  \<^verbatim>\<open>core_init_matrix\<close>: the address of the block comes in, and what the memory holds where \<open>A\<close>, \<open>B\<close>
  and \<open>C\<close> will be is given as functions of the number of elements.
\<close>

definition core_init_matrix ::
  "nat \<Rightarrow> nat \<Rightarrow> nat \<Rightarrow> u32 \<Rightarrow> (nat \<Rightarrow> u16 list) \<Rightarrow> (nat \<Rightarrow> u16 list) \<Rightarrow> (nat \<Rightarrow> u32 list) \<Rightarrow>
     kfault + mat_params" where
  "core_init_matrix fuel blksize memblk seed oldA oldB oldC =
     bindE (matrix_dim fuel blksize 0 0) (\<lambda>N.
       let A = align_mem memblk; B = A + 2 * (N * N); C = align_mem (B + 2 * (N * N)) in
       bindE (fill_matrices N (if seed = 0 then 1 else sint seed) (oldA (N * N)) (oldB (N * N)))
         (\<lambda>(a, b). Inr \<lparr>matN = N, addrA = A, addrB = B, addrC = C,
                         matA = a, matB = b, matC = oldC (N * N)\<rparr>))"

section \<open>Loops over a matrix\<close>

text \<open>
  The two nested loops over the cells visit the indices \<open>0, 1, ..., N * N - 1\<close> in order.  If the
  body replaces the cell by a function of its position and old value, so does the whole loop.
\<close>

lemma cell_bound: "i < (N :: nat) \<Longrightarrow> j < N \<Longrightarrow> i * N + j < N * N"
proof -
  assume "i < N" "j < N"
  then have "i * N + j < (i + 1) * N" by simp
  also have "\<dots> \<le> N * N" using \<open>i < N\<close> by (intro mult_le_mono1) simp
  finally show ?thesis .
qed

definition filled :: "nat \<Rightarrow> (nat \<Rightarrow> nat \<Rightarrow> 'a \<Rightarrow> 'a) \<Rightarrow> nat \<Rightarrow> 'a list \<Rightarrow> 'a list" where
  "filled N f n xs = map (\<lambda>k. if k < n then f (k div N) (k mod N) (xs ! k) else xs ! k) [0..<length xs]"

lemma filled_length [simp]: "length (filled N f n xs) = length xs"
  by (simp add: filled_def)

lemma filled_nth [simp]:
  "k < length xs \<Longrightarrow> filled N f n xs ! k = (if k < n then f (k div N) (k mod N) (xs ! k) else xs ! k)"
  by (simp add: filled_def)

lemma filled_0 [simp]: "filled N f 0 xs = xs"
  by (rule nth_equalityI) simp_all

lemma filled_Suc:
  "i < N \<Longrightarrow> j < N \<Longrightarrow> i * N + j < length xs \<Longrightarrow>
     (filled N f (i * N + j) xs)[i * N + j := f i j (xs ! (i * N + j))] = filled N f (i * N + (j + 1)) xs"
  by (rule nth_equalityI) (auto simp: nth_list_update less_Suc_eq)

lemma matrix_loop:
  assumes "N * N \<le> length xs"
    "\<And>i j ys. i < N \<Longrightarrow> j < N \<Longrightarrow> length ys = length xs \<Longrightarrow>
       body i j ys = Inr (ys[i * N + j := f i j (ys ! (i * N + j))])"
  shows "for_loop 0 N (\<lambda>i. for_loop 0 N (body i)) xs = Inr (filled N f (N * N) xs)"
proof -
  have inner: "for_loop 0 N (body i) (filled N f (i * N) xs) = Inr (filled N f ((i + 1) * N) xs)"
    if i: "i < N" for i
  proof -
    have "\<exists>s'. for_loop 0 N (body i) (filled N f (i * N) xs) = Inr s' \<and> s' = filled N f (i * N + N) xs"
    proof (rule for_loop_invariant [where I = "\<lambda>k s. s = filled N f (i * N + k) xs"])
      fix k s assume k: "k < N" "s = filled N f (i * N + k) xs"
      have "i * N + k < length xs" using cell_bound [OF i k(1)] assms(1) by simp
      then show "\<exists>s'. body i k s = Inr s' \<and> s' = filled N f (i * N + (k + 1)) xs"
        using filled_Suc [OF i k(1), of xs f] assms(2) [OF i k(1), of s] k(2) by simp
    qed simp_all
    then show ?thesis by (simp add: algebra_simps)
  qed
  have "\<exists>s'. for_loop 0 N (\<lambda>i. for_loop 0 N (body i)) xs = Inr s' \<and> s' = filled N f (N * N) xs"
    by (rule for_loop_invariant [where I = "\<lambda>i s. s = filled N f (i * N) xs"]) (simp_all add: inner)
  then show ?thesis by simp
qed

text \<open>The innermost loops add up one cell.\<close>

lemma sum_loop:
  assumes "p < length xs"
    "\<And>k ys. k < N \<Longrightarrow> length ys = length xs \<Longrightarrow> body k ys = Inr (ys[p := ys ! p + g k])"
  shows "for_loop 0 N body xs = Inr (xs[p := (xs ! p :: 'a::comm_monoid_add) + (\<Sum>k<N. g k)])"
proof -
  have "\<exists>s'. for_loop 0 N body xs = Inr s' \<and> s' = xs[p := xs ! p + (\<Sum>k<N. g k)]"
    by (rule for_loop_invariant [where I = "\<lambda>n s. s = xs[p := xs ! p + (\<Sum>k<n. g k)]"])
      (use assms in \<open>auto simp: add.assoc\<close>)
  then show ?thesis by simp
qed

lemma dot_loop:
  assumes "p < length C"
    "\<And>k ys. k < N \<Longrightarrow> length ys = length C \<Longrightarrow> body k ys = Inr (ys[p := ys ! p + g k])"
  shows "bindE (wr C p 0) (for_loop 0 N body) = Inr (C[p := (\<Sum>k<N. g k :: u32)])"
  using sum_loop [of p "C[p := 0]" N body g] assms by simp

section \<open>What the operations compute\<close>

lemma matrix_add_const_eq:
  "N * N \<le> length A \<Longrightarrow> matrix_add_const N A val = Inr (filled N (\<lambda>i j a. a + val) (N * N) A)"
  unfolding matrix_add_const_def
  by (rule matrix_loop) (use cell_bound [of _ N] in \<open>fastforce\<close>)+

lemma matrix_mul_const_eq:
  "N * N \<le> length A \<Longrightarrow> N * N \<le> length C \<Longrightarrow>
     matrix_mul_const N C A val = Inr (filled N (\<lambda>i j _. sx (A ! (i * N + j)) * sx val) (N * N) C)"
  unfolding matrix_mul_const_def
  by (rule matrix_loop) (use cell_bound [of _ N] in \<open>fastforce\<close>)+

lemma matrix_mul_matrix_eq:
  assumes "N * N \<le> length A" "N * N \<le> length B" "N * N \<le> length C"
  shows "matrix_mul_matrix N C A B =
    Inr (filled N (\<lambda>i j _. \<Sum>k<N. sx (A ! (i * N + k)) * sx (B ! (k * N + j))) (N * N) C)"
  unfolding matrix_mul_matrix_def
proof (rule matrix_loop)
  fix i j and ys :: "u32 list"
  assume i: "i < N" "j < N" and len: "length ys = length C"
  have "i * N + j < length ys" using cell_bound [OF i] assms len by simp
  moreover have "i * N + k < length A" "k * N + j < length B" if "k < N" for k
    using cell_bound [OF i(1) that] cell_bound [OF that i(2)] assms by simp_all
  ultimately show "bindE (wr ys (i * N + j) 0) (for_loop 0 N (\<lambda>k C.
      bindE (rd A (i * N + k)) (\<lambda>a. bindE (rd B (k * N + j)) (\<lambda>b. bindE (rd C (i * N + j)) (\<lambda>c.
        wr C (i * N + j) (c + sx a * sx b))))))
    = Inr (ys[i * N + j := \<Sum>k<N. sx (A ! (i * N + k)) * sx (B ! (k * N + j))])"
    by (intro dot_loop) simp_all
qed (use assms in simp)

lemma matrix_mul_matrix_bitextract_eq:
  assumes "N * N \<le> length A" "N * N \<le> length B" "N * N \<le> length C"
  shows "matrix_mul_matrix_bitextract N C A B =
    Inr (filled N (\<lambda>i j _. \<Sum>k<N. bit_extract (sx (A ! (i * N + k)) * sx (B ! (k * N + j))) 2 4 *
           bit_extract (sx (A ! (i * N + k)) * sx (B ! (k * N + j))) 5 7) (N * N) C)"
  unfolding matrix_mul_matrix_bitextract_def
proof (rule matrix_loop)
  fix i j and ys :: "u32 list"
  assume i: "i < N" "j < N" and len: "length ys = length C"
  have "i * N + j < length ys" using cell_bound [OF i] assms len by simp
  moreover have "i * N + k < length A" "k * N + j < length B" if "k < N" for k
    using cell_bound [OF i(1) that] cell_bound [OF that i(2)] assms by simp_all
  ultimately show "bindE (wr ys (i * N + j) 0) (for_loop 0 N (\<lambda>k C.
      bindE (rd A (i * N + k)) (\<lambda>a. bindE (rd B (k * N + j)) (\<lambda>b. bindE (rd C (i * N + j)) (\<lambda>c.
        let tmp = sx a * sx b
        in wr C (i * N + j) (c + bit_extract tmp 2 4 * bit_extract tmp 5 7))))))
    = Inr (ys[i * N + j := \<Sum>k<N. bit_extract (sx (A ! (i * N + k)) * sx (B ! (k * N + j))) 2 4 *
        bit_extract (sx (A ! (i * N + k)) * sx (B ! (k * N + j))) 5 7])"
    by (intro dot_loop) (simp_all add: Let_def)
qed (use assms in simp)

lemma matrix_mul_vect_eq:
  assumes "N * N \<le> length A" "N \<le> length B" "N \<le> length C"
  shows "matrix_mul_vect N C A B =
    Inr (map (\<lambda>i. if i < N then \<Sum>k<N. sx (A ! (i * N + k)) * sx (B ! k) else C ! i) [0..<length C])"
proof -
  let ?f = "\<lambda>n. map (\<lambda>i. if i < n then \<Sum>k<N. sx (A ! (i * N + k)) * sx (B ! k) else C ! i) [0..<length C]"
  have "\<exists>s'. matrix_mul_vect N C A B = Inr s' \<and> s' = ?f N"
    unfolding matrix_mul_vect_def
  proof (rule for_loop_invariant [where I = "\<lambda>n s. s = ?f n"])
    show "C = ?f 0" by (rule nth_equalityI) simp_all
    fix i s assume i: "i < N" "s = ?f i"
    have "i * N + k < length A" if "k < N" for k
      using cell_bound [OF i(1) that] assms by simp
    then have "bindE (wr s i 0) (for_loop 0 N (\<lambda>j C. bindE (rd A (i * N + j)) (\<lambda>a.
          bindE (rd B j) (\<lambda>b. bindE (rd C i) (\<lambda>c. wr C i (c + sx a * sx b))))))
        = Inr (s[i := \<Sum>k<N. sx (A ! (i * N + k)) * sx (B ! k)])"
      using i assms by (intro dot_loop) simp_all
    moreover have "s[i := \<Sum>k<N. sx (A ! (i * N + k)) * sx (B ! k)] = ?f (i + 1)"
      using i assms by (intro nth_equalityI) (auto simp: nth_list_update less_Suc_eq)
    ultimately show "\<exists>s'. bindE (wr s i 0) (for_loop 0 N (\<lambda>j C. bindE (rd A (i * N + j)) (\<lambda>a.
          bindE (rd B j) (\<lambda>b. bindE (rd C i) (\<lambda>c. wr C i (c + sx a * sx b)))))) = Inr s' \<and> s' = ?f (i + 1)"
      by simp
  qed simp
  then show ?thesis by simp
qed

text \<open>The sum reads the result in order: it is a fold over its first \<open>N * N\<close> elements.\<close>

lemma matrix_sum_eq:
  assumes "N * N \<le> length C"
  shows "matrix_sum N C clipval =
    (case fold (matrix_sum_step clipval) (take (N * N) C) (0, 0, 0) of (tmp, prev, ret) \<Rightarrow> Inr ret)"
proof -
  let ?F = "\<lambda>n. fold (matrix_sum_step clipval) (take n C) (0, 0, 0)"
  let ?body = "\<lambda>i j s. bindE (rd C (i * N + j)) (\<lambda>cur. Inr (matrix_sum_step clipval cur s))"
  have row: "\<exists>s'. for_loop 0 N (?body i) (?F (i * N)) = Inr s' \<and> s' = ?F (i * N + N)" if i: "i < N" for i
  proof (rule for_loop_invariant [where I = "\<lambda>j s. s = ?F (i * N + j)"])
    fix k s assume "k < N" "s = ?F (i * N + k)"
    moreover have "i * N + k < length C" using cell_bound [OF i \<open>k < N\<close>] assms by simp
    ultimately show "\<exists>s'. ?body i k s = Inr s' \<and> s' = ?F (i * N + (k + 1))"
      by (simp add: take_Suc_conv_app_nth)
  qed simp_all
  have "\<exists>s'. for_loop 0 N (\<lambda>i. for_loop 0 N (?body i)) (0, 0, 0) = Inr s' \<and> s' = ?F (N * N)"
  proof (rule for_loop_invariant [where I = "\<lambda>i s. s = ?F (i * N)"])
    fix i s assume "i < N" "s = ?F (i * N)"
    then show "\<exists>s'. for_loop 0 N (?body i) s = Inr s' \<and> s' = ?F ((i + 1) * N)"
      using row [of i] by (simp add: add.commute)
  qed simp_all
  then show ?thesis by (auto simp: matrix_sum_def split: prod.splits)
qed

text \<open>
  C21: The product of the two matrices is stored in the third: every element of \<open>C\<close> is the dot
  product, modulo \<open>2 ^ 32\<close>, of the row of \<open>A\<close> and the column of \<open>B\<close>, taken as signed numbers.  No
  access leaves the arrays, and what lies behind the \<open>N * N\<close> elements is not touched.
\<close>

theorem matrix_mul_matrix_product:
  assumes "N * N \<le> length A" "N * N \<le> length B" "N * N \<le> length C"
  shows "\<exists>C'. matrix_mul_matrix N C A B = Inr C' \<and> length C' = length C \<and>
    (\<forall>i < N. \<forall>j < N. C' ! (i * N + j) =
      word_of_int (\<Sum>k<N. sint (A ! (i * N + k)) * sint (B ! (k * N + j)))) \<and>
    (\<forall>k. N * N \<le> k \<and> k < length C \<longrightarrow> C' ! k = C ! k)"
proof -
  have dot: "(\<Sum>k<N. sx (f k) * sx (g k)) = word_of_int (\<Sum>k<N. sint (f k) * sint (g k))" for f g
    by (simp add: of_int_sum sx_def)
  have "i * N + j < length C" if "i < N" "j < N" for i j
    using cell_bound [OF that] assms by simp
  then show ?thesis
    using cell_bound [of _ N] by (simp add: matrix_mul_matrix_eq [OF assms] dot)
qed

lemma matrix_mul_matrix_product_witness:
  "\<exists>C'. matrix_mul_matrix 2 [7, 7, 7, 7, 9] [1, 2, 3, 4] [5, 6, 7, 0xffff] = Inr C' \<and> C' ! 1 = 4 \<and> C' ! 4 = 9"
proof -
  let ?A = "[1, 2, 3, 4] :: u16 list" and ?B = "[5, 6, 7, 0xffff] :: u16 list"
    and ?C = "[7, 7, 7, 7, 9] :: u32 list"
  obtain C' where r: "matrix_mul_matrix 2 ?C ?A ?B = Inr C'"
    and v: "\<forall>i < 2. \<forall>j < 2. C' ! (i * 2 + j) = word_of_int (\<Sum>k<2. sint (?A ! (i * 2 + k)) * sint (?B ! (k * 2 + j)))"
    and t: "\<forall>k. 2 * 2 \<le> k \<and> k < length ?C \<longrightarrow> C' ! k = ?C ! k"
    using matrix_mul_matrix_product [of 2 ?A ?B ?C] by auto
  have "C' ! 1 = 4" using v [rule_format, of 0 1] by (simp add: lessThan_nat_numeral lessThan_Suc)
  moreover have "C' ! 4 = 9" using t [rule_format, of 4] by simp
  ultimately show ?thesis using r by blast
qed

lemma matrix_test_back:
  assumes "length A = N * N" "N * N \<le> length B" "N * N \<le> length C"
  shows "\<exists>crc C'. matrix_test N C A B val = Inr (crc, C', A) \<and> length C' = length C"
proof -
  let ?A = "filled N (\<lambda>i j a. a + val) (N * N) A"
  have NN: "N \<le> N * N" by simp
  have sum: "\<exists>s. matrix_sum N D v = Inr s" if "N * N \<le> length D" for D v
    using matrix_sum_eq [OF that] by (auto split: prod.splits)
  obtain C1 where C1: "matrix_mul_const N C ?A val = Inr C1" "length C1 = length C"
    using assms by (simp add: matrix_mul_const_eq)
  obtain C2 where C2: "matrix_mul_vect N C1 ?A B = Inr C2" "length C2 = length C"
    using assms C1(2) NN by (simp add: matrix_mul_vect_eq le_trans [OF NN])
  obtain C3 where C3: "matrix_mul_matrix N C2 ?A B = Inr C3" "length C3 = length C"
    using assms C2(2) by (simp add: matrix_mul_matrix_eq)
  obtain C4 where C4: "matrix_mul_matrix_bitextract N C3 ?A B = Inr C4" "length C4 = length C"
    using assms C3(2) by (simp add: matrix_mul_matrix_bitextract_eq)
  have undone: "filled N (\<lambda>i j a. a + - val) (N * N) ?A = A"
    by (rule nth_equalityI) simp_all
  obtain s1 where s1: "matrix_sum N C1 (matrix_big val) = Inr s1" using sum [of C1] assms C1(2) by auto
  obtain s2 where s2: "matrix_sum N C2 (matrix_big val) = Inr s2" using sum [of C2] assms C2(2) by auto
  obtain s3 where s3: "matrix_sum N C3 (matrix_big val) = Inr s3" using sum [of C3] assms C3(2) by auto
  obtain s4 where s4: "matrix_sum N C4 (matrix_big val) = Inr s4" using sum [of C4] assms C4(2) by auto
  show ?thesis
    using assms(1) undone
    by (simp add: matrix_test_def Let_def matrix_add_const_eq C1 C2 C3 C4 s1 s2 s3 s4)
qed

text \<open>
  C30: A run of the test gives matrix \<open>A\<close> back unchanged and does not touch \<open>B\<close>, for every value
  that is added, also when the additions overflow; it always finishes, inside the arrays.
\<close>

theorem matrix_test_restores:
  assumes "length A = N * N" "N * N \<le> length B" "N * N \<le> length C"
  shows "\<exists>crc C'. matrix_test N C A B val = Inr (crc, C', A) \<and> length C' = length C"
  by (rule matrix_test_back [OF assms])

lemma matrix_test_restores_witness:
  "\<exists>crc C'. matrix_test 2 [0, 0, 0, 0] [1, 2, 3, 0x7fff] [5, 6, 7, 8] 9 = Inr (crc, C', [1, 2, 3, 0x7fff]) \<and>
     length C' = length [0, 0, 0, 0 :: u32]"
  by (rule matrix_test_restores) simp_all

section \<open>The initialisation\<close>

lemma matrix_dim_search:
  assumes "0 < blksize" "blksize \<le> 2 ^ 31"
  shows "i = 0 \<or> 8 * ((i - 1) * (i - 1)) < blksize \<Longrightarrow> i \<le> 16384 \<Longrightarrow> 16385 \<le> fuel + i \<Longrightarrow>
    \<exists>N. matrix_dim fuel blksize i (8 * (i * i)) = Inr N \<and> 8 * (N * N) < blksize \<and>
      blksize \<le> 8 * ((N + 1) * (N + 1))"
proof (induction fuel arbitrary: i)
  case (Suc fuel)
  show ?case
  proof (cases "8 * (i * i) < blksize")
    case True
    have "i < 16384"
    proof (rule ccontr)
      assume "\<not> i < 16384"
      then have "16384 * 16384 \<le> i * i" by (intro mult_le_mono) simp_all
      then show False using True assms(2) by simp
    qed
    then have "(i + 1) * (i + 1) \<le> 16384 * 16384" by (intro mult_le_mono) simp_all
    then have j: "((i + 1) * (i + 1) * 2 * 4) mod 2 ^ 32 = 8 * ((i + 1) * (i + 1))" by simp
    have i: "(i + 1) mod 2 ^ 32 = i + 1" using \<open>i < 16384\<close> by simp
    have "\<exists>N. matrix_dim fuel blksize (i + 1) (8 * ((i + 1) * (i + 1))) = Inr N \<and> 8 * (N * N) < blksize \<and>
        blksize \<le> 8 * ((N + 1) * (N + 1))"
      using True \<open>i < 16384\<close> Suc.prems by (intro Suc.IH) auto
    then show ?thesis using True unfolding matrix_dim.simps i Let_def j by simp
  next
    case False
    then obtain m where m: "i = Suc m" using assms(1) by (cases i) auto
    then have "(i + 2 ^ 32 - 1) mod 2 ^ 32 = m"
      using Suc.prems(2) by (simp add: mod_if)
    then show ?thesis using False Suc.prems m by auto
  qed
qed simp

lemma matrix_dim_found:
  assumes "0 < blksize" "blksize \<le> 2 ^ 31" "16385 \<le> fuel"
  obtains N where "matrix_dim fuel blksize 0 0 = Inr N" "8 * (N * N) < blksize" "blksize \<le> 8 * ((N + 1) * (N + 1))"
  using matrix_dim_search [OF assms(1,2), of 0 fuel] assms(3) by auto

text \<open>Above every multiple of 8 the search goes on for ever.\<close>

lemma matrix_dim_hangs:
  "2 ^ 32 - 8 < blksize \<Longrightarrow> 8 dvd j \<Longrightarrow> j < 2 ^ 32 \<Longrightarrow> matrix_dim fuel blksize i j = Inl Hang"
proof (induction fuel arbitrary: i j)
  case (Suc fuel)
  have "j \<le> 2 ^ 32 - 8" using Suc.prems(2,3) by (elim dvdE) simp
  moreover have "8 dvd (i' * i' * 2 * 4) mod 2 ^ 32" for i' :: nat
    by (rule dvd_mod) (simp_all add: mult.assoc)
  ultimately show ?case using Suc by (simp add: Let_def)
qed simp

lemma clip_small: "unat (matrix_clip v True) < 256"
proof -
  have "v AND 0xff \<le> 0xff" by (rule word_and_le1)
  then have "unat (v AND 0xff) \<le> unat (0xff :: u16)" by (simp only: word_le_nat_alt)
  then show ?thesis by (simp add: matrix_clip_def)
qed

text \<open>
  The values of an element when nothing overflows, and those of the first \<open>n\<close> elements, as pairs
  of an entry of \<open>A\<close> and one of \<open>B\<close>.
\<close>

definition element_values :: "int \<times> int \<Rightarrow> (int \<times> int) \<times> u16 \<times> u16" where
  "element_values s =
     (case s of (order, seed) \<Rightarrow>
        let seed = c_mod (order * seed) 65536;
            b = matrix_clip (word_of_int (seed + order)) False;
            a = matrix_clip (word_of_int (sint b + order)) True
        in ((order + 1, seed), a, b))"

fun elements :: "nat \<Rightarrow> int \<times> int \<Rightarrow> (u16 \<times> u16) list" where
  "elements 0 s = []"
| "elements (Suc n) s = (case element_values s of (s, e) \<Rightarrow> e # elements n s)"

definition after_elements :: "nat \<Rightarrow> int \<times> int \<Rightarrow> int \<times> int" where
  "after_elements n = (\<lambda>s. fst (element_values s)) ^^ n"

lemma length_elements [simp]: "length (elements n s) = n"
  by (induction n arbitrary: s) (auto split: prod.split)

lemma elements_small: "e \<in> set (elements n s) \<Longrightarrow> unat (fst e) < 256"
  by (induction n arbitrary: s)
    (auto simp: element_values_def Let_def clip_small split: prod.splits)

lemma elements_snoc:
  "elements (Suc n) s = elements n s @ [snd (element_values (after_elements n s))]"
proof (induction n arbitrary: s)
  case 0
  then show ?case by (simp add: after_elements_def split: prod.split)
next
  case (Suc n)
  obtain s' e where "element_values s = (s', e)" by (rule prod.exhaust)
  then show ?case using Suc.IH [of s'] by (simp add: after_elements_def funpow_Suc_right del: funpow.simps)
qed

text \<open>
  As long as the order is at most 32768 nothing overflows: the first product is the seed itself, and
  every later seed is below \<open>2 ^ 16\<close> in absolute value.
\<close>

lemma c_mod_small: "\<bar>c_mod x 65536\<bar> < 65536"
  unfolding c_mod_def smod_int_alt_def by (auto simp: abs_mult sgn_if)

lemma init_element_values:
  assumes "1 \<le> order" "order \<le> 32768" "order = 1 \<and> fits32 seed \<or> \<bar>seed\<bar> < 65536"
  shows "init_element (order, seed) = Inr (element_values (order, seed))"
proof -
  have prod: "fits32 (order * seed)"
  proof (cases "order = 1 \<and> fits32 seed")
    case False
    then have "\<bar>order * seed\<bar> \<le> 32768 * 65535"
      unfolding abs_mult using assms by (intro mult_mono) auto
    then show ?thesis by (auto simp: fits32_def abs_le_iff)
  qed auto
  have "fits32 (c_mod (order * seed) 65536 + order)" "fits32 (order + 1)"
    using c_mod_small [of "order * seed"] assms(1,2) by (auto simp: fits32_def)
  moreover have "fits32 (sint v + order)" for v :: u16
    using sint_lt [of v] sint_ge [of v] assms(1,2) by (simp add: fits32_def)
  ultimately show ?thesis
    using prod by (simp add: init_element_def element_values_def s32_def Let_def)
qed

lemma after_elements_range:
  "fst (after_elements n (1, seed)) = int n + 1 \<and> (n = 0 \<and> snd (after_elements n (1, seed)) = seed \<or>
     \<bar>snd (after_elements n (1, seed))\<bar> < 65536)"
  by (induction n) (auto simp: after_elements_def element_values_def Let_def c_mod_small split: prod.splits)

lemma fill_matrices_elements:
  assumes "length A = N * N" "length B = N * N" "N * N \<le> 32768" "fits32 seed"
  shows "fill_matrices N seed A B = Inr (map fst (elements (N * N) (1, seed)), map snd (elements (N * N) (1, seed)))"
proof -
  let ?st = "\<lambda>n. (after_elements n (1, seed), map fst (elements n (1, seed)) @ drop n A, map snd (elements n (1, seed)) @ drop n B)"
  let ?body = "\<lambda>i j (s, A, B). bindE (init_element s) (\<lambda>(s, a, b).
         bindE (wr B (i * N + j) b) (\<lambda>B. bindE (wr A (i * N + j) a) (\<lambda>A. Inr (s, A, B))))"
  have one: "?body i j (?st (i * N + j)) = Inr (?st (i * N + (j + 1)))" if ij: "i < N" "j < N" for i j
  proof -
    let ?n = "i * N + j"
    have n: "?n < N * N" by (rule cell_bound [OF ij])
    obtain order sd where os: "after_elements ?n (1, seed) = (order, sd)" by (rule prod.exhaust)
    have "order = int ?n + 1" "?n = 0 \<and> sd = seed \<or> \<bar>sd\<bar> < 65536"
      using after_elements_range [of ?n seed] os by auto
    moreover have "int ?n + 1 \<le> 32768" using n assms(3) by linarith
    ultimately have "init_element (order, sd) = Inr (element_values (order, sd))"
      using assms(4) by (intro init_element_values) auto
    moreover obtain s a b where e: "element_values (after_elements ?n (1, seed)) = (s, a, b)" by (rule prod_cases3)
    ultimately have ie: "init_element (after_elements ?n (1, seed)) = Inr (s, a, b)" using os by simp
    have s: "after_elements (Suc ?n) (1, seed) = s" using e by (simp add: after_elements_def)
    have d: "drop ?n A = A ! ?n # drop (Suc ?n) A" "drop ?n B = B ! ?n # drop (Suc ?n) B"
      using n assms(1,2) by (simp_all add: Cons_nth_drop_Suc)
    have "(map fst (elements ?n (1, seed)) @ drop ?n A)[?n := a] = map fst (elements (Suc ?n) (1, seed)) @ drop (Suc ?n) A"
      "(map snd (elements ?n (1, seed)) @ drop ?n B)[?n := b] = map snd (elements (Suc ?n) (1, seed)) @ drop (Suc ?n) B"
      unfolding elements_snoc using e by (simp_all add: d list_update_append)
    then show ?thesis using ie s n assms(1,2) by simp
  qed
  have row: "for_loop 0 N (?body i) (?st (i * N)) = Inr (?st ((i + 1) * N))" if i: "i < N" for i
  proof -
    have "\<exists>s'. for_loop 0 N (?body i) (?st (i * N)) = Inr s' \<and> s' = ?st (i * N + N)"
      by (rule for_loop_invariant [where I = "\<lambda>k s. s = ?st (i * N + k)"]) (use one [OF i] in simp_all)
    then show ?thesis by (auto simp: add.commute)
  qed
  have "\<exists>s'. for_loop 0 N (\<lambda>i. for_loop 0 N (?body i)) (?st 0) = Inr s' \<and> s' = ?st (N * N)"
    by (rule for_loop_invariant [where I = "\<lambda>i s. s = ?st (i * N)"]) (use row in simp_all)
  then have "for_loop 0 N (\<lambda>i. for_loop 0 N (?body i)) (?st 0) = Inr (?st (N * N))" by blast
  then show ?thesis using assms(1,2) by (simp add: fill_matrices_def after_elements_def)
qed

text \<open>The seed as it comes in is a 32-bit word.\<close>

lemma seed_fits: "fits32 (if sd = 0 then 1 else sint (sd :: u32))"
  using sint_lt [of sd] sint_ge [of sd] by (simp add: fits32_def)

lemma align_mem_bounds: "x \<le> align_mem x" "align_mem x \<le> x + 3" "4 dvd align_mem x"
  "4 dvd x \<Longrightarrow> align_mem x = x"
  by (auto simp: align_mem_def elim!: dvdE)

lemma core_init_matrix_total:
  assumes "0 < blksize" "blksize \<le> 2 ^ 18" "16385 \<le> fuel"
    "\<And>n. length (oldA n) = n" "\<And>n. length (oldB n) = n" "\<And>n. length (oldC n) = n"
  shows "\<exists>p. core_init_matrix fuel blksize memblk seed oldA oldB oldC = Inr p \<and>
    8 * (matN p * matN p) < blksize \<and> blksize \<le> 8 * ((matN p + 1) * (matN p + 1)) \<and>
    memblk \<le> addrA p \<and> addrB p = addrA p + 2 * (matN p * matN p) \<and>
    addrB p + 2 * (matN p * matN p) = addrC p \<and> 4 dvd addrC p \<and>
    addrC p + 4 * (matN p * matN p) \<le> memblk + blksize + (if 4 dvd memblk then 0 else 2) \<and>
    length (matA p) = matN p * matN p \<and> length (matB p) = matN p * matN p \<and>
    length (matC p) = matN p * matN p \<and> (\<forall>a \<in> set (matA p). unat a < 256)"
proof -
  obtain N where N: "matrix_dim fuel blksize 0 0 = Inr N" "8 * (N * N) < blksize"
    "blksize \<le> 8 * ((N + 1) * (N + 1))"
    using matrix_dim_found [OF assms(1) _ assms(3)] assms(2) by auto
  let ?seed = "if seed = 0 then 1 else sint seed"
  obtain A B where f: "fill_matrices N ?seed (oldA (N * N)) (oldB (N * N)) = Inr (A, B)"
    "length A = N * N" "length B = N * N" "\<forall>k < N * N. unat (A ! k) < 256"
  proof (rule that)
    show "fill_matrices N ?seed (oldA (N * N)) (oldB (N * N)) =
        Inr (map fst (elements (N * N) (1, ?seed)), map snd (elements (N * N) (1, ?seed)))"
      using fill_matrices_elements [OF assms(4) [of "N * N"] assms(5) [of "N * N"] _ seed_fits, of seed]
        N(2) assms(2) by simp
    show "\<forall>k < N * N. unat (map fst (elements (N * N) (1, ?seed)) ! k) < 256"
      using elements_small [OF nth_mem, of _ "N * N" "(1, ?seed)"] by simp
  qed simp_all
  have sm: "\<forall>a \<in> set A. unat a < 256" using f(2,4) by (auto simp: in_set_conv_nth)
  let ?a = "align_mem memblk"
  have a: "memblk \<le> ?a" "?a \<le> memblk + (if 4 dvd memblk then 0 else 3)" "4 dvd ?a"
    using align_mem_bounds [of memblk] by auto
  have d: "4 dvd ?a + 2 * (N * N) + 2 * (N * N)"
  proof -
    have "?a + 2 * (N * N) + 2 * (N * N) = ?a + 4 * (N * N)" by simp
    then show ?thesis using a(3) by (simp only:) (rule dvd_add, simp_all)
  qed
  have c: "align_mem (?a + 2 * (N * N) + 2 * (N * N)) = ?a + 2 * (N * N) + 2 * (N * N)"
    by (rule align_mem_bounds(4)) (rule d)
  have e: "?a + 2 * (N * N) + 2 * (N * N) + 4 * (N * N) \<le> memblk + blksize + (if 4 dvd memblk then 0 else 2)"
    using a(2) N(2) by auto
  show ?thesis
    using N f sm a(1) d c e assms(6) by (simp add: core_init_matrix_def Let_def)
qed

text \<open>
  C23: For every block of up to \<open>2 ^ 18\<close> bytes (the port uses 666) and every seed the initialisation
  ends, within 16385 rounds of the search and without a signed overflow, with the largest dimension
  whose three matrices (8 bytes for every position) are smaller than the block.  The matrices lie
  one behind the other from the first aligned address on, the elements of \<open>A\<close> are below 256, and the
  end of \<open>C\<close> is inside the block if the block is aligned, and at most two bytes behind it
  otherwise.  The file header promises smaller elements of \<open>A\<close>, below 16, which is not so
  (\<open>core_init_matrix_not_small\<close>); in larger blocks the product of order and seed need not fit in 32
  bits.  The old contents of the memory of the matrices are arbitrary.
\<close>

theorem core_init_matrix_layout:
  assumes "0 < blksize" "blksize \<le> 2 ^ 18" "16385 \<le> fuel"
    "\<And>n. length (oldA n) = n" "\<And>n. length (oldB n) = n" "\<And>n. length (oldC n) = n"
  shows "\<exists>p. core_init_matrix fuel blksize memblk seed oldA oldB oldC = Inr p \<and>
    8 * (matN p * matN p) < blksize \<and> blksize \<le> 8 * ((matN p + 1) * (matN p + 1)) \<and>
    memblk \<le> addrA p \<and> addrB p = addrA p + 2 * (matN p * matN p) \<and>
    addrB p + 2 * (matN p * matN p) = addrC p \<and> 4 dvd addrC p \<and>
    addrC p + 4 * (matN p * matN p) \<le> memblk + blksize + (if 4 dvd memblk then 0 else 2) \<and>
    length (matA p) = matN p * matN p \<and> length (matB p) = matN p * matN p \<and>
    length (matC p) = matN p * matN p \<and> (\<forall>a \<in> set (matA p). unat a < 256)"
  by (rule core_init_matrix_total [OF assms])

lemma core_init_matrix_layout_witness:
  "\<exists>p. core_init_matrix 16385 666 0x10002 5 (\<lambda>n. replicate n 0) (\<lambda>n. replicate n 0) (\<lambda>n. replicate n 0) = Inr p \<and>
    8 * (matN p * matN p) < 666 \<and> 666 \<le> 8 * ((matN p + 1) * (matN p + 1))"
  using core_init_matrix_layout [of 666 16385 "\<lambda>n. replicate n 0" "\<lambda>n. replicate n 0" "\<lambda>n. replicate n 0" "0x10002" 5]
  by auto

text \<open>
  The two bytes are real: a block of 9 bytes at address 1 holds one position, and its result
  element ends at address 12.
\<close>

lemma core_init_matrix_overruns:
  "\<exists>p. core_init_matrix 16385 9 1 5 (\<lambda>n. replicate n 0) (\<lambda>n. replicate n 0) (\<lambda>n. replicate n 0) = Inr p \<and>
    addrC p + 4 * (matN p * matN p) = 1 + 9 + 2"
proof -
  obtain N where N: "matrix_dim 16385 9 0 0 = Inr N" "8 * (N * N) < 9" "9 \<le> 8 * ((N + 1) * (N + 1))"
    using matrix_dim_found [of 9 16385] by auto
  have "N < 2"
  proof (rule ccontr)
    assume "\<not> N < 2"
    then have "2 * 2 \<le> N * N" by (intro mult_le_mono) simp_all
    then show False using N(2) by simp
  qed
  then have "N = 1" using N(3) by (cases "N = 0") auto
  moreover have "fits32 5" by (simp add: fits32_def)
  then obtain A B where "fill_matrices 1 5 (replicate (1 * 1) 0) (replicate (1 * 1) 0) = Inr (A, B)"
    using fill_matrices_elements [of "replicate (1 * 1) 0" 1 "replicate (1 * 1) 0" 5] by auto
  ultimately show ?thesis using N(1) by (simp add: core_init_matrix_def Let_def align_mem_def)
qed

text \<open>
  The header of the file says that the upper three quarters of the bits of \<open>A\<close> and the upper half
  of those of \<open>B\<close> are zero; the elements have 16 bits, so those of \<open>A\<close> would be below 16.  The code
  clips \<open>A\<close> to eight bits and \<open>B\<close> not at all: with the seed of a performance run the fourth element
  of \<open>A\<close> is 32.
\<close>

lemma core_init_matrix_not_small:
  "\<exists>p. core_init_matrix 16385 33 0 0 (\<lambda>n. replicate n 0) (\<lambda>n. replicate n 0) (\<lambda>n. replicate n 0) = Inr p \<and>
    matA p = [3, 6, 12, 32]"
proof -
  obtain N where N: "matrix_dim 16385 33 0 0 = Inr N" "8 * (N * N) < 33" "33 \<le> 8 * ((N + 1) * (N + 1))"
    using matrix_dim_found [of 33 16385] by auto
  have "N < 3"
  proof (rule ccontr)
    assume "\<not> N < 3"
    then have "3 * 3 \<le> N * N" by (intro mult_le_mono) simp_all
    then show False using N(2) by simp
  qed
  then have N2: "N = 2" using N(3) by (cases "N = 0"; cases "N = 1") auto
  have "elements 4 (1, 1) = [(3, 2), (6, 4), (12, 9), (32, 28)]" by code_simp
  moreover have "fits32 1" by (simp add: fits32_def)
  ultimately have "fill_matrices 2 1 (replicate 4 0) (replicate 4 0) = Inr ([3, 6, 12, 32], [2, 4, 9, 28])"
    using fill_matrices_elements [of "replicate 4 0" 2 "replicate 4 0" 1] by simp
  then show ?thesis using N(1) N2 by (simp add: core_init_matrix_def Let_def)
qed

end
