(* ===== verification/CMList.thy ===== *)
theory CMList
  imports CMState CMMatrix
begin

text \<open>
  \<^verbatim>\<open>pCPU/coremark/core_list_join.c\<close>, the linked list: the state of a benchmark run and the
  operations that search, reverse and relink the list (the sort is in CMSort, the benchmark in
  CMBench).  A pointer to a list cell or to a data item is the number of its slot in the memory
  block, null is \<open>None\<close>.  Loops over a list take the number of rounds they may run; a list that
  is not circular is walked with as many rounds as it has cells, and one more.
\<close>

section \<open>State\<close>

record list_data =
  data16 :: u16
  idx :: u16

text \<open>
  The cells (\<^verbatim>\<open>list_head\<close>: \<open>nxt\<close> and \<open>info\<close>) and data items of the memory block, and the fields of
  \<^verbatim>\<open>core_results\<close>, with the contents of the text and of the matrices it points to.
\<close>

record core_results =
  nxt :: "nat \<Rightarrow> nat option"
  info :: "nat \<Rightarrow> nat"
  dat :: "nat \<Rightarrow> list_data"
  res_seed1 :: u16
  res_seed2 :: u16
  res_seed3 :: u16
  res_size :: nat
  res_iterations :: nat
  res_execs :: u32
  res_list :: "nat option"
  res_text :: "u8 list"
  res_mat :: mat_params
  res_crc :: u16
  res_crclist :: u16
  res_crcmatrix :: u16
  res_crcstate :: u16
  res_err :: u16

definition deref :: "nat option \<Rightarrow> (nat \<Rightarrow> kfault + 'a) \<Rightarrow> kfault + 'a" where
  "deref p f = (case p of None \<Rightarrow> Inl BadPointer | Some n \<Rightarrow> f n)"

lemma deref_simps [simp]: "deref None f = Inl BadPointer" "deref (Some n) f = f n"
  by (simp_all add: deref_def)

definition set_nxt :: "nat \<Rightarrow> nat option \<Rightarrow> core_results \<Rightarrow> core_results" where
  "set_nxt n p s = s\<lparr>nxt := (nxt s)(n := p)\<rparr>"

definition set_info :: "nat \<Rightarrow> nat \<Rightarrow> core_results \<Rightarrow> core_results" where
  "set_info n d s = s\<lparr>info := (info s)(n := d)\<rparr>"

definition set_dat :: "nat \<Rightarrow> list_data \<Rightarrow> core_results \<Rightarrow> core_results" where
  "set_dat d v s = s\<lparr>dat := (dat s)(d := v)\<rparr>"

definition item :: "core_results \<Rightarrow> nat \<Rightarrow> list_data" where
  "item s n = dat s (info s n)"

section \<open>Operations\<close>

definition copy_info :: "nat \<Rightarrow> list_data \<Rightarrow> core_results \<Rightarrow> core_results" where
  "copy_info to from s = set_dat to ((dat s to)\<lparr>data16 := data16 from, idx := idx from\<rparr>) s"

text \<open>
  \<^verbatim>\<open>core_list_insert_new\<close>: \<open>memblock\<close> and \<open>datablock\<close> are the next free slots; null is returned when
  the last slot before either end would be taken.
\<close>

definition core_list_insert_new ::
  "nat \<Rightarrow> list_data \<Rightarrow> nat \<Rightarrow> nat \<Rightarrow> nat \<Rightarrow> nat \<Rightarrow> core_results \<Rightarrow> nat option \<times> nat \<times> nat \<times> core_results"
where
  "core_list_insert_new insert_point dinfo memblock datablock memblock_end datablock_end s =
     (if memblock_end \<le> memblock + 1 then (None, memblock, datablock, s)
      else if datablock_end \<le> datablock + 1 then (None, memblock, datablock, s)
      else let newitem = memblock;
               s = set_nxt newitem (nxt s insert_point) s;
               s = set_nxt insert_point (Some newitem) s;
               s = set_info newitem datablock s;
               s = copy_info datablock dinfo s
           in (Some newitem, memblock + 1, datablock + 1, s))"

definition core_list_remove :: "nat \<Rightarrow> core_results \<Rightarrow> kfault + (nat \<times> core_results)" where
  "core_list_remove itm s =
     deref (nxt s itm) (\<lambda>ret.
       let tmp = info s itm;
           s = set_info itm (info s ret) s;
           s = set_info ret tmp s;
           s = set_nxt itm (nxt s ret) s;
           s = set_nxt ret None s
       in Inr (ret, s))"

definition core_list_undo_remove :: "nat \<Rightarrow> nat \<Rightarrow> core_results \<Rightarrow> nat \<times> core_results" where
  "core_list_undo_remove item_removed item_modified s =
     (let tmp = info s item_removed;
          s = set_info item_removed (info s item_modified) s;
          s = set_info item_modified tmp s;
          s = set_nxt item_removed (nxt s item_modified) s;
          s = set_nxt item_modified (Some item_removed) s
      in (item_removed, s))"

text \<open>Both loops of \<^verbatim>\<open>core_list_find\<close>: walk on while the test fails.\<close>

fun walk_until :: "nat \<Rightarrow> (nat \<Rightarrow> bool) \<Rightarrow> (nat \<Rightarrow> nat option) \<Rightarrow> nat option \<Rightarrow> kfault + nat option" where
  "walk_until 0 stop nx p = Inl Hang"
| "walk_until (Suc fuel) stop nx p =
     (case p of
        None \<Rightarrow> Inr None
      | Some n \<Rightarrow> if stop n then Inr (Some n) else walk_until fuel stop nx (nx n))"

definition core_list_find :: "nat \<Rightarrow> nat option \<Rightarrow> list_data \<Rightarrow> core_results \<Rightarrow> kfault + nat option" where
  "core_list_find fuel lst dinfo s =
     (if 0 \<le> sint (idx dinfo)
      then walk_until fuel (\<lambda>n. idx (item s n) = idx dinfo) (nxt s) lst
      else walk_until fuel (\<lambda>n. data16 (item s n) AND 0xff = data16 dinfo) (nxt s) lst)"

fun reverse_loop :: "nat \<Rightarrow> nat option \<Rightarrow> nat option \<Rightarrow> core_results \<Rightarrow> kfault + (nat option \<times> core_results)" where
  "reverse_loop 0 lst next' s = Inl Hang"
| "reverse_loop (Suc fuel) lst next' s =
     (case lst of
        None \<Rightarrow> Inr (next', s)
      | Some n \<Rightarrow> reverse_loop fuel (nxt s n) (Some n) (set_nxt n next' s))"

definition core_list_reverse :: "nat \<Rightarrow> nat option \<Rightarrow> core_results \<Rightarrow> kfault + (nat option \<times> core_results)" where
  "core_list_reverse fuel lst s = reverse_loop fuel lst None s"

section \<open>Lists in the heap\<close>

text \<open>
  \<open>chain nx xs p\<close>: the cells \<open>xs\<close> are linked one after the other and the last one's successor is
  \<open>p\<close>; \<open>linked nx p xs\<close>: \<open>xs\<close> is the list of cells that starts at \<open>p\<close> and ends with null.
\<close>

fun linked :: "(nat \<Rightarrow> nat option) \<Rightarrow> nat option \<Rightarrow> nat list \<Rightarrow> bool" where
  "linked nx p [] \<longleftrightarrow> p = None"
| "linked nx p (x # xs) \<longleftrightarrow> p = Some x \<and> linked nx (nx x) xs"

fun chain :: "(nat \<Rightarrow> nat option) \<Rightarrow> nat list \<Rightarrow> bool" where
  "chain nx [] \<longleftrightarrow> True"
| "chain nx [x] \<longleftrightarrow> True"
| "chain nx (x # y # xs) \<longleftrightarrow> nx x = Some y \<and> chain nx (y # xs)"

definition first :: "nat list \<Rightarrow> nat option" where
  "first xs = (case xs of [] \<Rightarrow> None | x # _ \<Rightarrow> Some x)"

lemma first_simps [simp]: "first [] = None" "first (x # xs) = Some x"
  by (simp_all add: first_def)

lemma first_append [simp]: "first (xs @ ys) = (if xs = [] then first ys else first xs)"
  by (cases xs) simp_all

named_theorems heap_simps \<open>fields after an update of a cell or item\<close>

lemma set_fields [simp, heap_simps]:
  "nxt (set_nxt n p s) = (nxt s)(n := p)" "info (set_nxt n p s) = info s" "dat (set_nxt n p s) = dat s"
  "nxt (set_info n d s) = nxt s" "info (set_info n d s) = (info s)(n := d)" "dat (set_info n d s) = dat s"
  "nxt (set_dat d v s) = nxt s" "info (set_dat d v s) = info s" "dat (set_dat d v s) = (dat s)(d := v)"
  by (simp_all add: set_nxt_def set_info_def set_dat_def)

lemma linked_first: "linked nx p xs \<Longrightarrow> p = first xs"
  by (cases xs) simp_all

lemma linked_upd [simp]: "n \<notin> set xs \<Longrightarrow> linked (nx(n := q)) p xs = linked nx p xs"
  by (induction xs arbitrary: p) auto

lemma chain_relink [simp]: "n \<notin> set xs \<Longrightarrow> chain (nx(n := q)) xs = chain nx xs"
  by (induction nx xs rule: chain.induct) auto

lemma linked_cong: "(\<And>x. x \<in> set xs \<Longrightarrow> nx x = ny x) \<Longrightarrow> linked nx p xs = linked ny p xs"
  by (induction xs arbitrary: p) auto

lemma linked_unique: "linked nx p xs \<Longrightarrow> linked nx p ys \<Longrightarrow> xs = ys"
proof (induction xs arbitrary: p ys)
  case Nil
  then show ?case by (cases ys) auto
next
  case (Cons x xs)
  then show ?case by (cases ys) auto
qed

lemma linked_chain: "linked nx p xs \<Longrightarrow> chain nx xs"
proof (induction xs arbitrary: p)
  case (Cons x xs)
  then show ?case by (cases xs) auto
qed simp

lemma linked_iff_chain:
  "linked nx p xs \<longleftrightarrow> p = first xs \<and> chain nx xs \<and> (xs \<noteq> [] \<longrightarrow> nx (last xs) = None)"
proof (induction xs arbitrary: p)
  case (Cons x xs)
  then show ?case by (cases xs) auto
qed simp

lemma chain_append:
  "chain nx (xs @ ys) \<longleftrightarrow> chain nx xs \<and> chain nx ys \<and> (xs \<noteq> [] \<longrightarrow> ys \<noteq> [] \<longrightarrow> nx (last xs) = first ys)"
proof (induction nx xs rule: chain.induct)
  case (2 nx x)
  then show ?case by (cases ys) auto
qed auto

lemma chain_upd_last: "distinct xs \<Longrightarrow> chain nx xs \<Longrightarrow> chain (nx(last xs := p)) xs"
proof (induction nx xs rule: chain.induct)
  case (3 nx x y xs)
  have "last (y # xs) \<in> set (y # xs)" by (rule last_in_set) simp
  then have "x \<noteq> last (y # xs)" using 3(2) by auto
  then show ?case using 3 by simp
qed simp_all

lemma linked_suffix: "linked nx p (xs @ ys) \<Longrightarrow> linked nx (first ys) ys"
  by (induction xs arbitrary: p) (auto dest: linked_first)

text \<open>A small heap for the examples: the cells of the argument are linked, item \<open>n\<close> has index \<open>n\<close>.\<close>

definition small_heap :: "nat list \<Rightarrow> core_results" where
  "small_heap xs = \<lparr>nxt = map_of (zip xs (tl xs)), info = \<lambda>n. n,
     dat = \<lambda>n. \<lparr>data16 = 0x0101 * of_nat n, idx = of_nat n\<rparr>,
     res_seed1 = 0, res_seed2 = 0, res_seed3 = 1, res_size = 2, res_iterations = 5, res_execs = 7,
     res_list = first xs, res_text = [0, 0],
     res_mat = \<lparr>matN = 0, addrA = 0, addrB = 0, addrC = 0, matA = [], matB = [], matC = []\<rparr>,
     res_crc = 0, res_crclist = 0, res_crcmatrix = 0, res_crcstate = 0, res_err = 0\<rparr>"

lemma small_heap_linked:
  "linked (nxt (small_heap [0, 1, 2])) (Some 0) [0, 1, 2]" "linked (nxt (small_heap [2, 0, 1])) (Some 2) [2, 0, 1]"
  by (simp_all add: small_heap_def)

section \<open>What the operations do\<close>

lemma walk_until_linked:
  "linked nx p xs \<Longrightarrow> length xs < fuel \<Longrightarrow> walk_until fuel stop nx p = Inr (List.find stop xs)"
proof (induction xs arbitrary: p fuel)
  case Nil
  then show ?case by (cases fuel) auto
next
  case (Cons x xs)
  then show ?case by (cases fuel) auto
qed

text \<open>
  The search walks the list to the first cell whose index is the wanted one, or, with a
  negative index, whose low data byte is the wanted value, and returns null when there is none.
\<close>

theorem core_list_find_first:
  assumes "linked (nxt s) lst xs" "length xs < fuel"
  shows "core_list_find fuel lst dinfo s =
    Inr (List.find (\<lambda>n. if 0 \<le> sint (idx dinfo) then idx (item s n) = idx dinfo
                        else data16 (item s n) AND 0xff = data16 dinfo) xs)"
  using walk_until_linked [OF assms] by (simp add: core_list_find_def)

lemma core_list_find_first_witness:
  "core_list_find 9 (Some 2) \<lparr>data16 = 0, idx = 1\<rparr> (small_heap [2, 0, 1]) = Inr (Some 1)"
  using core_list_find_first [OF small_heap_linked(2), of 9 "\<lparr>data16 = 0, idx = 1\<rparr>"]
  by (simp add: small_heap_def item_def)

lemma reverse_loop_linked:
  "linked (nxt s) p xs \<Longrightarrow> linked (nxt s) q ys \<Longrightarrow> distinct (xs @ ys) \<Longrightarrow> length xs < fuel \<Longrightarrow>
     \<exists>s'. reverse_loop fuel p q s = Inr (first (rev xs @ ys), s') \<and> linked (nxt s') (first (rev xs @ ys)) (rev xs @ ys) \<and>
       (\<forall>n. n \<notin> set xs \<longrightarrow> nxt s' n = nxt s n) \<and> s' = s\<lparr>nxt := nxt s'\<rparr>"
proof (induction xs arbitrary: p q ys s fuel)
  case Nil
  then show ?case by (cases fuel) (auto dest: linked_first)
next
  case (Cons x xs)
  obtain f where f: "fuel = Suc f" using Cons.prems by (cases fuel) auto
  let ?s = "set_nxt x q s"
  have "linked (nxt ?s) (nxt s x) xs" "linked (nxt ?s) (Some x) (x # ys)"
    using Cons.prems by simp_all
  moreover have "distinct (xs @ x # ys)" "length xs < f" using Cons.prems f by auto
  ultimately have "\<exists>s'. reverse_loop f (nxt s x) (Some x) ?s = Inr (first (rev xs @ x # ys), s') \<and>
      linked (nxt s') (first (rev xs @ x # ys)) (rev xs @ x # ys) \<and>
      (\<forall>n. n \<notin> set xs \<longrightarrow> nxt s' n = nxt ?s n) \<and> s' = ?s\<lparr>nxt := nxt s'\<rparr>"
    by (rule Cons.IH)
  then show ?case
    using Cons.prems f by (auto simp: set_nxt_def)
qed

text \<open>
  Reversing a list relinks exactly its cells in the opposite order and returns the new first
  one; data and other cells stay as they are.
\<close>

theorem core_list_reverse_rev:
  assumes "linked (nxt s) lst xs" "distinct xs" "length xs < fuel"
  shows "\<exists>s'. core_list_reverse fuel lst s = Inr (first (rev xs), s') \<and>
    linked (nxt s') (first (rev xs)) (rev xs) \<and>
    (\<forall>n. n \<notin> set xs \<longrightarrow> nxt s' n = nxt s n) \<and> s' = s\<lparr>nxt := nxt s'\<rparr>"
  using reverse_loop_linked [of s lst xs None "[]"] assms by (simp add: core_list_reverse_def)

lemma core_list_reverse_rev_witness:
  "\<exists>s'. core_list_reverse 9 (Some 2) (small_heap [2, 0, 1]) = Inr (Some 1, s') \<and> linked (nxt s') (Some 1) [1, 0, 2]"
  using core_list_reverse_rev [OF small_heap_linked(2), of 9] by auto

lemma linked_unlink:
  "linked nx p (as @ x # y # bs) \<Longrightarrow> distinct (as @ x # y # bs) \<Longrightarrow> linked (nx(x := nx y)) p (as @ x # bs)"
  by (induction as arbitrary: p) auto

lemma core_list_remove_eq:
  assumes "linked (nxt s) p (as @ x # y # bs)" "distinct (as @ x # y # bs)"
  shows "core_list_remove x s = Inr (y, s\<lparr>nxt := (nxt s)(x := nxt s y, y := None),
    info := (info s)(x := info s y, y := info s x)\<rparr>)"
proof -
  have "chain (nxt s) (as @ x # y # bs)" using assms by (blast dest: linked_chain)
  then have "nxt s x = Some y" by (simp add: chain_append)
  moreover have "x \<noteq> y" using assms by auto
  ultimately show ?thesis
    by (simp add: core_list_remove_def set_nxt_def set_info_def Let_def)
qed

lemma core_list_remove_item:
  assumes "linked (nxt s) p (as @ x # y # bs)" "distinct (as @ x # y # bs)"
  shows "\<exists>s'. core_list_remove x s = Inr (y, s') \<and>
    linked (nxt s') p (as @ x # bs) \<and> map (item s') (as @ x # bs) = map (item s) (as @ y # bs) \<and>
    item s' y = item s x \<and> core_list_undo_remove y x s' = (y, s)"
proof -
  let ?s = "s\<lparr>nxt := (nxt s)(x := nxt s y, y := None), info := (info s)(x := info s y, y := info s x)\<rparr>"
  have c: "chain (nxt s) (as @ x # y # bs)" using assms by (blast dest: linked_chain)
  then have nx: "nxt s x = Some y" by (simp add: chain_append)
  have xy: "x \<noteq> y" using assms by auto
  have "linked (nxt ?s) p (as @ x # bs)"
    using assms nx by (induction as arbitrary: p) auto
  moreover have "map (item ?s) (as @ x # bs) = map (item s) (as @ y # bs)" "item ?s y = item s x"
    using assms xy by (auto simp: item_def)
  moreover have "core_list_undo_remove y x ?s = (y, s)"
    using nx xy by (auto simp: core_list_undo_remove_def set_nxt_def set_info_def Let_def fun_eq_iff
        intro!: core_results.equality)
  ultimately show ?thesis
    using core_list_remove_eq [OF assms] by blast
qed

text \<open>
  Removing the item of a cell (its data move to the next cell, which is unlinked and
  returned) and undoing it restores the heap exactly.  In between, the list is the old one
  without that item.
\<close>

theorem core_list_remove_undo:
  assumes "linked (nxt s) p (as @ x # y # bs)" "distinct (as @ x # y # bs)"
  shows "\<exists>s'. core_list_remove x s = Inr (y, s') \<and>
    linked (nxt s') p (as @ x # bs) \<and> map (item s') (as @ x # bs) = map (item s) (as @ y # bs) \<and>
    item s' y = item s x \<and> core_list_undo_remove y x s' = (y, s)"
  by (rule core_list_remove_item [OF assms])

lemma core_list_remove_undo_witness:
  "\<exists>s'. core_list_remove 0 (small_heap [2, 0, 1]) = Inr (1, s') \<and> linked (nxt s') (Some 2) [2, 0] \<and>
     idx (item s' 0) = 1 \<and> core_list_undo_remove 1 0 s' = (1, small_heap [2, 0, 1])"
proof -
  have "idx (item (small_heap [2, 0, 1]) 1) = 1" by (simp add: small_heap_def item_def)
  then show ?thesis
    using core_list_remove_undo [of "small_heap [2, 0, 1]" "Some 2" "[2]" 0 1 "[]"] small_heap_linked(2) by auto
qed

end
