(* ===== verification/CMSort.thy ===== *)
theory CMSort
  imports CMList "HOL-Library.Multiset"
begin

text \<open>
  \<^verbatim>\<open>core_list_mergesort\<close> of \<^verbatim>\<open>pCPU/coremark/core_list_join.c\<close>: merge sort of a linked list in place,
  bottom up, with a comparison that may itself change the state.  The locale \<open>list_order\<close> is the
  contract of such a comparison; inside it the sort is proved to return a stable, sorted
  permutation of the cells.  The two comparisons of the benchmark interpret it in CMBench.
\<close>

section \<open>The code\<close>

type_synonym list_cmp = "nat \<Rightarrow> nat \<Rightarrow> core_results \<Rightarrow> kfault + (int \<times> core_results)"

text \<open>Step \<open>insize\<close> places along from \<open>p\<close>.\<close>

fun step_along :: "nat \<Rightarrow> (nat \<Rightarrow> nat option) \<Rightarrow> nat \<Rightarrow> nat option \<Rightarrow> kfault + (nat \<times> nat option)" where
  "step_along 0 nx psize q = Inr (psize, q)"
| "step_along (Suc k) nx psize q =
     deref q (\<lambda>n. case nx n of
       None \<Rightarrow> Inr (psize + 1, None)
     | Some m \<Rightarrow> step_along k nx (psize + 1) (Some m))"

text \<open>Decide whether the next element of the merge comes from \<open>p\<close> or \<open>q\<close>, and take it.\<close>

definition merge_pick ::
  "list_cmp \<Rightarrow> nat \<Rightarrow> nat \<Rightarrow> nat option \<Rightarrow> nat option \<Rightarrow> core_results \<Rightarrow>
     kfault + (nat \<times> nat \<times> nat \<times> nat option \<times> nat option \<times> core_results)" where
  "merge_pick cmp psize qsize p q s =
     (if psize = 0 then deref q (\<lambda>e. Inr (e, psize, qsize - 1, p, nxt s e, s))
      else if qsize = 0 \<or> q = None then deref p (\<lambda>e. Inr (e, psize - 1, qsize, nxt s e, q, s))
      else deref p (\<lambda>a. deref q (\<lambda>b.
        bindE (cmp (info s a) (info s b) s) (\<lambda>(v, s).
          if v \<le> 0 then Inr (a, psize - 1, qsize, nxt s a, q, s)
          else Inr (b, psize, qsize - 1, p, nxt s b, s)))))"

text \<open>Add the next element to the merged list.\<close>

definition append_cell :: "nat \<Rightarrow> nat option \<Rightarrow> nat option \<Rightarrow> core_results \<Rightarrow> nat option \<times> core_results" where
  "append_cell e lst tail s =
     (case tail of Some t \<Rightarrow> (lst, set_nxt t (Some e) s) | None \<Rightarrow> (Some e, s))"

lemma merge_pick_decreases:
  "merge_pick cmp psize qsize p q s = Inr (e, psize', qsize', p', q', s') \<Longrightarrow>
     0 < psize \<or> 0 < qsize \<and> q \<noteq> None \<Longrightarrow> psize' + qsize' < psize + qsize"
proof -
  assume m: "merge_pick cmp psize qsize p q s = Inr (e, psize', qsize', p', q', s')"
    and c: "0 < psize \<or> 0 < qsize \<and> q \<noteq> None"
  consider "psize = 0" | "0 < psize" "qsize = 0 \<or> q = None" | "0 < psize" "0 < qsize" "q \<noteq> None" by blast
  then show ?thesis
  proof cases
    case 1
    then show ?thesis using m c by (cases q) (simp_all add: merge_pick_def, auto)
  next
    case 2
    then show ?thesis using m by (cases p) (simp_all add: merge_pick_def, auto)
  next
    case 3
    then obtain b where q: "q = Some b" by blast
    from m 3 q obtain a where p: "p = Some a" by (cases p) (simp_all add: merge_pick_def)
    from m 3 show ?thesis
      by (cases "cmp (info s a) (info s b) s") (auto simp: merge_pick_def p q split: if_splits)
  qed
qed

function merge_loop ::
  "list_cmp \<Rightarrow> nat \<Rightarrow> nat \<Rightarrow> nat option \<Rightarrow> nat option \<Rightarrow> nat option \<Rightarrow> nat option \<Rightarrow> core_results \<Rightarrow>
     kfault + (nat option \<times> nat option \<times> nat option \<times> core_results)" where
  "merge_loop cmp psize qsize p q lst tail s =
     (if 0 < psize \<or> 0 < qsize \<and> q \<noteq> None then
        case merge_pick cmp psize qsize p q s of
          Inl err \<Rightarrow> Inl err
        | Inr (e, psize', qsize', p', q', s') \<Rightarrow>
            (case append_cell e lst tail s' of (lst', s'') \<Rightarrow>
               merge_loop cmp psize' qsize' p' q' lst' (Some e) s'')
      else Inr (q, lst, tail, s))"
  by pat_completeness auto
termination
  by (relation "measure (\<lambda>(_, psize, qsize, _). psize + qsize)") (auto dest: merge_pick_decreases)

declare merge_loop.simps [simp del]

text \<open>One pass merges neighbouring runs of \<open>insize\<close> cells; it counts the merges.\<close>

fun merge_pass ::
  "nat \<Rightarrow> list_cmp \<Rightarrow> nat \<Rightarrow> nat option \<Rightarrow> nat option \<Rightarrow> nat option \<Rightarrow> nat \<Rightarrow> core_results \<Rightarrow>
     kfault + (nat option \<times> nat option \<times> nat \<times> core_results)" where
  "merge_pass 0 cmp insize p lst tail nmerges s = Inl Hang"
| "merge_pass (Suc fuel) cmp insize p lst tail nmerges s =
     (case p of
        None \<Rightarrow> Inr (lst, tail, nmerges, s)
      | Some _ \<Rightarrow>
          bindE (step_along insize (nxt s) 0 p) (\<lambda>(psize, q).
          bindE (merge_loop cmp psize insize p q lst tail s) (\<lambda>(q, lst, tail, s).
            merge_pass fuel cmp insize q lst tail (nmerges + 1) s)))"

text \<open>
  The passes, with twice the run length each time.  \<^verbatim>\<open>insize\<close> is a signed 32-bit value; it would
  overflow only for a list of more than \<open>2 ^ 30\<close> cells.
\<close>

fun sort_loop :: "nat \<Rightarrow> nat \<Rightarrow> list_cmp \<Rightarrow> nat \<Rightarrow> nat option \<Rightarrow> core_results \<Rightarrow> kfault + (nat option \<times> core_results)"
where
  "sort_loop 0 passfuel cmp insize lst s = Inl Hang"
| "sort_loop (Suc fuel) passfuel cmp insize lst s =
     bindE (merge_pass passfuel cmp insize lst None None 0 s) (\<lambda>(lst, tail, nmerges, s).
     deref tail (\<lambda>t.
       let s = set_nxt t None s in
       if nmerges \<le> 1 then Inr (lst, s)
       else sort_loop fuel passfuel cmp (insize * 2) lst s))"

definition core_list_mergesort :: "nat \<Rightarrow> list_cmp \<Rightarrow> nat option \<Rightarrow> core_results \<Rightarrow> kfault + (nat option \<times> core_results)"
where
  "core_list_mergesort fuel cmp lst s = sort_loop fuel fuel cmp 1 lst s"

text \<open>
  The comment at the end of a pass says that it allows for the empty list; in fact an empty
  list has already dereferenced a null pointer when the end of the merged list is set.
\<close>

theorem mergesort_empty_faults: "core_list_mergesort (Suc fuel) cmp None s = Inl BadPointer"
  by (simp add: core_list_mergesort_def)

section \<open>The contract of a comparison\<close>

definition lasto :: "nat list \<Rightarrow> nat option" where
  "lasto xs = (if xs = [] then None else Some (last xs))"

locale list_order =
  fixes cmp :: list_cmp
    and D :: "nat set"
    and ok :: "core_results \<Rightarrow> bool"
    and key :: "core_results \<Rightarrow> nat \<Rightarrow> int"
    and fixd :: "core_results \<Rightarrow> nat \<Rightarrow> bool"
    and R :: "core_results \<Rightarrow> core_results \<Rightarrow> bool"
  assumes cmp_law: "ok s \<Longrightarrow> a \<in> D \<Longrightarrow> b \<in> D \<Longrightarrow> \<exists>v s'. cmp a b s = Inr (v, s') \<and> ok s' \<and> R s s' \<and> nxt s' = nxt s \<and>
        fixd s' a \<and> fixd s' b \<and> (v \<le> 0 \<longleftrightarrow> key s' a \<le> key s' b)"
    and R_refl: "R s s"
    and R_trans: "R s s' \<Longrightarrow> R s' s'' \<Longrightarrow> R s s''"
    and R_info: "R s s' \<Longrightarrow> info s' = info s"
    and R_fixd: "R s s' \<Longrightarrow> fixd s c \<Longrightarrow> fixd s' c \<and> key s' c = key s c"
    and R_set: "R s (set_nxt n p s)"
    and ok_set: "ok s \<Longrightarrow> ok (set_nxt n p s)"
begin

definition nkey :: "core_results \<Rightarrow> nat \<Rightarrow> int" where
  "nkey s n = key s (info s n)"

definition nfixed :: "core_results \<Rightarrow> nat \<Rightarrow> bool" where
  "nfixed s n = fixd s (info s n)"

definition good :: "core_results \<Rightarrow> nat list \<Rightarrow> bool" where
  "good s xs \<longleftrightarrow> (\<forall>x \<in> set xs. nfixed s x) \<and> sorted (map (nkey s) xs)"

definition run_ok :: "core_results \<Rightarrow> nat list \<Rightarrow> bool" where
  "run_ok s xs \<longleftrightarrow> length xs \<le> 1 \<or> good s xs"

text \<open>Order of equal elements kept, for every choice of the keys that are not fixed yet.\<close>

definition stable :: "core_results \<Rightarrow> nat list \<Rightarrow> nat list \<Rightarrow> bool" where
  "stable s xs ys \<longleftrightarrow> (\<forall>f. (\<forall>n. nfixed s n \<longrightarrow> f n = nkey s n) \<longrightarrow>
     (\<forall>k. filter (\<lambda>n. f n = k) xs = filter (\<lambda>n. f n = k) ys))"

lemma R_node: "R s s' \<Longrightarrow> nfixed s n \<Longrightarrow> nfixed s' n \<and> nkey s' n = nkey s n"
  using R_fixd [of s s' "info s n"] by (simp add: nfixed_def nkey_def R_info)

lemma R_good: "R s s' \<Longrightarrow> good s xs \<Longrightarrow> good s' xs"
  using R_node [of s s'] by (auto simp: good_def cong: map_cong)

lemma R_run_ok: "R s s' \<Longrightarrow> run_ok s xs \<Longrightarrow> run_ok s' xs"
  by (auto simp: run_ok_def intro: R_good)

lemma run_ok_head: "run_ok s xs \<Longrightarrow> xs \<noteq> [] \<Longrightarrow> R s s' \<Longrightarrow> nfixed s' (hd xs) \<Longrightarrow> good s' xs"
proof (cases "length xs \<le> 1")
  case True
  assume "xs \<noteq> []" "nfixed s' (hd xs)"
  with True show ?thesis by (cases xs) (auto simp: good_def)
qed (auto simp: run_ok_def intro: R_good)

lemma good_tl: "good s (x # xs) \<Longrightarrow> good s xs"
  by (simp add: good_def)

lemma good_head: "good s (x # xs) \<Longrightarrow> y \<in> set xs \<Longrightarrow> nkey s x \<le> nkey s y"
  by (simp add: good_def)

lemma good_run: "good s xs \<Longrightarrow> run_ok s xs"
  by (simp add: run_ok_def)

lemma stable_refl: "stable s xs xs"
  by (simp add: stable_def)

lemma stable_R: "stable s xs ys \<Longrightarrow> R s s' \<Longrightarrow> stable s' xs ys"
  using R_node [of s s'] unfolding stable_def by metis

lemma stable_trans: "stable s xs ys \<Longrightarrow> stable s ys zs \<Longrightarrow> stable s xs zs"
  by (simp add: stable_def)

lemma stable_append: "stable s xs ys \<Longrightarrow> stable s xs' ys' \<Longrightarrow> stable s (xs @ xs') (ys @ ys')"
  by (simp add: stable_def)

text \<open>A fixed element that is smaller than all fixed elements before it may move in front.\<close>

lemma stable_move:
  assumes "stable s zs (ps @ qs)" "nfixed s e" "\<forall>x \<in> set ps. nfixed s x \<and> nkey s e < nkey s x"
  shows "stable s (e # zs) (ps @ e # qs)"
  unfolding stable_def
proof (intro allI impI)
  fix f k assume f: "\<forall>n. nfixed s n \<longrightarrow> f n = nkey s n"
  then have z: "filter (\<lambda>n. f n = k) zs = filter (\<lambda>n. f n = k) (ps @ qs)"
    using assms(1) by (simp add: stable_def)
  have "filter (\<lambda>n. f n = k) ps = []" if "f e = k"
    using that f assms(2,3) by (auto simp: filter_empty_conv)
  with z show "filter (\<lambda>n. f n = k) (e # zs) = filter (\<lambda>n. f n = k) (ps @ e # qs)"
    by simp
qed

text \<open>One comparison makes both runs good, in the state after it.\<close>

lemma pick_compared:
  assumes "ok s" "run_ok s (a # ps)" "run_ok s (b # qs)" "nxt s a = pa" "nxt s b = qb"
    "info s a \<in> D" "info s b \<in> D"
  shows "\<exists>s1. ok s1 \<and> R s s1 \<and> nxt s1 = nxt s \<and> good s1 (a # ps) \<and> good s1 (b # qs) \<and>
    merge_pick cmp (Suc m) (Suc k) (Some a) (Some b) s =
      (if nkey s1 a \<le> nkey s1 b then Inr (a, m, Suc k, pa, Some b, s1)
       else Inr (b, Suc m, k, Some a, qb, s1))"
proof -
  obtain v s1 where c: "cmp (info s a) (info s b) s = Inr (v, s1)" "ok s1" "R s s1" "nxt s1 = nxt s"
    "fixd s1 (info s a)" "fixd s1 (info s b)" "v \<le> 0 \<longleftrightarrow> key s1 (info s a) \<le> key s1 (info s b)"
    using cmp_law [OF assms(1,6,7)] by blast
  then have "info s1 = info s" using R_info by blast
  with c have "nfixed s1 a" "nfixed s1 b" "v \<le> 0 \<longleftrightarrow> nkey s1 a \<le> nkey s1 b"
    by (simp_all add: nfixed_def nkey_def)
  then show ?thesis
    using c assms run_ok_head [of s "a # ps" s1] run_ok_head [of s "b # qs" s1]
    by (intro exI [of _ s1]) (simp add: merge_pick_def)
qed

lemma append_cell_links:
  assumes "chain (nxt s) out" "e \<notin> set out" "distinct out"
  shows "\<exists>s'. append_cell e (first out) (lasto out) s = (first (out @ [e]), s') \<and>
    chain (nxt s') (out @ [e]) \<and> (\<forall>n. n \<notin> set out \<longrightarrow> nxt s' n = nxt s n) \<and>
    R s s' \<and> (ok s \<longrightarrow> ok s')"
proof (cases "out = []")
  case False
  then have "last out \<in> set out" by simp
  have "chain ((nxt s)(last out := Some e)) out" by (rule chain_upd_last) (use assms in auto)
  then show ?thesis
    using False \<open>last out \<in> set out\<close> R_set ok_set
    by (auto simp: append_cell_def lasto_def chain_append)
qed (use R_refl in \<open>auto simp: append_cell_def lasto_def\<close>)

definition merged :: "core_results \<Rightarrow> core_results \<Rightarrow> nat list \<Rightarrow> nat list \<Rightarrow> nat list \<Rightarrow> nat list \<Rightarrow> nat list \<Rightarrow> bool" where
  "merged s s' out ps qs rest zs \<longleftrightarrow>
     linked (nxt s') (first rest) rest \<and> chain (nxt s') (out @ zs) \<and> mset zs = mset (ps @ qs) \<and>
     (\<forall>n. n \<notin> set (out @ ps @ qs) \<longrightarrow> nxt s' n = nxt s n) \<and> ok s' \<and> R s s' \<and>
     (ps = [] \<longrightarrow> zs = qs) \<and> (qs = [] \<longrightarrow> zs = ps) \<and> (ps \<noteq> [] \<longrightarrow> qs \<noteq> [] \<longrightarrow> good s' zs) \<and>
     stable s' zs (ps @ qs)"

text \<open>The element taken is put in front of what the rest of the merge returns.\<close>

lemma merged_from_p:
  assumes IH: "merged s2 s' (out @ [e]) ps qs rest zs"
    and s2: "\<forall>n. n \<notin> set out \<longrightarrow> nxt s2 n = nxt s n" "R s s2"
    and g: "qs \<noteq> [] \<longrightarrow> good s2 (e # ps) \<and> good s2 qs \<and> nkey s2 e \<le> nkey s2 (hd qs)"
  shows "merged s s' out (e # ps) qs rest (e # zs)"
proof -
  have R: "R s2 s'" and m: "mset zs = mset (ps @ qs)" and st: "stable s' zs (ps @ qs)"
    using IH by (simp_all add: merged_def)
  have "good s' (e # zs)" if "qs \<noteq> []"
  proof -
    have gz: "good s' zs"
    proof (cases "ps = []")
      case True
      then show ?thesis using IH that g R_good [OF R] by (simp add: merged_def)
    qed (use IH that in \<open>simp add: merged_def\<close>)
    have ge: "good s' (e # ps)" "good s' qs" using g that R_good [OF R] by blast+
    have "hd qs \<in> set qs" using that by simp
    then have "nkey s' e \<le> nkey s' (hd qs)"
      using g that R_node [OF R, of e] R_node [OF R, of "hd qs"] by (auto simp: good_def)
    moreover have "nkey s' (hd qs) \<le> nkey s' x" if "x \<in> set qs" for x
      using that ge(2) by (cases qs) (auto simp: good_def)
    ultimately have "nkey s' e \<le> nkey s' x" if "x \<in> set zs" for x
      using that ge(1) mset_eq_setD [OF m] by (fastforce simp: good_def)
    then show ?thesis using gz ge(1) by (simp add: good_def)
  qed
  moreover have "R s s'" using R_trans [OF s2(2) R] .
  moreover have "stable s' (e # zs) ((e # ps) @ qs)"
    using stable_append [OF stable_refl [of s' "[e]"] st] by simp
  ultimately show ?thesis
    using IH s2(1) by (simp add: merged_def)
qed

lemma merged_from_q:
  assumes IH: "merged s2 s' (out @ [e]) ps qs rest zs"
    and s2: "\<forall>n. n \<notin> set out \<longrightarrow> nxt s2 n = nxt s n" "R s s2"
    and g: "ps \<noteq> [] \<longrightarrow> good s2 (e # qs) \<and> good s2 ps \<and> nkey s2 e < nkey s2 (hd ps)"
  shows "merged s s' out ps (e # qs) rest (e # zs)"
proof -
  have R: "R s2 s'" and m: "mset zs = mset (ps @ qs)" and st: "stable s' zs (ps @ qs)"
    using IH by (simp_all add: merged_def)
  have less: "nfixed s' e \<and> (\<forall>x \<in> set ps. nfixed s' x \<and> nkey s' e < nkey s' x)" if "ps \<noteq> []"
  proof -
    have ge: "good s' (e # qs)" "good s' ps" using g that R_good [OF R] by blast+
    have "nkey s' e < nkey s' (hd ps)"
      using g that R_node [OF R, of e] R_node [OF R, of "hd ps"] hd_in_set [OF that]
      by (auto simp: good_def)
    moreover have "nkey s' (hd ps) \<le> nkey s' x" if "x \<in> set ps" for x
      using that ge(2) by (cases ps) (auto simp: good_def)
    ultimately show ?thesis using ge by (fastforce simp: good_def)
  qed
  have "good s' (e # zs)" if "ps \<noteq> []"
  proof -
    have gz: "good s' zs"
    proof (cases "qs = []")
      case True
      then show ?thesis using IH that g R_good [OF R] by (simp add: merged_def)
    qed (use IH that in \<open>simp add: merged_def\<close>)
    have ge: "good s' (e # qs)" using g that R_good [OF R] by blast
    have "nkey s' e \<le> nkey s' x" if "x \<in> set zs" for x
      using that ge less \<open>ps \<noteq> []\<close> mset_eq_setD [OF m] by (fastforce simp: good_def)
    then show ?thesis using gz ge by (simp add: good_def)
  qed
  moreover have "R s s'" using R_trans [OF s2(2) R] .
  moreover have "stable s' (e # zs) (ps @ e # qs)"
  proof (cases "ps = []")
    case True
    then show ?thesis using stable_append [OF stable_refl [of s' "[e]"] st] by simp
  qed (use stable_move [OF st] less in auto)
  ultimately show ?thesis
    using IH s2(1) m by (simp add: merged_def)
qed

lemma links_cong: "(\<And>x. x \<in> set xs \<Longrightarrow> nx x = ny x) \<Longrightarrow> chain nx xs = chain ny xs"
  by (induction nx xs rule: chain.induct) auto

text \<open>
  One merge: \<open>out\<close> is the merged list so far, \<open>ps\<close> and \<open>qs\<close> are what is left of the two runs and
  \<open>rest\<close> is the list behind them.
\<close>

lemma merge_loop_merged:
  assumes "ok s" "distinct (out @ ps @ qs @ rest)" "chain (nxt s) out"
    "chain (nxt s) ps" "ps \<noteq> [] \<longrightarrow> p = first ps" "linked (nxt s) q (qs @ rest)"
    "length qs \<le> qsize" "length qs < qsize \<longrightarrow> rest = []" "run_ok s ps" "run_ok s qs" "info s ` set (ps @ qs) \<subseteq> D"
  shows "\<exists>zs s'. merge_loop cmp (length ps) qsize p q (first out) (lasto out) s
      = Inr (first rest, first (out @ zs), lasto (out @ zs), s') \<and> merged s s' out ps qs rest zs"
  using assms
proof (induction "length ps + length qs" arbitrary: s out ps qs p q qsize)
  case 0
  then have "ps = []" "qs = []" by auto
  moreover have "\<not> (0 < qsize \<and> q \<noteq> None)" using 0 by (auto dest: linked_first)
  ultimately show ?case
    using 0 R_refl linked_first [of "nxt s" q rest]
    by (subst merge_loop.simps) (auto simp: merged_def stable_refl)
next
  case (Suc n)
  have step: "\<exists>zs s'. merge_loop cmp (length ps) qsize p q (first out) (lasto out) s
      = Inr (first rest, first (out @ zs), lasto (out @ zs), s') \<and> merged s s' out ps qs rest zs"
    if pick: "merge_pick cmp (length ps) qsize p q s = Inr (e, length ps', qsize', p', q', s1)"
      and s1: "ok s1" "R s s1" "nxt s1 = nxt s"
      and src: "(ps = e # ps' \<and> qs = qs' \<and> qsize' = qsize \<and> p' = nxt s e \<and> q' = q \<and>
          (qs \<noteq> [] \<longrightarrow> good s1 ps \<and> good s1 qs \<and> nkey s1 e \<le> nkey s1 (hd qs))) \<or>
        (qs = e # qs' \<and> ps = ps' \<and> qsize = Suc qsize' \<and> q' = nxt s e \<and> p' = p \<and>
          (ps \<noteq> [] \<longrightarrow> good s1 qs \<and> good s1 ps \<and> nkey s1 e < nkey s1 (hd ps)))"
    for e ps' qs' qsize' p' q' s1
  proof -
    have cond: "0 < length ps \<or> 0 < qsize \<and> q \<noteq> None"
      using src Suc.prems(6,7) by (auto dest: linked_first)
    have ed: "e \<notin> set out" "distinct out" using src Suc.prems(2) by auto
    obtain s2 where s2: "append_cell e (first out) (lasto out) s1 = (first (out @ [e]), s2)"
      "chain (nxt s2) (out @ [e])" "\<forall>n. n \<notin> set out \<longrightarrow> nxt s2 n = nxt s n" "R s1 s2" "ok s2"
      using append_cell_links [of s1 out e] ed s1 Suc.prems(3) by auto
    have same: "nxt s2 x = nxt s x" if "x \<in> set (ps @ qs @ rest)" for x
      using that s2(3) Suc.prems(2) by auto
    have Rs2: "R s s2" using R_trans [OF s1(2) s2(4)] .
    have links: "chain (nxt s2) ps'" "ps' \<noteq> [] \<longrightarrow> p' = first ps'" "linked (nxt s2) q' (qs' @ rest)"
    proof -
      have c: "chain (nxt s2) ps" "linked (nxt s2) q (qs @ rest)"
        using links_cong [of ps "nxt s2" "nxt s"] linked_cong [of "qs @ rest" "nxt s2" "nxt s"]
          same Suc.prems(4,6) by auto
      have ne: "nxt s2 e = nxt s e" using src same by auto
      show "chain (nxt s2) ps'" using c(1) src by (cases ps') auto
      show "ps' \<noteq> [] \<longrightarrow> p' = first ps'"
        using src Suc.prems(4,5) by (cases ps') auto
      show "linked (nxt s2) q' (qs' @ rest)" using c(2) src ne by auto
    qed
    have runs: "run_ok s2 ps'" "run_ok s2 qs'"
      using src Suc.prems(9,10) R_run_ok [OF Rs2] R_good [OF s2(4)]
      by (auto intro!: good_run simp: run_ok_def dest: good_tl R_good [OF Rs2])
    have "\<exists>zs s'. merge_loop cmp (length ps') qsize' p' q' (first (out @ [e])) (lasto (out @ [e])) s2
        = Inr (first rest, first ((out @ [e]) @ zs), lasto ((out @ [e]) @ zs), s') \<and>
          merged s2 s' (out @ [e]) ps' qs' rest zs"
    proof (rule Suc.hyps(1))
      show "n = length ps' + length qs'" using src Suc.hyps(2) by auto
      show "distinct ((out @ [e]) @ ps' @ qs' @ rest)" using src Suc.prems(2) by auto
      show "length qs' \<le> qsize'" "length qs' < qsize' \<longrightarrow> rest = []" using src Suc.prems(7,8) by auto
      have "set (ps' @ qs') \<subseteq> set (ps @ qs)" using src by auto
      then show "info s2 ` set (ps' @ qs') \<subseteq> D"
        using Suc.prems(11) unfolding R_info [OF Rs2] by (rule subset_trans [OF image_mono])
    qed (use s2 links runs in simp_all)
    then obtain zs s' where r: "merge_loop cmp (length ps') qsize' p' q' (first (out @ [e])) (lasto (out @ [e])) s2
        = Inr (first rest, first ((out @ [e]) @ zs), lasto ((out @ [e]) @ zs), s')"
      and m: "merged s2 s' (out @ [e]) ps' qs' rest zs" by blast
    have "merge_loop cmp (length ps) qsize p q (first out) (lasto out) s
        = Inr (first rest, first (out @ e # zs), lasto (out @ e # zs), s')"
      using cond pick s2(1) r by (subst merge_loop.simps) (simp add: lasto_def)
    moreover have "merged s s' out ps qs rest (e # zs)"
    proof -
      have n2: "nkey s2 x = nkey s1 x" if "nfixed s1 x" for x using R_node [OF s2(4) that] by simp
      from src show ?thesis
      proof (elim disjE conjE)
        assume a: "ps = e # ps'" "qs = qs'"
          "qs \<noteq> [] \<longrightarrow> good s1 ps \<and> good s1 qs \<and> nkey s1 e \<le> nkey s1 (hd qs)"
        have "qs' \<noteq> [] \<longrightarrow> good s2 (e # ps') \<and> good s2 qs' \<and> nkey s2 e \<le> nkey s2 (hd qs')"
        proof
          assume "qs' \<noteq> []"
          with a have g: "good s1 ps" "good s1 qs" "nkey s1 e \<le> nkey s1 (hd qs)" by auto
          then have "nfixed s1 e" "nfixed s1 (hd qs)"
            using a \<open>qs' \<noteq> []\<close> by (auto simp: good_def)
          with g show "good s2 (e # ps') \<and> good s2 qs' \<and> nkey s2 e \<le> nkey s2 (hd qs')"
            using R_good [OF s2(4)] n2 a(1,2) by simp
        qed
        with a show ?thesis using merged_from_p [OF m s2(3) Rs2] a by simp
      next
        assume a: "qs = e # qs'" "ps = ps'"
          "ps \<noteq> [] \<longrightarrow> good s1 qs \<and> good s1 ps \<and> nkey s1 e < nkey s1 (hd ps)"
        have "ps' \<noteq> [] \<longrightarrow> good s2 (e # qs') \<and> good s2 ps' \<and> nkey s2 e < nkey s2 (hd ps')"
        proof
          assume "ps' \<noteq> []"
          with a have g: "good s1 qs" "good s1 ps" "nkey s1 e < nkey s1 (hd ps)" by auto
          then have "nfixed s1 e" "nfixed s1 (hd ps)"
            using a \<open>ps' \<noteq> []\<close> by (auto simp: good_def)
          with g show "good s2 (e # qs') \<and> good s2 ps' \<and> nkey s2 e < nkey s2 (hd ps')"
            using R_good [OF s2(4)] n2 a(1,2) by simp
        qed
        with a show ?thesis using merged_from_q [OF m s2(3) Rs2] a by simp
      qed
    qed
    ultimately show ?thesis by blast
  qed
  consider b qs' where "ps = []" "qs = b # qs'" | a ps' where "ps = a # ps'" "qs = []"
    | a ps' b qs' where "ps = a # ps'" "qs = b # qs'"
    using Suc.hyps(2) by (cases ps; cases qs) auto
  then show ?case
  proof cases
    case 1
    then obtain k where k: "qsize = Suc k" using Suc.prems(7) by (cases qsize) auto
    have "merge_pick cmp (length ps) qsize p q s = Inr (b, length ([] :: nat list), k, p, nxt s b, s)"
      using 1 k Suc.prems(6) by (simp add: merge_pick_def)
    then show ?thesis
      by (rule step [where qs' = qs']) (use 1 k Suc.prems R_refl in auto)
  next
    case 2
    have "qsize = 0 \<or> q = None"
      using 2 Suc.prems(6,8) by (cases "qsize = 0") auto
    then have "merge_pick cmp (length ps) qsize p q s = Inr (a, length ps', qsize, nxt s a, q, s)"
      using 2 Suc.prems(5) by (auto simp: merge_pick_def)
    then show ?thesis
      by (rule step [where qs' = qs]) (use 2 Suc.prems R_refl in auto)
  next
    case 3
    then obtain k where k: "qsize = Suc k" using Suc.prems(7) by (cases qsize) auto
    have pq: "p = Some a" "q = Some b" using 3 Suc.prems(5,6) by auto
    obtain s1 where s1: "ok s1" "R s s1" "nxt s1 = nxt s" "good s1 (a # ps')" "good s1 (b # qs')"
      and pick: "merge_pick cmp (Suc (length ps')) (Suc k) (Some a) (Some b) s =
        (if nkey s1 a \<le> nkey s1 b then Inr (a, length ps', Suc k, nxt s a, Some b, s1)
         else Inr (b, Suc (length ps'), k, Some a, nxt s b, s1))"
      using pick_compared [of s a ps' b qs' "nxt s a" "nxt s b" "length ps'" k] 3 Suc.prems(1,9-11) by auto
    show ?thesis
    proof (cases "nkey s1 a \<le> nkey s1 b")
      case True
      then have "merge_pick cmp (length ps) qsize p q s = Inr (a, length ps', qsize, nxt s a, q, s1)"
        using pick 3 k pq by simp
      then show ?thesis
        by (rule step [where qs' = qs]) (use 3 True s1 in auto)
    next
      case False
      then have "merge_pick cmp (length ps) qsize p q s = Inr (b, length ps, k, p, nxt s b, s1)"
        using pick 3 k pq by simp
      then show ?thesis
        by (rule step [where qs' = qs']) (use 3 False s1 k in auto)
    qed
  qed
qed

definition runs_ok :: "core_results \<Rightarrow> nat \<Rightarrow> nat list \<Rightarrow> bool" where
  "runs_ok s w xs \<longleftrightarrow> (\<forall>i. run_ok s (take w (drop (i * w) xs)))"

lemma runs_ok_append:
  assumes "run_ok s z" "runs_ok s w zs" "length z \<le> w" "zs \<noteq> [] \<longrightarrow> length z = w"
  shows "runs_ok s w (z @ zs)"
  unfolding runs_ok_def
proof
  fix i
  show "run_ok s (take w (drop (i * w) (z @ zs)))"
  proof (cases "zs = []")
    case True
    have "run_ok s []" by (simp add: run_ok_def)
    then show ?thesis using True assms(1,3) by (cases i) simp_all
  next
    case False
    then have "length z = w" using assms(4) by simp
    then show ?thesis using assms(1,2) by (cases i) (simp_all add: runs_ok_def)
  qed
qed

lemma runs_ok_drop: "runs_ok s w xs \<Longrightarrow> runs_ok s w (drop (2 * w) xs)"
proof -
  assume r: "runs_ok s w xs"
  have "(i + 2) * w = i * w + 2 * w" for i by (simp add: algebra_simps)
  with r show ?thesis
    unfolding runs_ok_def drop_drop by (metis add.commute)
qed

lemma count_merges:
  assumes "0 < l" "0 < (v :: nat)"
  shows "1 + (l - v + v - 1) div v = (l + v - 1) div v"
proof -
  obtain k where k: "l = Suc k" using assms(1) by (cases l) auto
  have "(k + v) div v = k div v + 1" using assms(2) by (intro div_add_self2) simp
  then have "(l + v - 1) div v = 1 + k div v" using k by simp
  moreover have "(l - v + v - 1) div v = k div v"
  proof (cases "l \<le> v")
    case True
    then have "k div v = 0" "(v - 1) div v = 0" using k assms(2) by (simp_all add: div_less)
    then show ?thesis using True by simp
  qed (use k in simp)
  ultimately show ?thesis by simp
qed

lemma step_along_linked:
  "linked nx q ns \<Longrightarrow> ns \<noteq> [] \<Longrightarrow> step_along k nx m q = Inr (m + min k (length ns), first (drop k ns))"
proof (induction k arbitrary: m q ns)
  case 0
  then show ?case by (simp add: linked_first)
next
  case (Suc k)
  then obtain x xs where ns: "ns = x # xs" by (cases ns) auto
  with Suc.prems have q: "q = Some x" "linked nx (nx x) xs" by auto
  then show ?case using Suc.IH [of "nx x" xs "m + 1"] ns by (cases xs) auto
qed

lemma merge_pass_runs:
  assumes "ok s" "distinct (out @ ns)" "chain (nxt s) out" "linked (nxt s) p ns" "0 < w"
    "runs_ok s w ns" "length ns < fuel" "info s ` set ns \<subseteq> D"
  shows "\<exists>zs s'. merge_pass fuel cmp w p (first out) (lasto out) m s
      = Inr (first (out @ zs), lasto (out @ zs), m + (length ns + 2 * w - 1) div (2 * w), s') \<and>
    chain (nxt s') (out @ zs) \<and> mset zs = mset ns \<and>
    (\<forall>n. n \<notin> set (out @ ns) \<longrightarrow> nxt s' n = nxt s n) \<and> ok s' \<and> R s s' \<and>
    runs_ok s' (2 * w) zs \<and> stable s' zs ns"
  using assms
proof (induction fuel arbitrary: s out ns p m)
  case (Suc fuel)
  show ?case
  proof (cases "ns = []")
    case True
    have "runs_ok s (2 * w) []" by (simp add: runs_ok_def run_ok_def)
    then show ?thesis
      using True Suc.prems R_refl stable_refl by (intro exI [of _ "[]"] exI [of _ s]) (auto simp: div_eq_0_iff)
  next
    case False
    let ?ps = "take w ns" and ?qs = "take w (drop w ns)" and ?rest = "drop (2 * w) ns"
    have split: "ns = ?ps @ ?qs @ ?rest" by (simp add: mult_2 flip: drop_drop)
    have ps: "?ps \<noteq> []" using False Suc.prems(5) by simp
    obtain x xs where x: "ns = x # xs" using False by (cases ns) auto
    have p: "p = Some x" using Suc.prems(4) x by simp
    have along: "step_along w (nxt s) 0 p = Inr (length ?ps, first (drop w ns))"
      using step_along_linked [OF Suc.prems(4) False, of w 0] by (simp add: min.commute)
    have "chain (nxt s) (?ps @ drop w ns)" using linked_chain [OF Suc.prems(4)] by simp
    then have ch: "chain (nxt s) ?ps" by (simp only: chain_append)
    have "linked (nxt s) p (?ps @ drop w ns)" using Suc.prems(4) by simp
    then have "linked (nxt s) (first (drop w ns)) (drop w ns)" by (rule linked_suffix)
    then have lq: "linked (nxt s) (first (drop w ns)) (?qs @ ?rest)"
      by (simp add: mult_2 flip: drop_drop)
    have d: "distinct (out @ ?ps @ ?qs @ ?rest)" using Suc.prems(2) split by simp
    have r: "run_ok s ?ps" "run_ok s ?qs"
      using Suc.prems(6) unfolding runs_ok_def by (metis drop_0 mult_0, metis mult_1)
    have sh: "length ?qs \<le> w" "length ?qs < w \<longrightarrow> ?rest = []" by auto
    have dps: "info s ` set (?ps @ ?qs) \<subseteq> D"
      using Suc.prems(8) by (auto dest: in_set_takeD in_set_dropD)
    obtain z s1 where l: "merge_loop cmp (length ?ps) w p (first (drop w ns)) (first out) (lasto out) s
        = Inr (first ?rest, first (out @ z), lasto (out @ z), s1)"
      and m1: "merged s s1 out ?ps ?qs ?rest z"
      using merge_loop_merged [OF Suc.prems(1) d Suc.prems(3) ch _ lq sh r dps] p x ps
      by (metis (no_types, lifting) first_append first_simps(2) append_take_drop_id)
    have R1: "R s s1" and mz: "mset z = mset (?ps @ ?qs)" using m1 by (simp_all add: merged_def)
    have setz: "set z = set (?ps @ ?qs)" using mset_eq_setD [OF mz] .
    have lz: "length z = length (?ps @ ?qs)" using mset_eq_length [OF mz] .
    have "\<exists>zs s'. merge_pass fuel cmp w (first ?rest) (first (out @ z)) (lasto (out @ z)) (m + 1) s1
        = Inr (first ((out @ z) @ zs), lasto ((out @ z) @ zs),
               m + 1 + (length ?rest + 2 * w - 1) div (2 * w), s') \<and>
      chain (nxt s') ((out @ z) @ zs) \<and> mset zs = mset ?rest \<and>
      (\<forall>n. n \<notin> set ((out @ z) @ ?rest) \<longrightarrow> nxt s' n = nxt s1 n) \<and> ok s' \<and> R s1 s' \<and>
      runs_ok s' (2 * w) zs \<and> stable s' zs ?rest"
    proof (rule Suc.IH)
      show "distinct ((out @ z) @ ?rest)"
        using d setz mset_eq_imp_distinct_iff [OF mz] by auto
      show "runs_ok s1 w ?rest"
        using runs_ok_drop [OF Suc.prems(6)] R_run_ok [OF R1] by (simp add: runs_ok_def)
      show "length ?rest < fuel" using Suc.prems(5,7) False by (cases ns) auto
      show "info s1 ` set ?rest \<subseteq> D" using Suc.prems(8) R_info [OF R1] by (auto dest: in_set_dropD)
    qed (use m1 Suc.prems(5) in \<open>simp_all add: merged_def\<close>)
    then obtain zs s' where pass: "merge_pass fuel cmp w (first ?rest) (first (out @ z)) (lasto (out @ z)) (m + 1) s1
        = Inr (first ((out @ z) @ zs), lasto ((out @ z) @ zs),
               m + 1 + (length ?rest + 2 * w - 1) div (2 * w), s')"
      and c': "chain (nxt s') ((out @ z) @ zs)" and ms: "mset zs = mset ?rest"
      and fr: "\<forall>n. n \<notin> set ((out @ z) @ ?rest) \<longrightarrow> nxt s' n = nxt s1 n"
      and k': "ok s'" "R s1 s'" "runs_ok s' (2 * w) zs" "stable s' zs ?rest" by blast
    have count: "m + 1 + (length ?rest + 2 * w - 1) div (2 * w) = m + (length ns + 2 * w - 1) div (2 * w)"
      using count_merges [of "length ns" "2 * w"] False Suc.prems(5) by simp
    have "merge_pass (Suc fuel) cmp w p (first out) (lasto out) m s
        = Inr (first (out @ z @ zs), lasto (out @ z @ zs), m + (length ns + 2 * w - 1) div (2 * w), s')"
      using p along l pass count by simp
    moreover have "runs_ok s' (2 * w) (z @ zs)"
    proof (rule runs_ok_append [OF _ k'(3)])
      have "run_ok s1 z"
        using m1 r(1) ps by (cases "?qs = []") (auto simp: merged_def intro: good_run R_run_ok)
      then show "run_ok s' z" by (rule R_run_ok [OF k'(2)])
      show "length z \<le> 2 * w" using lz by simp
      show "zs \<noteq> [] \<longrightarrow> length z = 2 * w"
      proof
        assume "zs \<noteq> []"
        then have "0 < length zs" by simp
        then have "2 * w < length ns" using mset_eq_length [OF ms] by (simp del: length_greater_0_conv)
        then show "length z = 2 * w" using lz by auto
      qed
    qed
    moreover have "stable s' (z @ zs) ns"
      using stable_append [OF stable_R [OF _ k'(2)] k'(4), of z "?ps @ ?qs"] m1 split
      by (simp add: merged_def)
    moreover have "mset (z @ zs) = mset ns"
    proof -
      have "mset (z @ zs) = mset (?ps @ ?qs @ ?rest)" using mz ms by simp
      then show ?thesis using split by simp
    qed
    moreover have "\<forall>n. n \<notin> set (out @ ns) \<longrightarrow> nxt s' n = nxt s n"
    proof (intro allI impI)
      fix n assume "n \<notin> set (out @ ns)"
      then have "n \<notin> set (out @ ?ps @ ?qs @ ?rest)" using split by (metis set_append)
      then show "nxt s' n = nxt s n" using fr m1 setz by (auto simp: merged_def)
    qed
    moreover have "R s s'" using R_trans [OF R1 k'(2)] .
    ultimately show ?thesis using c' k'(1) by (intro exI [of _ "z @ zs"] exI [of _ s']) simp
  qed
qed simp

lemma sort_loop_sorts:
  assumes "ok s" "distinct ns" "ns \<noteq> []" "linked (nxt s) lst ns" "0 < w" "runs_ok s w ns"
    "length ns < passfuel" "length ns \<le> w * 2 ^ fuel" "0 < fuel" "info s ` set ns \<subseteq> D"
  shows "\<exists>ms s'. sort_loop fuel passfuel cmp w lst s = Inr (first ms, s') \<and>
    linked (nxt s') (first ms) ms \<and> mset ms = mset ns \<and> (\<forall>n. n \<notin> set ns \<longrightarrow> nxt s' n = nxt s n) \<and>
    ok s' \<and> R s s' \<and> run_ok s' ms \<and> stable s' ms ns"
  using assms
proof (induction fuel arbitrary: s ns lst w)
  case (Suc fuel)
  let ?c = "(length ns + 2 * w - 1) div (2 * w)"
  obtain zs s1 where pass: "merge_pass passfuel cmp w lst None None 0 s = Inr (first zs, lasto zs, ?c, s1)"
    and z: "chain (nxt s1) zs" "mset zs = mset ns" "\<forall>n. n \<notin> set ns \<longrightarrow> nxt s1 n = nxt s n"
      "ok s1" "R s s1" "runs_ok s1 (2 * w) zs" "stable s1 zs ns"
    using merge_pass_runs [of s "[]" ns lst w passfuel 0] Suc.prems by (auto simp: lasto_def)
  let ?s = "set_nxt (last zs) None s1"
  have ne: "zs \<noteq> []" using z(2) Suc.prems(3) by auto
  have dz: "distinct zs" and sz: "set zs = set ns" and lz: "length zs = length ns"
    using mset_eq_imp_distinct_iff [OF z(2)] mset_eq_setD [OF z(2)] mset_eq_length [OF z(2)] Suc.prems(2)
    by auto
  have link: "linked (nxt ?s) (first zs) zs"
    using chain_upd_last [OF dz z(1)] by (simp add: linked_iff_chain)
  have Rs: "R s1 ?s" "R s ?s" using R_set R_trans [OF z(5)] by auto
  have ok': "ok ?s" using ok_set [OF z(4)] .
  have frame: "\<forall>n. n \<notin> set ns \<longrightarrow> nxt ?s n = nxt s n" using z(3) sz ne by auto
  have st: "stable ?s zs ns" using stable_R [OF z(7) Rs(1)] .
  have eq: "sort_loop (Suc fuel) passfuel cmp w lst s =
      (if ?c \<le> 1 then Inr (first zs, ?s) else sort_loop fuel passfuel cmp (w * 2) (first zs) ?s)"
    using pass ne by (simp add: lasto_def Let_def)
  show ?case
  proof (cases "length ns \<le> 2 * w")
    case True
    then have "?c < 2" using Suc.prems(5) by (intro less_mult_imp_div_less) simp
    then have "sort_loop (Suc fuel) passfuel cmp w lst s = Inr (first zs, ?s)" using eq by simp
    moreover have "run_ok ?s zs"
      using z(6) True lz R_run_ok [OF Rs(1)] unfolding runs_ok_def
      by (metis drop_0 mult_0 take_all)
    ultimately show ?thesis using link z(2) frame ok' Rs(2) st by blast
  next
    case False
    have "2 * (2 * w) \<le> length ns + 2 * w - 1" using False by simp
    then have "2 \<le> ?c" using Suc.prems(5) by (simp add: less_eq_div_iff_mult_less_eq)
    then have e: "sort_loop (Suc fuel) passfuel cmp w lst s = sort_loop fuel passfuel cmp (w * 2) (first zs) ?s"
      using eq by simp
    have f: "0 < fuel" using False Suc.prems(8) by (cases fuel) auto
    have "\<exists>ms s'. sort_loop fuel passfuel cmp (w * 2) (first zs) ?s = Inr (first ms, s') \<and>
      linked (nxt s') (first ms) ms \<and> mset ms = mset zs \<and> (\<forall>n. n \<notin> set zs \<longrightarrow> nxt s' n = nxt ?s n) \<and>
      ok s' \<and> R ?s s' \<and> run_ok s' ms \<and> stable s' ms zs"
    proof (rule Suc.IH [OF ok' dz ne link])
      show "runs_ok ?s (w * 2) zs"
        using z(6) R_run_ok [OF Rs(1)] by (simp add: runs_ok_def mult.commute)
      show "length zs \<le> w * 2 * 2 ^ fuel" using Suc.prems(8) lz by simp
      show "info ?s ` set zs \<subseteq> D" using Suc.prems(10) sz R_info [OF Rs(2)] by simp
    qed (use Suc.prems lz f in simp_all)
    then obtain ms s' where m: "sort_loop fuel passfuel cmp (w * 2) (first zs) ?s = Inr (first ms, s')"
      "linked (nxt s') (first ms) ms" "mset ms = mset zs" "\<forall>n. n \<notin> set zs \<longrightarrow> nxt s' n = nxt ?s n"
      "ok s'" "R ?s s'" "run_ok s' ms" "stable s' ms zs" by blast
    then show ?thesis
      using e z(2) frame sz R_trans [OF Rs(2) m(6)] stable_trans [OF m(8) stable_R [OF st m(6)]]
      by (intro exI [of _ ms] exI [of _ s']) auto
  qed
qed simp

text \<open>
  The sort: with as many rounds as the list has cells, and one more, it returns, and the new list
  is the stable sort of the old one by the keys in the final state.
\<close>

lemma mergesort_sorts:
  assumes "ok s" "distinct ns" "2 \<le> length ns" "linked (nxt s) lst ns" "length ns < fuel"
    "info s ` set ns \<subseteq> D"
  shows "\<exists>s'. core_list_mergesort fuel cmp lst s = Inr (first (sort_key (nkey s') ns), s') \<and>
    linked (nxt s') (first (sort_key (nkey s') ns)) (sort_key (nkey s') ns) \<and>
    (\<forall>n. n \<notin> set ns \<longrightarrow> nxt s' n = nxt s n) \<and> ok s' \<and> R s s' \<and> (\<forall>n \<in> set ns. nfixed s' n)"
proof -
  have "run_ok s (take 1 xs)" for xs by (simp add: run_ok_def)
  then have "runs_ok s 1 ns" unfolding runs_ok_def by blast
  moreover have "length ns \<le> 1 * 2 ^ fuel"
    using less_trans [OF assms(5) less_exp] by simp
  ultimately obtain ms s' where m: "sort_loop fuel fuel cmp 1 lst s = Inr (first ms, s')"
    "linked (nxt s') (first ms) ms" "mset ms = mset ns" "\<forall>n. n \<notin> set ns \<longrightarrow> nxt s' n = nxt s n"
    "ok s'" "R s s'" "run_ok s' ms" "stable s' ms ns"
    using sort_loop_sorts [of s ns lst 1 fuel fuel] assms by fastforce
  have g: "good s' ms" using m(3,7) assms(3) mset_eq_length [OF m(3)] by (auto simp: run_ok_def)
  have "sort_key (nkey s') ns = ms"
  proof (rule properties_for_sort_key)
    show "mset ms = mset ns" by (rule m(3))
    show "filter (\<lambda>x. nkey s' k = nkey s' x) ms = filter (\<lambda>x. nkey s' k = nkey s' x) ns" for k
      using m(8) unfolding stable_def by (simp add: eq_commute [of "nkey s' k"])
    show "sorted (map (nkey s') ms)" using g by (simp add: good_def)
  qed
  then show ?thesis
    using m g mset_eq_setD [OF m(3)] by (auto simp: core_list_mergesort_def good_def)
qed

end

end
