(* ===== verification/CMBench.thy ===== *)
theory CMBench
  imports CMSort
begin

text \<open>
  The list benchmark of \<^verbatim>\<open>pCPU/coremark/core_list_join.c\<close>: \<^verbatim>\<open>calc_func\<close>, which runs the text or the
  matrix benchmark to get the value of a data item and caches it there, the two comparisons, the
  benchmark that searches, sorts, removes and restores, and \<^verbatim>\<open>iterate\<close> of \<^verbatim>\<open>core_main.c\<close>, which
  repeats it.  Both comparisons are proved to satisfy the contract of the sort, and the benchmark
  to leave the list as it found it.
\<close>

section \<open>Values and comparisons\<close>

text \<open>The \<^verbatim>\<open>switch\<close> on the type of the operation: the value that is not cached yet.\<close>

definition calc_switch :: "u16 \<Rightarrow> core_results \<Rightarrow> kfault + (u16 \<times> core_results)" where
  "calc_switch data s =
     (let flag = data AND 0x7;
          dtype = drop_bit 3 data AND 0xf;
          dtype = dtype OR push_bit 4 dtype
      in if flag = 0 then
           let dtype = (if sint dtype < 0x22 then 0x22 else dtype) in
           bindE (core_bench_state (res_size s) (res_text s) (res_seed1 s) (res_seed2 s) dtype (res_crc s))
             (\<lambda>(retval, text).
               let s = s\<lparr>res_text := text\<rparr>
               in Inr (retval, if res_crcstate s = 0 then s\<lparr>res_crcstate := retval\<rparr> else s))
         else if flag = 1 then
           bindE (core_bench_matrix (res_mat s) dtype (res_crc s))
             (\<lambda>(retval, mat).
               let s = s\<lparr>res_mat := mat\<rparr>
               in Inr (retval, if res_crcmatrix s = 0 then s\<lparr>res_crcmatrix := retval\<rparr> else s))
         else Inr (data, s))"

definition calc_func :: "nat \<Rightarrow> core_results \<Rightarrow> kfault + (u16 \<times> core_results)" where
  "calc_func d s =
     (let data = data16 (dat s d);
          optype = drop_bit 7 data AND 1
      in if optype \<noteq> 0 then Inr (data AND 0x007f, s)
         else bindE (calc_switch data s) (\<lambda>(retval, s).
           let s = s\<lparr>res_crc := crcu16 retval (res_crc s)\<rparr>;
               retval = retval AND 0x007f;
               s = set_dat d ((dat s d)\<lparr>data16 := (data AND 0xff00) OR 0x0080 OR retval\<rparr>) s
           in Inr (retval, s)))"

definition cmp_complex :: list_cmp where
  "cmp_complex a b s =
     bindE (calc_func a s) (\<lambda>(val1, s).
     bindE (calc_func b s) (\<lambda>(val2, s).
       Inr (sint val1 - sint val2, s)))"

text \<open>\<^verbatim>\<open>cmp_idx\<close>; the first argument says whether the results pointer it is given is null.\<close>

definition regen :: "u16 \<Rightarrow> u16" where
  "regen v = (v AND 0xff00) OR (0x00ff AND drop_bit 8 v)"

definition cmp_idx :: "bool \<Rightarrow> list_cmp" where
  "cmp_idx res_null a b s =
     (let s = (if res_null then
                 let s = set_dat a ((dat s a)\<lparr>data16 := regen (data16 (dat s a))\<rparr>) s;
                     s = set_dat b ((dat s b)\<lparr>data16 := regen (data16 (dat s b))\<rparr>) s
                 in s
               else s)
      in Inr (sint (idx (dat s a)) - sint (idx (dat s b)), s))"

section \<open>The benchmark\<close>

text \<open>Put the cell behind the found one at the second place of the list, if there is one.\<close>

definition cache_next :: "nat \<Rightarrow> nat \<Rightarrow> core_results \<Rightarrow> core_results" where
  "cache_next this_find lst s =
     (case nxt s this_find of
        None \<Rightarrow> s
      | Some finder \<Rightarrow>
          let s = set_nxt this_find (nxt s finder) s;
              s = set_nxt finder (nxt s lst) s;
              s = set_nxt lst (Some finder) s
          in s)"

text \<open>
  The loop that searches and reverses \<open>n\<close> times; \<open>i\<close> counts up, \<open>dinfo\<close> is the wanted item.
\<close>

fun find_loop ::
  "nat \<Rightarrow> nat \<Rightarrow> nat \<Rightarrow> list_data \<Rightarrow> nat option \<Rightarrow> u16 \<times> u16 \<times> u16 \<Rightarrow> core_results \<Rightarrow>
     kfault + (list_data \<times> nat option \<times> (u16 \<times> u16 \<times> u16) \<times> core_results)" where
  "find_loop fuel 0 i dinfo lst acc s = Inr (dinfo, lst, acc, s)"
| "find_loop fuel (Suc n) i dinfo lst acc s =
     (case acc of (retval, found, missed) \<Rightarrow>
      let dinfo = dinfo\<lparr>data16 := of_nat i AND 0xff\<rparr> in
      bindE (core_list_find fuel lst dinfo s) (\<lambda>this_find.
      bindE (core_list_reverse fuel lst s) (\<lambda>(lst, s).
      bindE
        (case this_find of
           None \<Rightarrow>
             deref lst (\<lambda>l. deref (nxt s l) (\<lambda>m.
               Inr ((retval + (drop_bit 8 (data16 (item s m)) AND 1), found, missed + 1), s)))
         | Some t \<Rightarrow>
             deref lst (\<lambda>l.
               let retval = (if data16 (item s t) AND 1 \<noteq> 0
                             then retval + (drop_bit 9 (data16 (item s t)) AND 1) else retval)
               in Inr ((retval, found + 1, missed), cache_next t l s)))
        (\<lambda>(acc, s).
          let dinfo = (if 0 \<le> sint (idx dinfo) then dinfo\<lparr>idx := idx dinfo + 1\<rparr> else dinfo)
          in find_loop fuel n (i + 1) dinfo lst acc s))))"

text \<open>Both loops \<^verbatim>\<open>while (finder)\<close>: the checksum is always taken of the data of \<^verbatim>\<open>list\<close>.\<close>

fun crc_loop :: "nat \<Rightarrow> nat option \<Rightarrow> nat \<Rightarrow> u16 \<Rightarrow> core_results \<Rightarrow> kfault + u16" where
  "crc_loop 0 finder l retval s = Inl Hang"
| "crc_loop (Suc fuel) finder l retval s =
     (case finder of
        None \<Rightarrow> Inr retval
      | Some n \<Rightarrow> crc_loop fuel (nxt s n) l (crc16 (data16 (item s l)) retval) s)"

definition core_bench_list :: "nat \<Rightarrow> u16 \<Rightarrow> core_results \<Rightarrow> kfault + (u16 \<times> core_results)" where
  "core_bench_list fuel finder_idx s =
     bindE (find_loop fuel (nat (sint (res_seed3 s))) 0 \<lparr>data16 = 0, idx = finder_idx\<rparr>
              (res_list s) (0, 0, 0) s) (\<lambda>(dinfo, lst, (retval, found, missed), s).
     let retval = retval + (found * 4 - missed) in
     bindE (if 0 < sint finder_idx then core_list_mergesort fuel cmp_complex lst s else Inr (lst, s))
       (\<lambda>(lst, s).
     deref lst (\<lambda>l. deref (nxt s l) (\<lambda>m.
     bindE (core_list_remove m s) (\<lambda>(remover, s).
     bindE (if sint (res_seed3 s) \<le> 0 \<and> sint finder_idx < 0 then Inl Uninit
            else core_list_find fuel lst dinfo s) (\<lambda>finder.
     let finder = (if finder = None then nxt s l else finder) in
     bindE (crc_loop fuel finder l retval s) (\<lambda>retval.
     deref (nxt s l) (\<lambda>m.
     case core_list_undo_remove remover m s of (remover, s) \<Rightarrow>
     bindE (core_list_mergesort fuel (cmp_idx True) lst s) (\<lambda>(lst, s).
     deref lst (\<lambda>l.
     bindE (crc_loop fuel (nxt s l) l retval s) (\<lambda>retval.
       Inr (retval, s))))))))))))"

text \<open>
  The wanted item is a local variable whose data the search loop sets; if it does not run once and
  the index is negative, the later search reads a variable that was never written.
\<close>

text \<open>\<^verbatim>\<open>iterate\<close>: \<open>n\<close> rounds are left, the first of all records the checksum of the list.\<close>

fun iterate_loop :: "nat \<Rightarrow> nat \<Rightarrow> bool \<Rightarrow> core_results \<Rightarrow> kfault + core_results" where
  "iterate_loop fuel 0 is_first s = Inr s"
| "iterate_loop fuel (Suc n) is_first s =
     bindE (core_bench_list fuel 1 s) (\<lambda>(crc, s).
     let s = s\<lparr>res_crc := crcu16 crc (res_crc s)\<rparr> in
     bindE (core_bench_list fuel (- 1) s) (\<lambda>(crc, s).
     let s = s\<lparr>res_crc := crcu16 crc (res_crc s)\<rparr>;
         s = (if is_first then s\<lparr>res_crclist := res_crc s\<rparr> else s)
     in iterate_loop fuel n False s))"

definition iterate :: "nat \<Rightarrow> core_results \<Rightarrow> kfault + core_results" where
  "iterate fuel s =
     iterate_loop fuel (res_iterations s) True
       (s\<lparr>res_crc := 0, res_crclist := 0, res_crcmatrix := 0, res_crcstate := 0\<rparr>)"

section \<open>What an evaluation keeps\<close>

definition cached :: "core_results \<Rightarrow> nat \<Rightarrow> bool" where
  "cached s d \<longleftrightarrow> bit (data16 (dat s d)) 7"

definition cached_value :: "core_results \<Rightarrow> nat \<Rightarrow> int" where
  "cached_value s d = sint (data16 (dat s d) AND 0x7f)"

text \<open>
  What the evaluations need: the text has the size it is scanned with and a zero byte at a
  position that no step (a multiple of 17) reaches, and the matrices have their sizes.
\<close>

definition calc_ready :: "core_results \<Rightarrow> bool" where
  "calc_ready s \<longleftrightarrow> res_size s \<le> length (res_text s) \<and>
     (\<exists>z < length (res_text s). res_text s ! z = 0 \<and> \<not> 17 dvd z) \<and>
     length (matA (res_mat s)) = matN (res_mat s) * matN (res_mat s) \<and>
     matN (res_mat s) * matN (res_mat s) \<le> length (matB (res_mat s)) \<and>
     matN (res_mat s) * matN (res_mat s) \<le> length (matC (res_mat s))"

definition repairable :: "core_results \<Rightarrow> bool" where
  "repairable s \<longleftrightarrow> safe_text (res_seed1 s) (res_size s) (res_text s) \<and>
     (ucast (res_seed1 s) :: u8) = ucast (res_seed2 s)"

definition same_inputs :: "core_results \<Rightarrow> core_results \<Rightarrow> bool" where
  "same_inputs s s' \<longleftrightarrow> info s' = info s \<and>
     res_seed1 s' = res_seed1 s \<and> res_seed2 s' = res_seed2 s \<and> res_seed3 s' = res_seed3 s \<and>
     res_size s' = res_size s \<and> res_iterations s' = res_iterations s \<and> res_execs s' = res_execs s \<and>
     res_list s' = res_list s \<and>
     length (matC (res_mat s')) = length (matC (res_mat s)) \<and>
     (res_mat s')\<lparr>matC := []\<rparr> = (res_mat s)\<lparr>matC := []\<rparr> \<and>
     length (res_text s') = length (res_text s) \<and> (repairable s \<longrightarrow> res_text s' = res_text s)"

definition same_items :: "core_results \<Rightarrow> core_results \<Rightarrow> bool" where
  "same_items s s' \<longleftrightarrow> (\<forall>c. idx (dat s' c) = idx (dat s c) \<and>
     drop_bit 8 (data16 (dat s' c)) = drop_bit 8 (data16 (dat s c)))"

definition calc_keeps :: "core_results \<Rightarrow> core_results \<Rightarrow> bool" where
  "calc_keeps s s' \<longleftrightarrow> same_inputs s s' \<and> same_items s s' \<and> (\<forall>c. cached s c \<longrightarrow> dat s' c = dat s c)"

lemma same_inputs_refl: "same_inputs s s"
  by (simp add: same_inputs_def)

lemma same_inputs_trans: "same_inputs s s' \<Longrightarrow> same_inputs s' s'' \<Longrightarrow> same_inputs s s''"
  by (simp add: same_inputs_def repairable_def)

lemma same_items_trans: "same_items s s' \<Longrightarrow> same_items s' s'' \<Longrightarrow> same_items s s''"
  by (simp add: same_items_def)

lemma calc_keeps_refl: "calc_keeps s s"
  by (simp add: calc_keeps_def same_inputs_refl same_items_def)

lemma calc_keeps_trans: "calc_keeps s s' \<Longrightarrow> calc_keeps s' s'' \<Longrightarrow> calc_keeps s s''"
  unfolding calc_keeps_def cached_def
  by (metis same_inputs_trans same_items_trans)

text \<open>The step of the text benchmark is a multiple of 17, and at least twice that.\<close>

lemma calc_step:
  fixes data :: u16
  defines "t \<equiv> (drop_bit 3 data AND 0xf) OR push_bit 4 (drop_bit 3 data AND 0xf)"
  shows "\<exists>k \<ge> 2. sint (if sint t < 0x22 then 0x22 else t) = 17 * int k"
proof -
  let ?x = "drop_bit 3 data AND 0xf"
  have "?x \<le> 0xf" by (rule word_and_le1)
  then have "unat ?x \<le> unat (0xf :: u16)" by (simp only: word_le_nat_alt)
  then have "unat ?x \<in> set [0..<16]" by simp
  moreover have "?x = of_nat (unat ?x)" by simp
  ultimately obtain n where n: "n \<in> set [0..<16]" "?x = of_nat n" by blast
  have "sint (if sint ((of_nat n :: u16) OR push_bit 4 (of_nat n)) < 0x22 then 0x22
          else (of_nat n :: u16) OR push_bit 4 (of_nat n)) = 17 * int (max 2 n)"
    using n(1) by (auto simp: upt_rec)
  then show ?thesis unfolding t_def n(2) by (intro exI [of _ "max 2 n"]) simp
qed

lemma calc_state_total:
  assumes "calc_ready s" "sint step = 17 * int k" "2 \<le> k"
  shows "\<exists>v tx. core_bench_state (res_size s) (res_text s) (res_seed1 s) (res_seed2 s) step crc = Inr (v, tx) \<and>
    length tx = length (res_text s) \<and> (\<exists>z < length tx. tx ! z = 0 \<and> \<not> 17 dvd z) \<and>
    (repairable s \<longrightarrow> tx = res_text s)"
proof -
  obtain z where z: "z < length (res_text s)" "res_text s ! z = 0" "\<not> 17 dvd z"
    and size: "res_size s \<le> length (res_text s)"
    using assms(1) by (auto simp: calc_ready_def)
  have step: "0 < sint step" "\<not> nat (sint step) dvd z"
    using assms(2,3) z(3) by (auto simp: nat_mult_distrib dest: dvd_mult_left)
  obtain v tx where run: "core_bench_state (res_size s) (res_text s) (res_seed1 s) (res_seed2 s) step crc = Inr (v, tx)"
    "length tx = length (res_text s)" "tx ! z = 0"
    using core_bench_state_total [OF step(1) size z(1,2) step(2)] by blast
  have "tx = res_text s" if "repairable s"
    using core_bench_state_repairs [OF step(1) size z(1,2) step(2), of "res_seed1 s" "res_seed2 s" crc]
      that run(1) by (auto simp: repairable_def safe_text_def)
  then show ?thesis using run z by (intro exI [of _ v] exI [of _ tx]) auto
qed

lemma calc_matrix_total:
  assumes "calc_ready s"
  shows "\<exists>v C. core_bench_matrix (res_mat s) x crc = Inr (v, (res_mat s)\<lparr>matC := C\<rparr>) \<and>
    length C = length (matC (res_mat s))"
proof -
  obtain v C where "matrix_test (matN (res_mat s)) (matC (res_mat s)) (matA (res_mat s)) (matB (res_mat s)) x
      = Inr (v, C, matA (res_mat s))" "length C = length (matC (res_mat s))"
    using matrix_test_back [of "matA (res_mat s)" "matN (res_mat s)" "matB (res_mat s)" "matC (res_mat s)" x] assms
    by (auto simp: calc_ready_def)
  then show ?thesis by (intro exI [of _ "crc16 v crc"] exI [of _ C]) (simp add: core_bench_matrix_def)
qed

lemma calc_switch_total:
  assumes "calc_ready s"
  shows "\<exists>v s'. calc_switch data s = Inr (v, s') \<and> calc_ready s' \<and> same_inputs s s' \<and>
    dat s' = dat s \<and> nxt s' = nxt s"
proof -
  let ?t = "(drop_bit 3 data AND 0xf) OR push_bit 4 (drop_bit 3 data AND 0xf)"
  let ?step = "if sint ?t < 0x22 then 0x22 else ?t"
  consider "data AND 0x7 = 0" | "data AND 0x7 = 1" | "data AND 0x7 \<noteq> 0" "data AND 0x7 \<noteq> 1" by blast
  then show ?thesis
  proof cases
    case 1
    obtain k where k: "2 \<le> k" "sint ?step = 17 * int k" using calc_step [of data] by blast
    obtain v tx where t: "core_bench_state (res_size s) (res_text s) (res_seed1 s) (res_seed2 s) ?step (res_crc s) = Inr (v, tx)"
      "length tx = length (res_text s)" "\<exists>z < length tx. tx ! z = 0 \<and> \<not> 17 dvd z"
      "repairable s \<longrightarrow> tx = res_text s"
      using calc_state_total [OF assms k(2,1)] by blast
    then show ?thesis
      using 1 assms by (auto simp: calc_switch_def Let_def calc_ready_def same_inputs_def)
  next
    case 2
    obtain v C where "core_bench_matrix (res_mat s) ?t (res_crc s) = Inr (v, (res_mat s)\<lparr>matC := C\<rparr>)"
      "length C = length (matC (res_mat s))"
      using calc_matrix_total [OF assms] by blast
    then show ?thesis
      using 2 assms by (auto simp: calc_switch_def Let_def calc_ready_def same_inputs_def)
  next
    case 3
    then show ?thesis using assms by (simp add: calc_switch_def same_inputs_refl)
  qed
qed

lemma calc_ready_dat [simp]:
  "calc_ready (set_dat d v s) = calc_ready s" "calc_ready (set_nxt n p s) = calc_ready s"
  "calc_ready (s\<lparr>res_crc := c\<rparr>) = calc_ready s" "calc_ready (s\<lparr>res_crclist := c\<rparr>) = calc_ready s"
  by (simp_all add: calc_ready_def set_dat_def set_nxt_def)

lemma same_inputs_upd [simp]:
  "same_inputs s (set_dat d v s') = same_inputs s s'" "same_inputs s (set_nxt n p s') = same_inputs s s'"
  "same_inputs s (s'\<lparr>res_crc := c\<rparr>) = same_inputs s s'" "same_inputs s (s'\<lparr>res_crclist := c\<rparr>) = same_inputs s s'"
  by (simp_all add: same_inputs_def set_dat_def set_nxt_def)

lemma calc_ready_relink: "calc_ready (s\<lparr>nxt := f\<rparr>) = calc_ready s"
  by (simp add: calc_ready_def)

lemma same_inputs_relinked: "same_inputs s (s\<lparr>nxt := f\<rparr>)"
  by (simp add: same_inputs_def)

text \<open>The word with the cached value: the upper byte kept, bit 7 set, the value below.\<close>

lemma cache_word:
  fixes data r :: u16
  defines "w \<equiv> (data AND 0xff00) OR 0x80 OR (r AND 0x7f)"
  shows "bit w 7" "w AND 0x7f = r AND 0x7f" "drop_bit 8 w = drop_bit 8 data"
proof -
  have b: "bit w n \<longleftrightarrow> (if n = 7 then True else if n < 7 then bit r n else bit data n)" if "n \<in> set [0..<16]" for n
    using that by (auto simp: w_def bit_simps upt_rec bit_numeral_rec)
  show "bit w 7" using b [of 7] by simp
  show "w AND 0x7f = r AND 0x7f"
  proof (rule bit_word_eqI)
    fix n assume "n < LENGTH(16)"
    then have n: "n \<in> set [0..<16]" by simp
    then show "bit (w AND 0x7f) n = bit (r AND 0x7f) n"
      using b [OF n] by (auto simp: bit_simps upt_rec bit_numeral_rec)
  qed
  show "drop_bit 8 w = drop_bit 8 data"
  proof (rule bit_word_eqI)
    fix n assume "n < LENGTH(16)"
    show "bit (drop_bit 8 w) n = bit (drop_bit 8 data) n"
      using b [of "n + 8"] by (cases "n + 8 < 16") (auto simp: bit_simps add.commute dest: bit_imp_le_length)
  qed
qed

lemma calc_func_value:
  assumes "calc_ready s"
  shows "\<exists>s'. calc_func d s = Inr (data16 (dat s' d) AND 0x7f, s') \<and> calc_ready s' \<and> calc_keeps s s' \<and>
    nxt s' = nxt s \<and> cached s' d"
proof (cases "cached s d")
  case True
  then have "drop_bit 7 (data16 (dat s d)) AND 1 \<noteq> 0"
    by (simp add: cached_def and_one_eq bit_simps)
  then show ?thesis
    using True assms by (intro exI [of _ s]) (simp add: calc_func_def calc_keeps_refl)
next
  case False
  let ?data = "data16 (dat s d)"
  obtain r s1 where sw: "calc_switch ?data s = Inr (r, s1)" "calc_ready s1" "same_inputs s s1"
    "dat s1 = dat s" "nxt s1 = nxt s"
    using calc_switch_total [OF assms] by blast
  let ?w = "(?data AND 0xff00) OR 0x80 OR (r AND 0x7f)"
  let ?s = "set_dat d ((dat s d)\<lparr>data16 := ?w\<rparr>) (s1\<lparr>res_crc := crcu16 r (res_crc s1)\<rparr>)"
  have "calc_func d s = Inr (r AND 0x7f, ?s)"
    using False sw by (simp add: calc_func_def Let_def cached_def and_one_eq bit_simps)
  moreover have "calc_keeps s ?s"
    using sw False cache_word(3) [of ?data r] by (auto simp: calc_keeps_def same_items_def cached_def)
  ultimately show ?thesis
    using sw cache_word(1,2) [of ?data r] by (intro exI [of _ ?s]) (auto simp: cached_def)
qed

section \<open>Both comparisons satisfy the contract of the sort\<close>

lemma dat_set_nxt [simp]:
  "cached (set_nxt n p s) = cached s" "cached_value (set_nxt n p s) = cached_value s"
  by (simp_all add: fun_eq_iff cached_def cached_value_def)

interpretation by_value: list_order cmp_complex UNIV calc_ready cached_value cached calc_keeps
proof unfold_locales
  fix s a b assume ok: "calc_ready s"
  obtain s1 where s1: "calc_func a s = Inr (data16 (dat s1 a) AND 0x7f, s1)" "calc_ready s1" "calc_keeps s s1"
    "nxt s1 = nxt s" "cached s1 a"
    using calc_func_value [OF ok] by blast
  obtain s2 where s2: "calc_func b s1 = Inr (data16 (dat s2 b) AND 0x7f, s2)" "calc_ready s2" "calc_keeps s1 s2"
    "nxt s2 = nxt s1" "cached s2 b"
    using calc_func_value [OF s1(2)] by blast
  have "dat s2 a = dat s1 a" using s1(5) s2(3) by (simp add: calc_keeps_def)
  then have "cached s2 a" "cmp_complex a b s = Inr (cached_value s2 a - cached_value s2 b, s2)"
    using s1 s2 by (simp_all add: cmp_complex_def cached_def cached_value_def)
  then show "\<exists>v s'. cmp_complex a b s = Inr (v, s') \<and> calc_ready s' \<and> calc_keeps s s' \<and> nxt s' = nxt s \<and>
      cached s' a \<and> cached s' b \<and> (v \<le> 0 \<longleftrightarrow> cached_value s' a \<le> cached_value s' b)"
    using s1 s2 calc_keeps_trans [OF s1(3) s2(3)] by auto
next
  fix s s' c assume "calc_keeps s s'" "cached s c"
  then show "cached s' c \<and> cached_value s' c = cached_value s c"
    by (simp add: calc_keeps_def cached_def cached_value_def)
next
  fix s n p show "calc_keeps s (set_nxt n p s)"
    by (simp add: calc_keeps_def same_inputs_refl same_items_def)
next
  fix s s' assume "calc_keeps s s'"
  then show "info s' = info s" by (simp add: calc_keeps_def same_inputs_def)
qed (simp_all add: calc_keeps_refl calc_keeps_trans)

definition regenerated :: "core_results \<Rightarrow> nat \<Rightarrow> bool" where
  "regenerated s c \<longleftrightarrow> regen (data16 (dat s c)) = data16 (dat s c)"

definition idx_keeps :: "core_results \<Rightarrow> core_results \<Rightarrow> bool" where
  "idx_keeps s s' \<longleftrightarrow> (\<exists>f g. s' = s\<lparr>nxt := f, dat := g\<rparr>) \<and> same_items s s' \<and>
     (\<forall>c. regenerated s c \<longrightarrow> dat s' c = dat s c)"

lemma bit_regen: "n < 16 \<Longrightarrow> bit (regen v) n \<longleftrightarrow> (if n < 8 then bit v (n + 8) else bit v n)"
proof -
  assume "n < 16"
  then have "n \<in> set [0..<16]" by simp
  then show ?thesis by (auto simp: regen_def bit_simps upt_rec bit_numeral_rec)
qed

lemma drop_bit_8_eq: "drop_bit 8 v = drop_bit 8 w \<longleftrightarrow> (\<forall>n. 8 \<le> n \<longrightarrow> n < 16 \<longrightarrow> bit v n = bit (w :: u16) n)"
proof
  assume e: "drop_bit 8 v = drop_bit 8 w"
  have "bit v n = bit w n" if "8 \<le> n" for n
    using arg_cong [OF e, of "\<lambda>x. bit x (n - 8)"] that by (simp add: bit_simps)
  then show "\<forall>n. 8 \<le> n \<longrightarrow> n < 16 \<longrightarrow> bit v n = bit w n" by blast
next
  assume b: "\<forall>n. 8 \<le> n \<longrightarrow> n < 16 \<longrightarrow> bit v n = bit w n"
  show "drop_bit 8 v = drop_bit 8 w"
  proof (rule bit_word_eqI)
    fix n show "bit (drop_bit 8 v) n = bit (drop_bit 8 w) n"
      using b [rule_format, of "8 + n"] by (cases "8 + n < 16") (auto simp: bit_simps dest: bit_imp_le_length)
  qed
qed

lemma regen_upper: "drop_bit 8 (regen v) = drop_bit 8 v"
  by (simp add: drop_bit_8_eq bit_regen)

lemma regen_cong: "drop_bit 8 v = drop_bit 8 w \<Longrightarrow> regen v = regen w"
  by (rule bit_word_eqI) (auto simp: drop_bit_8_eq bit_regen)

lemma regen_regen [simp]: "regen (regen v) = regen v"
  by (rule regen_cong) (rule regen_upper)

lemma regen_item_eq:
  assumes "same_items s s'" "regenerated s c" "regenerated s' c"
  shows "dat s' c = dat s c"
proof -
  have "regen (data16 (dat s' c)) = regen (data16 (dat s c))"
    using assms(1) by (intro regen_cong) (simp add: same_items_def)
  then have "data16 (dat s' c) = data16 (dat s c)"
    using assms(2,3) unfolding regenerated_def by metis
  then show ?thesis using assms(1) by (intro list_data.equality) (simp_all add: same_items_def)
qed

lemma idx_keeps_refl: "idx_keeps s s"
proof -
  have "s = s\<lparr>nxt := nxt s, dat := dat s\<rparr>" by simp
  then show ?thesis unfolding idx_keeps_def same_items_def by blast
qed

lemma idx_keeps_trans:
  assumes "idx_keeps s s'" "idx_keeps s' s''"
  shows "idx_keeps s s''"
proof -
  obtain f g where s': "s' = s\<lparr>nxt := f, dat := g\<rparr>" using assms(1) by (auto simp: idx_keeps_def)
  obtain f' g' where s'': "s'' = s'\<lparr>nxt := f', dat := g'\<rparr>" using assms(2) by (auto simp: idx_keeps_def)
  have "s'' = s\<lparr>nxt := f', dat := g'\<rparr>" using s' s'' by simp
  moreover have "same_items s s''" using assms same_items_trans by (auto simp: idx_keeps_def)
  moreover have "dat s'' c = dat s c" if "regenerated s c" for c
  proof -
    have "dat s' c = dat s c" using assms(1) that by (auto simp: idx_keeps_def)
    moreover from this have "regenerated s' c" using that by (simp add: regenerated_def)
    ultimately show ?thesis using assms(2) by (auto simp: idx_keeps_def)
  qed
  ultimately show ?thesis unfolding idx_keeps_def by blast
qed

lemma idx_keeps_dat: "same_items s (s\<lparr>dat := g\<rparr>) \<Longrightarrow> (\<And>c. regenerated s c \<Longrightarrow> g c = dat s c) \<Longrightarrow>
    idx_keeps s (s\<lparr>dat := g\<rparr>)"
proof -
  assume a: "same_items s (s\<lparr>dat := g\<rparr>)" "\<And>c. regenerated s c \<Longrightarrow> g c = dat s c"
  have "s\<lparr>dat := g\<rparr> = s\<lparr>nxt := nxt s, dat := g\<rparr>" by simp
  with a show ?thesis unfolding idx_keeps_def by (metis core_results.select_convs(3) core_results.surjective core_results.update_convs(3))
qed

definition regen_item :: "list_data \<Rightarrow> list_data" where
  "regen_item v = v\<lparr>data16 := regen (data16 v)\<rparr>"

lemma regen_step: "idx_keeps s (set_dat a (regen_item (dat s a)) s) \<and> regenerated (set_dat a (regen_item (dat s a)) s) a \<and>
   (regenerated s b \<longrightarrow> regenerated (set_dat a (regen_item (dat s a)) s) b)"
  by (auto simp: set_dat_def regen_item_def regenerated_def same_items_def regen_upper intro!: idx_keeps_dat)

lemma cmp_idx_eq:
  "\<exists>s'. cmp_idx True a b s = Inr (sint (idx (dat s' a)) - sint (idx (dat s' b)), s') \<and> idx_keeps s s' \<and>
     nxt s' = nxt s \<and> regenerated s' a \<and> regenerated s' b"
proof -
  let ?s1 = "set_dat a (regen_item (dat s a)) s"
  let ?s2 = "set_dat b (regen_item (dat ?s1 b)) ?s1"
  have "cmp_idx True a b s = Inr (sint (idx (dat ?s2 a)) - sint (idx (dat ?s2 b)), ?s2)"
    by (simp add: cmp_idx_def Let_def regen_item_def)
  moreover have "idx_keeps s ?s2" using regen_step [of s a] regen_step [of ?s1 b] idx_keeps_trans by blast
  moreover have "regenerated ?s2 a" "regenerated ?s2 b" using regen_step [of s a] regen_step [of ?s1 b a] by blast+
  ultimately show ?thesis by (intro exI [of _ ?s2]) simp
qed

interpretation by_idx: list_order "cmp_idx True" UNIV "\<lambda>_. True" "\<lambda>s c. sint (idx (dat s c))" regenerated idx_keeps
proof unfold_locales
  fix s a b
  show "\<exists>v s'. cmp_idx True a b s = Inr (v, s') \<and> True \<and> idx_keeps s s' \<and> nxt s' = nxt s \<and>
      regenerated s' a \<and> regenerated s' b \<and> (v \<le> 0 \<longleftrightarrow> sint (idx (dat s' a)) \<le> sint (idx (dat s' b)))"
    using cmp_idx_eq [of a b s] by fastforce
next
  fix s n p show "idx_keeps s (set_nxt n p s)"
  proof -
    have "set_nxt n p s = s\<lparr>nxt := (nxt s)(n := p), dat := dat s\<rparr>" by (simp add: set_nxt_def)
    then show ?thesis unfolding idx_keeps_def same_items_def by (metis set_fields(3))
  qed
next
  fix s s' assume "idx_keeps s s'"
  then show "info s' = info s" by (auto simp: idx_keeps_def)
next
  fix s s' c assume "idx_keeps s s'" "regenerated s c"
  then show "regenerated s' c \<and> sint (idx (dat s' c)) = sint (idx (dat s c))"
    by (simp add: idx_keeps_def regenerated_def)
qed (simp_all add: idx_keeps_refl idx_keeps_trans)

section \<open>The sort, with both comparisons\<close>

lemma mergesort_idx_run:
  assumes "linked (nxt s) lst ns" "distinct ns" "2 \<le> length ns" "length ns < fuel"
  shows "\<exists>s' ms. ms = sort_key (\<lambda>n. sint (idx (item s n))) ns \<and>
    core_list_mergesort fuel (cmp_idx True) lst s = Inr (first ms, s') \<and> linked (nxt s') (first ms) ms \<and>
    (\<forall>n. n \<notin> set ns \<longrightarrow> nxt s' n = nxt s n) \<and>
    (\<exists>f g. s' = s\<lparr>nxt := f, dat := g\<rparr>) \<and> same_items s s' \<and> (\<forall>n \<in> set ns. regenerated s' (info s n))"
proof -
  obtain s' where s': "core_list_mergesort fuel (cmp_idx True) lst s = Inr (first (sort_key (by_idx.nkey s') ns), s')"
    "linked (nxt s') (first (sort_key (by_idx.nkey s') ns)) (sort_key (by_idx.nkey s') ns)"
    "\<forall>n. n \<notin> set ns \<longrightarrow> nxt s' n = nxt s n" "idx_keeps s s'" "\<forall>n \<in> set ns. by_idx.nfixed s' n"
    using by_idx.mergesort_sorts [OF TrueI assms(2,3,1,4) subset_UNIV] by blast
  have "info s' = info s" "same_items s s'" using s'(4) by (auto simp: idx_keeps_def)
  then have "by_idx.nkey s' = (\<lambda>n. sint (idx (item s n)))"
    by (auto simp: by_idx.nkey_def item_def same_items_def)
  then show ?thesis
    using s' by (intro exI [of _ s'] exI) (auto simp: by_idx.nfixed_def idx_keeps_def)
qed

text \<open>
  Sorting by index returns the list of the same cells in the order of their indices, cells
  with the same index in the old order; cells outside the list are not touched, no index and no
  upper data byte changes, and every data word of the list is regenerated from its upper byte.
\<close>

theorem mergesort_by_idx:
  assumes "linked (nxt s) lst ns" "distinct ns" "2 \<le> length ns" "length ns < fuel"
  shows "\<exists>s' ms. ms = sort_key (\<lambda>n. sint (idx (item s n))) ns \<and>
    core_list_mergesort fuel (cmp_idx True) lst s = Inr (first ms, s') \<and> linked (nxt s') (first ms) ms \<and>
    (\<forall>n. n \<notin> set ns \<longrightarrow> nxt s' n = nxt s n) \<and>
    (\<exists>f g. s' = s\<lparr>nxt := f, dat := g\<rparr>) \<and> same_items s s' \<and> (\<forall>n \<in> set ns. regenerated s' (info s n))"
  by (rule mergesort_idx_run [OF assms])

lemma small_heap_ready: "calc_ready (small_heap xs)"
  by (auto simp: calc_ready_def small_heap_def intro!: exI [of _ 1])

lemma mergesort_by_idx_witness:
  "\<exists>s'. core_list_mergesort 9 (cmp_idx True) (Some 2) (small_heap [2, 0, 1]) = Inr (Some 0, s') \<and>
     linked (nxt s') (Some 0) [0, 1, 2]"
proof -
  have "sort_key (\<lambda>n. sint (idx (item (small_heap [2, 0, 1]) n))) [2, 0, 1] = [0, 1, 2]"
    by (simp add: small_heap_def item_def)
  then show ?thesis
    using mergesort_by_idx [OF small_heap_linked(2), of 9] by auto
qed

lemma mergesort_value_run:
  assumes "linked (nxt s) lst ns" "distinct ns" "2 \<le> length ns" "length ns < fuel" "calc_ready s"
  shows "\<exists>s' ms. ms = sort_key (\<lambda>n. cached_value s' (info s n)) ns \<and>
    core_list_mergesort fuel cmp_complex lst s = Inr (first ms, s') \<and> linked (nxt s') (first ms) ms \<and>
    (\<forall>n. n \<notin> set ns \<longrightarrow> nxt s' n = nxt s n) \<and>
    same_inputs s s' \<and> same_items s s' \<and> calc_ready s' \<and> (\<forall>n \<in> set ns. cached s' (info s n))"
proof -
  obtain s' where s': "core_list_mergesort fuel cmp_complex lst s = Inr (first (sort_key (by_value.nkey s') ns), s')"
    "linked (nxt s') (first (sort_key (by_value.nkey s') ns)) (sort_key (by_value.nkey s') ns)"
    "\<forall>n. n \<notin> set ns \<longrightarrow> nxt s' n = nxt s n" "calc_ready s'" "calc_keeps s s'" "\<forall>n \<in> set ns. by_value.nfixed s' n"
    using by_value.mergesort_sorts [OF assms(5,2,3,1,4) subset_UNIV] by blast
  have "info s' = info s" using s'(5) by (simp add: calc_keeps_def same_inputs_def)
  then have "by_value.nkey s' = (\<lambda>n. cached_value s' (info s n))"
    by (auto simp: by_value.nkey_def)
  then show ?thesis
    using s' \<open>info s' = info s\<close>
    by (intro exI [of _ s'] exI) (auto simp: by_value.nfixed_def calc_keeps_def)
qed

text \<open>
  C15: Sorting by value computes and caches every value of the list and returns the same cells
  in the order of the values, equal ones in the old order.  It returns for every state of the
  text and the matrices that the initialisations can leave, and keeps such a state.
\<close>

theorem mergesort_by_value:
  assumes "linked (nxt s) lst ns" "distinct ns" "2 \<le> length ns" "length ns < fuel" "calc_ready s"
  shows "\<exists>s' ms. ms = sort_key (\<lambda>n. cached_value s' (info s n)) ns \<and>
    core_list_mergesort fuel cmp_complex lst s = Inr (first ms, s') \<and> linked (nxt s') (first ms) ms \<and>
    (\<forall>n. n \<notin> set ns \<longrightarrow> nxt s' n = nxt s n) \<and>
    same_inputs s s' \<and> same_items s s' \<and> calc_ready s' \<and> (\<forall>n \<in> set ns. cached s' (info s n))"
  by (rule mergesort_value_run [OF assms])

lemma mergesort_by_value_witness:
  "\<exists>s' ms. core_list_mergesort 9 cmp_complex (Some 2) (small_heap [2, 0, 1]) = Inr (first ms, s') \<and>
     linked (nxt s') (first ms) ms \<and> mset ms = {#0, 1, 2#} \<and> cached s' 0 \<and> cached s' 1 \<and> cached s' 2"
proof -
  let ?s = "small_heap [2, 0, 1]"
  have i: "info ?s n = n" for n by (simp add: small_heap_def)
  have "distinct [2, 0, 1 :: nat]" "2 \<le> length [2, 0, 1 :: nat]" "length [2, 0, 1 :: nat] < 9" by simp_all
  then obtain s' ms where r: "ms = sort_key (\<lambda>n. cached_value s' (info ?s n)) [2, 0, 1]"
    "core_list_mergesort 9 cmp_complex (Some 2) ?s = Inr (first ms, s')"
    "linked (nxt s') (first ms) ms" "\<forall>n \<in> set [2, 0, 1]. cached s' (info ?s n)"
    using mergesort_by_value [OF small_heap_linked(2) _ _ _ small_heap_ready] by blast
  have "mset ms = {#0, 1, 2#}" unfolding r(1) by (simp only: mset_sort) (simp add: add_mset_commute)
  moreover have "cached s' 0" "cached s' 1" "cached s' 2" using r(4) i by auto
  ultimately show ?thesis using r(2,3) by blast
qed

section \<open>Searching and moving as operations on sequences\<close>

definition wanted :: "list_data \<Rightarrow> list_data \<Rightarrow> bool" where
  "wanted dinfo v \<longleftrightarrow> (if 0 \<le> sint (idx dinfo) then idx v = idx dinfo else data16 v AND 0xff = data16 dinfo)"

text \<open>The element behind \<open>t\<close> is moved to the second place.\<close>

definition move_next :: "'c \<Rightarrow> 'c list \<Rightarrow> 'c list" where
  "move_next t ms = (case ms of [] \<Rightarrow> [] | l # ls \<Rightarrow>
     if l = t then ms
     else (case dropWhile (\<lambda>x. x \<noteq> t) ls of
             t' # f # cs \<Rightarrow> l # f # takeWhile (\<lambda>x. x \<noteq> t) ls @ t' # cs
           | _ \<Rightarrow> ms))"

text \<open>The search loop over elements whose items are given by \<open>it\<close>.\<close>

fun spec_find ::
  "('c \<Rightarrow> list_data) \<Rightarrow> nat \<Rightarrow> nat \<Rightarrow> list_data \<Rightarrow> 'c list \<Rightarrow> u16 \<times> u16 \<times> u16 \<Rightarrow> list_data \<times> 'c list \<times> u16 \<times> u16 \<times> u16"
where
  "spec_find it 0 i dinfo ms acc = (dinfo, ms, acc)"
| "spec_find it (Suc n) i dinfo ms acc =
     (case acc of (retval, found, missed) \<Rightarrow>
      let dinfo = dinfo\<lparr>data16 := of_nat i AND 0xff\<rparr>; r = List.find (\<lambda>x. wanted dinfo (it x)) ms; ms = rev ms;
          dinfo' = (if 0 \<le> sint (idx dinfo) then dinfo\<lparr>idx := idx dinfo + 1\<rparr> else dinfo)
      in case r of
           None \<Rightarrow> spec_find it n (i + 1) dinfo' ms
                     (retval + (drop_bit 8 (data16 (it (ms ! 1))) AND 1), found, missed + 1)
         | Some t \<Rightarrow> spec_find it n (i + 1) dinfo' (move_next t ms)
                     (if data16 (it t) AND 1 \<noteq> 0 then retval + (drop_bit 9 (data16 (it t)) AND 1) else retval,
                      found + 1, missed))"

lemma move_next_found:
  assumes "distinct (l # as @ t # f # cs)"
  shows "move_next t (l # as @ t # f # cs) = l # f # as @ t # cs"
proof -
  have "\<forall>x \<in> set as. x \<noteq> t" using assms by auto
  then have "dropWhile (\<lambda>x. x \<noteq> t) (as @ t # f # cs) = t # f # cs" "takeWhile (\<lambda>x. x \<noteq> t) (as @ t # f # cs) = as"
    by (simp_all add: dropWhile_append2 takeWhile_append2)
  then show ?thesis using assms by (simp add: move_next_def)
qed

lemma move_next_last:
  assumes "distinct (as @ [t])"
  shows "move_next t (as @ [t]) = as @ [t]"
proof (cases as)
  case (Cons l ls)
  then have "\<forall>x \<in> set ls. x \<noteq> t" using assms by auto
  then have "dropWhile (\<lambda>x. x \<noteq> t) (ls @ [t]) = [t]" by (simp add: dropWhile_append2)
  then show ?thesis using Cons by (simp add: move_next_def)
qed (simp add: move_next_def)

lemma move_next_set: "distinct ms \<Longrightarrow> t \<in> set ms \<Longrightarrow> mset (move_next t ms) = mset ms"
proof -
  assume a: "distinct ms" "t \<in> set ms"
  obtain as bs where ms: "ms = as @ t # bs" using a(2) by (meson split_list)
  show ?thesis
  proof (cases bs)
    case Nil
    then show ?thesis using a ms move_next_last [of as t] by simp
  next
    case (Cons f cs)
    show ?thesis
    proof (cases as)
      case Nil
      then show ?thesis using ms by (simp add: move_next_def)
    next
      case (Cons l ls)
      then have "ms = l # ls @ t # f # cs" using ms \<open>bs = f # cs\<close> by simp
      moreover from this have "move_next t ms = l # f # ls @ t # cs" using a(1) move_next_found by metis
      ultimately show ?thesis by simp
    qed
  qed
qed

lemma move_next_map:
  assumes "inj_on g (set ms)" "t \<in> set ms"
  shows "move_next (g t) (map g ms) = map g (move_next t ms)"
proof (cases ms)
  case (Cons l ls)
  have eq: "g x = g t \<longleftrightarrow> x = t" if "x \<in> set ms" for x using that assms by (auto dest: inj_onD)
  have w: "dropWhile (\<lambda>x. x \<noteq> g t) (map g ls) = map g (dropWhile (\<lambda>x. x \<noteq> t) ls)"
    "takeWhile (\<lambda>x. x \<noteq> g t) (map g ls) = map g (takeWhile (\<lambda>x. x \<noteq> t) ls)"
    using eq Cons by (auto simp: dropWhile_map takeWhile_map o_def cong: dropWhile_cong takeWhile_cong)
  show ?thesis
  proof (cases "dropWhile (\<lambda>x. x \<noteq> t) ls")
    case Nil
    then show ?thesis using eq [of l] Cons w by (simp add: move_next_def del: dropWhile_eq_Nil_conv)
  next
    case (Cons x xs)
    then show ?thesis using eq [of l] \<open>ms = l # ls\<close> w by (cases xs) (simp_all add: move_next_def)
  qed
qed (use assms in simp)

text \<open>The search loop needs the items only.\<close>

lemma spec_find_map:
  "inj_on it (set ms) \<Longrightarrow> distinct ms \<Longrightarrow> 2 \<le> length ms \<Longrightarrow> spec_find it n i dinfo ms acc = (d', ms', acc') \<Longrightarrow>
     spec_find id n i dinfo (map it ms) acc = (d', map it ms', acc')"
proof (induction n arbitrary: i dinfo ms acc)
  case (Suc n)
  obtain retval found missed where acc: "acc = (retval, found, missed)" by (cases acc)
  let ?d = "dinfo\<lparr>data16 := of_nat i AND 0xff\<rparr>"
  have f: "List.find (\<lambda>x. wanted ?d (id x)) (map it ms) = map_option it (List.find (\<lambda>x. wanted ?d (it x)) ms)"
    by (induction ms) simp_all
  have two: "rev (map it ms) ! 1 = it (rev ms ! 1)" using Suc.prems(3) by (simp add: rev_map)
  show ?case
  proof (cases "List.find (\<lambda>x. wanted ?d (it x)) ms")
    case None
    then show ?thesis
      using Suc.IH [of "rev ms"] Suc.prems f two acc by (simp add: Let_def rev_map)
  next
    case (Some t)
    then have t: "t \<in> set (rev ms)" by (auto simp: find_Some_iff)
    then have s: "mset (move_next t (rev ms)) = mset ms" using move_next_set [of "rev ms" t] Suc.prems(2) by simp
    have m: "move_next (it t) (rev (map it ms)) = map it (move_next t (rev ms))"
      using move_next_map [of it "rev ms" t] Suc.prems(1) t by (simp add: rev_map)
    have "inj_on it (set (move_next t (rev ms)))" "distinct (move_next t (rev ms))" "2 \<le> length (move_next t (rev ms))"
      using mset_eq_setD [OF s] mset_eq_imp_distinct_iff [OF s] mset_eq_length [OF s] Suc.prems(1-3) by simp_all
    then show ?thesis
      using Suc.IH [of "move_next t (rev ms)"] Suc.prems(4) f m acc Some by (simp add: Let_def)
  qed
qed simp

lemma spec_find_mset:
  "distinct ms \<Longrightarrow> spec_find it n i dinfo ms acc = (d', ms', acc') \<Longrightarrow> mset ms' = mset ms"
proof (induction n arbitrary: i dinfo ms acc)
  case (Suc n)
  obtain retval found missed where acc: "acc = (retval, found, missed)" by (cases acc)
  let ?d = "dinfo\<lparr>data16 := of_nat i AND 0xff\<rparr>"
  show ?case
  proof (cases "List.find (\<lambda>x. wanted ?d (it x)) ms")
    case None
    then show ?thesis using Suc.IH [of "rev ms"] Suc.prems acc by (simp add: Let_def)
  next
    case (Some t)
    then have "t \<in> set (rev ms)" by (auto simp: find_Some_iff)
    then have m: "mset (move_next t (rev ms)) = mset ms" using move_next_set [of "rev ms" t] Suc.prems(1) by simp
    then have "distinct (move_next t (rev ms))" using mset_eq_imp_distinct_iff [OF m] Suc.prems(1) by simp
    then show ?thesis
      using Suc.IH [of "move_next t (rev ms)"] Suc.prems(2) m acc Some by (simp add: Let_def)
  qed
qed simp

section \<open>The benchmark leaves the list as it was\<close>

lemma relinked_refl: "s = s\<lparr>nxt := nxt s\<rparr>"
  by simp

lemma cache_next_links:
  assumes "linked (nxt s) (Some l) ms" "distinct ms" "t \<in> set ms"
  shows "linked (nxt (cache_next t l s)) (Some l) (move_next t ms) \<and>
    (\<forall>n. n \<notin> set ms \<longrightarrow> nxt (cache_next t l s) n = nxt s n) \<and>
    cache_next t l s = s\<lparr>nxt := nxt (cache_next t l s)\<rparr>"
proof (cases "nxt s t")
  case None
  obtain as bs where sp: "ms = as @ t # bs" using assms(3) by (meson split_list)
  have "nxt s t = first bs"
    using linked_chain [OF assms(1)] assms(1) sp by (cases bs) (auto simp: linked_iff_chain chain_append)
  then have "ms = as @ [t]" using sp None by (cases bs) auto
  then show ?thesis using assms None move_next_last [of as t] by (auto simp: cache_next_def)
next
  case (Some f)
  let ?s = "cache_next t l s"
  have e: "?s = s\<lparr>nxt := nxt ?s\<rparr>"
    by (simp add: cache_next_def set_nxt_def Some Let_def)
  obtain ls where ms: "ms = l # ls" using assms(1) by (cases ms) auto
  obtain as bs where sp: "ms = as @ t # bs" using assms(3) by (meson split_list)
  have "nxt s t = first bs"
    using linked_chain [OF assms(1)] assms(1) sp by (cases bs) (auto simp: linked_iff_chain chain_append)
  then obtain cs where bs: "bs = f # cs" using Some by (cases bs) auto
  show ?thesis
  proof (cases "t = l")
    case True
    then have "as = []" using sp ms assms(2) by (cases as) auto
    then have ls: "ms = l # f # cs" using sp bs True by simp
    have "move_next t ms = ms" using ls True by (simp add: move_next_def)
    moreover have "linked (nxt ?s) (Some l) ms" "\<forall>n. n \<notin> set ms \<longrightarrow> nxt ?s n = nxt s n"
      using assms(1,2) ls True Some by (auto simp: cache_next_def Let_def)
    ultimately show ?thesis using e by simp
  next
    case False
    then obtain as' where as': "as = l # as'" using sp ms by (cases as) auto
    have ls: "ms = l # as' @ t # f # cs" using sp bs as' by simp
    have nl: "linked (nxt s) (nxt s l) (as' @ t # f # cs)" using assms(1) ls by simp
    have nx: "nxt ?s = (nxt s)(t := nxt s f, f := nxt s l, l := Some f)"
      using False Some assms(2) ls by (auto simp: cache_next_def Let_def fun_eq_iff)
    have "linked ((nxt s)(t := nxt s f)) (nxt s l) (as' @ t # cs)"
      using linked_unlink [OF nl] assms(2) ls by auto
    then have "linked (nxt ?s) (nxt s l) (as' @ t # cs)"
      unfolding nx using assms(2) ls by (subst linked_upd; simp)+
    then have "linked (nxt ?s) (Some l) (l # f # as' @ t # cs)"
      using assms(2) ls nx by auto
    moreover have "move_next t ms = l # f # as' @ t # cs" using ls assms(2) move_next_found by metis
    moreover have "\<forall>n. n \<notin> set ms \<longrightarrow> nxt ?s n = nxt s n" using nx ls by simp
    ultimately show ?thesis using e by simp
  qed
qed

lemma find_total:
  "linked (nxt s) lst xs \<Longrightarrow> length xs < fuel \<Longrightarrow>
     \<exists>r. core_list_find fuel lst dinfo s = Inr r \<and> (\<forall>n. r = Some n \<longrightarrow> n \<in> set xs)"
  using walk_until_linked [of "nxt s" lst xs fuel]
  by (auto simp: core_list_find_def find_Some_iff in_set_conv_nth split: if_splits)

lemma find_cell:
  assumes "linked (nxt s) lst xs" "length xs < fuel"
  shows "core_list_find fuel lst dinfo s = Inr (List.find (\<lambda>n. wanted dinfo (item s n)) xs)"
  using walk_until_linked [OF assms] by (simp add: core_list_find_def wanted_def cong: if_cong)

lemma item_relink [simp]: "item (s\<lparr>nxt := f\<rparr>) = item s"
  by (simp add: item_def fun_eq_iff)

lemma find_loop_spec:
  assumes "linked (nxt s) lst ns" "distinct ns" "2 \<le> length ns" "length ns < fuel"
    "spec_find (item s) n i dinfo ns acc = (dinfo', ms, acc')"
  shows "\<exists>f. find_loop fuel n i dinfo lst acc s = Inr (dinfo', first ms, acc', s\<lparr>nxt := f\<rparr>) \<and>
    linked f (first ms) ms \<and> (\<forall>k. k \<notin> set ns \<longrightarrow> f k = nxt s k)"
  using assms
proof (induction n arbitrary: i dinfo lst acc s ns)
  case 0
  then have "lst = first ns" by (blast dest: linked_first)
  then show ?case using 0 by (cases acc) (auto intro!: exI [of _ "nxt s"])
next
  case (Suc n)
  obtain retval found missed where acc: "acc = (retval, found, missed)" by (cases acc)
  let ?d = "dinfo\<lparr>data16 := of_nat i AND 0xff\<rparr>"
  let ?d' = "if 0 \<le> sint (idx ?d) then ?d\<lparr>idx := idx ?d + 1\<rparr> else ?d"
  let ?r = "List.find (\<lambda>n. wanted ?d (item s n)) ns"
  have r: "core_list_find fuel lst ?d s = Inr ?r" using find_cell [OF Suc.prems(1,4)] .
  obtain s1 where s1: "core_list_reverse fuel lst s = Inr (first (rev ns), s1)"
    "linked (nxt s1) (first (rev ns)) (rev ns)" "\<forall>k. k \<notin> set ns \<longrightarrow> nxt s1 k = nxt s k" "s1 = s\<lparr>nxt := nxt s1\<rparr>"
    using reverse_loop_linked [of s lst ns None "[]" fuel] Suc.prems by (auto simp: core_list_reverse_def)
  have it: "item s1 = item s" using s1(4) item_relink by metis
  obtain l m ls where rev: "rev ns = l # m # ls"
    using Suc.prems(3) by (cases "rev ns" rule: list.exhaust; cases "tl (rev ns)") auto
  have lm: "nxt s1 l = Some m" using s1(2) rev by simp
  have "\<exists>acc1 s2 ks. find_loop fuel (Suc n) i dinfo lst acc s = find_loop fuel n (i + 1) ?d' (Some l) acc1 s2 \<and>
      linked (nxt s2) (Some l) ks \<and> mset ks = mset ns \<and> (\<forall>k. k \<notin> set ns \<longrightarrow> nxt s2 k = nxt s1 k) \<and>
      s2 = s1\<lparr>nxt := nxt s2\<rparr> \<and> spec_find (item s) n (i + 1) ?d' ks acc1 = (dinfo', ms, acc')"
  proof (cases ?r)
    case None
    let ?acc = "(retval + (drop_bit 8 (data16 (item s1 m)) AND 1), found, missed + 1)"
    have "linked (nxt s1) (Some l) (rev ns)" using s1(2) rev by simp
    moreover have "find_loop fuel (Suc n) i dinfo lst acc s = find_loop fuel n (i + 1) ?d' (Some l) ?acc s1"
      using r s1(1) rev lm None acc by (simp add: Let_def)
    moreover have "spec_find (item s) n (i + 1) ?d' (rev ns) ?acc = (dinfo', ms, acc')"
      using Suc.prems(5) None acc rev it by (simp add: Let_def)
    moreover have "s1 = s1\<lparr>nxt := nxt s1\<rparr>" by simp
    ultimately show ?thesis by (metis mset_rev)
  next
    case (Some t)
    let ?acc = "(if data16 (item s1 t) AND 1 \<noteq> 0 then retval + (drop_bit 9 (data16 (item s1 t)) AND 1) else retval,
         found + 1, missed)"
    have t: "t \<in> set (rev ns)" using Some by (auto simp: find_Some_iff)
    have ks: "linked (nxt (cache_next t l s1)) (Some l) (move_next t (rev ns))"
      "\<forall>k. k \<notin> set (rev ns) \<longrightarrow> nxt (cache_next t l s1) k = nxt s1 k"
      "cache_next t l s1 = s1\<lparr>nxt := nxt (cache_next t l s1)\<rparr>"
      using cache_next_links [of s1 l "rev ns" t] s1(2) rev Suc.prems(2) t by auto
    have "mset (move_next t (rev ns)) = mset ns" using move_next_set [of "rev ns" t] Suc.prems(2) t by simp
    moreover have "find_loop fuel (Suc n) i dinfo lst acc s = find_loop fuel n (i + 1) ?d' (Some l) ?acc (cache_next t l s1)"
      using r s1(1) rev lm Some acc by (simp add: Let_def)
    moreover have "spec_find (item s) n (i + 1) ?d' (move_next t (rev ns)) ?acc = (dinfo', ms, acc')"
      using Suc.prems(5) Some acc it by (simp add: Let_def del: if_split cong: if_cong)
    ultimately show ?thesis using ks by (metis set_rev)
  qed
  then obtain acc1 s2 ks where step: "find_loop fuel (Suc n) i dinfo lst acc s = find_loop fuel n (i + 1) ?d' (Some l) acc1 s2"
    and s2: "linked (nxt s2) (Some l) ks" "mset ks = mset ns" "\<forall>k. k \<notin> set ns \<longrightarrow> nxt s2 k = nxt s1 k"
      "s2 = s1\<lparr>nxt := nxt s2\<rparr>" "spec_find (item s) n (i + 1) ?d' ks acc1 = (dinfo', ms, acc')" by blast
  have ks: "distinct ks" "set ks = set ns" "length ks = length ns"
    using mset_eq_imp_distinct_iff [OF s2(2)] mset_eq_setD [OF s2(2)] mset_eq_length [OF s2(2)] Suc.prems(2)
    by auto
  have rl: "s2 = s\<lparr>nxt := nxt s2\<rparr>"
    using s2(4) s1(4) by (metis core_results.surjective core_results.update_convs(1))
  then have "item s2 = item s" using item_relink by metis
  then obtain f where "find_loop fuel n (i + 1) ?d' (Some l) acc1 s2 = Inr (dinfo', first ms, acc', s2\<lparr>nxt := f\<rparr>)"
    "linked f (first ms) ms" "\<forall>k. k \<notin> set ks \<longrightarrow> f k = nxt s2 k"
    using Suc.IH [of s2 "Some l" ks "i + 1" ?d' acc1] s2(1,5) ks Suc.prems(3,4) by auto
  moreover have "s2\<lparr>nxt := f\<rparr> = s\<lparr>nxt := f\<rparr>" using rl by (metis core_results.surjective core_results.update_convs(1))
  ultimately show ?case using step s2(3) s1(3) ks(2) by (intro exI [of _ f]) auto
qed

lemma find_loop_relinks:
  assumes "linked (nxt s) lst ns" "distinct ns" "2 \<le> length ns" "length ns < fuel"
  shows "\<exists>dinfo' lst' acc' s' ms. find_loop fuel n i dinfo lst acc s = Inr (dinfo', lst', acc', s') \<and>
    linked (nxt s') lst' ms \<and> mset ms = mset ns \<and> (\<forall>k. k \<notin> set ns \<longrightarrow> nxt s' k = nxt s k) \<and>
    s' = s\<lparr>nxt := nxt s'\<rparr>"
proof -
  obtain dinfo' ms acc' where sp: "spec_find (item s) n i dinfo ns acc = (dinfo', ms, acc')" by (metis prod_cases3)
  obtain f where "find_loop fuel n i dinfo lst acc s = Inr (dinfo', first ms, acc', s\<lparr>nxt := f\<rparr>)"
    "linked f (first ms) ms" "\<forall>k. k \<notin> set ns \<longrightarrow> f k = nxt s k"
    using find_loop_spec [OF assms sp] by blast
  then show ?thesis using spec_find_mset [OF assms(2) sp]
    by (intro exI [of _ dinfo'] exI [of _ "first ms"] exI [of _ acc'] exI [of _ "s\<lparr>nxt := f\<rparr>"] exI [of _ ms]) simp
qed

lemma crc_loop_walk:
  "linked (nxt s) finder xs \<Longrightarrow> length xs < fuel \<Longrightarrow>
     crc_loop fuel finder l v s = Inr ((crc16 (data16 (item s l)) ^^ length xs) v)"
proof (induction xs arbitrary: finder fuel v)
  case Nil
  then show ?case by (cases fuel) auto
next
  case (Cons x xs)
  then obtain f where "fuel = Suc f" by (cases fuel) auto
  then show ?case using Cons by (auto simp: funpow_swap1)
qed


text \<open>
  The list between two runs: a linked list of at least three cells in strictly increasing order of
  the indices, whose data words are as the initialisation writes them.
\<close>

definition list_wf :: "core_results \<Rightarrow> nat list \<Rightarrow> bool" where
  "list_wf s ns \<longleftrightarrow> linked (nxt s) (res_list s) ns \<and> distinct ns \<and> 3 \<le> length ns \<and>
     sorted_wrt (<) (map (\<lambda>n. sint (idx (item s n))) ns) \<and> (\<forall>n \<in> set ns. regenerated s (info s n))"

lemma linked_nxt_unique:
  "linked nx p xs \<Longrightarrow> linked ny p xs \<Longrightarrow> x \<in> set xs \<Longrightarrow> nx x = ny x"
proof (induction xs arbitrary: p)
  case (Cons y ys)
  then have l: "linked nx (nx y) ys" "linked ny (ny y) ys" by auto
  then have "nx y = ny y" using linked_first by metis
  then show ?case using Cons.IH [of "ny y"] Cons.prems(3) l by auto
qed simp

lemma same_inputs_relink: "s' = s\<lparr>nxt := nxt s'\<rparr> \<Longrightarrow> same_inputs s s' \<and> dat s' = dat s \<and> calc_ready s' = calc_ready s"
  by (metis calc_ready_relink core_results.select_convs(3) core_results.surjective core_results.update_convs(1) same_inputs_relinked)

text \<open>The two steps up to the removal: search and sort by value.\<close>

definition bench_mid :: "core_results \<Rightarrow> core_results \<Rightarrow> nat option \<Rightarrow> nat list \<Rightarrow> nat list \<Rightarrow> bool" where
  "bench_mid s s' lst ns ms \<longleftrightarrow> linked (nxt s') lst ms \<and> mset ms = mset ns \<and>
     (\<forall>k. k \<notin> set ns \<longrightarrow> nxt s' k = nxt s k) \<and> same_inputs s s' \<and> same_items s s' \<and> calc_ready s'"

lemma bench_sort_mid:
  assumes "bench_mid s s1 lst ns ms" "distinct ns" "2 \<le> length ns" "length ns < fuel"
  shows "\<exists>lst' s2 ks. (if 0 < sint finder_idx then core_list_mergesort fuel cmp_complex lst s1 else Inr (lst, s1))
      = Inr (lst', s2) \<and> bench_mid s s2 lst' ns ks"
proof (cases "0 < sint finder_idx")
  case True
  have m: "mset ms = mset ns" using assms(1) by (simp add: bench_mid_def)
  have ms: "distinct ms" "length ms = length ns" "set ms = set ns" "linked (nxt s1) lst ms" "calc_ready s1"
    using assms mset_eq_imp_distinct_iff [OF m] mset_eq_length [OF m] mset_eq_setD [OF m]
    by (auto simp: bench_mid_def)
  obtain s2 ks where r: "ks = sort_key (\<lambda>n. cached_value s2 (info s1 n)) ms"
    "core_list_mergesort fuel cmp_complex lst s1 = Inr (first ks, s2)" "linked (nxt s2) (first ks) ks"
    "\<forall>n. n \<notin> set ms \<longrightarrow> nxt s2 n = nxt s1 n" "same_inputs s1 s2" "same_items s1 s2" "calc_ready s2"
    using mergesort_value_run [OF ms(4,1) _ _ ms(5), of fuel] ms(2) assms(3,4) by auto
  have "mset ks = mset ns" using r(1) assms(1) by (simp add: bench_mid_def)
  then have "bench_mid s s2 (first ks) ns ks"
    using r(3-7) assms(1) ms(3) by (auto simp: bench_mid_def intro: same_inputs_trans same_items_trans)
  then show ?thesis using True r(2) by auto
qed (use assms(1) in auto)

lemma bench_remove_phase:
  assumes "linked (nxt s) (Some l) (l # m # k # rest)" "distinct (l # m # k # rest)" "length (l # m # k # rest) < fuel"
  shows "\<exists>s' r v. core_list_remove m s = Inr (k, s') \<and> nxt s' l = Some m \<and>
    core_list_undo_remove k m s' = (k, s) \<and> core_list_find fuel (Some l) dinfo s' = Inr r \<and>
    crc_loop fuel (if r = None then nxt s' l else r) l retval s' = Inr v"
proof -
  obtain s' where s': "core_list_remove m s = Inr (k, s')" "linked (nxt s') (Some l) (l # m # rest)"
    "core_list_undo_remove k m s' = (k, s)"
    using core_list_remove_item [of s "Some l" "[l]" m k rest] assms by auto
  obtain r where r: "core_list_find fuel (Some l) dinfo s' = Inr r" "\<forall>n. r = Some n \<longrightarrow> n \<in> set (l # m # rest)"
    using find_total [OF s'(2), of fuel dinfo] assms(3) by auto
  have "\<exists>xs. linked (nxt s') (if r = None then nxt s' l else r) xs \<and> length xs < fuel"
  proof (cases r)
    case None
    then show ?thesis using s'(2) assms(3) by (intro exI [of _ "m # rest"]) auto
  next
    case (Some n)
    then have "n \<in> set (l # m # rest)" using r(2) by blast
    then obtain as bs where "l # m # rest = as @ n # bs" by (meson split_list)
    then have "linked (nxt s') (Some n) (n # bs)"
      using linked_suffix [of "nxt s'" "Some l" as "n # bs"] s'(2) by auto
    moreover have "length (l # m # rest) = length as + length (n # bs)"
      using \<open>l # m # rest = as @ n # bs\<close> by (simp only: length_append)
    then have "length (n # bs) < fuel" using assms(3) by simp
    ultimately show ?thesis using Some by (intro exI [of _ "n # bs"]) simp
  qed
  then obtain v where "crc_loop fuel (if r = None then nxt s' l else r) l retval s' = Inr v"
    using crc_loop_walk by blast
  moreover have "nxt s' l = Some m" using s'(2) by simp
  ultimately show ?thesis using s' r(1) by blast
qed

lemma bench_restored:
  assumes mid: "bench_mid s s2 lst ns ms" and wf: "list_wf s ns" "length ns < fuel"
  shows "\<exists>s'. core_list_mergesort fuel (cmp_idx True) lst s2 = Inr (first ns, s') \<and>
    list_wf s' ns \<and> nxt s' = nxt s \<and> map (item s') ns = map (item s) ns \<and>
    calc_ready s' \<and> same_inputs s s' \<and> same_items s s'"
proof -
  note m = mid [unfolded bench_mid_def] and w = wf(1) [unfolded list_wf_def]
  have mm: "mset ms = mset ns" using m by simp
  have ms: "distinct ms" "length ms = length ns" "set ms = set ns"
    using w mset_eq_imp_distinct_iff [OF mm] mset_eq_length [OF mm] mset_eq_setD [OF mm] by auto
  have "2 \<le> length ms" "length ms < fuel" using ms(2) w wf(2) by auto
  then obtain s' ks where r: "ks = sort_key (\<lambda>n. sint (idx (item s2 n))) ms"
    "core_list_mergesort fuel (cmp_idx True) lst s2 = Inr (first ks, s')" "linked (nxt s') (first ks) ks"
    "\<forall>n. n \<notin> set ms \<longrightarrow> nxt s' n = nxt s2 n" "\<exists>f g. s' = s2\<lparr>nxt := f, dat := g\<rparr>" "same_items s2 s'"
    "\<forall>n \<in> set ms. regenerated s' (info s2 n)"
    using mergesort_idx_run [of s2 lst ms fuel] m ms(1) by auto
  have inp: "same_inputs s2 s'" "calc_ready s'" using r(5) m by (auto simp: same_inputs_def calc_ready_def)
  have inputs: "same_inputs s s'" and items: "same_items s s'"
    using m inp(1) r(6) same_inputs_trans same_items_trans by blast+
  have inf: "info s2 = info s" "info s' = info s" "res_list s' = res_list s"
    using m inputs by (simp_all add: same_inputs_def)
  have key: "(\<lambda>n. sint (idx (item s2 n))) = (\<lambda>n. sint (idx (item s n)))"
    using m inf by (auto simp: item_def same_items_def)
  have "ks = ns"
  proof -
    have "inj_on (\<lambda>n. sint (idx (item s n))) (set ms)"
      using w ms(3) by (simp add: strict_sorted_iff distinct_map)
    moreover have "sorted (map (\<lambda>n. sint (idx (item s n))) ns)" using w strict_sorted_iff by blast
    ultimately show ?thesis unfolding r(1) key by (rule sort_key_inj_key_eq [OF mm])
  qed
  have dat: "dat s' (info s n) = dat s (info s n)" if "n \<in> set ns" for n
    using regen_item_eq [OF items] r(7) w that ms(3) inf by simp
  have start: "res_list s = first ns" using w linked_first by blast
  have "nxt s' = nxt s"
  proof
    fix n show "nxt s' n = nxt s n"
      using linked_nxt_unique [of "nxt s'" "first ns" ns "nxt s" n] r(3,4) w \<open>ks = ns\<close> ms(3) m start
      by (cases "n \<in> set ns") auto
  qed
  moreover from this have "list_wf s' ns"
    using w inf dat r(7) ms(3) by (simp add: list_wf_def item_def cong: map_cong)
  ultimately show ?thesis
    using r(2) \<open>ks = ns\<close> inf dat inp(2) inputs items by (intro exI [of _ s']) (simp add: item_def)
qed

lemma core_bench_list_run:
  assumes "list_wf s ns" "calc_ready s" "length ns < fuel" "0 < sint (res_seed3 s) \<or> 0 \<le> sint finder_idx"
  shows "\<exists>retval s'. core_bench_list fuel finder_idx s = Inr (retval, s') \<and>
    list_wf s' ns \<and> nxt s' = nxt s \<and> map (item s') ns = map (item s) ns \<and>
    calc_ready s' \<and> same_inputs s s' \<and> same_items s s'"
proof -
  note w = assms(1) [unfolded list_wf_def]
  have len: "2 \<le> length ns" using w by simp
  obtain dinfo lst1 retval found missed s1 ms1 where f:
    "find_loop fuel (nat (sint (res_seed3 s))) 0 \<lparr>data16 = 0, idx = finder_idx\<rparr> (res_list s) (0, 0, 0) s
       = Inr (dinfo, lst1, (retval, found, missed), s1)"
    "linked (nxt s1) lst1 ms1" "mset ms1 = mset ns" "\<forall>k. k \<notin> set ns \<longrightarrow> nxt s1 k = nxt s k" "s1 = s\<lparr>nxt := nxt s1\<rparr>"
    using find_loop_relinks [of s "res_list s" ns fuel "nat (sint (res_seed3 s))" 0 "\<lparr>data16 = 0, idx = finder_idx\<rparr>" "(0, 0, 0)"]
      w len assms(3) by (metis prod_cases3)
  have "bench_mid s s1 lst1 ns ms1"
    using f same_inputs_relink [OF f(5)] assms(2) by (simp add: bench_mid_def same_items_def)
  then obtain lst2 s2 ms where s2: "(if 0 < sint finder_idx then core_list_mergesort fuel cmp_complex lst1 s1
      else Inr (lst1, s1)) = Inr (lst2, s2)" and mid: "bench_mid s s2 lst2 ns ms"
    using bench_sort_mid [of s s1 lst1 ns ms1 fuel finder_idx] w len assms(3) by auto
  have mm: "mset ms = mset ns" and link: "linked (nxt s2) lst2 ms" and seed: "res_seed3 s2 = res_seed3 s"
    using mid by (simp_all add: bench_mid_def same_inputs_def)
  have "3 \<le> length ms" "distinct ms" "length ms < fuel"
    using w mset_eq_length [OF mm] mset_eq_imp_distinct_iff [OF mm] assms(3) by auto
  then obtain l m k rest where ms: "ms = l # m # k # rest"
    by (metis One_nat_def Suc_1 Suc_le_length_iff eval_nat_numeral(3))
  have lst2: "lst2 = Some l" "nxt s2 l = Some m" using link ms by auto
  obtain s3 r v where s3: "core_list_remove m s2 = Inr (k, s3)" "nxt s3 l = Some m"
    "core_list_undo_remove k m s3 = (k, s2)" "core_list_find fuel (Some l) dinfo s3 = Inr r"
    "crc_loop fuel (if r = None then nxt s3 l else r) l (retval + (found * 4 - missed)) s3 = Inr v"
    using bench_remove_phase [of s2 l m k rest fuel dinfo "retval + (found * 4 - missed)"] link lst2 ms
      \<open>distinct ms\<close> \<open>length ms < fuel\<close> by auto
  have seed3: "res_seed3 s3 = res_seed3 s2"
    using s3(1) by (cases "nxt s2 m") (auto simp: core_list_remove_def set_nxt_def set_info_def Let_def)
  have init: "\<not> (sint (res_seed3 s3) \<le> 0 \<and> sint finder_idx < 0)" using assms(4) seed seed3 by auto
  obtain s' where s': "core_list_mergesort fuel (cmp_idx True) lst2 s2 = Inr (first ns, s')"
    "list_wf s' ns" "nxt s' = nxt s" "map (item s') ns = map (item s) ns" "calc_ready s'"
    "same_inputs s s'" "same_items s s'"
    using bench_restored [OF mid assms(1,3)] by blast
  obtain h ts where ns: "ns = h # ts" using len by (cases ns) auto
  have "linked (nxt s') (nxt s' h) ts" using s'(2) ns by (auto simp: list_wf_def)
  then obtain v' where v': "crc_loop fuel (nxt s' h) h v s' = Inr v'"
    using crc_loop_walk assms(3) ns by fastforce
  have "core_bench_list fuel finder_idx s = Inr (v', s')"
    using f(1) s2 lst2 s3 init s'(1) ns v' by (simp add: core_bench_list_def Let_def)
  then show ?thesis using s' by blast
qed

text \<open>
  C6: On a well-formed list one run of the list benchmark returns and puts the list back: the same
  cells linked in the same order with the same items, whatever the searches, reversals, evaluations
  and sorts did in between.  Well-formed (\<open>list_wf\<close>) means: at least three different cells, linked
  from the head and ended by null, whose items have regenerated data and strictly increasing
  indices, so that no two are equal.  The data the evaluations use must have its sizes, and the text
  a zero byte that no step of the corruption reaches (\<open>calc_ready\<close>).  The seeds and matrices are
  kept, the text is too if the seeds repair it, and the state is ready for the next run.  The third
  seed must be positive for a negative index, or else a variable is read that was never written;
  the loops along the list are given more rounds than it has cells.
  The list that \<^verbatim>\<open>core_list_init\<close> makes has different indices for the seeds of the three run types,
  but not for every seed; where two are equal, the comment that the last sort brings back the
  original state is wrong (\<open>equal_indices_lose_cells\<close>).
\<close>

theorem core_bench_list_restores:
  assumes "list_wf s ns" "calc_ready s" "length ns < fuel" "0 < sint (res_seed3 s) \<or> 0 \<le> sint finder_idx"
  shows "\<exists>retval s'. core_bench_list fuel finder_idx s = Inr (retval, s') \<and>
    list_wf s' ns \<and> nxt s' = nxt s \<and> map (item s') ns = map (item s) ns \<and>
    calc_ready s' \<and> same_inputs s s' \<and> same_items s s'"
  by (rule core_bench_list_run [OF assms])

lemma small_heap_wf: "list_wf (small_heap [0, 1, 2]) [0, 1, 2]"
  using small_heap_linked(1) by (simp add: list_wf_def small_heap_def item_def regenerated_def regen_def)

lemma small_heap_seed3: "0 < sint (res_seed3 (small_heap xs))"
  by (simp add: small_heap_def)

lemma core_bench_list_restores_witness:
  "\<exists>retval s'. core_bench_list 9 (- 1) (small_heap [0, 1, 2]) = Inr (retval, s') \<and> list_wf s' [0, 1, 2]"
  using core_bench_list_restores [OF small_heap_wf small_heap_ready, of 9 "- 1"] small_heap_seed3 by auto

text \<open>
  With two items of the same index the list is not put back.  The last sort is stable, so it leaves
  the two in the order that the reversals gave them; and as the benchmark does not store the new
  head, a cell that now precedes the old head is no longer in the list for the next iteration.
\<close>

definition twin_heap :: core_results where
  "twin_heap = (small_heap [0, 1, 2])\<lparr>dat := \<lambda>d. \<lparr>data16 = 0x0101 * of_nat d, idx = of_nat (d div 2)\<rparr>\<rparr>"

lemma twin_fields:
  "nxt twin_heap = [0 \<mapsto> 1, 1 \<mapsto> 2]" "info twin_heap = (\<lambda>n. n)" "res_list twin_heap = Some 0" "res_seed3 twin_heap = 1"
  "dat twin_heap d = \<lparr>data16 = 0x0101 * of_nat d, idx = of_nat (d div 2)\<rparr>"
  by (simp_all add: twin_heap_def small_heap_def fun_eq_iff)

lemma twin_find:
  "\<exists>v f mi s1. find_loop 9 1 0 \<lparr>data16 = 0, idx = - 1\<rparr> (Some 0) (0, 0, 0) twin_heap =
     Inr (\<lparr>data16 = 0, idx = - 1\<rparr>, Some 2, (v, f, mi), s1) \<and> linked (nxt s1) (Some 2) [2, 1, 0] \<and>
     s1 = twin_heap\<lparr>nxt := nxt s1\<rparr>"
  by (simp add: numeral_eq_Suc core_list_find_def core_list_reverse_def cache_next_def item_def twin_fields deref_def Let_def set_nxt_def)


theorem equal_indices_lose_cells:
  "linked (nxt twin_heap) (res_list twin_heap) [0, 1, 2] \<and> calc_ready twin_heap \<and>
   sorted (map (\<lambda>n. sint (idx (item twin_heap n))) [0, 1, 2]) \<and>
   (\<exists>retval s'. core_bench_list 9 (- 1) twin_heap = Inr (retval, s') \<and> linked (nxt s') (res_list s') [0, 2])"
proof (intro conjI)
  show "linked (nxt twin_heap) (res_list twin_heap) [0, 1, 2]" by (simp add: twin_fields)
  show "sorted (map (\<lambda>n. sint (idx (item twin_heap n))) [0, 1, 2])" by (simp add: twin_fields item_def)
  show "calc_ready twin_heap" using small_heap_ready by (simp add: twin_heap_def calc_ready_def)
next
  obtain v f mi s1 where f: "find_loop 9 1 0 \<lparr>data16 = 0, idx = - 1\<rparr> (Some 0) (0, 0, 0) twin_heap =
      Inr (\<lparr>data16 = 0, idx = - 1\<rparr>, Some 2, (v, f, mi), s1)" "linked (nxt s1) (Some 2) [2, 1, 0]"
    "s1 = twin_heap\<lparr>nxt := nxt s1\<rparr>"
    using twin_find by blast
  have seed: "res_seed3 s = res_seed3 s1" if "core_list_remove 1 s1 = Inr (k, s)" for k s
    using that by (cases "nxt s1 1") (auto simp: core_list_remove_def set_nxt_def set_info_def Let_def)
  have fields: "res_seed3 s1 = 1" "res_list s1 = Some 0" "item s1 = item twin_heap"
    by (subst f(3), simp add: twin_fields item_def)+
  obtain s3 r v3 where s3: "core_list_remove 1 s1 = Inr (0, s3)" "nxt s3 2 = Some 1"
    "core_list_undo_remove 0 1 s3 = (0, s1)" "core_list_find 9 (Some 2) \<lparr>data16 = 0, idx = - 1\<rparr> s3 = Inr r"
    "crc_loop 9 (if r = None then nxt s3 2 else r) 2 (v + (f * 4 - mi)) s3 = Inr v3"
    using bench_remove_phase [of s1 2 1 0 "[]" 9 "\<lparr>data16 = 0, idx = - 1\<rparr>" "v + (f * 4 - mi)"] f(2) by auto
  have "sort_key (\<lambda>n. sint (idx (item s1 n))) [2, 1, 0] = [1, 0, 2]"
    by (simp add: fields item_def twin_fields)
  then obtain s' where s': "core_list_mergesort 9 (cmp_idx True) (Some 2) s1 = Inr (Some 1, s')"
    "linked (nxt s') (Some 1) [1, 0, 2]" "\<exists>f g. s' = s1\<lparr>nxt := f, dat := g\<rparr>"
    using mergesort_idx_run [OF f(2), of 9] by auto
  from s'(3) fields have "res_list s' = Some 0" by auto
  moreover obtain v4 where "crc_loop 9 (nxt s' 1) 1 v3 s' = Inr v4"
    using crc_loop_walk [of s' "nxt s' 1" "[0, 2]" 9 1 v3] s'(2) by auto
  moreover have "nxt s1 2 = Some 1" using f(2) by simp
  ultimately show "\<exists>retval s'. core_bench_list 9 (- 1) twin_heap = Inr (retval, s') \<and> linked (nxt s') (res_list s') [0, 2]"
    using f(1) s3 s'(1,2) seed [OF s3(1)] fields
    by (simp add: core_bench_list_def twin_fields Let_def)
qed

text \<open>
  The comment in the benchmark says that the checksum is taken of the data content of the
  list.  The loop walks the list, but it feeds the data of the first cell every time: the result
  depends on the length of the list and on that one item only.
\<close>

theorem crc_loop_head_only:
  assumes "linked (nxt s) finder xs" "length xs < fuel"
  shows "crc_loop fuel finder l retval s = Inr ((crc16 (data16 (item s l)) ^^ length xs) retval)"
  by (rule crc_loop_walk [OF assms])

lemma crc_loop_head_only_witness:
  "crc_loop 9 (Some 0) 1 0 (small_heap [0, 1, 2]) = Inr ((crc16 0x0101 ^^ 3) 0)"
  using crc_loop_head_only [OF small_heap_linked(1), of 9 1 0] by (simp add: small_heap_def item_def numeral_3_eq_3)

section \<open>The iterations\<close>

definition with_crcs :: "core_results \<Rightarrow> u16 \<Rightarrow> u16 \<Rightarrow> u16 \<Rightarrow> u16 \<Rightarrow> core_results" where
  "with_crcs s c cl cm cs = s\<lparr>res_crc := c, res_crclist := cl, res_crcmatrix := cm, res_crcstate := cs\<rparr>"

lemma with_crcs_simps [simp]:
  "list_wf (with_crcs s c cl cm cs) ns = list_wf s ns" "calc_ready (with_crcs s c cl cm cs) = calc_ready s"
  "same_inputs s' (with_crcs s c cl cm cs) = same_inputs s' s" "nxt (with_crcs s c cl cm cs) = nxt s"
  "item (with_crcs s c cl cm cs) = item s" "res_seed3 (with_crcs s c cl cm cs) = res_seed3 s"
  "same_inputs (with_crcs s c cl cm cs) s' = same_inputs s s'"
  by (simp_all add: with_crcs_def list_wf_def calc_ready_def same_inputs_def regenerated_def item_def
      repairable_def fun_eq_iff)

lemma iterate_loop_run:
  "list_wf s ns \<Longrightarrow> calc_ready s \<Longrightarrow> length ns < fuel \<Longrightarrow> 0 < sint (res_seed3 s) \<Longrightarrow>
     \<exists>s'. iterate_loop fuel n b s = Inr s' \<and> list_wf s' ns \<and> nxt s' = nxt s \<and>
       map (item s') ns = map (item s) ns \<and> calc_ready s' \<and> same_inputs s s'"
proof (induction n arbitrary: s b)
  case 0
  then show ?case by (simp add: same_inputs_refl)
next
  case (Suc n)
  obtain v1 s1 where b1: "core_bench_list fuel 1 s = Inr (v1, s1)" "list_wf s1 ns" "nxt s1 = nxt s"
    "map (item s1) ns = map (item s) ns" "calc_ready s1" "same_inputs s s1"
    using core_bench_list_run [OF Suc.prems(1-3), of 1] Suc.prems(4) by auto
  let ?s1 = "with_crcs s1 (crcu16 v1 (res_crc s1)) (res_crclist s1) (res_crcmatrix s1) (res_crcstate s1)"
  have e1: "?s1 = s1\<lparr>res_crc := crcu16 v1 (res_crc s1)\<rparr>" by (simp add: with_crcs_def)
  have seed1: "0 < sint (res_seed3 ?s1)" using b1(6) Suc.prems(4) by (simp add: same_inputs_def)
  obtain v2 s2 where b2: "core_bench_list fuel (- 1) ?s1 = Inr (v2, s2)" "list_wf s2 ns" "nxt s2 = nxt s1"
    "map (item s2) ns = map (item s1) ns" "calc_ready s2" "same_inputs s1 s2"
    using core_bench_list_run [of ?s1 ns fuel "- 1"] b1 seed1 Suc.prems(3) by auto
  define s3 where "s3 = with_crcs s2 (crcu16 v2 (res_crc s2))
    (if b then crcu16 v2 (res_crc s2) else res_crclist s2) (res_crcmatrix s2) (res_crcstate s2)"
  have e: "iterate_loop fuel (Suc n) b s = iterate_loop fuel n False s3"
    using b1(1) b2(1) [unfolded e1] by (simp add: Let_def s3_def with_crcs_def)
  have "same_inputs s s3" using same_inputs_trans [OF b1(6) b2(6)] by (simp add: s3_def)
  moreover from this have "0 < sint (res_seed3 s3)" using Suc.prems(4) by (simp add: same_inputs_def)
  moreover have "list_wf s3 ns" "calc_ready s3" "nxt s3 = nxt s" "map (item s3) ns = map (item s) ns"
    using b1 b2 by (simp_all add: s3_def)
  ultimately show ?case
    using Suc.IH [of s3 False] Suc.prems(3) same_inputs_trans [of s s3] unfolding e by metis
qed

lemma iterate_run:
  assumes "list_wf s ns" "calc_ready s" "length ns < fuel" "0 < sint (res_seed3 s)"
  shows "\<exists>s'. iterate fuel s = Inr s' \<and> list_wf s' ns \<and> nxt s' = nxt s \<and>
    map (item s') ns = map (item s) ns \<and> calc_ready s' \<and> same_inputs s s'"
  using iterate_loop_run [of "with_crcs s 0 0 0 0" ns fuel "res_iterations s" True] assms
  by (simp add: iterate_def with_crcs_def [symmetric])

text \<open>
  Any number of iterations returns, without a fault and without exhausting the rounds, and
  leaves the list, its items, the seeds and the matrices as they were; with repairing seeds, the
  text too.
\<close>

theorem iterate_restores:
  assumes "list_wf s ns" "calc_ready s" "length ns < fuel" "0 < sint (res_seed3 s)"
  shows "\<exists>s'. iterate fuel s = Inr s' \<and> list_wf s' ns \<and> nxt s' = nxt s \<and>
    map (item s') ns = map (item s) ns \<and> calc_ready s' \<and> same_inputs s s'"
  by (rule iterate_run [OF assms])

lemma iterate_restores_witness:
  "\<exists>s'. iterate 9 (small_heap [0, 1, 2]) = Inr s' \<and> list_wf s' [0, 1, 2] \<and> nxt s' = nxt (small_heap [0, 1, 2])"
  using iterate_restores [OF small_heap_wf small_heap_ready, of 9] small_heap_seed3 by auto

end
