(* ===== verification/CMSpec.thy ===== *)
theory CMSpec
  imports CMBench
begin

text \<open>
  What the list benchmark of \<^verbatim>\<open>pCPU/coremark/core_list_join.c\<close> computes, as a function on the
  sequence of the items of the list: no cells, no links and no stores.
\<close>

section \<open>The values of the text and the matrix benchmark\<close>

definition text_value :: "core_results \<Rightarrow> u16 \<Rightarrow> u16 \<Rightarrow> u16" where
  "text_value s step crc =
     (case core_bench_state (res_size s) (res_text s) (res_seed1 s) (res_seed2 s) step crc of
        Inl err \<Rightarrow> 0 | Inr (v, _) \<Rightarrow> v)"

definition matrix_value :: "core_results \<Rightarrow> u16 \<Rightarrow> u16 \<Rightarrow> u16" where
  "matrix_value s seed crc =
     (case core_bench_matrix (res_mat s) seed crc of Inl err \<Rightarrow> 0 | Inr (v, _) \<Rightarrow> v)"

text \<open>
  A state whose values do not depend on what was evaluated before: the text is repaired after
  every scan, and nothing of the result matrix is read before it is written.
\<close>

definition spec_ready :: "core_results \<Rightarrow> bool" where
  "spec_ready s \<longleftrightarrow> calc_ready s \<and> repairable s \<and> length (matC (res_mat s)) = matN (res_mat s) * matN (res_mat s)"

lemma filled_all: "n = length xs \<Longrightarrow> n = length ys \<Longrightarrow> filled N (\<lambda>i j _. f i j) n xs = filled N (\<lambda>i j _. f i j) n ys"
  by (rule nth_equalityI) simp_all

lemma matrix_test_fresh:
  assumes "N * N \<le> length A" "length C = N * N" "length C' = N * N"
  shows "matrix_test N C A B x = matrix_test N C' A B x"
proof -
  obtain A' where A': "matrix_add_const N A x = Inr A'" "length A' = length A"
    using matrix_add_const_eq [OF assms(1)] by simp
  have "matrix_mul_const N C A' x = matrix_mul_const N C' A' x"
    using assms A'(2) by (simp add: matrix_mul_const_eq filled_all [of _ C C'])
  then show ?thesis using A'(1) by (simp add: matrix_test_def)
qed

lemma same_inputs_mat:
  "same_inputs s s' \<Longrightarrow> matN (res_mat s') = matN (res_mat s) \<and> matA (res_mat s') = matA (res_mat s) \<and>
     matB (res_mat s') = matB (res_mat s) \<and> length (matC (res_mat s')) = length (matC (res_mat s))"
  by (cases "res_mat s"; cases "res_mat s'") (simp add: same_inputs_def)

lemma same_inputs_repairable: "same_inputs s s' \<Longrightarrow> repairable s \<Longrightarrow> repairable s'"
  by (simp add: repairable_def same_inputs_def)

lemma spec_ready_same: "spec_ready s \<Longrightarrow> same_inputs s s' \<Longrightarrow> calc_ready s' \<Longrightarrow> spec_ready s'"
  using same_inputs_mat [of s s'] same_inputs_repairable [of s s'] by (simp add: spec_ready_def)

lemma values_same:
  assumes "spec_ready s" "same_inputs s s'"
  shows "text_value s' = text_value s" "matrix_value s' = matrix_value s"
proof -
  show "text_value s' = text_value s"
    using assms by (simp add: text_value_def fun_eq_iff same_inputs_def spec_ready_def)
  have "matrix_test (matN (res_mat s)) (matC (res_mat s')) (matA (res_mat s)) (matB (res_mat s)) x
      = matrix_test (matN (res_mat s)) (matC (res_mat s)) (matA (res_mat s)) (matB (res_mat s)) x" for x
    using assms same_inputs_mat [OF assms(2)] by (intro matrix_test_fresh) (auto simp: spec_ready_def calc_ready_def)
  then show "matrix_value s' = matrix_value s"
    using same_inputs_mat [OF assms(2)]
    by (auto simp: matrix_value_def core_bench_matrix_def fun_eq_iff bindE_def split: sum.splits)
qed

section \<open>The evaluation of one item\<close>

text \<open>The running checksum, and the first nonzero values of the matrix and of the text benchmark.\<close>

type_synonym crcs = "u16 \<times> u16 \<times> u16"

definition crcs_of :: "core_results \<Rightarrow> crcs" where
  "crcs_of s = (res_crc s, res_crcmatrix s, res_crcstate s)"

definition cache :: "u16 \<Rightarrow> u16 \<Rightarrow> u16" where
  "cache data v = (data AND 0xff00) OR 0x0080 OR (v AND 0x7f)"

definition record_first :: "u16 \<Rightarrow> u16 \<Rightarrow> u16" where
  "record_first old v = (if old = 0 then v else old)"

definition spec_calc :: "(u16 \<Rightarrow> u16 \<Rightarrow> u16) \<Rightarrow> (u16 \<Rightarrow> u16 \<Rightarrow> u16) \<Rightarrow> u16 \<Rightarrow> crcs \<Rightarrow> u16 \<times> crcs" where
  "spec_calc tv mv data cr =
     (case cr of (crc, cm, cs) \<Rightarrow>
        if drop_bit 7 data AND 1 \<noteq> 0 then (data, cr)
        else
          let dtype = drop_bit 3 data AND 0xf; dtype = dtype OR push_bit 4 dtype
          in if data AND 7 = 0 then
               let v = tv (if sint dtype < 0x22 then 0x22 else dtype) crc
               in (cache data v, crcu16 v crc, cm, record_first cs v)
             else if data AND 7 = 1 then
               let v = mv dtype crc in (cache data v, crcu16 v crc, record_first cm v, cs)
             else (cache data data, crcu16 data crc, cm, cs))"

lemma calc_text_value:
  assumes "spec_ready s" "sint step = 17 * int k" "2 \<le> k"
  shows "core_bench_state (res_size s) (res_text s) (res_seed1 s) (res_seed2 s) step crc = Inr (text_value s step crc, res_text s)"
  using calc_state_total [of s step k crc] assms by (auto simp: spec_ready_def text_value_def)

lemma calc_matrix_value:
  assumes "spec_ready s"
  shows "\<exists>C. core_bench_matrix (res_mat s) x crc = Inr (matrix_value s x crc, (res_mat s)\<lparr>matC := C\<rparr>)"
  using calc_matrix_total [of s x crc] assms by (auto simp: spec_ready_def matrix_value_def)

lemma calc_switch_spec:
  assumes "spec_ready s" "drop_bit 7 data AND 1 = 0"
    "spec_calc (text_value s) (matrix_value s) data (crcs_of s) = (w, crc, cm, cs)"
  shows "\<exists>v s'. calc_switch data s = Inr (v, s') \<and> dat s' = dat s \<and> res_crc s' = res_crc s \<and> res_crclist s' = res_crclist s \<and>
    w = cache data v \<and> crc = crcu16 v (res_crc s) \<and> res_crcmatrix s' = cm \<and> res_crcstate s' = cs"
proof -
  let ?t = "(drop_bit 3 data AND 0xf) OR push_bit 4 (drop_bit 3 data AND 0xf)"
  let ?step = "if sint ?t < 0x22 then 0x22 else ?t"
  consider "data AND 7 = 0" | "data AND 7 = 1" | "data AND 7 \<noteq> 0" "data AND 7 \<noteq> 1" by blast
  then show ?thesis
  proof cases
    case 1
    obtain k where k: "2 \<le> k" "sint ?step = 17 * int k" using calc_step [of data] by blast
    show ?thesis
      using calc_text_value [OF assms(1) k(2,1), of "res_crc s"] 1 assms(2,3)
      by (auto simp: calc_switch_def spec_calc_def crcs_of_def Let_def record_first_def)
  next
    case 2
    obtain C where "core_bench_matrix (res_mat s) ?t (res_crc s) = Inr (matrix_value s ?t (res_crc s), (res_mat s)\<lparr>matC := C\<rparr>)"
      using calc_matrix_value [OF assms(1)] by blast
    then show ?thesis
      using 2 assms(2,3) by (auto simp: calc_switch_def spec_calc_def crcs_of_def Let_def record_first_def)
  next
    case 3
    then show ?thesis
      using assms(2,3) by (auto simp: calc_switch_def spec_calc_def crcs_of_def Let_def)
  qed
qed

text \<open>What an evaluation does to the state: only the item is changed, and the inputs are kept.\<close>

definition evaluates :: "nat \<Rightarrow> core_results \<Rightarrow> u16 \<Rightarrow> crcs \<Rightarrow> core_results \<Rightarrow> bool" where
  "evaluates d s w cr s' \<longleftrightarrow> dat s' = (dat s)(d := (dat s d)\<lparr>data16 := w\<rparr>) \<and> crcs_of s' = cr \<and>
     res_crclist s' = res_crclist s \<and> nxt s' = nxt s \<and> same_inputs s s' \<and> spec_ready s'"

lemma calc_func_spec:
  assumes "spec_ready s" "spec_calc (text_value s) (matrix_value s) (data16 (dat s d)) (crcs_of s) = (w, cr)"
  shows "\<exists>s'. calc_func d s = Inr (w AND 0x7f, s') \<and> evaluates d s w cr s'"
proof -
  let ?data = "data16 (dat s d)"
  have "calc_ready s" using assms(1) by (simp add: spec_ready_def)
  then obtain s' where s': "calc_func d s = Inr (data16 (dat s' d) AND 0x7f, s')" "calc_ready s'" "calc_keeps s s'" "nxt s' = nxt s"
    using calc_func_value by blast
  have keep: "same_inputs s s'" "spec_ready s'"
    using s'(2,3) spec_ready_same [OF assms(1)] by (simp_all add: calc_keeps_def)
  show ?thesis
  proof (cases "drop_bit 7 ?data AND 1 = 0")
    case True
    obtain crc cm cs where cr: "cr = (crc, cm, cs)" by (cases cr)
    obtain v s1 where sw: "calc_switch ?data s = Inr (v, s1)" "dat s1 = dat s" "res_crc s1 = res_crc s" "res_crclist s1 = res_crclist s"
      "w = cache ?data v" "crc = crcu16 v (res_crc s)" "res_crcmatrix s1 = cm" "res_crcstate s1 = cs"
      using calc_switch_spec [OF assms(1) True] assms(2) cr by blast
    have "s' = set_dat d ((dat s d)\<lparr>data16 := w\<rparr>) (s1\<lparr>res_crc := crc\<rparr>)"
      using s'(1) True sw unfolding cache_def by (auto simp: calc_func_def Let_def)
    then show ?thesis
      using s'(1,4) sw keep cr by (intro exI [of _ s']) (simp add: evaluates_def crcs_of_def set_dat_def)
  next
    case False
    then have "w = ?data" "cr = crcs_of s" "s' = s"
      using assms(2) s'(1) by (simp_all add: spec_calc_def calc_func_def split: prod.splits)
    then show ?thesis
      using s'(1) keep by (intro exI [of _ s']) (simp add: evaluates_def)
  qed
qed

section \<open>The order in which a sort evaluates\<close>

text \<open>
  The first pass of the sort by value compares the first cell with the second, the third with the
  fourth and so on, and evaluates them in this order.  All later comparisons find the values cached
  and change nothing.
\<close>

fun evaluated :: "nat list \<Rightarrow> core_results \<Rightarrow> core_results" where
  "evaluated [] s = s"
| "evaluated (d # ds) s = (case calc_func d s of Inl err \<Rightarrow> s | Inr (_, s) \<Rightarrow> evaluated ds s)"

lemma calc_switch_relink:
  assumes "calc_switch data s = Inr (v, s')"
  shows "calc_switch data (s\<lparr>nxt := f\<rparr>) = Inr (v, s'\<lparr>nxt := f\<rparr>)"
proof -
  consider "data AND 7 = 0" | "data AND 7 = 1" | "data AND 7 \<noteq> 0" "data AND 7 \<noteq> 1" by blast
  then show ?thesis
  proof cases
    case 1
    then show ?thesis using assms by (simp add: calc_switch_def Let_def bindE_Inr_iff) auto
  next
    case 2
    then show ?thesis using assms by (simp add: calc_switch_def Let_def bindE_Inr_iff) auto
  next
    case 3
    then show ?thesis using assms by (simp add: calc_switch_def Let_def)
  qed
qed

lemma calc_func_relink:
  assumes "calc_func d s = Inr (v, s')"
  shows "calc_func d (s\<lparr>nxt := f\<rparr>) = Inr (v, s'\<lparr>nxt := f\<rparr>)"
proof (cases "drop_bit 7 (data16 (dat s d)) AND 1 = 0")
  case True
  then obtain r s1 where "calc_switch (data16 (dat s d)) s = Inr (r, s1)"
    "v = r AND 0x7f" "s' = set_dat d ((dat s1 d)\<lparr>data16 := (data16 (dat s d) AND 0xff00) OR 0x0080 OR (r AND 0x7f)\<rparr>)
      (s1\<lparr>res_crc := crcu16 r (res_crc s1)\<rparr>)"
    using assms by (auto simp: calc_func_def Let_def bindE_Inr_iff)
  then show ?thesis
    using calc_switch_relink [of "data16 (dat s d)" s r s1 f] True by (simp add: calc_func_def Let_def set_dat_def)
qed (use assms in \<open>auto simp: calc_func_def\<close>)

lemma evaluated_relink: "calc_ready s \<Longrightarrow> evaluated ds (s\<lparr>nxt := f\<rparr>) = (evaluated ds s)\<lparr>nxt := f\<rparr>"
proof (induction ds arbitrary: s)
  case (Cons d ds)
  then obtain v s' where "calc_func d s = Inr (v, s')" "calc_ready s'"
    using calc_func_value [of s d] by blast
  then show ?case using calc_func_relink [of d s v s' f] Cons.IH [of s'] by simp
qed simp

lemma cmp_complex_evaluates:
  assumes "calc_ready s"
  shows "\<exists>v. cmp_complex a b s = Inr (v, evaluated [a, b] s)" "nxt (evaluated [a, b] s) = nxt s"
    "calc_keeps s (evaluated [a, b] s)" "calc_ready (evaluated [a, b] s)"
proof -
  obtain v s1 where s1: "calc_func a s = Inr (v, s1)" "calc_ready s1" "calc_keeps s s1" "nxt s1 = nxt s"
    using calc_func_value [OF assms] by blast
  obtain w s2 where s2: "calc_func b s1 = Inr (w, s2)" "calc_ready s2" "calc_keeps s1 s2" "nxt s2 = nxt s1"
    using calc_func_value [OF s1(2)] by blast
  show "\<exists>v. cmp_complex a b s = Inr (v, evaluated [a, b] s)" "nxt (evaluated [a, b] s) = nxt s"
    "calc_keeps s (evaluated [a, b] s)" "calc_ready (evaluated [a, b] s)"
    using s1 s2 calc_keeps_trans by (auto simp: cmp_complex_def)
qed

lemma merge_pair:
  assumes c: "cmp (info s a) (info s b) s = Inr (v, s1)" "nxt s1 = nxt s"
    and d: "a \<noteq> b" "tail \<noteq> Some a" "tail \<noteq> Some b"
  shows "\<exists>f lst' t. merge_loop cmp 1 1 (Some a) (Some b) lst tail s = Inr (nxt s b, lst', Some t, s1\<lparr>nxt := f\<rparr>) \<and>
    t \<in> {a, b} \<and> (\<forall>n. n \<notin> {a, b} \<longrightarrow> tail \<noteq> Some n \<longrightarrow> f n = nxt s n)"
proof -
  define x y where "x = (if v \<le> 0 then a else b)" and "y = (if v \<le> 0 then b else a)"
  let ?f = "(nxt s)(the tail := if tail = None then nxt s (the tail) else Some x, x := Some y)"
  obtain lst1 s2 where s2: "append_cell x lst tail s1 = (lst1, s2)" "s2\<lparr>nxt := (nxt s2)(x := Some y)\<rparr> = s1\<lparr>nxt := ?f\<rparr>"
    "nxt s2 a = nxt s a" "nxt s2 b = nxt s b"
    using c(2) d by (cases tail) (auto simp: append_cell_def set_nxt_def)
  have end_loop: "merge_loop cmp 0 0 p q l t s' = Inr (q, l, t, s')" for p q l t s'
    by (subst merge_loop.simps) simp
  have "merge_loop cmp 1 1 (Some a) (Some b) lst tail s = Inr (nxt s b, lst1, Some y, s1\<lparr>nxt := ?f\<rparr>)"
  proof (cases "v \<le> 0")
    case True
    have "merge_loop cmp 0 1 (nxt s1 a) (Some b) lst1 (Some a) s2 = Inr (nxt s b, lst1, Some b, s1\<lparr>nxt := ?f\<rparr>)"
      using True s2(2,4) by (subst merge_loop.simps) (simp add: merge_pick_def append_cell_def end_loop set_nxt_def x_def y_def)
    then show ?thesis
      using True c s2(1) by (subst merge_loop.simps) (simp add: merge_pick_def x_def y_def)
  next
    case False
    have "merge_loop cmp 1 0 (Some a) (nxt s1 b) lst1 (Some b) s2 = Inr (nxt s b, lst1, Some a, s1\<lparr>nxt := ?f\<rparr>)"
      using False s2(2,4) c(2) by (subst merge_loop.simps) (simp add: merge_pick_def append_cell_def end_loop set_nxt_def x_def y_def)
    then show ?thesis
      using False c s2(1) by (subst merge_loop.simps) (simp add: merge_pick_def x_def y_def)
  qed
  moreover have "\<forall>n. n \<notin> {a, b} \<longrightarrow> tail \<noteq> Some n \<longrightarrow> ?f n = nxt s n" by (auto simp: x_def)
  moreover have "y \<in> {a, b}" by (simp add: y_def)
  ultimately show ?thesis by blast
qed

lemma evaluated_append:
  "calc_ready s \<Longrightarrow> evaluated (as @ bs) s = evaluated bs (evaluated as s)"
proof (induction as arbitrary: s)
  case (Cons d ds)
  then obtain v s' where "calc_func d s = Inr (v, s')" "calc_ready s'"
    using calc_func_value [of s d] by blast
  then show ?case using Cons.IH by simp
qed simp

lemma merge_pass_pairs:
  assumes "merge_pass fuel cmp_complex 1 p lst tail m s = Inr (lst', tail', m', s')" "calc_ready s"
    "linked (nxt s) p ns" "distinct ns" "even (length ns)" "\<forall>n \<in> set ns. tail \<noteq> Some n"
  shows "\<exists>f. s' = (evaluated (map (info s) ns) s)\<lparr>nxt := f\<rparr>"
  using assms
proof (induction fuel arbitrary: p lst tail m s ns)
  case (Suc fuel)
  show ?case
  proof (cases ns)
    case Nil
    then show ?thesis using Suc.prems(1,3) by (auto intro!: exI [of _ "nxt s"])
  next
    case (Cons a ns')
    then obtain b rest where ns: "ns = a # b # rest" using Suc.prems(5) by (cases ns') auto
    let ?s1 = "evaluated [info s a, info s b] s"
    have p: "p = Some a" "nxt s a = Some b" "linked (nxt s) (nxt s b) rest" using Suc.prems(3) ns by auto
    obtain v where c: "cmp_complex (info s a) (info s b) s = Inr (v, ?s1)"
      using cmp_complex_evaluates(1) [OF Suc.prems(2)] by blast
    note ev = cmp_complex_evaluates(2-4) [OF Suc.prems(2), of "info s a" "info s b"]
    have inf: "info ?s1 = info s" using ev(2) by (simp add: calc_keeps_def same_inputs_def)
    obtain f lst1 t where l: "merge_loop cmp_complex 1 1 (Some a) (Some b) lst tail s
        = Inr (nxt s b, lst1, Some t, ?s1\<lparr>nxt := f\<rparr>)" "t \<in> {a, b}"
      "\<forall>n. n \<notin> {a, b} \<longrightarrow> tail \<noteq> Some n \<longrightarrow> f n = nxt s n"
      using merge_pair [of cmp_complex s a b v ?s1 tail lst] c ev(1) Suc.prems(4,6) ns by auto
    have "merge_pass fuel cmp_complex 1 (nxt s b) lst1 (Some t) (m + 1) (?s1\<lparr>nxt := f\<rparr>) = Inr (lst', tail', m', s')"
      using Suc.prems(1) p l(1) by simp
    moreover have "linked (nxt (?s1\<lparr>nxt := f\<rparr>)) (nxt s b) rest"
    proof -
      have "f n = nxt s n" if "n \<in> set rest" for n using that l(3) Suc.prems(4,6) ns by auto
      then show ?thesis using p(3) linked_cong [of rest f "nxt s"] by simp
    qed
    ultimately obtain g where "s' = (evaluated (map (info s) rest) (?s1\<lparr>nxt := f\<rparr>))\<lparr>nxt := g\<rparr>"
      using Suc.IH [of "nxt s b" lst1 "Some t" "m + 1" "?s1\<lparr>nxt := f\<rparr>" rest] ev(3) inf Suc.prems(4,5) l(2) ns
      by (auto simp: calc_ready_relink)
    then have "s' = (evaluated (map (info s) rest) ?s1)\<lparr>nxt := g\<rparr>"
      using evaluated_relink [OF ev(3), of "map (info s) rest" f] by simp
    then show ?thesis
      using evaluated_append [OF Suc.prems(2), of "[info s a, info s b]" "map (info s) rest"] ns by auto
  qed
qed simp

text \<open>Where all values are cached, a comparison changes nothing.\<close>

lemma calc_func_cached: "cached s d \<Longrightarrow> calc_func d s = Inr (data16 (dat s d) AND 0x7f, s)"
  by (simp add: calc_func_def cached_def and_one_eq bit_simps)

interpretation by_cached: list_order cmp_complex D "\<lambda>s. \<forall>d \<in> D. cached s d" cached_value cached
    "\<lambda>s s'. \<exists>f. s' = s\<lparr>nxt := f\<rparr>" for D
proof unfold_locales
  fix s a b assume "\<forall>d \<in> D. cached s d" "a \<in> D" "b \<in> D"
  then have "cmp_complex a b s = Inr (cached_value s a - cached_value s b, s)"
    by (simp add: cmp_complex_def calc_func_cached cached_value_def)
  moreover have "\<exists>f. s = s\<lparr>nxt := f\<rparr>" by (rule exI [of _ "nxt s"]) simp
  ultimately show "\<exists>v s'. cmp_complex a b s = Inr (v, s') \<and> (\<forall>d \<in> D. cached s' d) \<and> (\<exists>f. s' = s\<lparr>nxt := f\<rparr>) \<and>
      nxt s' = nxt s \<and> cached s' a \<and> cached s' b \<and> (v \<le> 0 \<longleftrightarrow> cached_value s' a \<le> cached_value s' b)"
    using \<open>\<forall>d \<in> D. cached s d\<close> \<open>a \<in> D\<close> \<open>b \<in> D\<close> by auto
next
  fix s show "\<exists>f. s = (s :: core_results)\<lparr>nxt := f\<rparr>" by (rule exI [of _ "nxt s"]) simp
next
  fix s n p show "\<exists>f. set_nxt n p s = s\<lparr>nxt := f\<rparr>" by (auto simp: set_nxt_def)
qed (auto simp: cached_def cached_value_def)

lemma evaluated_keeps:
  "calc_ready s \<Longrightarrow> calc_keeps s (evaluated ds s) \<and> calc_ready (evaluated ds s) \<and> (\<forall>d \<in> set ds. cached (evaluated ds s) d)"
proof (induction ds arbitrary: s)
  case (Cons d ds)
  then obtain v s1 where s1: "calc_func d s = Inr (v, s1)" "calc_ready s1" "calc_keeps s s1" "cached s1 d"
    using calc_func_value [of s d] by blast
  note IH = Cons.IH [OF s1(2)]
  have "cached (evaluated ds s1) d" using IH s1(4) by (auto simp: calc_keeps_def cached_def)
  then show ?case using IH s1 calc_keeps_trans by auto
qed (simp add: calc_keeps_refl)

lemma mergesort_evaluates:
  assumes "linked (nxt s) lst ns" "distinct ns" "even (length ns)" "2 \<le> length ns" "length ns < fuel" "calc_ready s"
    "core_list_mergesort fuel cmp_complex lst s = Inr (r, s')"
  shows "\<exists>f. s' = (evaluated (map (info s) ns) s)\<lparr>nxt := f\<rparr>"
proof -
  obtain k where k: "fuel = Suc k" using assms(5) by (cases fuel) auto
  have "by_value.run_ok s (take 1 xs)" for xs by (simp add: by_value.run_ok_def)
  then have "by_value.runs_ok s 1 ns" unfolding by_value.runs_ok_def by blast
  then obtain zs s1 where pass: "merge_pass fuel cmp_complex 1 lst None None 0 s
      = Inr (first zs, lasto zs, (length ns + 1) div 2, s1)"
    and z: "chain (nxt s1) zs" "mset zs = mset ns" "by_value.runs_ok s1 2 zs"
    using by_value.merge_pass_runs [of s "[]" ns lst 1 fuel 0] assms by (auto simp: lasto_def)
  obtain f where s1: "s1 = (evaluated (map (info s) ns) s)\<lparr>nxt := f\<rparr>"
    using merge_pass_pairs [OF pass assms(6,1,2,3)] by auto
  let ?s = "set_nxt (last zs) None s1"
  have ne: "zs \<noteq> []" using z(2) assms(4) by auto
  have zs: "distinct zs" "set zs = set ns" "length zs = length ns"
    using mset_eq_imp_distinct_iff [OF z(2)] mset_eq_setD [OF z(2)] mset_eq_length [OF z(2)] assms(2) by auto
  have e: "core_list_mergesort fuel cmp_complex lst s =
      (if (length ns + 1) div 2 \<le> 1 then Inr (first zs, ?s) else sort_loop k fuel cmp_complex 2 (first zs) ?s)"
    using pass ne k by (simp add: core_list_mergesort_def lasto_def Let_def)
  have "\<exists>g. s' = ?s\<lparr>nxt := g\<rparr>"
  proof (cases "(length ns + 1) div 2 \<le> 1")
    case True
    then show ?thesis using e assms(7) by (auto intro!: exI [of _ "nxt ?s"])
  next
    case False
    have ev: "calc_keeps s (evaluated (map (info s) ns) s)" "\<forall>d \<in> info s ` set ns. cached (evaluated (map (info s) ns) s) d"
      using evaluated_keeps [OF assms(6), of "map (info s) ns"] by auto
    have inf: "info ?s = info s" using ev(1) s1 by (simp add: calc_keeps_def same_inputs_def set_nxt_def)
    have fixd: "\<forall>d \<in> info s ` set ns. cached ?s d" using ev(2) s1 by (simp add: cached_def set_nxt_def)
    have link: "linked (nxt ?s) (first zs) zs"
      using chain_upd_last [OF zs(1) z(1)] ne by (simp add: linked_iff_chain)
    have "by_value.runs_ok ?s 2 zs"
      using z(3) by_value.R_set by_value.R_run_ok by (metis by_value.runs_ok_def)
    moreover have "length zs \<le> 2 * 2 ^ k" "0 < k"
      using less_exp [of k] zs(3) assms(4,5) k by linarith+
    ultimately obtain ms s2 where "sort_loop k fuel cmp_complex 2 (first zs) ?s = Inr (first ms, s2)" "\<exists>g. s2 = ?s\<lparr>nxt := g\<rparr>"
      using by_cached.sort_loop_sorts [OF fixd zs(1) ne link, of 2 fuel k] zs(2,3) assms(5) inf by auto
    then show ?thesis using e False assms(7) by auto
  qed
  then show ?thesis using s1 by (auto simp: set_nxt_def)
qed

section \<open>The benchmark on the sequence of items\<close>

fun spec_eval :: "(u16 \<Rightarrow> u16 \<Rightarrow> u16) \<Rightarrow> (u16 \<Rightarrow> u16 \<Rightarrow> u16) \<Rightarrow> list_data list \<Rightarrow> crcs \<Rightarrow> list_data list \<times> crcs" where
  "spec_eval tv mv [] cr = ([], cr)"
| "spec_eval tv mv (v # vs) cr =
     (case spec_calc tv mv (data16 v) cr of (w, cr) \<Rightarrow>
      case spec_eval tv mv vs cr of (ws, cr) \<Rightarrow> (v\<lparr>data16 := w\<rparr> # ws, cr))"

text \<open>How many items the first checksum loop passes: from the wanted item on, or all but the first.\<close>

definition walked :: "list_data \<Rightarrow> list_data list \<Rightarrow> nat" where
  "walked dinfo its =
     (case dropWhile (\<lambda>v. \<not> wanted dinfo v) its of [] \<Rightarrow> length its - 1 | v # vs \<Rightarrow> Suc (length vs))"

definition spec_bench ::
  "(u16 \<Rightarrow> u16 \<Rightarrow> u16) \<Rightarrow> (u16 \<Rightarrow> u16 \<Rightarrow> u16) \<Rightarrow> u16 \<Rightarrow> u16 \<Rightarrow> list_data list \<Rightarrow> crcs \<Rightarrow> u16 \<times> crcs" where
  "spec_bench tv mv seed3 finder_idx its cr =
     (case spec_find id (nat (sint seed3)) 0 \<lparr>data16 = 0, idx = finder_idx\<rparr> its (0, 0, 0) of
        (dinfo, ms, retval, found, missed) \<Rightarrow>
          let retval = retval + (found * 4 - missed);
              (ms, cr) = (if 0 < sint finder_idx
                          then (case spec_eval tv mv ms cr of (ms, cr) \<Rightarrow> (sort_key (\<lambda>v. sint (data16 v AND 0x7f)) ms, cr))
                          else (ms, cr));
              retval = (crc16 (data16 (hd ms)) ^^ walked dinfo (hd ms # drop 2 ms)) retval;
              retval = (crc16 (data16 (hd its)) ^^ (length its - 1)) retval
          in (retval, cr))"

lemma evaluated_spec:
  "spec_ready s \<Longrightarrow> distinct ds \<Longrightarrow>
     spec_eval (text_value s) (matrix_value s) (map (dat s) ds) (crcs_of s) = (ws, cr) \<Longrightarrow>
     map (dat (evaluated ds s)) ds = ws \<and> (\<forall>d. d \<notin> set ds \<longrightarrow> dat (evaluated ds s) d = dat s d) \<and>
     crcs_of (evaluated ds s) = cr \<and> res_crclist (evaluated ds s) = res_crclist s \<and>
     same_inputs s (evaluated ds s) \<and> spec_ready (evaluated ds s)"
proof (induction ds arbitrary: s ws)
  case Nil
  then show ?case by (simp add: same_inputs_refl)
next
  case (Cons d ds)
  obtain w cr1 where c: "spec_calc (text_value s) (matrix_value s) (data16 (dat s d)) (crcs_of s) = (w, cr1)"
    by (rule prod.exhaust)
  obtain s1 where s1: "calc_func d s = Inr (w AND 0x7f, s1)" "evaluates d s w cr1 s1"
    using calc_func_spec [OF Cons.prems(1) c] by blast
  note e = s1(2) [unfolded evaluates_def]
  have same: "text_value s1 = text_value s" "matrix_value s1 = matrix_value s" "spec_ready s1"
    using values_same [OF Cons.prems(1)] e by blast+
  have m: "map (dat s1) ds = map (dat s) ds" using e Cons.prems(2) by auto
  obtain vs cr2 where v: "spec_eval (text_value s) (matrix_value s) (map (dat s) ds) cr1 = (vs, cr2)"
    by (rule prod.exhaust)
  have ws: "ws = (dat s d)\<lparr>data16 := w\<rparr> # vs" "cr2 = cr" using Cons.prems(3) c v by simp_all
  have r: "spec_eval (text_value s1) (matrix_value s1) (map (dat s1) ds) (crcs_of s1) = (vs, cr)"
    unfolding m same(1,2) using v e ws(2) by simp
  have "distinct ds" using Cons.prems(2) by simp
  note IH = Cons.IH [OF same(3) this r]
  have "dat (evaluated ds s1) d = (dat s d)\<lparr>data16 := w\<rparr>" using IH e Cons.prems(2) by simp
  then show ?case
    using IH s1(1) e ws(1) same_inputs_trans [of s s1 "evaluated ds s1"] by auto
qed

text \<open>The sort by value, on items.\<close>

lemma mergesort_value_spec:
  assumes "linked (nxt s) lst ns" "distinct ns" "even (length ns)" "2 \<le> length ns" "length ns < fuel" "spec_ready s"
    "inj_on (info s) (set ns)" "spec_eval (text_value s) (matrix_value s) (map (item s) ns) (crcs_of s) = (vs, cr)"
  shows "\<exists>s' ms. core_list_mergesort fuel cmp_complex lst s = Inr (first ms, s') \<and> linked (nxt s') (first ms) ms \<and>
    mset ms = mset ns \<and> map (item s') ms = sort_key (\<lambda>v. sint (data16 v AND 0x7f)) vs \<and>
    crcs_of s' = cr \<and> res_crclist s' = res_crclist s \<and> (\<forall>n. n \<notin> set ns \<longrightarrow> nxt s' n = nxt s n) \<and>
    same_inputs s s' \<and> same_items s s' \<and> calc_ready s'"
proof -
  have ready: "calc_ready s" using assms(6) by (simp add: spec_ready_def)
  obtain s' ms where r: "ms = sort_key (\<lambda>n. cached_value s' (info s n)) ns"
    "core_list_mergesort fuel cmp_complex lst s = Inr (first ms, s')" "linked (nxt s') (first ms) ms"
    "same_inputs s s'" "calc_ready s'" "same_items s s'" "\<forall>n. n \<notin> set ns \<longrightarrow> nxt s' n = nxt s n"
    using mergesort_value_run [OF assms(1,2,4,5) ready] by blast
  let ?e = "evaluated (map (info s) ns) s"
  obtain f where f: "s' = ?e\<lparr>nxt := f\<rparr>" using mergesort_evaluates [OF assms(1-5) ready r(2)] by blast
  have d: "distinct (map (info s) ns)" using assms(2,7) by (simp add: distinct_map)
  have "map (dat s) (map (info s) ns) = map (item s) ns" by (simp add: item_def)
  then have "spec_eval (text_value s) (matrix_value s) (map (dat s) (map (info s) ns)) (crcs_of s) = (vs, cr)"
    using assms(8) by (simp only:)
  note e = evaluated_spec [OF assms(6) d this]
  have inf: "info s' = info s" using r(4) by (simp add: same_inputs_def)
  have "map (item s') ns = map (dat ?e) (map (info s) ns)" using f inf by (simp add: item_def)
  then have vs: "map (item s') ns = vs" using e by (simp only:)
  have "map (item s') ms = sort_key (\<lambda>v. sint (data16 v AND 0x7f)) vs"
    using map_sort_key [of "item s'" "\<lambda>v. sint (data16 v AND 0x7f)" ns] r(1) vs inf
    by (simp add: cached_value_def item_def)
  moreover have "mset ms = mset ns" using r(1) by simp
  moreover have "crcs_of s' = cr" "res_crclist s' = res_crclist s" using e f by (simp_all add: crcs_of_def)
  ultimately show ?thesis using r(2-7) by blast
qed

lemma remove_phase_spec:
  assumes "linked (nxt s) (Some l) (l # m # k # rest)" "distinct (l # m # k # rest)" "length (l # m # k # rest) < fuel"
  shows "\<exists>s' r. core_list_remove m s = Inr (k, s') \<and> nxt s' l = Some m \<and>
    core_list_undo_remove k m s' = (k, s) \<and> core_list_find fuel (Some l) dinfo s' = Inr r \<and>
    crc_loop fuel (if r = None then nxt s' l else r) l retval s'
      = Inr ((crc16 (data16 (item s l)) ^^ walked dinfo (map (item s) (l # k # rest))) retval)"
proof -
  obtain s' where s': "core_list_remove m s = Inr (k, s')" "linked (nxt s') (Some l) (l # m # rest)"
    "map (item s') (l # m # rest) = map (item s) (l # k # rest)" "core_list_undo_remove k m s' = (k, s)"
    using core_list_remove_item [of s "Some l" "[l]" m k rest] assms(1,2) by auto
  let ?p = "\<lambda>n. wanted dinfo (item s' n)" and ?xs = "l # m # rest"
  let ?r = "List.find ?p ?xs" and ?d = "dropWhile (\<lambda>n. \<not> ?p n) ?xs"
  have find: "core_list_find fuel (Some l) dinfo s' = Inr ?r"
    using find_cell [OF s'(2)] assms(3) by simp
  have d: "dropWhile (\<lambda>v. \<not> wanted dinfo v) (map (item s) (l # k # rest)) = map (item s') ?d"
    unfolding s'(3) [symmetric] by (simp only: dropWhile_map o_def)
  have len: "length ?d \<le> length ?xs" by (rule length_dropWhile_le)
  have "\<exists>ys. linked (nxt s') (if ?r = None then nxt s' l else ?r) ys \<and>
      length ys = walked dinfo (map (item s) (l # k # rest)) \<and> length ys < fuel"
  proof (cases ?d)
    case Nil
    then have "?r = None" by (simp only: find_dropWhile o_def list.case)
    moreover have "walked dinfo (map (item s) (l # k # rest)) = length (m # rest)"
      using d Nil by (simp add: walked_def del: dropWhile.simps dropWhile_eq_Nil_conv)
    moreover have "linked (nxt s') (nxt s' l) (m # rest)" using s'(2) by simp
    ultimately show ?thesis using assms(3) by (intro exI [of _ "m # rest"]) simp
  next
    case (Cons n ys)
    then have "?r = Some n" by (simp only: find_dropWhile o_def list.case)
    moreover have "walked dinfo (map (item s) (l # k # rest)) = length (n # ys)"
      using d Cons by (simp add: walked_def del: dropWhile.simps)
    moreover have "linked (nxt s') (first ?d) ?d"
      using linked_suffix [of "nxt s'" "Some l" "takeWhile (\<lambda>n. \<not> ?p n) ?xs" ?d] s'(2)
      by (simp only: takeWhile_dropWhile_id)
    ultimately show ?thesis using Cons len assms(3) by (intro exI [of _ "n # ys"]) (simp del: dropWhile.simps)
  qed
  then have "crc_loop fuel (if ?r = None then nxt s' l else ?r) l retval s'
      = Inr ((crc16 (data16 (item s' l)) ^^ walked dinfo (map (item s) (l # k # rest))) retval)"
    using crc_loop_walk by metis
  moreover have "item s' l = item s l" "nxt s' l = Some m" using s'(2,3) by simp_all
  ultimately show ?thesis using s'(1,4) find by (intro exI [of _ s'] exI [of _ ?r]) simp
qed

lemma list_wf_inj: "list_wf s ns \<Longrightarrow> inj_on (item s) (set ns) \<and> inj_on (info s) (set ns)"
proof -
  assume "list_wf s ns"
  then have i: "inj_on (\<lambda>n. sint (idx (item s n))) (set ns)"
    by (simp add: list_wf_def strict_sorted_iff distinct_map)
  have "x = y" if "x \<in> set ns" "y \<in> set ns" "item s x = item s y" for x y
    using inj_onD [OF i _ that(1,2)] that(3) by simp
  moreover have "x = y" if "x \<in> set ns" "y \<in> set ns" "info s x = info s y" for x y
    using inj_onD [OF i _ that(1,2)] that(3) by (simp add: item_def)
  ultimately show ?thesis by (simp add: inj_on_def)
qed

lemma sort_phase_spec:
  assumes mid: "bench_mid s s1 lst ns ms" and s1: "s1 = s\<lparr>nxt := nxt s1\<rparr>"
    and s: "spec_ready s" "inj_on (info s) (set ns)" "distinct ns" "2 \<le> length ns" "length ns < fuel"
      "0 < sint finder_idx \<longrightarrow> even (length ns)"
    and spec: "(if 0 < sint finder_idx
        then (case spec_eval (text_value s) (matrix_value s) (map (item s) ms) (crcs_of s) of (vs, cr) \<Rightarrow>
                (sort_key (\<lambda>v. sint (data16 v AND 0x7f)) vs, cr))
        else (map (item s) ms, crcs_of s)) = (its, cr)"
  shows "\<exists>lst' s2 ks. (if 0 < sint finder_idx then core_list_mergesort fuel cmp_complex lst s1 else Inr (lst, s1))
      = Inr (lst', s2) \<and> bench_mid s s2 lst' ns ks \<and> map (item s2) ks = its \<and> crcs_of s2 = cr \<and>
    res_crclist s2 = res_crclist s"
proof -
  note m = mid [unfolded bench_mid_def]
  have f: "item s1 = item s" "info s1 = info s" "crcs_of s1 = crcs_of s" "res_crclist s1 = res_crclist s"
    by (subst s1, simp add: crcs_of_def)+
  show ?thesis
  proof (cases "0 < sint finder_idx")
    case True
    obtain vs cr' where e: "spec_eval (text_value s) (matrix_value s) (map (item s) ms) (crcs_of s) = (vs, cr')"
      by (rule prod.exhaust)
    have its: "its = sort_key (\<lambda>v. sint (data16 v AND 0x7f)) vs" "cr' = cr" using spec True e by simp_all
    have mm: "mset ms = mset ns" using m by simp
    have ms: "distinct ms" "length ms = length ns" "set ms = set ns"
      using mset_eq_imp_distinct_iff [OF mm] mset_eq_length [OF mm] mset_eq_setD [OF mm] s(3) by simp_all
    have ready: "spec_ready s1" using spec_ready_same [OF s(1)] m by blast
    have "spec_eval (text_value s1) (matrix_value s1) (map (item s1) ms) (crcs_of s1) = (vs, cr)"
      using e its(2) f values_same [OF s(1)] m by simp
    then obtain s2 ks where r: "core_list_mergesort fuel cmp_complex lst s1 = Inr (first ks, s2)"
      "linked (nxt s2) (first ks) ks" "mset ks = mset ms" "map (item s2) ks = its" "crcs_of s2 = cr"
      "res_crclist s2 = res_crclist s1" "\<forall>n. n \<notin> set ms \<longrightarrow> nxt s2 n = nxt s1 n" "same_inputs s1 s2"
      "same_items s1 s2" "calc_ready s2"
      using mergesort_value_spec [of s1 lst ms fuel vs cr] m ms s ready f its True by auto
    have "bench_mid s s2 (first ks) ns ks"
      using r m ms(3) mm by (auto simp: bench_mid_def intro: same_inputs_trans same_items_trans)
    then show ?thesis using True r f by auto
  next
    case False
    then show ?thesis using mid spec f by (intro exI [of _ lst] exI [of _ s1] exI [of _ ms]) auto
  qed
qed

text \<open>The last sort writes nothing but links and items.\<close>

lemma mergesort_idx_crcs:
  assumes "linked (nxt s) lst ns" "distinct ns" "2 \<le> length ns" "length ns < fuel"
    "core_list_mergesort fuel (cmp_idx True) lst s = Inr (r, s')"
  shows "crcs_of s' = crcs_of s \<and> res_crclist s' = res_crclist s"
  using mergesort_idx_run [OF assms(1-4)] assms(5) by (auto simp: crcs_of_def)

lemma core_bench_list_spec:
  assumes wf: "list_wf s ns" and ready: "spec_ready s" and fuel: "length ns < fuel"
    and cond: "0 < sint (res_seed3 s) \<or> 0 \<le> sint finder_idx" "0 < sint finder_idx \<longrightarrow> even (length ns)"
    and spec: "spec_bench (text_value s) (matrix_value s) (res_seed3 s) finder_idx (map (item s) ns) (crcs_of s) = (v, cr)"
  shows "\<exists>s'. core_bench_list fuel finder_idx s = Inr (v, s') \<and> crcs_of s' = cr \<and> res_crclist s' = res_crclist s \<and>
    list_wf s' ns \<and> map (item s') ns = map (item s) ns \<and> spec_ready s' \<and> same_inputs s s'"
proof -
  note w = wf [unfolded list_wf_def]
  have cr0: "calc_ready s" using ready by (simp add: spec_ready_def)
  have len: "2 \<le> length ns" using w by simp
  let ?its = "map (item s) ns" and ?n = "nat (sint (res_seed3 s))" and ?d0 = "\<lparr>data16 = 0, idx = finder_idx\<rparr>"
  obtain dinfo ms1 retval found missed where sf: "spec_find (item s) ?n 0 ?d0 ns (0, 0, 0) = (dinfo, ms1, retval, found, missed)"
    by (metis prod_cases5)
  have sfi: "spec_find id ?n 0 ?d0 ?its (0, 0, 0) = (dinfo, map (item s) ms1, retval, found, missed)"
    using spec_find_map [OF _ _ len sf] list_wf_inj [OF wf] w by blast
  have ms1: "mset ms1 = mset ns" using spec_find_mset [OF _ sf] w by blast
  obtain f where f: "find_loop fuel ?n 0 ?d0 (res_list s) (0, 0, 0) s = Inr (dinfo, first ms1, (retval, found, missed), s\<lparr>nxt := f\<rparr>)"
    "linked f (first ms1) ms1" "\<forall>k. k \<notin> set ns \<longrightarrow> f k = nxt s k"
    using find_loop_spec [OF _ _ len fuel sf] w by blast
  have mid1: "bench_mid s (s\<lparr>nxt := f\<rparr>) (first ms1) ns ms1"
    using f ms1 cr0 by (simp add: bench_mid_def same_inputs_relinked same_items_def calc_ready_relink)
  define r1 where "r1 = retval + (found * 4 - missed)"
  obtain its2 cr2 where sorted: "(if 0 < sint finder_idx
        then (case spec_eval (text_value s) (matrix_value s) (map (item s) ms1) (crcs_of s) of (vs, cr) \<Rightarrow>
                (sort_key (\<lambda>v. sint (data16 v AND 0x7f)) vs, cr))
        else (map (item s) ms1, crcs_of s)) = (its2, cr2)" by (rule prod.exhaust)
  define left where "left = hd its2 # drop 2 its2"
  define r2 where "r2 = (crc16 (data16 (hd its2)) ^^ walked dinfo left) r1"
  have v: "v = (crc16 (data16 (hd ?its)) ^^ (length ns - 1)) r2" "cr = cr2"
    using spec sfi sorted by (simp_all add: spec_bench_def Let_def r1_def r2_def left_def)
  obtain lst2 s2 ms where s2: "(if 0 < sint finder_idx then core_list_mergesort fuel cmp_complex (first ms1) (s\<lparr>nxt := f\<rparr>)
      else Inr (first ms1, s\<lparr>nxt := f\<rparr>)) = Inr (lst2, s2)" and mid: "bench_mid s s2 lst2 ns ms"
    and it2: "map (item s2) ms = its2" "crcs_of s2 = cr2" "res_crclist s2 = res_crclist s"
    using sort_phase_spec [OF mid1 _ ready _ _ len fuel cond(2) sorted] list_wf_inj [OF wf] w by auto
  have mm: "mset ms = mset ns" and link: "linked (nxt s2) lst2 ms" and seed: "res_seed3 s2 = res_seed3 s"
    using mid by (simp_all add: bench_mid_def same_inputs_def)
  have "3 \<le> length ms" and dms: "distinct ms" and lms: "length ms < fuel"
    using w mset_eq_length [OF mm] mset_eq_imp_distinct_iff [OF mm] fuel by auto
  then obtain l m k rest where ms: "ms = l # m # k # rest"
    by (metis One_nat_def Suc_1 Suc_le_length_iff eval_nat_numeral(3))
  have lst2: "lst2 = Some l" "nxt s2 l = Some m" using link ms by auto
  have left: "map (item s2) (l # k # rest) = left" "item s2 l = hd its2" using it2(1) ms by (auto simp: left_def)
  obtain s3 r where s3: "core_list_remove m s2 = Inr (k, s3)" "nxt s3 l = Some m"
    "core_list_undo_remove k m s3 = (k, s2)" "core_list_find fuel (Some l) dinfo s3 = Inr r"
    "crc_loop fuel (if r = None then nxt s3 l else r) l r1 s3 = Inr r2"
    using remove_phase_spec [of s2 l m k rest fuel dinfo r1] link lst2 ms dms lms left by (auto simp: r2_def)
  have seed3: "res_seed3 s3 = res_seed3 s2"
    using s3(1) by (cases "nxt s2 m") (auto simp: core_list_remove_def set_nxt_def set_info_def Let_def)
  have init: "\<not> (sint (res_seed3 s3) \<le> 0 \<and> sint finder_idx < 0)" using cond(1) seed seed3 by auto
  obtain s' where s': "core_list_mergesort fuel (cmp_idx True) lst2 s2 = Inr (first ns, s')"
    "list_wf s' ns" "map (item s') ns = ?its" "calc_ready s'" "same_inputs s s'"
    using bench_restored [OF mid wf fuel] by blast
  have crs: "crcs_of s' = cr2" "res_crclist s' = res_crclist s"
    using mergesort_idx_crcs [OF link dms _ lms s'(1)] \<open>3 \<le> length ms\<close> it2(2,3) by simp_all
  obtain h ts where ns: "ns = h # ts" using len by (cases ns) auto
  have "linked (nxt s') (nxt s' h) ts" using s'(2) ns by (auto simp: list_wf_def)
  then have "crc_loop fuel (nxt s' h) h r2 s' = Inr ((crc16 (data16 (item s' h)) ^^ length ts) r2)"
    by (rule crc_loop_walk) (use fuel ns in simp)
  then have "crc_loop fuel (nxt s' h) h r2 s' = Inr v" using v ns s'(3) by simp
  then have "core_bench_list fuel finder_idx s = Inr (v, s')"
    using f(1) s2 lst2 s3 init s'(1) ns by (simp add: core_bench_list_def Let_def r1_def)
  then show ?thesis
    using s' crs v(2) spec_ready_same [OF ready s'(5,4)] by blast
qed

text \<open>
  C8: The list benchmark refines a function on the sequence of items: the value it returns and
  the checksums it leaves are those of the function, which knows no cells and no links.  Searching
  is finding the first item, reversing and relinking are operations on sequences, the sort by value
  evaluates the items in their order and sorts the results.  What this needs: the list is well
  formed, with strictly increasing indices (\<open>list_wf\<close>); each evaluation leaves the text as it was,
  that is, the first two seeds agree in their low bytes, no byte other than a comma becomes one
  when it is corrupted, and the text ends in two zero bytes (\<open>repairable\<close>); the text and the
  matrices have their sizes, the result matrix exactly (both in \<open>spec_ready\<close>); for a negative index the third seed is positive; the
  loops along the list are given more rounds than it has cells; for a positive index, where the list is sorted by value, the number of items is even, because the
  comparisons then evaluate them pair by pair.
\<close>

theorem core_bench_list_refines:
  assumes "list_wf s ns" "spec_ready s" "length ns < fuel"
    "0 < sint (res_seed3 s) \<or> 0 \<le> sint finder_idx" "0 < sint finder_idx \<longrightarrow> even (length ns)"
    "spec_bench (text_value s) (matrix_value s) (res_seed3 s) finder_idx (map (item s) ns) (crcs_of s) = (v, cr)"
  shows "\<exists>s'. core_bench_list fuel finder_idx s = Inr (v, s') \<and> crcs_of s' = cr \<and> res_crclist s' = res_crclist s \<and>
    list_wf s' ns \<and> map (item s') ns = map (item s) ns \<and> spec_ready s' \<and> same_inputs s s'"
  by (rule core_bench_list_spec [OF assms])

lemma small_heap_spec_ready: "spec_ready (small_heap xs)"
  using small_heap_ready [of xs]
  by (simp add: spec_ready_def repairable_def safe_text_def small_heap_def less_2_cases_iff nth_Cons')

text \<open>The item found is the last one after the reversal, and the sequence has two items when it is walked.\<close>

lemma core_bench_list_refines_witness:
  "\<exists>s'. core_bench_list 9 (- 1) (small_heap [0, 1, 2]) = Inr (crc16 0 (crc16 0 (crc16 0x202 4)), s') \<and> crcs_of s' = (0, 0, 0)"
proof -
  let ?s = "small_heap [0, 1, 2]"
  have "spec_bench (text_value ?s) (matrix_value ?s) (res_seed3 ?s) (- 1) (map (item ?s) [0, 1, 2]) (crcs_of ?s)
      = (crc16 0 (crc16 0 (crc16 0x202 4)), 0, 0, 0)"
    by (simp add: spec_bench_def small_heap_def item_def crcs_of_def wanted_def move_next_def walked_def)
  moreover have "length [0, 1, 2 :: nat] < 9" "\<not> 0 < sint (- 1 :: u16)" by simp_all
  ultimately show ?thesis
    using core_bench_list_refines [OF small_heap_wf small_heap_spec_ready, of 9 "- 1"] small_heap_seed3 by blast
qed
section \<open>The iterations\<close>

definition spec_round ::
  "(u16 \<Rightarrow> u16 \<Rightarrow> u16) \<Rightarrow> (u16 \<Rightarrow> u16 \<Rightarrow> u16) \<Rightarrow> u16 \<Rightarrow> list_data list \<Rightarrow> crcs \<Rightarrow> crcs" where
  "spec_round tv mv seed3 its cr =
     (case spec_bench tv mv seed3 1 its cr of (v, crc, cm, cs) \<Rightarrow>
      case spec_bench tv mv seed3 (- 1) its (crcu16 v crc, cm, cs) of (v, crc, cm, cs) \<Rightarrow>
        (crcu16 v crc, cm, cs))"

lemma spec_ready_crcs [simp]:
  "spec_ready (with_crcs s c cl cm cs) = spec_ready s" "text_value (with_crcs s c cl cm cs) = text_value s"
  "matrix_value (with_crcs s c cl cm cs) = matrix_value s" "crcs_of (with_crcs s c cl cm cs) = (c, cm, cs)"
  "res_crclist (with_crcs s c cl cm cs) = cl"
  by (simp_all add: spec_ready_def repairable_def fun_eq_iff text_value_def matrix_value_def crcs_of_def)
    (simp_all add: with_crcs_def)

lemma crcs_of_eq: "crcs_of s = (c, cm, cs) \<Longrightarrow> res_crc s = c \<and> res_crcmatrix s = cm \<and> res_crcstate s = cs"
  by (simp add: crcs_of_def)

text \<open>The state between two rounds, and what a round needs of it.\<close>

definition same_values :: "core_results \<Rightarrow> core_results \<Rightarrow> nat list \<Rightarrow> bool" where
  "same_values s s' ns \<longleftrightarrow> list_wf s' ns \<and> spec_ready s' \<and> same_inputs s s' \<and> map (item s') ns = map (item s) ns"

definition state_round :: "core_results \<Rightarrow> nat list \<Rightarrow> crcs \<Rightarrow> crcs" where
  "state_round s ns = spec_round (text_value s) (matrix_value s) (res_seed3 s) (map (item s) ns)"

lemma iterate_loop_spec:
  assumes "list_wf s ns" "spec_ready s" "length ns < fuel" "0 < sint (res_seed3 s)" "even (length ns)"
  shows "\<exists>s'. iterate_loop fuel n b s = Inr s' \<and> crcs_of s' = (state_round s ns ^^ n) (crcs_of s) \<and>
    res_crclist s' = (if b \<and> 0 < n then fst (state_round s ns (crcs_of s)) else res_crclist s) \<and> same_values s s' ns"
  using assms
proof (induction n arbitrary: s b)
  case 0
  then show ?case by (simp add: same_values_def same_inputs_refl)
next
  case (Suc n)
  obtain c0 cm0 cs0 where cr0: "crcs_of s = (c0, cm0, cs0)" by (rule prod_cases3)
  let ?its = "map (item s) ns" and ?tv = "text_value s" and ?mv = "matrix_value s" and ?seed = "res_seed3 s"
  obtain v1 c1 cm1 cs1 where sb1: "spec_bench ?tv ?mv ?seed 1 ?its (crcs_of s) = (v1, c1, cm1, cs1)" by (rule prod_cases4)
  obtain s1 where b1: "core_bench_list fuel 1 s = Inr (v1, s1)" "crcs_of s1 = (c1, cm1, cs1)" "res_crclist s1 = res_crclist s"
    "list_wf s1 ns" "map (item s1) ns = ?its" "spec_ready s1" "same_inputs s s1"
    using core_bench_list_spec [OF Suc.prems(1-3) _ _ sb1] Suc.prems(4,5) by auto
  let ?s1 = "with_crcs s1 (crcu16 v1 c1) (res_crclist s1) cm1 cs1"
  have e1: "?s1 = s1\<lparr>res_crc := crcu16 v1 (res_crc s1)\<rparr>"
    using crcs_of_eq [OF b1(2)] by (simp add: with_crcs_def)
  have same1: "text_value s1 = ?tv" "matrix_value s1 = ?mv" "res_seed3 s1 = ?seed"
    using values_same [OF Suc.prems(2) b1(7)] b1(7) by (simp_all add: same_inputs_def)
  obtain v2 c2 cm2 cs2 where sb2: "spec_bench ?tv ?mv ?seed (- 1) ?its (crcu16 v1 c1, cm1, cs1) = (v2, c2, cm2, cs2)"
    by (rule prod_cases4)
  then have sb2': "spec_bench (text_value ?s1) (matrix_value ?s1) (res_seed3 ?s1) (- 1) (map (item ?s1) ns) (crcs_of ?s1)
      = (v2, c2, cm2, cs2)" by (simp only: spec_ready_crcs with_crcs_simps same1 b1(5))
  obtain s2 where b2: "core_bench_list fuel (- 1) ?s1 = Inr (v2, s2)" "crcs_of s2 = (c2, cm2, cs2)"
    "res_crclist s2 = res_crclist s1" "list_wf s2 ns" "map (item s2) ns = ?its" "spec_ready s2" "same_inputs s1 s2"
    using core_bench_list_spec [OF _ _ Suc.prems(3) _ _ sb2'] b1 same1 Suc.prems(4) by auto
  note cr2 = crcs_of_eq [OF b2(2)]
  define s3 where "s3 = with_crcs s2 (crcu16 v2 (res_crc s2)) (if b then crcu16 v2 (res_crc s2) else res_crclist s2)
    (res_crcmatrix s2) (res_crcstate s2)"
  have e: "iterate_loop fuel (Suc n) b s = iterate_loop fuel n False s3"
    using b1(1) b2(1) [unfolded e1] by (simp add: Let_def s3_def with_crcs_def)
  have inp: "same_inputs s s3" using same_inputs_trans [OF b1(7) b2(7)] by (simp add: s3_def)
  have same3: "text_value s3 = ?tv" "matrix_value s3 = ?mv" "res_seed3 s3 = ?seed" "map (item s3) ns = ?its"
    using values_same [OF Suc.prems(2) inp] inp b2(5) by (simp_all add: same_inputs_def s3_def)
  have r: "state_round s ns (crcs_of s) = (crcu16 v2 c2, cm2, cs2)"
    using sb1 sb2 cr0 by (simp add: state_round_def spec_round_def)
  have rs: "state_round s3 ns = state_round s ns" unfolding state_round_def same3 ..
  obtain s' where s': "iterate_loop fuel n False s3 = Inr s'" "crcs_of s' = (state_round s3 ns ^^ n) (crcs_of s3)"
    "res_crclist s' = res_crclist s3" "same_values s3 s' ns"
    using Suc.IH [of s3 False] b2(4,6) same3 Suc.prems(3-5) by (auto simp: s3_def)
  have "crcs_of s3 = state_round s ns (crcs_of s)" "res_crclist s3 = (if b then fst (state_round s ns (crcs_of s)) else res_crclist s)"
    using r b1(3) b2(3) cr2 by (simp_all add: s3_def)
  then show ?case
    using s' e rs same3(4) same_inputs_trans [OF inp] by (auto simp: funpow_swap1 same_values_def)
qed

text \<open>A recorded value stays recorded.\<close>

lemma spec_calc_keeps_first:
  "spec_calc tv mv data (crc, cm, cs) = (w, crc', cm', cs') \<Longrightarrow> (cm \<noteq> 0 \<longrightarrow> cm' = cm) \<and> (cs \<noteq> 0 \<longrightarrow> cs' = cs)"
  by (auto simp: spec_calc_def record_first_def Let_def split: if_splits)

lemma spec_eval_keeps_first:
  "spec_eval tv mv vs (crc, cm, cs) = (ws, crc', cm', cs') \<Longrightarrow> (cm \<noteq> 0 \<longrightarrow> cm' = cm) \<and> (cs \<noteq> 0 \<longrightarrow> cs' = cs)"
proof (induction vs arbitrary: crc cm cs ws)
  case (Cons v vs)
  obtain w c1 m1 s1 where c: "spec_calc tv mv (data16 v) (crc, cm, cs) = (w, c1, m1, s1)" by (rule prod_cases4)
  obtain us c2 m2 s2 where e: "spec_eval tv mv vs (c1, m1, s1) = (us, c2, m2, s2)" by (rule prod_cases4)
  have "c2 = crc'" "m2 = cm'" "s2 = cs'" using Cons.prems c e by auto
  moreover from this have "(m1 \<noteq> 0 \<longrightarrow> cm' = m1) \<and> (s1 \<noteq> 0 \<longrightarrow> cs' = s1)" using Cons.IH e by blast
  ultimately show ?case using spec_calc_keeps_first [OF c] by auto
qed simp

lemma spec_bench_keeps_first:
  "spec_bench tv mv seed3 i its (crc, cm, cs) = (v, crc', cm', cs') \<Longrightarrow> (cm \<noteq> 0 \<longrightarrow> cm' = cm) \<and> (cs \<noteq> 0 \<longrightarrow> cs' = cs)"
  by (auto simp: spec_bench_def Let_def split: prod.splits if_splits dest: spec_eval_keeps_first)

lemma spec_round_keeps_first:
  assumes "spec_round tv mv seed3 its (crc, cm, cs) = (crc', cm', cs')"
  shows "(cm \<noteq> 0 \<longrightarrow> cm' = cm) \<and> (cs \<noteq> 0 \<longrightarrow> cs' = cs)"
proof -
  obtain v1 c1 m1 s1 where b1: "spec_bench tv mv seed3 1 its (crc, cm, cs) = (v1, c1, m1, s1)" by (rule prod_cases4)
  obtain v2 c2 m2 s2 where b2: "spec_bench tv mv seed3 (- 1) its (crcu16 v1 c1, m1, s1) = (v2, c2, m2, s2)" by (rule prod_cases4)
  have "m2 = cm'" "s2 = cs'" using assms b1 b2 by (simp_all add: spec_round_def)
  then show ?thesis using spec_bench_keeps_first [OF b1] spec_bench_keeps_first [OF b2] by auto
qed

lemma spec_rounds_keep:
  assumes "spec_round tv mv seed3 its (0, 0, 0) = (crc, cm, cs)" "cm \<noteq> 0" "cs \<noteq> 0"
  shows "snd ((spec_round tv mv seed3 its ^^ Suc n) (0, 0, 0)) = (cm, cs)"
proof (induction n)
  case (Suc n)
  obtain c m s where r: "(spec_round tv mv seed3 its ^^ Suc n) (0, 0, 0) = (c, m, s)" by (rule prod_cases3)
  obtain c' m' s' where r': "spec_round tv mv seed3 its (c, m, s) = (c', m', s')" by (rule prod_cases3)
  show ?case using Suc.IH r r' spec_round_keeps_first [OF r'] assms(2,3) by simp
qed (use assms(1) in simp)

lemma iterate_spec:
  assumes "list_wf s ns" "spec_ready s" "length ns < fuel" "0 < sint (res_seed3 s)" "even (length ns)"
    "spec_round (text_value s) (matrix_value s) (res_seed3 s) (map (item s) ns) (0, 0, 0) = (crc, cm, cs)"
    "cm \<noteq> 0" "cs \<noteq> 0" "0 < res_iterations s"
  shows "\<exists>s'. iterate fuel s = Inr s' \<and> res_crclist s' = crc \<and> res_crcmatrix s' = cm \<and> res_crcstate s' = cs \<and>
    same_values s s' ns"
proof -
  let ?s = "with_crcs s 0 0 0 0"
  obtain n where n: "res_iterations s = Suc n" using assms(9) by (cases "res_iterations s") auto
  obtain s' where s': "iterate_loop fuel (res_iterations s) True ?s = Inr s'"
    "crcs_of s' = (spec_round (text_value s) (matrix_value s) (res_seed3 s) (map (item s) ns) ^^ Suc n) (0, 0, 0)"
    "res_crclist s' = crc" "same_values ?s s' ns"
    using iterate_loop_spec [of ?s ns fuel "res_iterations s" True] assms n by (auto simp: state_round_def)
  have "snd (crcs_of s') = (cm, cs)" using spec_rounds_keep [OF assms(6-8)] s'(2) by simp
  then show ?thesis
    using s'(1,3,4) by (auto simp: iterate_def with_crcs_def [symmetric] crcs_of_def same_values_def)
qed

end
