(* ===== verification/CMPort.thy ===== *)
theory CMPort
  imports Newlib Drivers
begin

text \<open>
  The port of CoreMark to the bare processor: the console of \<^verbatim>\<open>pCPU/coremark/mmio_basic.c\<close>, which
  writes to the UART and to a text screen, the tick counter of \<^verbatim>\<open>timer.c\<close>, the clock of
  \<^verbatim>\<open>core_portme.c\<close>, and the system calls of \<^verbatim>\<open>newlib/syscall.c\<close>, whose heap is that of
  \<^verbatim>\<open>src/pseudOS/newlib/syscall.c\<close>.  The UART is the device of theory Uart, the screen that of Drivers.
\<close>

section \<open>The console\<close>

text \<open>
  A line feed is preceded by a carriage return, through a call of the routine itself; \<open>wait_tx\<close> is
  the loop that polls \<^verbatim>\<open>uart_tx_done\<close>.
\<close>

definition port_send :: "u8 \<Rightarrow> Uart \<Rightarrow> kfault + Uart" where
  "port_send c u = bindE (wait_tx u) (\<lambda>u. wait_tx (write_tx c u))"

definition port_putchar :: "u8 \<Rightarrow> Uart \<Rightarrow> kfault + Uart" where
  "port_putchar c u = bindE (if c = 0x0a then port_send 0x0d u else Inr u) (port_send c)"

definition port_getchar :: "Uart \<Rightarrow> kfault + u8 \<times> Uart" where
  "port_getchar u = take_rx u"

fun port_putstr :: "u8 list \<Rightarrow> Uart \<Rightarrow> kfault + Uart" where
  "port_putstr [] u = Inl BadPointer"
| "port_putstr (c # cs) u = (if c = 0 then Inr u else bindE (port_putchar c u) (port_putstr cs))"

text \<open>The cursor wraps to the top row; the screen does not scroll and is never cleared.\<close>

definition next_row :: "Screen \<Rightarrow> Screen" where
  "next_row s = (if video_y s = 29 then s\<lparr>video_y := 0\<rparr> else s\<lparr>video_y := video_y s + 1\<rparr>)"

definition port_hdmi_putchar :: "u8 \<Rightarrow> Screen \<Rightarrow> Screen" where
  "port_hdmi_putchar c s =
     (if c = 0x0d then s\<lparr>video_x := 0\<rparr>
      else if c = 0x0a then next_row s
      else let s = s\<lparr>video := (video s)(video_y s * 80 + video_x s := ucast c + 0x0100)\<rparr>
        in if video_x s = 79 then next_row (s\<lparr>video_x := 0\<rparr>) else s\<lparr>video_x := video_x s + 1\<rparr>)"

text \<open>\<^verbatim>\<open>_write\<close> gives every byte to both.\<close>

fun port_put_all :: "u8 list \<Rightarrow> Uart \<times> Screen \<Rightarrow> kfault + (Uart \<times> Screen)" where
  "port_put_all [] d = Inr d"
| "port_put_all (c # cs) (u, s) =
     bindE (port_putchar c u) (\<lambda>u. port_put_all cs (u, port_hdmi_putchar c s))"

definition port_write ::
  "int \<Rightarrow> u8 list \<Rightarrow> libc \<Rightarrow> Uart \<times> Screen \<Rightarrow> kfault + int \<times> libc \<times> Uart \<times> Screen" where
  "port_write file bs l d =
     (if file \<noteq> STDOUT_FILENO then (case fails_with (Pos ENOSYS) l of (r, l) \<Rightarrow> Inr (r, l, d))
      else bindE (port_put_all bs d) (\<lambda>d. Inr (int (length bs), l, d)))"

text \<open>
  The other system calls.  The result is that of the function (a null pointer is 0), the mode it
  stores into the \<^verbatim>\<open>stat\<close> record, and the state; \<^verbatim>\<open>_exit\<close> waits for ever.
\<close>

datatype port_call = c_nanosleep | c_access | c_chdir | c_chmod | c_chown | c_close | c_execve | c_exit int
  | c_faccessat | c_fork | c_fstat int | c_fstatat | c_ftime | c_getcwd | c_getpid | c_gettimeofday
  | c_isatty int | c_kill | c_link | c_lseek | c_lstat | c_open | c_openat | c_read | c_stat | c_sysconf
  | c_times | c_unlink | c_utime | c_wait

definition fails :: "errno_value \<Rightarrow> libc \<Rightarrow> kfault + int \<times> st_mode option \<times> libc" where
  "fails e l = Inr (- 1, None, l\<lparr>errno := Some e\<rparr>)"

definition gives :: "int \<Rightarrow> libc \<Rightarrow> kfault + int \<times> st_mode option \<times> libc" where
  "gives r l = Inr (r, None, l)"

fun port_syscall :: "port_call \<Rightarrow> libc \<Rightarrow> kfault + int \<times> st_mode option \<times> libc" where
  "port_syscall c_nanosleep l = fails (Pos ENOSYS) l"
| "port_syscall c_access l = fails (Pos ENOSYS) l"
| "port_syscall c_chdir l = fails (Pos ENOSYS) l"
| "port_syscall c_chmod l = fails (Pos ENOSYS) l"
| "port_syscall c_chown l = fails (Pos ENOSYS) l"
| "port_syscall c_close l = gives (- 1) l"
| "port_syscall c_execve l = fails (Pos ENOMEM) l"
| "port_syscall (c_exit status) l = Inl Hang"
| "port_syscall c_faccessat l = fails (Pos ENOSYS) l"
| "port_syscall c_fork l = fails (Pos EAGAIN) l"
| "port_syscall (c_fstat file) l = Inr (0, Some S_IFCHR, l)"
| "port_syscall c_fstatat l = fails (Pos ENOSYS) l"
| "port_syscall c_ftime l = fails (Pos ENOSYS) l"
| "port_syscall c_getcwd l = Inr (0, None, l\<lparr>errno := Some (Neg ENOSYS)\<rparr>)"
| "port_syscall c_getpid l = gives 1 l"
| "port_syscall c_gettimeofday l = fails (Neg ENOSYS) l"
| "port_syscall (c_isatty file) l = gives (if file = STDOUT_FILENO then 1 else 0) l"
| "port_syscall c_kill l = fails (Pos EINVAL) l"
| "port_syscall c_link l = fails (Pos EMLINK) l"
| "port_syscall c_lseek l = gives 0 l"
| "port_syscall c_lstat l = fails (Pos ENOSYS) l"
| "port_syscall c_open l = gives (- 1) l"
| "port_syscall c_openat l = fails (Pos ENOSYS) l"
| "port_syscall c_read l = gives 0 l"
| "port_syscall c_stat l = Inr (0, Some S_IFCHR, l)"
| "port_syscall c_sysconf l = gives (- 1) l"
| "port_syscall c_times l = gives (- 1) l"
| "port_syscall c_unlink l = fails (Pos ENOENT) l"
| "port_syscall c_utime l = fails (Pos ENOSYS) l"
| "port_syscall c_wait l = fails (Pos ECHILD) l"

definition port_unimplemented :: "Uart \<Rightarrow> kfault + Uart" where
  "port_unimplemented u = port_putstr (unimplemented_msg @ [0]) u"

definition port_brk :: "u32 \<Rightarrow> libc \<Rightarrow> int \<times> libc" where
  "port_brk addr l = (0, l\<lparr>brk := addr\<rparr>)"

definition port_sbrk :: "u32 \<Rightarrow> u32 \<Rightarrow> u32 \<Rightarrow> libc \<Rightarrow> u32 \<times> libc" where
  "port_sbrk heap_start heap_end incr l =
     (let old_brk = brk l in
      if heap_start = heap_end then (0, l)
      else let l = l\<lparr>brk := brk l + incr\<rparr> in
        if brk l < heap_end then (old_brk, l\<lparr>brk := brk l + incr\<rparr>)
        else (old_brk, l\<lparr>brk := heap_end\<rparr>))"

lemma port_sbrk_same: "port_sbrk heap_start heap_end incr l = sys_sbrk heap_start heap_end incr l"
  by (simp add: port_sbrk_def sys_sbrk_def)

section \<open>The clock\<close>

text \<open>
  The counter register is read, both halves of it, to build a 64-bit value that is dropped; then
  its low half is read again and returned.  The argument holds what the three reads give.
\<close>

definition timer_ticks :: "u32 \<times> u32 \<times> u32 \<Rightarrow> u32" where
  "timer_ticks r = (case r of (r0, r1, r2) \<Rightarrow>
     let timel = scast r0 :: u64; timeh = scast r1 :: u64; result = timel + push_bit 32 timeh in r2)"

record port_clock =
  t0 :: u32
  t1 :: u32

definition start_time :: "u32 \<times> u32 \<times> u32 \<Rightarrow> port_clock \<Rightarrow> port_clock" where
  "start_time r p = p\<lparr>t0 := timer_ticks r\<rparr>"

definition stop_time :: "u32 \<times> u32 \<times> u32 \<Rightarrow> port_clock \<Rightarrow> port_clock" where
  "stop_time r p = p\<lparr>t1 := timer_ticks r\<rparr>"

definition get_time :: "port_clock \<Rightarrow> u32" where
  "get_time p = t1 p - t0 p"

definition CPU_FREQ_HZ :: u32 where "CPU_FREQ_HZ = 62500000"

text \<open>
  Seconds are a 32-bit integer (\<^verbatim>\<open>HAS_FLOAT\<close> is 0).  The quotient in double precision of two
  integers below \<open>2 ^ 24\<close> and \<open>2 ^ 18\<close>, truncated, is their integer quotient: an inexact one is
  further from the next integer than the precision of a double.
\<close>

definition time_in_secs :: "u32 \<Rightarrow> u32" where
  "time_in_secs ticks =
     (let scale = 256; delta = ticks div scale; freq = CPU_FREQ_HZ div scale in delta div freq)"

text \<open>A measurement: the reads at its start and at its end.\<close>

type_synonym timing = "(u32 \<times> u32 \<times> u32) \<times> (u32 \<times> u32 \<times> u32)"

definition measured_secs :: "timing \<Rightarrow> port_clock \<Rightarrow> u32 \<times> port_clock" where
  "measured_secs m p =
     (let p = start_time (fst m) p; p = stop_time (snd m) p in (time_in_secs (get_time p), p))"

text \<open>
  The seconds a measurement gives; what the static variables held before it does not matter, at
  the start of the program they are zero.
\<close>

definition secs_between :: "timing \<Rightarrow> nat" where
  "secs_between m = unat (fst (measured_secs m \<lparr>t0 = 0, t1 = 0\<rparr>))"

lemma secs_between_any: "unat (fst (measured_secs m p)) = secs_between m"
  by (simp add: secs_between_def measured_secs_def start_time_def stop_time_def get_time_def)

section \<open>Properties of the console\<close>

definition crlf :: "u8 list \<Rightarrow> u8 list" where
  "crlf bs = concat (map (\<lambda>c. if c = 0x0a then [0x0d, 0x0a] else [c]) bs)"

lemma crlf_simps [simp]:
  "crlf [] = []" "crlf (c # cs) = (if c = 0x0a then [0x0d, 0x0a] else [c]) @ crlf cs"
  by (simp_all add: crlf_def)

lemma port_putchar_ok:
  assumes "uart_ok u"
  shows "\<exists>u'. port_putchar c u = Inr u' \<and> uart_ok u' \<and> u_out u' = u_out u @ crlf [c]"
proof -
  have send: "\<exists>u'. port_send c u = Inr u' \<and> uart_ok u' \<and> u_out u' = u_out u @ [c]" if "uart_ok u" for c u
    using uart_putchar_ok [OF that, of c] by (simp add: port_send_def uart_putchar_def)
  obtain u1 where "port_send 0x0d u = Inr u1" "uart_ok u1" "u_out u1 = u_out u @ [0x0d]"
    using send [OF assms] by blast
  then show ?thesis
    using send [OF assms, of c] send [of u1 c] by (auto simp: port_putchar_def)
qed

lemma port_putstr_ok:
  "uart_ok u \<Longrightarrow> 0 \<notin> set cs \<Longrightarrow>
     \<exists>u'. port_putstr (cs @ 0 # rest) u = Inr u' \<and> uart_ok u' \<and> u_out u' = u_out u @ crlf cs"
proof (induction cs arbitrary: u)
  case (Cons c cs)
  obtain u1 where u1: "port_putchar c u = Inr u1" "uart_ok u1" "u_out u1 = u_out u @ crlf [c]"
    using port_putchar_ok [OF Cons.prems(1)] by blast
  then show ?case using Cons.IH [of u1] Cons.prems(2) by auto
qed simp

text \<open>The screen as a run of characters over rows, and what a line of text does to it.\<close>

lemma port_hdmi_ok: "screen_ok s \<Longrightarrow> screen_ok (port_hdmi_putchar c s)"
  by (auto simp: screen_ok_def port_hdmi_putchar_def next_row_def Let_def)

definition printable :: "u8 \<Rightarrow> bool" where
  "printable c \<longleftrightarrow> c \<noteq> 0x0d \<and> c \<noteq> 0x0a"

definition written :: "nat \<Rightarrow> u8 list \<Rightarrow> (nat \<Rightarrow> u32) \<Rightarrow> nat \<Rightarrow> u32" where
  "written p cs f i = (if p \<le> i \<and> i < p + length cs then ucast (cs ! (i - p)) + 0x0100 else f i)"

lemma written_Nil: "written p [] f = f"
  by (rule ext) (auto simp: written_def)

lemma written_Cons: "written (Suc p) cs (f(p := ucast c + 0x0100)) = written p (c # cs) f"
  by (rule ext) (auto simp: written_def nth_Cons' diff_diff_left)

lemma port_hdmi_line:
  "\<forall>c \<in> set cs. printable c \<Longrightarrow> video_x s + length cs < 80 \<Longrightarrow>
     foldl (\<lambda>s c. port_hdmi_putchar c s) s cs =
       s\<lparr>video := written (video_y s * 80 + video_x s) cs (video s), video_x := video_x s + length cs\<rparr>"
proof (induction cs arbitrary: s)
  case Nil
  then show ?case by (simp add: written_Nil)
next
  case (Cons c cs)
  let ?s = "s\<lparr>video := (video s)(video_y s * 80 + video_x s := ucast c + 0x0100), video_x := video_x s + 1\<rparr>"
  have "port_hdmi_putchar c s = ?s"
    using Cons.prems by (simp add: port_hdmi_putchar_def printable_def Let_def)
  then show ?case
    using Cons.IH [of ?s] Cons.prems by (simp add: written_Cons [unfolded fun_upd_def])
qed

lemma port_put_all_ok:
  "uart_ok u \<Longrightarrow> \<exists>u'. port_put_all cs (u, s) = Inr (u', foldl (\<lambda>s c. port_hdmi_putchar c s) s cs) \<and>
     uart_ok u' \<and> u_out u' = u_out u @ crlf cs"
proof (induction cs arbitrary: u s)
  case (Cons c cs)
  obtain u1 where u1: "port_putchar c u = Inr u1" "uart_ok u1" "u_out u1 = u_out u @ crlf [c]"
    using port_putchar_ok [OF Cons.prems] by blast
  then show ?case using Cons.IH [of u1 "port_hdmi_putchar c s"] by auto
qed simp

lemma crlf_append: "crlf (as @ bs) = crlf as @ crlf bs"
  by (induction as) simp_all

lemma crlf_printable: "\<forall>c \<in> set cs. printable c \<Longrightarrow> crlf cs = cs"
  by (induction cs) (simp_all add: printable_def)

lemma port_screen_ok: "screen_ok s \<Longrightarrow> screen_ok (foldl (\<lambda>s c. port_hdmi_putchar c s) s cs)"
  by (induction cs arbitrary: s) (simp_all add: port_hdmi_ok)

text \<open>
  C37: Everything written to standard output is transmitted, in order and with a carriage return
  before every line feed, whatever the latency of the transmitter; the call returns the number of
  bytes, the cursor stays on the screen, and no memory behind the 30 rows of 80 cells changes.
\<close>

theorem port_write_transmits:
  assumes "uart_ok u" "screen_ok s"
  shows "\<exists>u' s'. port_write STDOUT_FILENO bs l (u, s) = Inr (int (length bs), l, u', s') \<and>
    uart_ok u' \<and> u_out u' = u_out u @ crlf bs \<and> screen_ok s' \<and> (\<forall>i \<ge> 2400. video s' i = video s i)"
proof -
  have "video (foldl (\<lambda>s c. port_hdmi_putchar c s) s bs) i = video s i" if "2400 \<le> i" for i
    using assms(2)
  proof (induction bs arbitrary: s)
    case (Cons c cs)
    then have "video_y s * 80 + video_x s < 2400" by (simp add: screen_ok_def)
    with that have "video (port_hdmi_putchar c s) i = video s i"
      by (auto simp: port_hdmi_putchar_def next_row_def Let_def)
    with Cons port_hdmi_ok [of s c] show ?case by simp
  qed simp
  then show ?thesis
    using port_put_all_ok [OF assms(1), of bs s] port_screen_ok [OF assms(2), of bs]
    by (auto simp: port_write_def)
qed

definition idle_uart :: "nat \<Rightarrow> Uart" where
  "idle_uart n = \<lparr>u_latency = Some n, u_busy = Some 0, u_out = [], u_in = []\<rparr>"

definition blank_screen :: Screen where
  "blank_screen = \<lparr>video = \<lambda>_. 0, video_x = 0, video_y = 0\<rparr>"

theorem port_write_transmits_witness:
  "\<exists>u' s'. port_write STDOUT_FILENO [0x68, 0x69, 0x0a] \<lparr>errno = None, brk = 0\<rparr> (idle_uart 3, blank_screen)
     = Inr (3, \<lparr>errno = None, brk = 0\<rparr>, u', s') \<and> u_out u' = [0x68, 0x69, 0x0d, 0x0a] \<and> screen_ok s'"
  using port_write_transmits [of "idle_uart 3" blank_screen "[0x68, 0x69, 0x0a]" "\<lparr>errno = None, brk = 0\<rparr>"]
  by (auto simp: idle_uart_def blank_screen_def uart_ok_def screen_ok_def)

text \<open>
  A line of text that starts at the left margin, fits into the row and ends with a carriage
  return and a line feed appears in its row, every character in the cell of its column, and leaves
  the cursor at the left margin of the next row, below the last row in the first one.
\<close>

theorem port_write_line:
  assumes "uart_ok u" "screen_ok s" "video_x s = 0" "length cs < 80" "\<forall>c \<in> set cs. printable c"
  shows "\<exists>u' s'. port_write STDOUT_FILENO (cs @ [0x0d, 0x0a]) l (u, s) = Inr (int (length cs) + 2, l, u', s') \<and>
    u_out u' = u_out u @ cs @ [0x0d, 0x0d, 0x0a] \<and>
    (\<forall>k < length cs. video s' (video_y s * 80 + k) = ucast (cs ! k) + 0x0100) \<and>
    (\<forall>i. i < video_y s * 80 \<or> video_y s * 80 + length cs \<le> i \<longrightarrow> video s' i = video s i) \<and>
    video_x s' = 0 \<and> video_y s' = (video_y s + 1) mod 30"
proof -
  let ?f = "foldl (\<lambda>s c. port_hdmi_putchar c s)"
  have "?f s (cs @ [0x0d, 0x0a]) = next_row ((?f s cs)\<lparr>video_x := 0\<rparr>)"
    by (simp add: port_hdmi_putchar_def)
  moreover have "(video_y s + 1) mod 30 = (if video_y s = 29 then 0 else video_y s + 1)"
    using assms(2) by (auto simp: screen_ok_def)
  ultimately show ?thesis
    using port_put_all_ok [OF assms(1), of "cs @ [0x0d, 0x0a]" s] port_hdmi_line [of cs s]
      crlf_printable [OF assms(5)] assms(2-5)
    by (auto simp: port_write_def crlf_append next_row_def written_def)
qed

theorem port_write_line_witness:
  "\<exists>u' s'. port_write STDOUT_FILENO [0x68, 0x69, 0x0d, 0x0a] \<lparr>errno = None, brk = 0\<rparr> (idle_uart 3, blank_screen)
     = Inr (4, \<lparr>errno = None, brk = 0\<rparr>, u', s') \<and> video s' 0 = 0x168 \<and> video s' 1 = 0x169 \<and> video_y s' = 1"
proof -
  have "uart_ok (idle_uart 3)" "screen_ok blank_screen" "video_x blank_screen = 0" "video_y blank_screen = 0"
    "\<forall>c \<in> set [0x68, 0x69]. printable c" "length [0x68, 0x69 :: u8] < 80"
    by (simp_all add: idle_uart_def blank_screen_def uart_ok_def screen_ok_def printable_def)
  then show ?thesis
    using port_write_line [of "idle_uart 3" blank_screen "[0x68, 0x69]" "\<lparr>errno = None, brk = 0\<rparr>"]
    by (fastforce simp: less_Suc_eq)
qed

section \<open>Properties of the clock\<close>

lemma unat_time_in_secs: "unat (time_in_secs t) = unat t div 256 div 244140"
  by (simp add: time_in_secs_def CPU_FREQ_HZ_def Let_def unat_div)

lemma ticks_elapsed:
  "unat (of_nat b - of_nat a :: u32) = (b - a) mod 2 ^ 32" if "a \<le> b"
  using that by (simp flip: of_nat_diff add: unat_of_nat)

text \<open>
  If the counter shows \<open>a\<close> at the start and \<open>b\<close> at the stop, modulo \<open>2 ^ 32\<close>, the clock gives the
  seconds of \<open>b - a\<close> ticks modulo \<open>2 ^ 32\<close>, rounded down and with the frequency rounded down to
  62499840 Hz; a wrap-around between the two does not matter.  No time above 68 seconds can be
  measured.
\<close>

theorem measured_secs_value:
  assumes "a \<le> b"
  shows "unat (fst (measured_secs ((r0, r1, of_nat a), (r2, r3, of_nat b)) p)) = (b - a) mod 2 ^ 32 div 62499840 \<and>
    unat (fst (measured_secs ((r0, r1, of_nat a), (r2, r3, of_nat b)) p)) \<le> 68"
proof -
  let ?d = "(b - a) mod 2 ^ 32"
  have "unat (fst (measured_secs ((r0, r1, of_nat a), (r2, r3, of_nat b)) p)) = ?d div 256 div 244140"
    using ticks_elapsed [OF assms]
    by (simp add: measured_secs_def start_time_def stop_time_def timer_ticks_def get_time_def
        unat_time_in_secs Let_def)
  then have e: "unat (fst (measured_secs ((r0, r1, of_nat a), (r2, r3, of_nat b)) p)) = ?d div 62499840"
    by (simp add: div_mult2_eq [symmetric])
  have "?d \<le> 2 ^ 32 - 1" by (simp add: less_Suc_eq_le [symmetric])
  then have "?d div 62499840 \<le> (2 ^ 32 - 1) div 62499840" by (rule div_le_mono)
  then show ?thesis using e by simp
qed

theorem measured_secs_value_witness:
  "unat (fst (measured_secs ((0, 0, 4000000000), (0, 1, 330032704)) \<lparr>t0 = 0, t1 = 0\<rparr>)) = 10"
proof -
  have "unat (fst (measured_secs ((0, 0, of_nat 4000000000), (0, 1, of_nat 4625000000)) \<lparr>t0 = 0, t1 = 0\<rparr>)) = 10"
    using measured_secs_value [of 4000000000 4625000000 0 0 0 1 "\<lparr>t0 = 0, t1 = 0\<rparr>"] by simp
  moreover have "(of_nat 4000000000 :: u32) = 4000000000" "(of_nat 4625000000 :: u32) = 330032704" by simp_all
  ultimately show ?thesis by (simp only:)
qed

end
