(* ===== verification/CMMain.thy ===== *)
theory CMMain
  imports CMBench CMPort
begin

text \<open>
  The set-up of a CoreMark run: \<^verbatim>\<open>core_list_init\<close> of \<^verbatim>\<open>core_list_join.c\<close>, and \<^verbatim>\<open>main\<close> of \<^verbatim>\<open>core_main.c\<close>
  with the seeds and the clock of \<^verbatim>\<open>core_portme.c\<close>, from the reading of the seeds to the verdict on
  the checksums.
  Only the printed lines are left out.
\<close>

section \<open>Initialisation of the list\<close>

text \<open>The data of the \<open>i\<close>-th inserted item, and the index it gets afterwards.\<close>

definition init_data :: "u16 \<Rightarrow> nat \<Rightarrow> u16" where
  "init_data seed i =
     (let datpat = (seed XOR of_nat i) AND 0xf;
          dat = push_bit 3 datpat OR (of_nat i AND 0x7)
      in push_bit 8 dat OR dat)"

definition init_idx :: "u16 \<Rightarrow> nat \<Rightarrow> nat \<Rightarrow> u16" where
  "init_idx seed sz i =
     (if i < sz div 5 then of_nat i
      else let pat = of_nat i XOR seed; i = i + 1
        in 0x3fff AND (push_bit 8 (of_nat i AND 0x07) OR pat))"

text \<open>The loop that inserts behind the head; null results are ignored.\<close>

fun insert_loop :: "nat \<Rightarrow> nat \<Rightarrow> u16 \<Rightarrow> nat \<Rightarrow> nat \<times> nat \<Rightarrow> core_results \<Rightarrow> core_results" where
  "insert_loop 0 i seed sz blocks s = s"
| "insert_loop (Suc n) i seed sz blocks s =
     (case core_list_insert_new 0 \<lparr>data16 = init_data seed i, idx = 0x7fff\<rparr> (fst blocks) (snd blocks) sz sz s of
        (_, memblock, datablock, s) \<Rightarrow> insert_loop n (i + 1) seed sz (memblock, datablock) s)"

text \<open>The loop that numbers the items, up to the last one.\<close>

fun index_loop :: "nat \<Rightarrow> u16 \<Rightarrow> nat \<Rightarrow> nat \<Rightarrow> nat option \<Rightarrow> core_results \<Rightarrow> kfault + core_results" where
  "index_loop 0 seed sz i finder s = Inl Hang"
| "index_loop (Suc fuel) seed sz i finder s =
     deref finder (\<lambda>n.
       if nxt s n \<noteq> None
       then index_loop fuel seed sz (i + 1) (nxt s n)
              (set_dat (info s n) ((item s n)\<lparr>idx := init_idx seed sz i\<rparr>) s)
       else Inr s)"

text \<open>
  \<^verbatim>\<open>core_list_init\<close>: cells and data items are numbered from the start of their areas, the head is
  cell 0.  The size is an unsigned 32-bit value.
\<close>

definition core_list_init :: "nat \<Rightarrow> nat \<Rightarrow> u16 \<Rightarrow> core_results \<Rightarrow> kfault + (nat option \<times> core_results)" where
  "core_list_init fuel blksize seed s =
     (let per_item = 16 + 4;
          sz = (blksize div per_item + 2 ^ 32 - 2) mod 2 ^ 32;
          s = set_nxt 0 None s;
          s = set_info 0 0 s;
          s = set_dat 0 \<lparr>data16 = 0x8080, idx = 0\<rparr> s
      in case core_list_insert_new 0 \<lparr>data16 = 0xffff, idx = 0x7fff\<rparr> 1 1 sz sz s of
        (_, memblock, datablock, s) \<Rightarrow>
          let s = insert_loop sz 0 seed sz (memblock, datablock) s in
          bindE (index_loop fuel seed sz 1 (nxt s 0) s) (\<lambda>s.
            core_list_mergesort fuel (cmp_idx True) (Some 0) s))"

section \<open>The main routine\<close>

definition ID_LIST :: u32 where "ID_LIST = 1"
definition ID_MATRIX :: u32 where "ID_MATRIX = 2"
definition ID_STATE :: u32 where "ID_STATE = 4"
definition TOTAL_DATA_SIZE :: nat where "TOTAL_DATA_SIZE = 2 * 1000"

datatype run_type = VALIDATION_RUN | PERFORMANCE_RUN | PROFILE_RUN

text \<open>The volatile seeds of \<^verbatim>\<open>core_portme.c\<close>, by the macro that is defined.\<close>

definition seed_volatile :: "run_type \<Rightarrow> u32 \<Rightarrow> nat \<Rightarrow> u32" where
  "seed_volatile run iterations i =
     (if i = 1 \<or> i = 2 then (case run of VALIDATION_RUN \<Rightarrow> 0x3415 | PERFORMANCE_RUN \<Rightarrow> 0 | PROFILE_RUN \<Rightarrow> 8)
      else if i = 3 then (case run of VALIDATION_RUN \<Rightarrow> 0x66 | PERFORMANCE_RUN \<Rightarrow> 0x66 | PROFILE_RUN \<Rightarrow> 8)
      else if i = 4 then iterations
      else 0)"

definition read_seeds :: "(nat \<Rightarrow> u32) \<Rightarrow> core_results \<Rightarrow> core_results" where
  "read_seeds sv s =
     (let s = s\<lparr>res_seed1 := ucast (get_seed_32 sv 1), res_seed2 := ucast (get_seed_32 sv 2),
                res_seed3 := ucast (get_seed_32 sv 3), res_iterations := unat (get_seed_32 sv 4),
                res_execs := get_seed_32 sv 5\<rparr>;
          s = (if res_execs s = 0 then s\<lparr>res_execs := ID_LIST OR ID_MATRIX OR ID_STATE\<rparr> else s);
          s = (if res_seed1 s = 0 \<and> res_seed2 s = 0 \<and> res_seed3 s = 0
               then s\<lparr>res_seed1 := 0, res_seed2 := 0, res_seed3 := 0x66\<rparr> else s);
          s = (if res_seed1 s = 1 \<and> res_seed2 s = 0 \<and> res_seed3 s = 0
               then s\<lparr>res_seed1 := 0x3415, res_seed2 := 0x3415, res_seed3 := 0x66\<rparr> else s)
      in s)"

text \<open>
  The share of every algorithm in the static block, and the offset each selected one gets; the
  division is by zero if no known algorithm is selected.
\<close>

definition selected :: "u32 \<Rightarrow> nat \<Rightarrow> bool" where
  "selected execs i \<longleftrightarrow> push_bit i 1 AND execs \<noteq> 0"

definition share_size :: "u32 \<Rightarrow> nat \<Rightarrow> kfault + nat" where
  "share_size execs tot =
     (let num_algorithms = length (filter (selected execs) [0..<3])
      in if num_algorithms = 0 then Inl DivByZero else Inr (tot div num_algorithms))"

definition memblock_offset :: "u32 \<Rightarrow> nat \<Rightarrow> nat \<Rightarrow> nat" where
  "memblock_offset execs sz i = sz * length (filter (selected execs) [0..<i])"

text \<open>
  The three initialisations.  \<open>base\<close> is the address of the block; the bytes of the text share
  and what memory holds at the matrices before are taken from \<open>old\<close>.
\<close>

record old_memory =
  old_text :: "nat \<Rightarrow> u8 list"
  old_A :: "nat \<Rightarrow> u16 list"
  old_B :: "nat \<Rightarrow> u16 list"
  old_C :: "nat \<Rightarrow> u32 list"

definition call_inits :: "nat \<Rightarrow> nat \<Rightarrow> old_memory \<Rightarrow> core_results \<Rightarrow> kfault + core_results" where
  "call_inits fuel base old s =
     bindE (if res_execs s AND ID_LIST \<noteq> 0
            then bindE (core_list_init fuel (res_size s) (res_seed1 s) s) (\<lambda>(lst, s).
                   Inr (s\<lparr>res_list := lst\<rparr>))
            else Inr s) (\<lambda>s.
     bindE (if res_execs s AND ID_MATRIX \<noteq> 0
            then bindE (core_init_matrix fuel (res_size s) (base + memblock_offset (res_execs s) (res_size s) 1)
                   (scast (res_seed1 s) OR push_bit 16 (scast (res_seed2 s))) (old_A old) (old_B old) (old_C old))
                   (\<lambda>m. Inr (s\<lparr>res_mat := m\<rparr>))
            else Inr s) (\<lambda>s.
     if res_execs s AND ID_STATE \<noteq> 0
     then bindE (core_init_state (res_size s) (res_seed1 s) (old_text old (res_size s))) (\<lambda>text.
            Inr (s\<lparr>res_text := text\<rparr>))
     else Inr s))"

text \<open>
  The number of iterations, if none is given: ten times more until a run takes a second.  The clock
  readings of the runs are an argument; if none of them reaches a second, the loop does not end.
\<close>

fun find_iterations :: "nat \<Rightarrow> nat \<Rightarrow> timing list \<Rightarrow> core_results \<Rightarrow> kfault + (nat \<times> core_results)" where
  "find_iterations fuel secs_passed [] s = (if secs_passed < 1 then Inl Hang else Inr (secs_passed, s))"
| "find_iterations fuel secs_passed (m # ms) s =
     (if secs_passed < 1
      then let s = s\<lparr>res_iterations := (res_iterations s * 10) mod 2 ^ 32\<rparr>
        in bindE (iterate fuel s) (\<lambda>s. find_iterations fuel (secs_between m) ms s)
      else Inr (secs_passed, s))"

definition set_iterations :: "nat \<Rightarrow> timing list \<Rightarrow> core_results \<Rightarrow> kfault + core_results" where
  "set_iterations fuel secs s =
     (if res_iterations s = 0
      then bindE (find_iterations fuel 0 secs (s\<lparr>res_iterations := 1\<rparr>)) (\<lambda>(secs_passed, s).
             let divisor = (if secs_passed = 0 then 1 else secs_passed)
             in Inr (s\<lparr>res_iterations := (res_iterations s * (1 + 10 div divisor)) mod 2 ^ 32\<rparr>))
      else Inr s)"

text \<open>The checksum of the seeds, and the check of the results against the tables.\<close>

definition list_known_crc :: "u16 list" where
  "list_known_crc = [0xd4b0, 0x3340, 0x6a79, 0xe714, 0xe3c1]"

definition matrix_known_crc :: "u16 list" where
  "matrix_known_crc = [0xbe52, 0x1199, 0x5608, 0x1fd7, 0x0747]"

definition state_known_crc :: "u16 list" where
  "state_known_crc = [0x5e47, 0x39bf, 0xe5a4, 0x8e3a, 0x8d84]"

definition seed_crc :: "core_results \<Rightarrow> u16" where
  "seed_crc s = crc16 (of_nat (res_size s)) (crc16 (res_seed3 s) (crc16 (res_seed2 s) (crc16 (res_seed1 s) 0)))"

definition known_id :: "u16 \<Rightarrow> nat option" where
  "known_id seedcrc =
     (if seedcrc = 0x8a02 then Some 0
      else if seedcrc = 0x7b05 then Some 1
      else if seedcrc = 0x4eaf then Some 2
      else if seedcrc = 0xe9f5 then Some 3
      else if seedcrc = 0x18f2 then Some 4
      else None)"

definition check_results :: "nat \<Rightarrow> core_results \<Rightarrow> core_results" where
  "check_results k s =
     (let s = s\<lparr>res_err := 0\<rparr>;
          s = (if res_execs s AND ID_LIST \<noteq> 0 \<and> res_crclist s \<noteq> list_known_crc ! k
               then s\<lparr>res_err := res_err s + 1\<rparr> else s);
          s = (if res_execs s AND ID_MATRIX \<noteq> 0 \<and> res_crcmatrix s \<noteq> matrix_known_crc ! k
               then s\<lparr>res_err := res_err s + 1\<rparr> else s);
          s = (if res_execs s AND ID_STATE \<noteq> 0 \<and> res_crcstate s \<noteq> state_known_crc ! k
               then s\<lparr>res_err := res_err s + 1\<rparr> else s)
      in s)"

datatype verdict = Validated | ErrorsDetected | CannotValidate

text \<open>
  The part of \<^verbatim>\<open>main\<close> behind the measured run.  The number of errors is a signed 16-bit value,
  \<open>- 1\<close> for unknown seeds.
\<close>

definition report :: "type_sizes \<Rightarrow> timing \<Rightarrow> core_results \<Rightarrow> verdict \<times> core_results" where
  "report sizes measured s =
     (let (total_errors, s) =
            (case known_id (seed_crc s) of
               None \<Rightarrow> (- 1 :: u16, s)
             | Some k \<Rightarrow> (let s = check_results k s in (res_err s, s)));
          total_errors = total_errors + ucast (check_data_types sizes);
          total_errors = (if secs_between measured < 10 then total_errors + 1 else total_errors)
      in (if total_errors = 0 then Validated
          else if 0 < sint total_errors then ErrorsDetected
          else CannotValidate, s))"

text \<open>
  The whole of \<^verbatim>\<open>main\<close>: \<open>secs\<close> are the clock readings of the calibration runs and \<open>measured\<close> those of
  the measured run.
\<close>

definition coremark_main ::
  "nat \<Rightarrow> (nat \<Rightarrow> u32) \<Rightarrow> nat \<Rightarrow> old_memory \<Rightarrow> type_sizes \<Rightarrow> timing list \<Rightarrow> timing \<Rightarrow> core_results \<Rightarrow>
     kfault + (verdict \<times> core_results)" where
  "coremark_main fuel sv base old sizes secs measured s =
     (let s = read_seeds sv s in
      bindE (share_size (res_execs s) TOTAL_DATA_SIZE) (\<lambda>sz.
      bindE (call_inits fuel base old (s\<lparr>res_size := sz, res_err := 0\<rparr>)) (\<lambda>s.
      bindE (set_iterations fuel secs s) (\<lambda>s.
      bindE (iterate fuel s) (\<lambda>s.
        Inr (report sizes measured s))))))"

section \<open>The list that the initialisation builds\<close>

lemma regen_double:
  fixes d :: u16
  assumes "\<And>n. 8 \<le> n \<Longrightarrow> \<not> bit d n"
  shows "regen (push_bit 8 d OR d) = push_bit 8 d OR d"
proof (rule bit_word_eqI)
  fix n assume "n < LENGTH(16)"
  then show "bit (regen (push_bit 8 d OR d)) n = bit (push_bit 8 d OR d) n"
    using assms [of "n + 8"] assms [of n] by (auto simp: bit_regen bit_or_iff bit_push_bit_iff)
qed

lemma init_data_regen: "regen (init_data seed i) = init_data seed i"
proof -
  let ?d = "push_bit 3 ((seed XOR of_nat i) AND 0xf) OR (of_nat i AND 0x7) :: u16"
  have "\<not> bit ?d n" if "8 \<le> n" for n
  proof (cases "n < 16")
    case True
    with that have "n \<in> set [8..<16]" by (simp only: set_upt atLeastLessThan_iff)
    then show ?thesis by (auto simp: bit_simps upt_rec bit_numeral_rec)
  qed (use bit_imp_le_length [of ?d n] in auto)
  then have "regen (push_bit 8 ?d OR ?d) = push_bit 8 ?d OR ?d" by (rule regen_double)
  then show ?thesis unfolding init_data_def Let_def .
qed

text \<open>Only the heap differs.\<close>

definition reheaped :: "core_results \<Rightarrow> core_results \<Rightarrow> bool" where
  "reheaped s s' \<longleftrightarrow> (\<exists>f g h. s' = s\<lparr>nxt := f, info := g, dat := h\<rparr>)"

lemma reheaped_refl: "reheaped s s"
proof -
  have "s = s\<lparr>nxt := nxt s, info := info s, dat := dat s\<rparr>" by simp
  then show ?thesis unfolding reheaped_def by blast
qed

lemma reheaped_trans:
  assumes "reheaped s s'" "reheaped s' s''"
  shows "reheaped s s''"
proof -
  obtain f g h where s': "s' = s\<lparr>nxt := f, info := g, dat := h\<rparr>" using assms(1) by (auto simp: reheaped_def)
  obtain f' g' h' where "s'' = s'\<lparr>nxt := f', info := g', dat := h'\<rparr>" using assms(2) by (auto simp: reheaped_def)
  then have "s'' = s\<lparr>nxt := f', info := g', dat := h'\<rparr>" using s' by simp
  then show ?thesis unfolding reheaped_def by blast
qed

text \<open>
  The state of the heap while cells are inserted: \<open>m\<close> cells are used, the newest is behind the
  head, the item of every cell has the cell's number.
\<close>

definition cell_data :: "u16 \<Rightarrow> nat \<Rightarrow> u16" where
  "cell_data seed n = (if n = 0 then 0x8080 else if n = 1 then 0xffff else init_data seed (n - 2))"

definition built :: "u16 \<Rightarrow> core_results \<Rightarrow> nat \<Rightarrow> bool" where
  "built seed s m \<longleftrightarrow> 2 \<le> m \<and> linked (nxt s) (Some 0) (0 # rev [1..<m]) \<and> (\<forall>n < m. info s n = n) \<and>
     (\<forall>n < m. data16 (dat s n) = cell_data seed n) \<and> idx (dat s 0) = 0 \<and> idx (dat s 1) = 0x7fff"

lemma cell_data_regen: "regen (cell_data seed n) = cell_data seed n"
proof -
  have "regen 0xffff = 0xffff" "regen 0x8080 = 0x8080" by (simp_all add: regen_def)
  then show ?thesis by (simp add: cell_data_def init_data_regen)
qed

lemma insert_new_built:
  assumes "built seed s m" "m + 1 < sz" "data16 v = cell_data seed m"
  shows "\<exists>s'. core_list_insert_new 0 v m m sz sz s = (Some m, m + 1, m + 1, s') \<and> built seed s' (m + 1) \<and>
    reheaped s s'"
proof -
  let ?s = "copy_info m v (set_info m m (set_nxt 0 (Some m) (set_nxt m (nxt s 0) s)))"
  have e: "core_list_insert_new 0 v m m sz sz s = (Some m, m + 1, m + 1, ?s)"
    using assms(2) by (simp add: core_list_insert_new_def Let_def)
  have m: "2 \<le> m" using assms(1) by (simp add: built_def)
  have l: "linked (nxt s) (nxt s 0) (rev [1..<m])" using assms(1) by (simp add: built_def)
  have "linked ((nxt s)(m := nxt s 0, 0 := Some m)) (nxt s 0) (rev [1..<m])"
    using l by (subst linked_upd; simp)+
  then have "linked (nxt ?s) (Some 0) (0 # rev [1..<m + 1])"
    using m by (simp add: copy_info_def)
  moreover have "reheaped s ?s"
    by (auto simp: reheaped_def copy_info_def set_nxt_def set_info_def set_dat_def)
  ultimately show ?thesis
    using e assms(1,3) m by (auto simp: built_def copy_info_def less_Suc_eq)
qed

lemma insert_loop_built:
  "built seed s m \<Longrightarrow> m < sz \<Longrightarrow> m + 1 < sz \<longrightarrow> m = i + 2 \<Longrightarrow>
     \<exists>s'. insert_loop n i seed sz (m, m) s = s' \<and> built seed s' (min (m + n) (sz - 1)) \<and>
       reheaped s s'"
proof (induction n arbitrary: i m s)
  case 0
  have "min m (sz - 1) = m" using 0 by simp
  then show ?case using 0 reheaped_refl by simp
next
  case (Suc n)
  let ?v = "\<lparr>data16 = init_data seed i, idx = 0x7fff\<rparr>"
  show ?case
  proof (cases "m + 1 < sz")
    case True
    obtain s1 where s1: "core_list_insert_new 0 ?v m m sz sz s = (Some m, m + 1, m + 1, s1)" "built seed s1 (m + 1)"
      "reheaped s s1"
      using insert_new_built [OF Suc.prems(1) True, of ?v] Suc.prems(3) True by (auto simp: cell_data_def)
    have "insert_loop (Suc n) i seed sz (m, m) s = insert_loop n (i + 1) seed sz (m + 1, m + 1) s1"
      using s1(1) by simp
    then show ?thesis
      using Suc.IH [OF s1(2) True, of "i + 1"] Suc.prems(3) True reheaped_trans [OF s1(3)] by auto
  next
    case False
    then have "core_list_insert_new 0 ?v m m sz sz s = (None, m, m, s)"
      by (simp add: core_list_insert_new_def)
    then have "insert_loop (Suc n) i seed sz (m, m) s = insert_loop n (i + 1) seed sz (m, m) s" by simp
    moreover have "min (m + Suc n) (sz - 1) = min (m + n) (sz - 1)" using False Suc.prems(2) by simp
    ultimately show ?thesis using Suc.IH [OF Suc.prems(1,2), of "i + 1"] False by simp
  qed
qed

lemma index_loop_numbers:
  "linked (nxt s) finder (xs @ [t]) \<Longrightarrow> distinct (map (info s) (xs @ [t])) \<Longrightarrow> length xs < fuel \<Longrightarrow>
     \<exists>h. index_loop fuel seed sz i finder s = Inr (s\<lparr>dat := h\<rparr>) \<and>
       (\<forall>k < length xs. h (info s (xs ! k)) = (item s (xs ! k))\<lparr>idx := init_idx seed sz (i + k)\<rparr>) \<and>
       (\<forall>c. c \<notin> info s ` set xs \<longrightarrow> h c = dat s c)"
proof (induction xs arbitrary: finder i s fuel)
  case Nil
  then obtain f where "fuel = Suc f" by (cases fuel) auto
  moreover have "s = s\<lparr>dat := dat s\<rparr>" by simp
  ultimately show ?case using Nil by (intro exI [of _ "dat s"]) auto
next
  case (Cons x xs)
  obtain f where f: "fuel = Suc f" using Cons.prems(3) by (cases fuel) auto
  let ?s = "set_dat (info s x) ((item s x)\<lparr>idx := init_idx seed sz i\<rparr>) s"
  have "nxt s x \<noteq> None" using Cons.prems(1) by (cases xs) auto
  then have step: "index_loop fuel seed sz i finder s = index_loop f seed sz (i + 1) (nxt s x) ?s"
    using Cons.prems(1) f by simp
  obtain h where h: "index_loop f seed sz (i + 1) (nxt s x) ?s = Inr (?s\<lparr>dat := h\<rparr>)"
    "\<forall>k < length xs. h (info ?s (xs ! k)) = (item ?s (xs ! k))\<lparr>idx := init_idx seed sz (i + 1 + k)\<rparr>"
    "\<forall>c. c \<notin> info ?s ` set xs \<longrightarrow> h c = dat ?s c"
    using Cons.IH [of ?s "nxt s x" f "i + 1"] Cons.prems f by auto
  have x: "info s x \<notin> info s ` set xs" using Cons.prems(2) by auto
  have same: "item ?s (xs ! k) = item s (xs ! k)" if "k < length xs" for k
  proof -
    have "info s (xs ! k) \<in> info s ` set xs" using that by simp
    then have "info s (xs ! k) \<noteq> info s x" using x by metis
    then show ?thesis by (simp add: item_def)
  qed
  have "h (info s ((x # xs) ! k)) = (item s ((x # xs) ! k))\<lparr>idx := init_idx seed sz (i + k)\<rparr>"
    if "k < length (x # xs)" for k
    using that h(2,3) x same by (cases k) auto
  moreover have "\<forall>c. c \<notin> info s ` set (x # xs) \<longrightarrow> h c = dat s c" using h(3) by auto
  moreover have "?s\<lparr>dat := h\<rparr> = s\<lparr>dat := h\<rparr>" by (simp add: set_dat_def)
  ultimately show ?case using step h(1) by metis
qed

definition init_keys :: "u16 \<Rightarrow> nat \<Rightarrow> u16 list" where
  "init_keys seed sz = 0 # map (init_idx seed sz) [1..<sz - 2] @ [0x7fff]"

text \<open>The items in the order in which they are linked first.\<close>

definition init_items :: "u16 \<Rightarrow> nat \<Rightarrow> list_data list" where
  "init_items seed sz =
     \<lparr>data16 = 0x8080, idx = 0\<rparr> #
     map (\<lambda>i. \<lparr>data16 = init_data seed (sz - 3 - i), idx = init_idx seed sz i\<rparr>) [1..<sz - 2] @
     [\<lparr>data16 = 0xffff, idx = 0x7fff\<rparr>]"

lemma init_items_keys: "map idx (init_items seed sz) = init_keys seed sz"
  by (simp add: init_items_def init_keys_def)

lemma init_idx_nonneg: "i < 32768 \<Longrightarrow> 0 \<le> sint (init_idx seed sz i)"
proof -
  have small: "0 \<le> sint (w :: u16)" if "\<not> bit w 15" for w
    using that bit_last_iff [of w] by simp
  assume "i < 32768"
  then have "0 \<le> sint (of_nat i :: u16)"
    using sint_word_of_int_eq_self [of "int i", where 'a = 16] by simp
  then show ?thesis
    by (auto simp: init_idx_def Let_def bit_simps bit_numeral_rec intro!: small)
qed

lemma built_start:
  assumes "4 \<le> sz"
  shows "\<exists>s'. core_list_insert_new 0 \<lparr>data16 = 0xffff, idx = 0x7fff\<rparr> 1 1 sz sz
      (set_dat 0 \<lparr>data16 = 0x8080, idx = 0\<rparr> (set_info 0 0 (set_nxt 0 None s))) = (Some 1, 2, 2, s') \<and>
    built seed s' 2 \<and> reheaped s s'"
proof -
  have l: "[1..<2] = [1 :: nat]" by (simp add: upt_rec)
  show ?thesis
    using assms l
    by (auto simp: cell_data_def core_list_insert_new_def Let_def built_def copy_info_def less_2_cases_iff reheaped_def
        set_nxt_def set_info_def set_dat_def)
qed

text \<open>The list before it is sorted: the cells in the order of insertion, numbered.\<close>

definition numbered :: "core_results \<Rightarrow> u16 \<Rightarrow> nat \<Rightarrow> bool" where
  "numbered s seed sz \<longleftrightarrow> linked (nxt s) (Some 0) (0 # rev [1..<sz - 1]) \<and>
     map (item s) (0 # rev [1..<sz - 1]) = init_items seed sz \<and>
     (\<forall>n < sz - 1. regenerated s (info s n))"

lemma index_built:
  assumes "built seed s (sz - 1)" "4 \<le> sz" "sz \<le> fuel"
  shows "\<exists>s'. index_loop fuel seed sz 1 (nxt s 0) s = Inr s' \<and> numbered s' seed sz \<and> reheaped s s'"
proof -
  define xs where "xs = rev [2..<sz - 1]"
  note b = assms(1) [unfolded built_def]
  have cells: "rev [1..<sz - 1] = xs @ [1]"
    using assms(2) upt_conv_Cons [of 1 "sz - 1"] by (simp add: xs_def numeral_2_eq_2)
  have link: "linked (nxt s) (nxt s 0) (xs @ [1])" using b cells by simp
  have xs: "set xs = {2..<sz - 1}" "length xs = sz - 3" "xs ! k = sz - 2 - k" if "k < sz - 3" for k
    using that by (simp_all add: xs_def rev_nth)
  have inf: "info s n = n" if "n < sz - 1" for n using b that by simp
  have "map (info s) (xs @ [1]) = map (\<lambda>n. n) (xs @ [1])"
    by (rule map_cong) (use inf assms(2) in \<open>auto simp: xs_def\<close>)
  then have d: "distinct (map (info s) (xs @ [1]))" by (simp add: xs_def)
  have "length xs = sz - 3" by (simp add: xs_def)
  then have len: "length xs < fuel" using assms(2,3) by linarith
  obtain h where h: "index_loop fuel seed sz 1 (nxt s 0) s = Inr (s\<lparr>dat := h\<rparr>)"
    "\<forall>k < length xs. h (info s (xs ! k)) = (item s (xs ! k))\<lparr>idx := init_idx seed sz (1 + k)\<rparr>"
    "\<forall>c. c \<notin> info s ` set xs \<longrightarrow> h c = dat s c"
    using index_loop_numbers [OF link d len, of seed sz 1] by blast
  let ?s = "s\<lparr>dat := h\<rparr>"
  have img: "info s ` set xs = {2..<sz - 1}"
    using inf by (force simp: xs_def)
  have ends: "item ?s 0 = \<lparr>data16 = 0x8080, idx = 0\<rparr>" "item ?s 1 = \<lparr>data16 = 0xffff, idx = 0x7fff\<rparr>"
    using b h(3) img inf assms(2) by (auto simp: item_def cell_data_def)
  let ?f = "\<lambda>i. \<lparr>data16 = init_data seed (sz - 3 - i), idx = init_idx seed sz i\<rparr>"
  have mid: "map (item ?s) xs = map ?f [1..<sz - 2]"
  proof (rule nth_equalityI)
    fix k assume "k < length (map (item ?s) xs)"
    then have k: "k < sz - 3" by (simp add: xs_def)
    define c where "c = sz - 2 - k"
    have "xs ! k = c" "c < sz - 1" "2 \<le> c" "sz - 3 - (1 + k) = c - 2" using xs(3) [OF k] k by (simp_all add: c_def)
    then have "data16 (item s (xs ! k)) = init_data seed (sz - 3 - (1 + k))"
      using inf [of c] b by (simp add: item_def cell_data_def)
    then show "map (item ?s) xs ! k = map ?f [1..<sz - 2] ! k"
      using h(2) k by (simp add: xs_def item_def)
  qed (simp add: xs_def)
  have same: "data16 (h c) = data16 (dat s c)" for c
  proof (cases "c \<in> info s ` set xs")
    case True
    then obtain k where "k < length xs" "c = info s (xs ! k)" by (auto simp: in_set_conv_nth)
    then show ?thesis using h(2) by (simp add: item_def)
  qed (use h(3) in simp)
  have "\<forall>n < sz - 1. regenerated ?s (info ?s n)"
    using b inf same by (simp add: regenerated_def cell_data_regen)
  then have "numbered ?s seed sz"
    using link ends mid unfolding numbered_def cells init_items_def by simp
  moreover have "reheaped s ?s"
  proof -
    have "?s = s\<lparr>nxt := nxt s, info := info s, dat := h\<rparr>" by simp
    then show ?thesis unfolding reheaped_def by blast
  qed
  ultimately show ?thesis using h(1) by blast
qed

lemma core_list_init_run:
  assumes "4 \<le> sz" "sz = blksize div 20 - 2" "blksize < 500000" "sz \<le> fuel"
  shows "\<exists>s' ns. core_list_init fuel blksize seed s = Inr (Some 0, s') \<and> linked (nxt s') (Some 0) ns \<and>
    mset ns = mset [0..<sz - 1] \<and> sorted (map (\<lambda>n. sint (idx (item s' n))) ns) \<and>
    map (item s') ns = sort_key (\<lambda>v. sint (idx v)) (init_items seed sz) \<and>
    (\<forall>n \<in> set ns. regenerated s' (info s' n)) \<and> reheaped s s'"
proof -
  have size: "(blksize div 20 + 2 ^ 32 - 2) mod 2 ^ 32 = sz"
  proof -
    have "blksize div 20 = sz + 2" "sz < 25000" using assms(1-3) by auto
    then have "blksize div 20 + 2 ^ 32 - 2 = sz + 2 ^ 32" by simp
    then have "(blksize div 20 + 2 ^ 32 - 2) mod 2 ^ 32 = sz mod 2 ^ 32" by (simp only: mod_add_self2)
    then show ?thesis using \<open>sz < 25000\<close> by simp
  qed
  let ?s0 = "set_dat 0 \<lparr>data16 = 0x8080, idx = 0\<rparr> (set_info 0 0 (set_nxt 0 None s))"
  obtain s1 where s1: "core_list_insert_new 0 \<lparr>data16 = 0xffff, idx = 0x7fff\<rparr> 1 1 sz sz ?s0 = (Some 1, 2, 2, s1)"
    "built seed s1 2" "reheaped s s1"
    using built_start [OF assms(1), of s] by blast
  obtain s2 where s2: "insert_loop sz 0 seed sz (2, 2) s1 = s2" "built seed s2 (sz - 1)" "reheaped s1 s2"
    using insert_loop_built [OF s1(2), of sz 0 sz] assms(1) by auto
  obtain s3 where s3: "index_loop fuel seed sz 1 (nxt s2 0) s2 = Inr s3" "numbered s3 seed sz" "reheaped s2 s3"
    using index_built [OF s2(2) assms(1,4)] by blast
  let ?ns = "0 # rev [1..<sz - 1]"
  have link: "linked (nxt s3) (Some 0) ?ns" and items: "map (item s3) ?ns = init_items seed sz"
    and reg: "\<forall>n < sz - 1. regenerated s3 (info s3 n)"
    using s3(2) by (simp_all add: numbered_def)
  have keys: "map (\<lambda>n. idx (item s3 n)) ?ns = init_keys seed sz"
    using arg_cong [OF items, of "map idx"] by (simp only: map_map o_def init_items_keys)
  have len: "length ?ns = sz - 1" "distinct ?ns" using assms(1) by simp_all
  then have "2 \<le> length ?ns" "length ?ns < fuel" using assms(1,4) by auto
  then obtain s4 ms where m: "ms = sort_key (\<lambda>n. sint (idx (item s3 n))) ?ns"
    "core_list_mergesort fuel (cmp_idx True) (Some 0) s3 = Inr (first ms, s4)" "linked (nxt s4) (first ms) ms"
    "\<exists>f g. s4 = s3\<lparr>nxt := f, dat := g\<rparr>" "same_items s3 s4" "\<forall>n \<in> set ?ns. regenerated s4 (info s3 n)"
    using mergesort_idx_run [OF link len(2), of fuel] by auto
  have inf: "info s4 = info s3" using m(4) by auto
  then have idx: "(\<lambda>n. idx (item s4 n)) = (\<lambda>n. idx (item s3 n))"
    using m(5) by (auto simp: item_def same_items_def)
  have nonneg: "0 \<le> sint (idx (item s3 n))" if "n \<in> set ?ns" for n
  proof -
    have "idx (item s3 n) \<in> set (init_keys seed sz)"
      using that arg_cong [OF keys, of set] by auto
    moreover have "sz \<le> 32768" using assms(2,3) by simp
    ultimately show ?thesis by (auto simp: init_keys_def intro!: init_idx_nonneg)
  qed
  have h0: "idx (item s3 0) = 0" using keys by (simp add: init_keys_def)
  have "ms = 0 # sort_key (\<lambda>n. sint (idx (item s3 n))) (rev [1..<sz - 1])"
    unfolding m(1) using nonneg h0 by (simp add: insort_is_Cons)
  then have f0: "first ms = Some 0" by simp
  have mm: "mset ms = mset [0..<sz - 1]"
    using m(1) assms(1) upt_conv_Cons [of 0 "sz - 1"] by simp
  have sms: "set ms = set ?ns" using m(1) by (simp only: set_sort)
  have "item s4 n = item s3 n" if "n \<in> set ms" for n
  proof -
    have "n < sz - 1" using that sms assms(1) by auto
    then have "regenerated s3 (info s3 n)" "regenerated s4 (info s3 n)" using reg m(6) that sms by blast+
    then show ?thesis using regen_item_eq [OF m(5)] inf by (simp add: item_def)
  qed
  then have "map (item s4) ms = map (item s3) ms" by simp
  also have "\<dots> = sort_key (\<lambda>v. sint (idx v)) (init_items seed sz)"
    unfolding m(1) by (subst items [symmetric], rule map_sort_key)
  finally have "map (item s4) ms = sort_key (\<lambda>v. sint (idx v)) (init_items seed sz)" .
  moreover have "sorted (map (\<lambda>n. sint (idx (item s4 n))) ms)"
    using m(1) idx by (metis (no_types, lifting) map_eq_conv sorted_sort_key)
  moreover have "\<forall>n \<in> set ms. regenerated s4 (info s4 n)" using m(6) inf sms by simp
  moreover have "reheaped s s4"
  proof -
    have "reheaped s3 s4"
    proof -
      obtain f g where "s4 = s3\<lparr>nxt := f, dat := g\<rparr>" using m(4) by blast
      then have "s4 = s3\<lparr>nxt := f, info := info s3, dat := g\<rparr>" by simp
      then show ?thesis unfolding reheaped_def by blast
    qed
    then show ?thesis using s1(3) s2(3) s3(3) reheaped_trans by blast
  qed
  moreover have "core_list_init fuel blksize seed s = Inr (Some 0, s4)"
    using s1(1) s2(1) s3(1) m(2) f0 size by (simp add: core_list_init_def Let_def)
  ultimately show ?thesis using m(3) f0 mm by metis
qed

text \<open>
  C26: The initialisation of the list uses all cells of its share but the last, each with its own
  data item; it returns the header, followed by all other cells in the order of their indices.  The
  items are those of the formulas for the data and the numbers, with the fixed ones of the header
  and of the last cell, sorted by index, and no field outside the heap is changed.
\<close>

theorem core_list_init_sorted:
  assumes "4 \<le> sz" "sz = blksize div 20 - 2" "blksize < 500000" "sz \<le> fuel"
  shows "\<exists>s' ns. core_list_init fuel blksize seed s = Inr (Some 0, s') \<and> linked (nxt s') (Some 0) ns \<and>
    mset ns = mset [0..<sz - 1] \<and> sorted (map (\<lambda>n. sint (idx (item s' n))) ns) \<and>
    map (item s') ns = sort_key (\<lambda>v. sint (idx v)) (init_items seed sz) \<and>
    (\<forall>n \<in> set ns. regenerated s' (info s' n)) \<and> reheaped s s'"
  by (rule core_list_init_run [OF assms])

lemma init_666: "(4 :: nat) \<le> 31" "(31 :: nat) = 666 div 20 - 2" "(666 :: nat) < 500000" "31 - 1 = (30 :: nat)"
  by simp_all

lemma core_list_init_sorted_witness:
  "\<forall>s. \<exists>s' ns. core_list_init 31 666 0 s = Inr (Some 0, s') \<and> linked (nxt s') (Some 0) ns \<and>
     mset ns = mset [0..<30] \<and> sorted (map (\<lambda>n. sint (idx (item s' n))) ns)"
proof
  fix s
  show "\<exists>s' ns. core_list_init 31 666 0 s = Inr (Some 0, s') \<and> linked (nxt s') (Some 0) ns \<and>
     mset ns = mset [0..<30] \<and> sorted (map (\<lambda>n. sint (idx (item s' n))) ns)"
    using core_list_init_sorted [OF init_666(1-3) order_refl, of 0 s] unfolding init_666(4) by blast
qed

section \<open>Initialisation of all data\<close>

lemma sorted_strict:
  "sorted (map f xs) \<Longrightarrow> inj_on f (set xs) \<Longrightarrow> distinct xs \<Longrightarrow> sorted_wrt (<) (map f xs)"
  by (simp add: strict_sorted_iff distinct_map)

lemma init_list_wf:
  assumes "4 \<le> sz" "sz = blksize div 20 - 2" "blksize < 500000" "sz \<le> fuel" "distinct (init_keys seed sz)"
  shows "\<exists>s' ns. core_list_init fuel blksize seed s = Inr (Some 0, s') \<and>
    list_wf (s'\<lparr>res_list := Some 0\<rparr>) ns \<and> length ns = sz - 1 \<and>
    map (item s') ns = sort_key (\<lambda>v. sint (idx v)) (init_items seed sz) \<and> reheaped s s'"
proof -
  obtain s' ns where i: "core_list_init fuel blksize seed s = Inr (Some 0, s')" "linked (nxt s') (Some 0) ns"
    "mset ns = mset [0..<sz - 1]" "sorted (map (\<lambda>n. sint (idx (item s' n))) ns)"
    "map (item s') ns = sort_key (\<lambda>v. sint (idx v)) (init_items seed sz)"
    "\<forall>n \<in> set ns. regenerated s' (info s' n)" "reheaped s s'"
    using core_list_init_run [OF assms(1-4)] by blast
  have "mset (map idx (map (item s') ns)) = mset (init_keys seed sz)"
    unfolding i(5) by (simp only: mset_map mset_sort init_items_keys [symmetric])
  then have "distinct (map (\<lambda>n. idx (item s' n)) ns)"
    using assms(5) by (metis (no_types, lifting) map_map mset_eq_imp_distinct_iff o_apply map_eq_conv)
  then have "distinct ns" "inj_on (\<lambda>n. idx (item s' n)) (set ns)" by (simp_all add: distinct_map)
  then have "inj_on (\<lambda>n. sint (idx (item s' n))) (set ns)"
    by (auto simp: inj_on_def dest!: signed_word_eqI)
  then have "sorted_wrt (<) (map (\<lambda>n. sint (idx (item s' n))) ns)"
    using sorted_strict [OF i(4)] \<open>distinct ns\<close> by simp
  moreover have "length ns = sz - 1" using mset_eq_length [OF i(3)] by simp
  ultimately have "list_wf (s'\<lparr>res_list := Some 0\<rparr>) ns"
    using i(2,6) \<open>distinct ns\<close> assms(1) by (simp add: list_wf_def item_def regenerated_def)
  then show ?thesis using i(1,5,7) \<open>length ns = sz - 1\<close> by blast
qed

lemma list_wf_other [simp]:
  "list_wf (s\<lparr>res_mat := m\<rparr>) ns = list_wf s ns" "list_wf (s\<lparr>res_text := t\<rparr>) ns = list_wf s ns"
  "list_wf (s\<lparr>res_iterations := n\<rparr>) ns = list_wf s ns"
  by (simp_all add: list_wf_def item_def regenerated_def)

definition old_sized :: "old_memory \<Rightarrow> bool" where
  "old_sized old \<longleftrightarrow> (\<forall>n. length (old_text old n) = n \<and> length (old_A old n) = n \<and>
     length (old_B old n) = n \<and> length (old_C old n) = n)"

lemma call_inits_run:
  assumes "res_execs s = 7" "120 \<le> res_size s" "res_size s \<le> 2 ^ 18" "25000 \<le> fuel" "old_sized old"
    "distinct (init_keys (res_seed1 s) (res_size s div 20 - 2))"
  shows "\<exists>s' ns. call_inits fuel base old s = Inr s' \<and> list_wf s' ns \<and> calc_ready s' \<and>
    length ns = res_size s div 20 - 3 \<and> res_seed1 s' = res_seed1 s \<and> res_seed2 s' = res_seed2 s \<and>
    res_seed3 s' = res_seed3 s \<and> res_size s' = res_size s \<and> res_execs s' = res_execs s \<and>
    res_iterations s' = res_iterations s \<and> core_init_state (res_size s) (res_seed1 s) (old_text old (res_size s)) = Inr (res_text s') \<and>
    map (item s') ns = sort_key (\<lambda>v. sint (idx v)) (init_items (res_seed1 s) (res_size s div 20 - 2)) \<and>
    core_init_matrix fuel (res_size s) (base + memblock_offset (res_execs s) (res_size s) 1)
      (scast (res_seed1 s) OR push_bit 16 (scast (res_seed2 s))) (old_A old) (old_B old) (old_C old) = Inr (res_mat s')"
proof -
  let ?sz = "res_size s div 20 - 2" and ?n = "res_size s"
  have sel: "res_execs s AND ID_LIST \<noteq> 0" "res_execs s AND ID_MATRIX \<noteq> 0" "res_execs s AND ID_STATE \<noteq> 0"
    using assms(1) by (simp_all add: ID_LIST_def ID_MATRIX_def ID_STATE_def)
  have len: "length (old_text old n) = n" "length (old_A old n) = n" "length (old_B old n) = n"
    "length (old_C old n) = n" for n
    using assms(5) by (auto simp: old_sized_def)
  have "?n div 20 \<le> 500000 div 20" using assms(3) by (intro div_le_mono) simp
  then have bounds: "4 \<le> ?sz" "?sz \<le> fuel" using div_le_mono [OF assms(2), of 20] assms(4) by simp_all
  obtain s1 ns where s1: "core_list_init fuel ?n (res_seed1 s) s = Inr (Some 0, s1)"
    "list_wf (s1\<lparr>res_list := Some 0\<rparr>) ns" "length ns = ?sz - 1" "reheaped s s1"
    "map (item s1) ns = sort_key (\<lambda>v. sint (idx v)) (init_items (res_seed1 s) ?sz)"
    using init_list_wf [of ?sz ?n fuel "res_seed1 s" s] bounds assms(3,6) by auto
  have f: "res_seed1 s1 = res_seed1 s" "res_seed2 s1 = res_seed2 s" "res_seed3 s1 = res_seed3 s"
    "res_size s1 = ?n" "res_execs s1 = res_execs s" "res_iterations s1 = res_iterations s"
    using s1(4) by (auto simp: reheaped_def)
  have "0 < ?n" "?n \<le> 2 ^ 18" "16385 \<le> fuel" using assms(2-4) by simp_all
  then obtain p where p: "core_init_matrix fuel ?n (base + memblock_offset (res_execs s) ?n 1)
      (scast (res_seed1 s) OR push_bit 16 (scast (res_seed2 s))) (old_A old) (old_B old) (old_C old) = Inr p"
    "length (matA p) = matN p * matN p" "length (matB p) = matN p * matN p" "length (matC p) = matN p * matN p"
    using core_init_matrix_total [of ?n fuel "old_A old" "old_B old" "old_C old"
        "base + memblock_offset (res_execs s) ?n 1" "scast (res_seed1 s) OR push_bit 16 (scast (res_seed2 s))"] len
    by blast
  obtain toks where t: "core_init_state ?n (res_seed1 s) (old_text old ?n)
      = Inr (text_of toks @ replicate (?n - length (text_of toks)) 0 @ drop ?n (old_text old ?n))"
    using core_init_state_fills [of ?n "old_text old ?n" "res_seed1 s"] len assms(2,3) by auto
  then obtain m where m: "core_init_state ?n (res_seed1 s) (old_text old ?n) = Inr m" by blast
  have "safe_text 0 ?n m"
    by (rule init_safe_text [OF _ _ _ run_seeds_repair(1) m]) (use len assms(2,3) in auto)
  then obtain z where "z < ?n" "m ! z = 0" "\<not> 17 dvd z" "?n \<le> length m"
    using safe_text_zero [of 0 ?n m 17] by (auto simp: safe_text_def)
  then have "calc_ready (s1\<lparr>res_list := Some 0, res_mat := p, res_text := m\<rparr>)"
    using p f(4) by (auto simp: calc_ready_def intro: less_le_trans)
  moreover have "call_inits fuel base old s = Inr (s1\<lparr>res_list := Some 0, res_mat := p, res_text := m\<rparr>)"
    using sel s1(1) p(1) m f by (simp add: call_inits_def)
  moreover have "item (s1\<lparr>res_list := Some 0, res_mat := p, res_text := m\<rparr>) = item s1" by (simp add: item_def fun_eq_iff)
  ultimately show ?thesis
    using s1(2,3,5) f m p(1)
    by (intro exI [of _ "s1\<lparr>res_list := Some 0, res_mat := p, res_text := m\<rparr>"] exI [of _ ns]) auto
qed

definition run_seed :: "run_type \<Rightarrow> u16" where
  "run_seed run = (case run of VALIDATION_RUN \<Rightarrow> 0x3415 | PERFORMANCE_RUN \<Rightarrow> 0 | PROFILE_RUN \<Rightarrow> 8)"

definition run_seed3 :: "run_type \<Rightarrow> u16" where
  "run_seed3 run = (case run of PROFILE_RUN \<Rightarrow> 8 | _ \<Rightarrow> 0x66)"

definition run_known :: "run_type \<Rightarrow> nat option" where
  "run_known run = (case run of VALIDATION_RUN \<Rightarrow> Some 4 | PERFORMANCE_RUN \<Rightarrow> Some 3 | PROFILE_RUN \<Rightarrow> None)"

lemma run_known_crc:
  "known_id (crc16 666 (crc16 (run_seed3 run) (crc16 (run_seed run) (crc16 (run_seed run) 0)))) = run_known run"
  by (cases run) (simp_all add: run_known_def run_seed_def run_seed3_def crc_eval known_id_def)

lemma run_keys_distinct: "distinct (init_keys (run_seed run) 31)"
proof -
  have "distinct (init_keys 0x3415 31)" "distinct (init_keys 0 31)" "distinct (init_keys 8 31)"
    by (simp_all add: init_keys_def init_idx_def Let_def upt_rec)
  then show ?thesis by (cases run) (simp_all add: run_seed_def)
qed

text \<open>Other seeds repeat an index: with the first seed 7 a second cell has the index 0 of the header.\<close>

lemma seed_seven_repeats_index: "\<not> distinct (init_keys 7 31)"
  by (simp add: init_keys_def init_idx_def Let_def upt_rec)

lemma read_run_seeds:
  "res_seed1 (read_seeds (seed_volatile run it) s) = run_seed run"
  "res_seed2 (read_seeds (seed_volatile run it) s) = run_seed run"
  "res_seed3 (read_seeds (seed_volatile run it) s) = run_seed3 run"
  "res_execs (read_seeds (seed_volatile run it) s) = 7"
  "res_iterations (read_seeds (seed_volatile run it) s) = unat it"
  by (cases run; simp add: read_seeds_def seed_volatile_def get_seed_32_def run_seed_def
      run_seed3_def Let_def
      ID_LIST_def ID_MATRIX_def ID_STATE_def)+

lemma run_seed3_pos: "0 < sint (run_seed3 run)"
  by (cases run) (simp_all add: run_seed3_def)

lemma share_all: "share_size 7 TOTAL_DATA_SIZE = Inr 666"
  by (simp add: share_size_def selected_def TOTAL_DATA_SIZE_def upt_rec)

lemma check_results_err: "\<exists>e. check_results k s = s\<lparr>res_err := e\<rparr>"
  by (auto simp: check_results_def Let_def)

lemma res_err_other [simp]:
  "list_wf (s\<lparr>res_err := e\<rparr>) ns = list_wf s ns" "calc_ready (s\<lparr>res_err := e\<rparr>) = calc_ready s"
  by (simp_all add: list_wf_def item_def regenerated_def calc_ready_def)

section \<open>Calibration\<close>

text \<open>The same run but for the number of iterations.\<close>

definition same_run :: "core_results \<Rightarrow> core_results \<Rightarrow> bool" where
  "same_run s s' \<longleftrightarrow> same_inputs s (s'\<lparr>res_iterations := res_iterations s\<rparr>)"

lemma same_run_trans: "same_run s s' \<Longrightarrow> same_run s' s'' \<Longrightarrow> same_run s s''"
  by (simp add: same_run_def same_inputs_def repairable_def)

lemma same_run_iterations [simp]:
  "same_run s (s\<lparr>res_iterations := n\<rparr>)" "same_run s (s'\<lparr>res_iterations := n\<rparr>) = same_run s s'"
  by (simp_all add: same_run_def same_inputs_def)

lemma same_inputs_run: "same_inputs s s' \<Longrightarrow> same_run s s'"
  by (simp add: same_run_def same_inputs_def)

lemma calc_ready_iterations [simp]: "calc_ready (s\<lparr>res_iterations := n\<rparr>) = calc_ready s"
  by (simp add: calc_ready_def)

lemma find_iterations_enough: "1 \<le> secs \<Longrightarrow> find_iterations fuel secs ms s = Inr (secs, s)"
  by (cases ms) simp_all

lemma find_iterations_steps:
  "list_wf s ns \<Longrightarrow> calc_ready s \<Longrightarrow> length ns < fuel \<Longrightarrow> 0 < sint (res_seed3 s) \<Longrightarrow>
     \<forall>m \<in> set ms. secs_between m = 0 \<Longrightarrow> 1 \<le> secs_between m \<Longrightarrow>
     \<exists>s'. find_iterations fuel 0 (ms @ m # rest) s = Inr (secs_between m, s') \<and> list_wf s' ns \<and>
       calc_ready s' \<and> same_run s s' \<and> res_iterations s' = res_iterations s * 10 ^ (length ms + 1) mod 2 ^ 32"
proof (induction ms arbitrary: s)
  case Nil
  let ?s = "s\<lparr>res_iterations := (res_iterations s * 10) mod 2 ^ 32\<rparr>"
  obtain s' where s': "iterate fuel ?s = Inr s'" "list_wf s' ns" "calc_ready s'" "same_inputs ?s s'"
    using iterate_run [of ?s ns fuel] Nil.prems by auto
  have "same_run s s'" using same_run_trans [OF _ same_inputs_run [OF s'(4)], of s] by simp
  then show ?case using s' Nil.prems(6) by (simp add: find_iterations_enough same_inputs_def)
next
  case (Cons x xs)
  let ?s = "s\<lparr>res_iterations := (res_iterations s * 10) mod 2 ^ 32\<rparr>"
  obtain s1 where s1: "iterate fuel ?s = Inr s1" "list_wf s1 ns" "calc_ready s1" "same_inputs ?s s1"
    using iterate_run [of ?s ns fuel] Cons.prems by auto
  have r: "same_run s s1" using same_run_trans [OF _ same_inputs_run [OF s1(4)], of s] by simp
  have "0 < sint (res_seed3 s1)" "res_iterations s1 = (res_iterations s * 10) mod 2 ^ 32"
    using s1(4) Cons.prems(4) by (simp_all add: same_inputs_def)
  then obtain s' where s': "find_iterations fuel 0 (xs @ m # rest) s1 = Inr (secs_between m, s')" "list_wf s' ns"
    "calc_ready s'" "same_run s1 s'" "res_iterations s' = (res_iterations s * 10) mod 2 ^ 32 * 10 ^ (length xs + 1) mod 2 ^ 32"
    using Cons.IH [OF s1(2,3) Cons.prems(3)] Cons.prems(5,6) by auto
  then show ?case
    using s1(1) same_run_trans [OF r s'(4)] Cons.prems(5) by (simp add: mod_mult_left_eq mult.assoc)
qed

lemma set_iterations_calibrated:
  assumes "list_wf s ns" "calc_ready s" "length ns < fuel" "0 < sint (res_seed3 s)" "res_iterations s = 0"
    "\<forall>m \<in> set ms. secs_between m = 0" "1 \<le> secs_between m"
  shows "\<exists>s'. set_iterations fuel (ms @ m # rest) s = Inr s' \<and> list_wf s' ns \<and> calc_ready s' \<and> same_run s s' \<and>
    res_iterations s' = 10 ^ (length ms + 1) mod 2 ^ 32 * (1 + 10 div secs_between m) mod 2 ^ 32"
proof -
  let ?s = "s\<lparr>res_iterations := 1\<rparr>"
  obtain s' where s': "find_iterations fuel 0 (ms @ m # rest) ?s = Inr (secs_between m, s')" "list_wf s' ns"
    "calc_ready s'" "same_run ?s s'" "res_iterations s' = 10 ^ (length ms + 1) mod 2 ^ 32"
    using find_iterations_steps [of ?s ns fuel ms m rest] assms by auto
  have "same_run s s'" using same_run_trans [OF _ s'(4), of s] by simp
  then show ?thesis
    using s' assms(5,7) by (intro exI [of _ "s'\<lparr>res_iterations := 10 ^ (length ms + 1) mod 2 ^ 32 *
      (1 + 10 div secs_between m) mod 2 ^ 32\<rparr>"]) (simp add: set_iterations_def Let_def)
qed

lemma set_iterations_run:
  assumes "list_wf s ns" "calc_ready s" "length ns < fuel" "0 < sint (res_seed3 s)"
    "res_iterations s \<noteq> 0 \<or> (\<exists>m \<in> set ms. 1 \<le> secs_between m)"
  shows "\<exists>s'. set_iterations fuel ms s = Inr s' \<and> list_wf s' ns \<and> calc_ready s' \<and> same_run s s'"
proof (cases "res_iterations s = 0")
  case True
  then have "\<exists>m \<in> set ms. 1 \<le> secs_between m" using assms(5) by simp
  then obtain as m bs where "ms = as @ m # bs" "1 \<le> secs_between m" "\<forall>x \<in> set as. \<not> 1 \<le> secs_between x"
    by (elim split_list_first_propE) auto
  then have "\<forall>x \<in> set as. secs_between x = 0" by auto
  then show ?thesis
    using set_iterations_calibrated [OF assms(1-4) True _ \<open>1 \<le> secs_between m\<close>, of as bs] \<open>ms = as @ m # bs\<close>
    by blast
next
  case False
  have "same_run s s" by (simp add: same_run_def same_inputs_refl)
  then show ?thesis using assms(1,2) False by (simp add: set_iterations_def)
qed

text \<open>
  C36: Without a given number of iterations the calibration multiplies it by ten, modulo \<open>2 ^ 32\<close>, until
  the clock shows a second, and then takes that number times a factor by which the measured time
  grows to more than 10 seconds, but not to more than 10 seconds beyond itself; the data of the
  benchmark are not touched.
\<close>

theorem set_iterations_ten_seconds:
  assumes "list_wf s ns" "calc_ready s" "length ns < fuel" "0 < sint (res_seed3 s)" "res_iterations s = 0"
    "\<forall>m \<in> set ms. secs_between m = 0" "1 \<le> secs_between m"
  shows "\<exists>s' f. set_iterations fuel (ms @ m # rest) s = Inr s' \<and> list_wf s' ns \<and> calc_ready s' \<and> same_run s s' \<and>
    res_iterations s' = 10 ^ (length ms + 1) mod 2 ^ 32 * f mod 2 ^ 32 \<and>
    10 < secs_between m * f \<and> secs_between m * f \<le> secs_between m + 10"
proof -
  let ?t = "secs_between m"
  have "?t * (10 div ?t) + 10 mod ?t = 10" "10 mod ?t < ?t" using assms(7) by simp_all
  then have "10 < ?t * (1 + 10 div ?t)" "?t * (1 + 10 div ?t) \<le> ?t + 10"
    by (simp_all only: distrib_left mult_1_right)
  then show ?thesis
    using set_iterations_calibrated [OF assms, of rest] by blast
qed

text \<open>Two short runs, then one of three seconds.\<close>

lemma set_iterations_ten_seconds_witness:
  "\<exists>s'. set_iterations 9 [((0, 0, 0), (0, 0, 7)), ((0, 0, 7), (0, 0, 9)), ((0, 0, 0), (0, 0, 187500000))]
     (small_heap [0, 1, 2]\<lparr>res_iterations := 0\<rparr>) = Inr s' \<and> res_iterations s' = 4000 \<and> list_wf s' [0, 1, 2]"
proof -
  let ?a = "[((0, 0, 0), (0, 0, 7)), ((0, 0, 7), (0, 0, 9))] :: timing list"
  let ?m = "((0, 0, 0), (0, 0, 187500000)) :: timing" and ?s = "small_heap [0, 1, 2]\<lparr>res_iterations := 0\<rparr>"
  have secs: "\<forall>m \<in> set ?a. secs_between m = 0" "secs_between ?m = 3"
    by (simp_all add: secs_between_def measured_secs_def start_time_def stop_time_def get_time_def
        timer_ticks_def unat_time_in_secs)
  have "list_wf ?s [0, 1, 2]" "calc_ready ?s" "0 < sint (res_seed3 ?s)"
    using small_heap_wf small_heap_ready small_heap_seed3 [of "[0, 1, 2]"] by simp_all
  then obtain s' f where "set_iterations 9 (?a @ [?m]) ?s = Inr s'" "list_wf s' [0, 1, 2]"
    "res_iterations s' = 1000 * f mod 2 ^ 32" "10 < 3 * f" "3 * f \<le> 13"
    using set_iterations_ten_seconds [of ?s "[0, 1, 2]" 9 ?a ?m "[]"] secs by auto
  moreover from this(4,5) have "f = 4" by presburger
  ultimately show ?thesis by auto
qed

section \<open>A whole run\<close>

lemma coremark_main_run:
  assumes "it \<noteq> 0 \<or> (\<exists>m \<in> set secs. 1 \<le> secs_between m)" "25000 \<le> fuel" "old_sized old"
  shows "\<exists>v s' ns. coremark_main fuel (seed_volatile run it) base old sizes secs measured s = Inr (v, s') \<and>
    list_wf s' ns \<and> length ns = 30 \<and> calc_ready s' \<and> known_id (seed_crc s') = run_known run \<and>
    core_init_state 666 (run_seed run) (old_text old 666) = Inr (res_text s')"
proof -
  let ?r = "read_seeds (seed_volatile run it) s"
  let ?s0 = "?r\<lparr>res_size := 666, res_err := 0\<rparr>"
  note rs = read_run_seeds [of run it s]
  obtain s1 ns where s1: "call_inits fuel base old ?s0 = Inr s1" "list_wf s1 ns" "calc_ready s1"
    "length ns = 30" "res_seed1 s1 = run_seed run" "res_seed2 s1 = run_seed run"
    "res_seed3 s1 = res_seed3 ?r" "res_size s1 = 666" "res_iterations s1 = unat it"
    "core_init_state 666 (run_seed run) (old_text old 666) = Inr (res_text s1)"
    using call_inits_run [of ?s0 fuel old base] rs run_keys_distinct [of run] assms(2,3) by auto
  have len: "length ns < fuel" and seed3: "0 < sint (res_seed3 s1)"
    using s1(4,7) rs(3) run_seed3_pos assms(2) by simp_all
  have "res_iterations s1 \<noteq> 0 \<or> (\<exists>m \<in> set secs. 1 \<le> secs_between m)"
    using assms(1) s1(9) by (auto simp: unat_eq_0)
  then obtain s1' where it: "set_iterations fuel secs s1 = Inr s1'" "list_wf s1' ns" "calc_ready s1'" "same_run s1 s1'"
    using set_iterations_run [OF s1(2,3) len seed3] by blast
  have "0 < sint (res_seed3 s1')" using it(4) seed3 by (simp add: same_run_def same_inputs_def)
  then obtain s2 where s2: "iterate fuel s1' = Inr s2" "list_wf s2 ns" "calc_ready s2" "same_inputs s1' s2"
    using iterate_run [OF it(2,3) len] by blast
  have run: "same_run s1 s2" by (rule same_run_trans [OF it(4) same_inputs_run [OF s2(4)]])
  have "length (old_text old 666) = 666" using assms(3) by (simp add: old_sized_def)
  moreover have "repairing_seed (run_seed run)" using run_seeds_repair by (cases run) (simp_all add: run_seed_def)
  ultimately have "safe_text (run_seed run) 666 (res_text s1)"
    using init_safe_text [OF _ _ _ _ s1(10)] by simp
  then have "repairable s1" using s1(5,6,8) by (simp add: repairable_def)
  then have keep: "res_text s2 = res_text s1" and seeds: "res_seed1 s2 = run_seed run"
    "res_seed2 s2 = run_seed run" "res_seed3 s2 = run_seed3 run" "res_size s2 = 666"
    using run s1(5-8) rs(3) by (simp_all add: same_run_def same_inputs_def)
  have "known_id (seed_crc s2) = run_known run"
    using run_known_crc [of run] seeds by (simp add: seed_crc_def)
  then have known: "known_id (seed_crc (s2\<lparr>res_err := e\<rparr>)) = run_known run" for e
    by (simp add: seed_crc_def)
  obtain e where e: "(case known_id (seed_crc s2) of None \<Rightarrow> s2 | Some k \<Rightarrow> check_results k s2) = s2\<lparr>res_err := e\<rparr>"
  proof (cases "known_id (seed_crc s2)")
    case None
    then show ?thesis using that [of "res_err s2"] by simp
  next
    case (Some k)
    then show ?thesis using that check_results_err [of k s2] by auto
  qed
  have "\<exists>v. coremark_main fuel (seed_volatile run it) base old sizes secs measured s = Inr (v, s2\<lparr>res_err := e\<rparr>)"
    using rs(4) share_all s1(1) it(1) s2(1) e
    by (auto simp: coremark_main_def report_def Let_def split: option.splits)
  then obtain v where "coremark_main fuel (seed_volatile run it) base old sizes secs measured s = Inr (v, s2\<lparr>res_err := e\<rparr>)" ..
  then show ?thesis
    using s2(2,3) s1(4,10) keep known by (intro exI [of _ v] exI [of _ "s2\<lparr>res_err := e\<rparr>"] exI [of _ ns]) simp
qed

text \<open>
  C9: With the seeds of each of the three kinds of run, the whole program returns, with a verdict
  and without a fault: it reads the seeds, initialises a list of 30 cells, the matrices and the
  text, finds the number of iterations if none is given and the clock advances, and iterates.  At
  the end the list is well-formed and sorted by index as at the start, the text is that of the
  initialisation, and the checksum of the seeds is in the table for the performance and the
  validation run.
\<close>

theorem coremark_runs:
  assumes "it \<noteq> 0 \<or> (\<exists>m \<in> set secs. 1 \<le> secs_between m)" "25000 \<le> fuel" "old_sized old"
  shows "\<exists>v s' ns. coremark_main fuel (seed_volatile run it) base old sizes secs measured s = Inr (v, s') \<and>
    list_wf s' ns \<and> length ns = 30 \<and> calc_ready s' \<and> known_id (seed_crc s') = run_known run \<and>
    core_init_state 666 (run_seed run) (old_text old 666) = Inr (res_text s')"
  using coremark_main_run [OF assms] by blast

definition zero_memory :: old_memory where
  "zero_memory = \<lparr>old_text = \<lambda>n. replicate n 0, old_A = \<lambda>n. replicate n 0,
                  old_B = \<lambda>n. replicate n 0, old_C = \<lambda>n. replicate n 0\<rparr>"

lemma zero_memory_sized: "old_sized zero_memory"
  by (simp add: zero_memory_def old_sized_def)

lemma coremark_runs_witness:
  "\<forall>s. \<exists>v s' ns. coremark_main 25000 (seed_volatile PERFORMANCE_RUN 400) 0 zero_memory rv32_sizes []
     ((0, 0, 0), (0, 0, 1000000000)) s = Inr (v, s') \<and> list_wf s' ns \<and> length ns = 30" (is "\<forall>s. ?P s")
proof
  fix s
  have "(400 :: u32) \<noteq> 0 \<or> (\<exists>m \<in> set []. 1 \<le> secs_between m)" "(25000 :: nat) \<le> 25000" by simp_all
  then show "?P s"
    using coremark_runs [of 400 "[]" 25000 zero_memory PERFORMANCE_RUN 0 rv32_sizes "((0, 0, 0), (0, 0, 1000000000))" s]
      zero_memory_sized by blast
qed

text \<open>The verdict from the results of a run that returned.\<close>

definition crcs_match :: "nat \<Rightarrow> core_results \<Rightarrow> bool" where
  "crcs_match k s \<longleftrightarrow> (res_execs s AND ID_LIST \<noteq> 0 \<longrightarrow> res_crclist s = list_known_crc ! k) \<and>
     (res_execs s AND ID_MATRIX \<noteq> 0 \<longrightarrow> res_crcmatrix s = matrix_known_crc ! k) \<and>
     (res_execs s AND ID_STATE \<noteq> 0 \<longrightarrow> res_crcstate s = state_known_crc ! k)"

definition wrong_crcs :: "nat \<Rightarrow> core_results \<Rightarrow> nat" where
  "wrong_crcs k s = of_bool (res_execs s AND ID_LIST \<noteq> 0 \<and> res_crclist s \<noteq> list_known_crc ! k) +
     of_bool (res_execs s AND ID_MATRIX \<noteq> 0 \<and> res_crcmatrix s \<noteq> matrix_known_crc ! k) +
     of_bool (res_execs s AND ID_STATE \<noteq> 0 \<and> res_crcstate s \<noteq> state_known_crc ! k)"

lemma wrong_crcs_0: "wrong_crcs k s = 0 \<longleftrightarrow> crcs_match k s"
  by (auto simp: wrong_crcs_def crcs_match_def)

lemma wrong_crcs_le: "wrong_crcs k s \<le> 3"
  by (simp add: wrong_crcs_def of_bool_def)

lemma count_if: "(if b then x + 1 else x) = x + (of_bool b :: 'a::len word)"
  by simp

lemma check_results_eq: "check_results k s = s\<lparr>res_err := of_nat (wrong_crcs k s)\<rparr>"
proof -
  have c: "(if b then t\<lparr>res_err := res_err t + 1\<rparr> else t) = t\<lparr>res_err := res_err t + of_bool b\<rparr>"
    for b and t :: core_results
    by simp
  show ?thesis by (simp add: check_results_def c wrong_crcs_def Let_def del: if_split)
qed

lemma check_results_fields:
  "seed_crc (check_results k s) = seed_crc s" "crcs_match j (check_results k s) = crcs_match j s"
  by (simp_all add: check_results_eq seed_crc_def crcs_match_def)

definition wrong_sizes :: "type_sizes \<Rightarrow> nat" where
  "wrong_sizes z = of_bool (sz_u8 z \<noteq> 1) + of_bool (sz_u16 z \<noteq> 2) + of_bool (sz_s16 z \<noteq> 2) +
     of_bool (sz_s32 z \<noteq> 4) + of_bool (sz_u32 z \<noteq> 4) + of_bool (sz_ptr_int z \<noteq> sz_ptr z)"

lemma check_data_types_count: "check_data_types z = of_nat (wrong_sizes z)"
  by (simp add: check_data_types_def wrong_sizes_def count_if Let_def del: if_split)

lemma wrong_sizes_le: "wrong_sizes z \<le> 6"
  by (simp add: wrong_sizes_def of_bool_def)

lemma small_count:
  assumes "e \<le> 10"
  shows "(of_nat e :: u16) = 0 \<longleftrightarrow> e = 0" "sint (of_nat e :: u16) = int e" "- 1 + (of_nat e :: u16) = 0 \<longleftrightarrow> e = 1"
    "sint (- 1 + (of_nat e :: u16)) = int e - 1"
proof -
  have "e \<in> set [0..<11]" using assms by simp
  then show "(of_nat e :: u16) = 0 \<longleftrightarrow> e = 0" "sint (of_nat e :: u16) = int e"
    "- 1 + (of_nat e :: u16) = 0 \<longleftrightarrow> e = 1" "sint (- 1 + (of_nat e :: u16)) = int e - 1"
    by (auto simp: upt_rec)
qed

text \<open>The number of problems found: wrong checksums, wrong types, a run that is too short.\<close>

definition problems :: "type_sizes \<Rightarrow> timing \<Rightarrow> nat" where
  "problems sizes measured = wrong_sizes sizes + of_bool (secs_between measured < 10)"

lemma problems_le: "problems sizes measured \<le> 7"
  using wrong_sizes_le [of sizes] by (simp add: problems_def of_bool_def)

lemma problems_word:
  "(let t = x + ucast (check_data_types sizes) in if secs_between measured < 10 then t + 1 else t)
     = (x + of_nat (problems sizes measured) :: u16)"
proof -
  have "(ucast (check_data_types sizes) :: u16) = of_nat (wrong_sizes sizes)"
  proof -
    have "wrong_sizes sizes \<in> set [0..<7]" using wrong_sizes_le [of sizes] by simp
    then show ?thesis unfolding check_data_types_count by (auto simp: upt_rec)
  qed
  then show ?thesis by (simp add: problems_def)
qed

lemma report_known:
  assumes "known_id (seed_crc s) = Some k"
  shows "fst (report sizes measured s) =
    (if wrong_crcs k s + problems sizes measured = 0 then Validated else ErrorsDetected)"
proof -
  have "wrong_crcs k s + problems sizes measured \<le> 10"
    using wrong_crcs_le [of k s] problems_le [of sizes measured] by simp
  then show ?thesis
    using assms small_count [of "wrong_crcs k s + problems sizes measured"] problems_word [of "of_nat (wrong_crcs k s)" sizes measured]
    by (simp add: report_def check_results_eq Let_def)
qed

lemma report_unknown:
  assumes "known_id (seed_crc s) = None"
  shows "fst (report sizes measured s) =
    (case problems sizes measured of 0 \<Rightarrow> CannotValidate | Suc 0 \<Rightarrow> Validated | Suc (Suc _) \<Rightarrow> ErrorsDetected)"
proof -
  have "problems sizes measured \<le> 10" using problems_le [of sizes measured] by simp
  then show ?thesis
    using assms small_count [of "problems sizes measured"] problems_word [of "- 1" sizes measured]
    by (auto simp: report_def Let_def split: nat.splits)
qed

lemma report_fields:
  "seed_crc (snd (report sizes measured s)) = seed_crc s"
  "crcs_match j (snd (report sizes measured s)) = crcs_match j s"
  by (simp_all add: report_def Let_def check_results_fields split: option.split)

lemma main_report:
  assumes "coremark_main fuel sv base old sizes secs measured s = Inr (v, s')"
  obtains t where "v = fst (report sizes measured t)" "seed_crc s' = seed_crc t" "crcs_match j s' = crcs_match j t"
proof -
  obtain t where "report sizes measured t = (v, s')"
    using assms by (auto simp: coremark_main_def Let_def bindE_Inr_iff)
  then show ?thesis
    using that [of t] by (metis report_fields fst_conv snd_conv)
qed

text \<open>
  C20: If the seeds of a run are in the table, the verdict is ``validated'' exactly when the
  checksums of the selected algorithms are those of the table, all six integer types have their
  sizes, and the clock shows at least 10 seconds; otherwise errors are reported.  The counter of
  errors, a signed 16-bit value, does not overflow.
\<close>

theorem main_verdict:
  assumes "coremark_main fuel sv base old sizes secs measured s = Inr (v, s')" "known_id (seed_crc s') = Some k"
  shows "v = (if crcs_match k s' \<and> wrong_sizes sizes = 0 \<and> 10 \<le> secs_between measured
              then Validated else ErrorsDetected)"
proof -
  obtain t where t: "v = fst (report sizes measured t)" "seed_crc s' = seed_crc t" "crcs_match k s' = crcs_match k t"
    by (rule main_report [OF assms(1), of k])
  have "wrong_crcs k t + problems sizes measured = 0 \<longleftrightarrow>
      crcs_match k s' \<and> wrong_sizes sizes = 0 \<and> 10 \<le> secs_between measured"
    using t(3) by (auto simp: wrong_crcs_0 problems_def)
  then show ?thesis using t(1,2) assms(2) report_known [of t k sizes measured] by simp
qed

text \<open>A run of nine seconds, with the seeds of a performance run.\<close>

lemma main_verdict_witness:
  "\<forall>s. \<exists>s'. coremark_main 25000 (seed_volatile PERFORMANCE_RUN 400) 0 zero_memory rv32_sizes []
     ((0, 0, 0), (0, 0, 562500000)) s = Inr (ErrorsDetected, s')" (is "\<forall>s. ?P s")
proof
  fix s
  let ?m = "((0, 0, 0), (0, 0, 562500000)) :: timing"
  obtain v s' where r: "coremark_main 25000 (seed_volatile PERFORMANCE_RUN 400) 0 zero_memory rv32_sizes [] ?m s = Inr (v, s')"
    "known_id (seed_crc s') = Some 3"
    using coremark_main_run [of 400 "[]" 25000 zero_memory PERFORMANCE_RUN 0 rv32_sizes ?m s] zero_memory_sized
    by (auto simp: run_known_def)
  have "secs_between ?m = 9"
    by (simp add: secs_between_def measured_secs_def start_time_def stop_time_def get_time_def timer_ticks_def unat_time_in_secs)
  then have "v = ErrorsDetected" using main_verdict [OF r] by simp
  then show "?P s" using r(1) by blast
qed

text \<open>
  C39: If the seeds are not in the table, nothing is compared and the program should say that it
  cannot validate.  It does when there is no other problem; but the counter of errors starts at
  \<open>- 1\<close>, so that exactly one other problem, such as a run that is too short, takes it to zero and the
  program reports ``correct operation validated''.
\<close>

theorem main_verdict_unknown:
  assumes "coremark_main fuel sv base old sizes secs measured s = Inr (v, s')" "known_id (seed_crc s') = None"
  shows "v = (case problems sizes measured of 0 \<Rightarrow> CannotValidate | Suc 0 \<Rightarrow> Validated | Suc (Suc _) \<Rightarrow> ErrorsDetected)"
proof -
  obtain t where "v = fst (report sizes measured t)" "seed_crc s' = seed_crc t"
    by (rule main_report [OF assms(1)])
  then show ?thesis using assms(2) report_unknown [of t sizes measured] by simp
qed

text \<open>The seeds of a profile run with the 666 bytes per algorithm of this port, for one second.\<close>

lemma main_verdict_unknown_witness:
  "\<forall>s. \<exists>s'. coremark_main 25000 (seed_volatile PROFILE_RUN 40) 0 zero_memory rv32_sizes []
     ((0, 0, 0), (0, 0, 62500000)) s = Inr (Validated, s') \<and> known_id (seed_crc s') = None" (is "\<forall>s. ?P s")
proof
  fix s
  let ?m = "((0, 0, 0), (0, 0, 62500000)) :: timing"
  obtain v s' where r: "coremark_main 25000 (seed_volatile PROFILE_RUN 40) 0 zero_memory rv32_sizes [] ?m s = Inr (v, s')"
    "known_id (seed_crc s') = None"
    using coremark_main_run [of 40 "[]" 25000 zero_memory PROFILE_RUN 0 rv32_sizes ?m s] zero_memory_sized
    by (auto simp: run_known_def)
  have "secs_between ?m = 1"
    by (simp add: secs_between_def measured_secs_def start_time_def stop_time_def get_time_def timer_ticks_def unat_time_in_secs)
  then have "problems rv32_sizes ?m = 1" by (simp add: problems_def wrong_sizes_def rv32_sizes_def)
  then have "v = Validated" using main_verdict_unknown [OF r] by simp
  then show "?P s" using r by blast
qed

text \<open>
  A mask of algorithms that selects none of the three, such as 8, divides the size of the block
  by zero before anything is initialised; only the mask zero is replaced by the default.
\<close>

theorem no_algorithm_divides_by_zero:
  assumes "sv 5 \<noteq> 0" "sv 5 AND 7 = 0"
  shows "coremark_main fuel sv base old sizes secs measured s = Inl DivByZero"
proof -
  have e: "res_execs (read_seeds sv s) = sv 5"
    using assms(1) by (simp add: read_seeds_def get_seed_32_def Let_def)
  have "\<not> bit (sv 5) i" if "i < 3" for i
  proof -
    have "bit (7 :: u32) i" using that by (auto simp: bit_numeral_rec less_Suc_eq numeral_3_eq_3)
    moreover have "\<not> bit (sv 5 AND 7) i" using assms(2) by simp
    ultimately show ?thesis by (simp add: bit_and_iff)
  qed
  then have "\<not> selected (sv 5) i" if "i < 3" for i
    using that bit_iff_and_push_bit_not_eq_0 [of "sv 5" i] by (simp add: selected_def and.commute)
  then have "share_size (sv 5) TOTAL_DATA_SIZE = Inl DivByZero"
    by (simp add: share_size_def filter_empty_conv)
  then show ?thesis by (simp add: coremark_main_def e Let_def)
qed

lemma no_algorithm_divides_by_zero_witness:
  "\<forall>s. coremark_main 1 (\<lambda>i. if i = 5 then 8 else 0) 0 zero_memory rv32_sizes [] ((0, 0, 0), (0, 0, 0)) s = Inl DivByZero"
  by (intro allI no_algorithm_divides_by_zero) simp_all

end
