(* ===== verification/CMFast.thy ===== *)
theory CMFast
  imports CMSpec CMMain
begin

text \<open>
  Two parts of a CoreMark run in a form that is quick to evaluate by rewriting, each proved equal to
  the model: the checksum of \<^verbatim>\<open>core_util.c\<close>, four bits at a time with a table, and the search loop of
  \<^verbatim>\<open>core_list_join.c\<close>, on positions in a fixed sequence of items.
\<close>

section \<open>The checksum by nibbles\<close>

text \<open>
  Adding a 16-bit value to the checksum is shifting their difference through the register; four
  bits at a time need a table of 16 entries.
\<close>

definition crc_nibble :: "u16 \<Rightarrow> u16" where
  "crc_nibble c = crc_bits [False, False, False, False] c"

definition shift_nibble :: "u16 \<Rightarrow> u16" where
  "shift_nibble c = drop_bit 4 c XOR crc_nibble (c AND 0xf)"

lemma crc_bits_xor: "crc_bits (replicate n False) (c XOR d) = crc_bits (replicate n False) c XOR crc_bits (replicate n False) d"
  using crc_bits_linear [of "replicate n False" "replicate n False" c d]
  by (simp add: map2_map_map [symmetric] zip_replicate)

lemma crc_nibble_shift: "crc_nibble c = shift_nibble c"
proof -
  let ?h = "c AND 0xfff0"
  have c: "(c AND 0xf) XOR ?h = c"
  proof (rule bit_word_eqI)
    fix n assume "n < LENGTH(16)"
    then have "n \<in> set [0..<16]" by simp
    then show "bit ((c AND 0xf) XOR ?h) n = bit c n" by (auto simp: bit_simps upt_rec bit_numeral_rec)
  qed
  have step: "crc_bit False d = drop_bit 1 d" if "\<not> bit d 0" for d :: u16
    using that by (simp add: crc_bit_def)
  have four: "drop_bit 1 (drop_bit 1 (drop_bit 1 (drop_bit 1 d))) = drop_bit 4 d" for d :: u16
    by (simp del: One_nat_def)
  have "crc_nibble ?h = drop_bit 1 (drop_bit 1 (drop_bit 1 (drop_bit 1 ?h)))"
    by (simp add: crc_nibble_def step bit_simps bit_numeral_rec)
  also have "\<dots> = drop_bit 4 ?h" by (rule four)
  also have "\<dots> = drop_bit 4 c"
  proof (rule bit_word_eqI)
    fix n assume "n < LENGTH(16)"
    then have "n \<in> set [0..<16]" by simp
    then show "bit (drop_bit 4 ?h) n = bit (drop_bit 4 c) n"
      by (auto simp: bit_simps upt_rec bit_numeral_rec dest: bit_imp_le_length)
  qed
  finally show ?thesis
    using crc_bits_xor [of 4 "c AND 0xf" ?h] c
    by (simp add: shift_nibble_def crc_nibble_def numeral_eq_Suc xor.commute)
qed

lemma crcu16_nibbles: "crcu16 v c = shift_nibble (shift_nibble (shift_nibble (shift_nibble (c XOR v))))"
proof -
  have "crcu16 v c = crcu16 (v XOR 0) (v XOR (c XOR v))" by (simp add: xor.left_commute)
  also have "\<dots> = crcu16 v v XOR crcu16 0 (c XOR v)" by (rule crcu16_linear)
  also have "crcu16 v v = 0" by (simp add: crcu16_zero)
  also have "crcu16 0 (c XOR v) = crc_bits (replicate 16 False) (c XOR v)"
  proof -
    have "word_bits (0 :: u16) = replicate 16 False" by (rule nth_equalityI) (simp_all add: word_bits_def)
    then show ?thesis by (simp only: crcu16_bits)
  qed
  also have "replicate 16 False = [False, False, False, False] @ [False, False, False, False] @
      [False, False, False, False] @ [False, False, False, False]" by (simp add: numeral_eq_Suc)
  finally have "crcu16 v c = 0 XOR crc_nibble (crc_nibble (crc_nibble (crc_nibble (c XOR v))))"
    by (simp only: crc_bits_append crc_nibble_def)
  then show ?thesis by (simp add: crc_nibble_shift)
qed

lemma crc_nibble_table:
  "crc_nibble 0 = 0" "crc_nibble 1 = 0xcc01" "crc_nibble 2 = 0xd801" "crc_nibble 3 = 0x1400"
  "crc_nibble 4 = 0xf001" "crc_nibble 5 = 0x3c00" "crc_nibble 6 = 0x2800" "crc_nibble 7 = 0xe401"
  "crc_nibble 8 = 0xa001" "crc_nibble 9 = 0x6c00" "crc_nibble 10 = 0x7800" "crc_nibble 11 = 0xb401"
  "crc_nibble 12 = 0x5000" "crc_nibble 13 = 0x9c01" "crc_nibble 14 = 0x8801" "crc_nibble 15 = 0x4400"
  by (simp_all add: crc_nibble_def crc_bit_def bit_numeral_rec)

lemmas crc_fast = crc16_def crcu16_nibbles shift_nibble_def crc_nibble_table

section \<open>The search loop on positions\<close>

text \<open>
  For an evaluation, the items are a fixed sequence of pairs of numbers, data and index, and the
  list is a sequence of positions in it.  The key is the index, or the lower byte of the data.
\<close>

definition item_at :: "(nat \<times> nat) list \<Rightarrow> nat \<Rightarrow> list_data" where
  "item_at ps n = \<lparr>data16 = of_nat (fst (ps ! n)), idx = of_nat (snd (ps ! n))\<rparr>"

definition key_at :: "(nat \<times> nat) list \<Rightarrow> bool \<Rightarrow> nat \<Rightarrow> nat" where
  "key_at ps by_idx n = (if by_idx then snd (ps ! n) else fst (ps ! n) mod 256)"

fun seek :: "(nat \<times> nat) list \<Rightarrow> bool \<Rightarrow> nat \<Rightarrow> nat list \<Rightarrow> nat option" where
  "seek ps by_idx k [] = None"
| "seek ps by_idx k (n # ns) = (if key_at ps by_idx n = k then Some n else seek ps by_idx k ns)"

definition data_bit :: "(nat \<times> nat) list \<Rightarrow> nat \<Rightarrow> nat" where
  "data_bit ps n = fst (ps ! n) div 256 mod 2"

definition missed_bit :: "(nat \<times> nat) list \<Rightarrow> nat list \<Rightarrow> nat" where
  "missed_bit ps ns = (case ns of _ # n # _ \<Rightarrow> data_bit ps n | _ \<Rightarrow> 0)"

definition found_bit :: "(nat \<times> nat) list \<Rightarrow> nat \<Rightarrow> nat" where
  "found_bit ps n = (if fst (ps ! n) mod 2 = 1 then fst (ps ! n) div 512 mod 2 else 0)"

text \<open>Reversal in one walk.\<close>

fun shunt :: "'a list \<Rightarrow> 'a list \<Rightarrow> 'a list" where
  "shunt [] ys = ys"
| "shunt (x # xs) ys = shunt xs (x # ys)"

lemma shunt_rev: "shunt xs ys = rev xs @ ys"
  by (induction xs arbitrary: ys) simp_all

definition seek_step ::
  "(nat \<times> nat) list \<Rightarrow> bool \<Rightarrow> nat \<Rightarrow> nat list \<Rightarrow> nat \<times> nat \<times> nat \<Rightarrow> nat list \<times> nat \<times> nat \<times> nat" where
  "seek_step ps by_idx k ns acc =
     (case acc of (retval, found, missed) \<Rightarrow>
      case seek ps by_idx k ns of
        None \<Rightarrow> (case shunt ns [] of ns \<Rightarrow> (ns, retval + missed_bit ps ns, found, missed + 1))
      | Some n \<Rightarrow> (move_next n (shunt ns []), retval + found_bit ps n, found + 1, missed))"

fun seek_loop ::
  "(nat \<times> nat) list \<Rightarrow> bool \<Rightarrow> nat \<Rightarrow> nat \<Rightarrow> nat list \<Rightarrow> nat \<times> nat \<times> nat \<Rightarrow> nat list \<times> nat \<times> nat \<times> nat" where
  "seek_loop ps by_idx 0 k ns acc = (ns, acc)"
| "seek_loop ps by_idx (Suc n) k ns acc =
     (case seek_step ps by_idx k ns acc of (ns, acc) \<Rightarrow> seek_loop ps by_idx n (k + 1) ns acc)"

text \<open>What makes \<open>k\<close> the key that round \<open>i\<close> looks for; \<open>n\<close> rounds are left.\<close>

definition seeks :: "bool \<Rightarrow> nat \<Rightarrow> nat \<Rightarrow> nat \<Rightarrow> list_data \<Rightarrow> bool" where
  "seeks by_idx n k i dinfo \<longleftrightarrow>
     (if by_idx then idx dinfo = of_nat k \<and> k + n < 32768 else idx dinfo = - 1 \<and> k = i \<and> i + n \<le> 256)"

lemma unat_small16: "n < 65536 \<Longrightarrow> unat (of_nat n :: u16) = n"
  by (simp add: unat_of_nat)

lemma of_nat_eq16: "m < 65536 \<Longrightarrow> n < 65536 \<Longrightarrow> (of_nat m :: u16) = of_nat n \<longleftrightarrow> m = n"
  using unat_small16 by metis

lemma low8: "(of_nat m :: u16) AND 0xff = of_nat (m mod 256)"
proof -
  have "(0xff :: u16) = mask 8" by (simp add: mask_eq_exp_minus_1)
  then have "(of_nat m :: u16) AND 0xff = take_bit 8 (of_nat m)" by (simp only: take_bit_eq_mask)
  also have "\<dots> = of_nat (take_bit 8 m)" by (rule take_bit_of_nat)
  finally show ?thesis by (simp add: take_bit_eq_mod)
qed

lemma bit16: "n < 16 \<Longrightarrow> bit (of_nat d :: u16) n \<longleftrightarrow> odd (d div 2 ^ n)"
proof -
  assume "n < 16"
  then have "bit (of_nat d :: u16) n \<longleftrightarrow> bit (int d) n"
    using bit_word_of_int_iff [of "int d" n, where 'a = 16] by simp
  moreover have "odd (int d div 2 ^ n) \<longleftrightarrow> odd (d div 2 ^ n)"
    by (metis even_of_nat of_nat_div of_nat_numeral of_nat_power)
  ultimately show ?thesis by (simp only: bit_iff_odd [of "int d"])
qed

lemma bits_of_nat:
  "drop_bit 8 (of_nat d :: u16) AND 1 = of_nat (d div 256 mod 2)"
  "(of_nat d :: u16) AND 1 \<noteq> 0 \<longleftrightarrow> d mod 2 = 1" "drop_bit 9 (of_nat d :: u16) AND 1 = of_nat (d div 512 mod 2)"
  using bit16 [of 8 d] bit16 [of 9 d] bit16 [of 0 d]
  by (simp_all add: and_one_eq bit_drop_bit_eq mod_2_eq_odd)

lemma nonneg16: "k < 32768 \<Longrightarrow> 0 \<le> sint (of_nat k :: u16)"
  using sint_word_of_int_eq_self [of "int k", where 'a = 16] by simp

lemma seeks_wanted:
  assumes "seeks by_idx (Suc n) k i dinfo" "snd (ps ! e) < 65536"
  shows "wanted (dinfo\<lparr>data16 := of_nat i AND 0xff\<rparr>) (item_at ps e) \<longleftrightarrow> key_at ps by_idx e = k"
proof (cases by_idx)
  case True
  then show ?thesis
    using assms of_nat_eq16 [of "snd (ps ! e)" k] nonneg16 [of k] by (simp add: seeks_def wanted_def item_at_def key_at_def)
next
  case False
  then show ?thesis
    using assms of_nat_eq16 [of "fst (ps ! e) mod 256" i]
    by (simp add: seeks_def wanted_def item_at_def key_at_def low8)
qed

text \<open>The wanted item in the next round, and after \<open>n\<close> rounds.\<close>

definition next_wanted :: "nat \<Rightarrow> list_data \<Rightarrow> list_data" where
  "next_wanted i dinfo =
     (let dinfo = dinfo\<lparr>data16 := of_nat i AND 0xff\<rparr>
      in if 0 \<le> sint (idx dinfo) then dinfo\<lparr>idx := idx dinfo + 1\<rparr> else dinfo)"

definition sought :: "nat \<Rightarrow> nat \<Rightarrow> list_data \<Rightarrow> list_data" where
  "sought n i dinfo =
     \<lparr>data16 = (if n = 0 then data16 dinfo else of_nat (i + n - 1) AND 0xff),
      idx = (if 0 \<le> sint (idx dinfo) then idx dinfo + of_nat n else idx dinfo)\<rparr>"

lemma seeks_next:
  assumes "seeks by_idx (Suc n) k i dinfo"
  shows "seeks by_idx n (k + 1) (i + 1) (next_wanted i dinfo)" "sought n (i + 1) (next_wanted i dinfo) = sought (Suc n) i dinfo"
proof -
  show "seeks by_idx n (k + 1) (i + 1) (next_wanted i dinfo)"
    using assms nonneg16 [of k] by (auto simp: seeks_def next_wanted_def Let_def split: if_splits)
  have "0 \<le> sint (of_nat (k + 1) :: u16)" if "k + Suc n < 32768" using that nonneg16 [of "k + 1"] by simp
  then show "sought n (i + 1) (next_wanted i dinfo) = sought (Suc n) i dinfo"
    using assms nonneg16 [of k] by (auto simp: seeks_def Let_def sought_def next_wanted_def add.commute split: if_splits)
qed

lemma seek_find:
  assumes "\<forall>n \<in> set ns. P n \<longleftrightarrow> key_at ps by_idx n = k"
  shows "List.find P ns = seek ps by_idx k ns"
  using assms by (induction ns) auto

lemma spec_find_positions:
  "seeks by_idx n k i dinfo \<Longrightarrow> distinct ns \<Longrightarrow> 2 \<le> length ns \<Longrightarrow> \<forall>e \<in> set ns. snd (ps ! e) < 65536 \<Longrightarrow>
     seek_loop ps by_idx n k ns (r, f, m) = (ns', r', f', m') \<Longrightarrow>
     spec_find (item_at ps) n i dinfo ns (of_nat r, of_nat f, of_nat m) =
       (sought n i dinfo, ns', of_nat r', of_nat f', of_nat m')"
proof (induction n arbitrary: k i dinfo ns r f m)
  case 0
  then show ?case by (cases dinfo) (simp add: sought_def)
next
  case (Suc n)
  let ?d = "dinfo\<lparr>data16 := of_nat i AND 0xff\<rparr>"
  have find: "List.find (\<lambda>e. wanted ?d (item_at ps e)) ns = seek ps by_idx k ns"
    using seeks_wanted [OF Suc.prems(1)] Suc.prems(4) by (intro seek_find) auto
  have d': "(if 0 \<le> sint (idx ?d) then ?d\<lparr>idx := idx ?d + 1\<rparr> else ?d) = next_wanted i dinfo"
    by (simp add: next_wanted_def Let_def)
  note step = seeks_next [OF Suc.prems(1)]
  have run: "spec_find (item_at ps) (Suc n) i dinfo ns (of_nat r, of_nat f, of_nat m) =
      (sought (Suc n) i dinfo, ns', of_nat r', of_nat f', of_nat m')"
    if one: "spec_find (item_at ps) (Suc n) i dinfo ns (of_nat r, of_nat f, of_nat m)
        = spec_find (item_at ps) n (i + 1) (next_wanted i dinfo) ns1 (of_nat r1, of_nat f1, of_nat m1)"
      "seek_step ps by_idx k ns (r, f, m) = (ns1, r1, f1, m1)" "mset ns1 = mset ns" for ns1 r1 f1 m1
  proof -
    have "seek_loop ps by_idx n (k + 1) ns1 (r1, f1, m1) = (ns', r', f', m')" using Suc.prems(5) one(2) by simp
    moreover have "distinct ns1" "2 \<le> length ns1" "\<forall>e \<in> set ns1. snd (ps ! e) < 65536"
      using mset_eq_imp_distinct_iff [OF one(3)] mset_eq_length [OF one(3)] mset_eq_setD [OF one(3)] Suc.prems(2-4)
      by auto
    ultimately show ?thesis using Suc.IH [OF step(1)] one(1) step(2) by simp
  qed
  show ?case
  proof (cases "seek ps by_idx k ns")
    case None
    obtain x y zs where ns: "rev ns = x # y # zs"
      using Suc.prems(3) by (cases "rev ns" rule: list.exhaust; cases "tl (rev ns)") auto
    have m: "missed_bit ps (rev ns) = fst (ps ! y) div 256 mod 2" using ns by (simp add: missed_bit_def data_bit_def)
    have "spec_find (item_at ps) (Suc n) i dinfo ns (of_nat r, of_nat f, of_nat m)
        = spec_find (item_at ps) n (i + 1) (next_wanted i dinfo) (rev ns) (of_nat (r + missed_bit ps (rev ns)), of_nat f, of_nat (m + 1))"
      unfolding spec_find.simps prod.case Let_def d' find m using None ns
      by (simp add: item_at_def bits_of_nat(1) add.commute)
    then show ?thesis by (rule run) (use None in \<open>simp_all add: seek_step_def shunt_rev\<close>)
  next
    case (Some e)
    then have "e \<in> set (rev ns)" using find by (auto simp: find_Some_iff in_set_conv_nth)
    then have s: "mset (move_next e (rev ns)) = mset ns" using move_next_set [of "rev ns" e] Suc.prems(2) by simp
    have b: "(if data16 (item_at ps e) AND 1 \<noteq> 0 then of_nat r + (drop_bit 9 (data16 (item_at ps e)) AND 1) else of_nat r)
        = (of_nat (r + found_bit ps e) :: u16)"
      by (simp add: item_at_def bits_of_nat(2,3) found_bit_def)
    have "spec_find (item_at ps) (Suc n) i dinfo ns (of_nat r, of_nat f, of_nat m)
        = spec_find (item_at ps) n (i + 1) (next_wanted i dinfo) (move_next e (rev ns)) (of_nat (r + found_bit ps e), of_nat (f + 1), of_nat m)"
      unfolding spec_find.simps prod.case Let_def d' find Some option.case b by (simp add: add.commute)
    then show ?thesis by (rule run) (use s Some in \<open>simp_all add: seek_step_def shunt_rev\<close>)
  qed
qed

lemma spec_find_seek:
  assumes "seeks by_idx n k i dinfo" "distinct ns" "2 \<le> length ns" "inj_on (\<lambda>e. snd (ps ! e)) (set ns)"
    "\<forall>e \<in> set ns. snd (ps ! e) < 65536" "seek_loop ps by_idx n k ns (0, 0, 0) = (ns', r, f, m)"
  shows "spec_find id n i dinfo (map (item_at ps) ns) (0, 0, 0) =
    (sought n i dinfo, map (item_at ps) ns', of_nat r, of_nat f, of_nat m)"
proof -
  have "inj_on (item_at ps) (set ns)"
  proof (rule inj_onI)
    fix x y assume x: "x \<in> set ns" and y: "y \<in> set ns" and e: "item_at ps x = item_at ps y"
    have "snd (ps ! x) < 65536" "snd (ps ! y) < 65536" using assms(5) x y by simp_all
    then have "snd (ps ! x) = snd (ps ! y)" using e of_nat_eq16 by (simp add: item_at_def)
    then show "x = y" using inj_onD [OF assms(4) _ x y] by simp
  qed
  then show ?thesis
    using spec_find_map [OF _ assms(2,3)] spec_find_positions [OF assms(1,2,3,5,6)] by simp
qed

lemma seek_loop_numeral:
  "seek_loop ps by_idx (numeral n) k ns acc =
     (case seek_step ps by_idx k ns acc of (ns, acc) \<Rightarrow> seek_loop ps by_idx (pred_numeral n) (k + 1) ns acc)"
  "seek_loop ps by_idx 1 k ns acc = seek_step ps by_idx k ns acc"
proof -
  show "seek_loop ps by_idx (numeral n) k ns acc =
     (case seek_step ps by_idx k ns acc of (ns, acc) \<Rightarrow> seek_loop ps by_idx (pred_numeral n) (k + 1) ns acc)"
    unfolding numeral_eq_Suc by (rule seek_loop.simps(2))
  show "seek_loop ps by_idx 1 k ns acc = seek_step ps by_idx k ns acc"
    unfolding One_nat_def seek_loop.simps by (simp split: prod.split)
qed

lemma seek_step_simps:
  "seek_step ps by_idx k ns (r, f, m) =
     (case seek ps by_idx k ns of
        None \<Rightarrow> (case shunt ns [] of ns \<Rightarrow> (ns, r + missed_bit ps ns, f, m + 1))
      | Some n \<Rightarrow> (move_next n (shunt ns []), r + found_bit ps n, f + 1, m))"
  by (simp add: seek_step_def)

lemma missed_bit_simps: "missed_bit ps (x # n # ns) = data_bit ps n"
  by (simp add: missed_bit_def)

lemma move_next_simps:
  "move_next t (l # ls) =
     (if l = t then l # ls
      else (case dropWhile (\<lambda>x. x \<noteq> t) ls of
              t' # f # cs \<Rightarrow> l # f # takeWhile (\<lambda>x. x \<noteq> t) ls @ t' # cs
            | _ \<Rightarrow> l # ls))"
  by (simp add: move_next_def)

text \<open>
  Exactly the rules that an evaluation needs: with the whole simpset a round takes a hundred times
  as long.
\<close>

lemmas seek_eval = seek_loop_numeral seek_step_simps seek.simps shunt.simps missed_bit_simps move_next_simps
  dropWhile.simps takeWhile.simps append.simps prod.case option.case list.case if_True if_False not_True_eq_False
  not_False_eq_True refl simp_thms pred_numeral_simps arith_simps rel_simps numeral_One one_add_one
  one_plus_numeral numeral_plus_one add_num_simps add_0_left add_0_right

end
