(* ===== verification/CMCells.thy ===== *)
theory CMCells
  imports CMSpec CMMain
begin

text \<open>
  The matrices of \<^verbatim>\<open>core_matrix.c\<close> as rows of integers: the elements that the initialisation
  computes from its seed, and the value of the benchmark as four sums over products of rows and
  columns, as long as nothing leaves the range of 32 bits.
\<close>

section \<open>The initial matrices\<close>

text \<open>The elements as natural numbers, for a seed that is not negative.\<close>

fun element_pairs :: "nat \<Rightarrow> nat \<Rightarrow> nat \<Rightarrow> (nat \<times> nat) list" where
  "element_pairs 0 order seed = []"
| "element_pairs (Suc n) order seed =
     (case order * seed mod 65536 of seed \<Rightarrow>
        ((seed + 2 * order) mod 256, (seed + order) mod 65536) # element_pairs n (order + 1) seed)"


lemma and_low8: "(w :: u16) AND 0xff = of_nat (unat w mod 256)"
proof -
  have "(0xff :: u16) = mask 8" by (simp add: mask_eq_exp_minus_1)
  then have "w AND 0xff = take_bit 8 w" by (simp only: take_bit_eq_mask)
  then have "unat (w AND 0xff) = take_bit 8 (unat w)" by (simp only: unsigned_take_bit_eq)
  also have "\<dots> = unat w mod 256" by (simp add: take_bit_eq_mod)
  finally have "of_nat (unat (w AND 0xff)) = (of_nat (unat w mod 256) :: u16)" by (rule arg_cong)
  then show ?thesis by simp
qed

lemma and_ffff: "(w :: u16) AND 0xffff = w"
proof -
  have "(0xffff :: u16) = - 1" by simp
  then show ?thesis by (simp only: bit.conj_one_right)
qed

lemma elements_pairs:
  "elements n (int order, int seed) = map (\<lambda>(a, b). (of_nat a, of_nat b)) (element_pairs n order seed)"
proof (induction n arbitrary: order seed)
  case (Suc n)
  let ?seed = "order * seed mod 65536"
  have s: "c_mod (int order * int seed) 65536 = int ?seed"
    using c_mod_nonneg [of "int (order * seed)" 65536] by (simp add: zmod_int)
  have b: "word_of_int (int ?seed + int order) = (of_nat (?seed + order) :: u16)"
    "(of_nat (?seed + order) :: u16) = of_nat ((?seed + order) mod 65536)"
    by simp (simp add: word_unat_eq_iff unat_of_nat del: of_nat_add)
  have "word_of_int (sint (of_nat m :: u16) + int order) AND 0xff = (of_nat ((m + order) mod 256) :: u16)" for m
    by (simp add: and_low8 word_unat_eq_iff unat_of_nat mod_mod_cancel flip: of_nat_add)
  from this [of "?seed + order"]
  have a: "word_of_int (sint (of_nat (?seed + order) :: u16) + int order) AND 0xff = (of_nat ((?seed + 2 * order) mod 256) :: u16)"
    by (simp only: add.assoc mult_2)
  have "element_values (int order, int seed) =
      ((int (order + 1), int ?seed), of_nat ((?seed + 2 * order) mod 256), of_nat ((?seed + order) mod 65536))"
    unfolding element_values_def prod.case Let_def s b(1) matrix_clip_def if_True if_False and_ffff a
    by (simp add: b(2) [symmetric] flip: of_nat_add)
  then show ?case using Suc.IH [of "order + 1" ?seed] by simp
qed simp

section \<open>The sum of a matrix\<close>

text \<open>The sum on integers, as long as everything stays below \<open>2 ^ 31\<close>.\<close>

fun sum_cells :: "int \<Rightarrow> int list \<Rightarrow> int \<Rightarrow> int \<Rightarrow> nat \<Rightarrow> nat option" where
  "sum_cells clip [] t p r = Some r"
| "sum_cells clip (x # xs) t p r =
     (if fits32 x \<and> fits32 (t + x)
      then if clip < t + x then sum_cells clip xs 0 x (r + 10)
           else sum_cells clip xs (t + x) x (if p < x then r + 1 else r)
      else None)"

lemma sint_fits32: "fits32 x \<Longrightarrow> sint (word_of_int x :: u32) = x"
  by (rule sint_word_of_int_eq_self) (simp_all add: fits32_def)

lemma sum_cells_fold:
  "sum_cells (sint clip) xs t p r = Some r' \<Longrightarrow> fits32 t \<Longrightarrow> fits32 p \<Longrightarrow>
     \<exists>tmp prev. fold (matrix_sum_step clip) (map word_of_int xs) (word_of_int t, word_of_int p, of_nat r) =
       (tmp, prev, of_nat r')"
proof (induction xs arbitrary: t p r)
  case (Cons x xs)
  have f: "fits32 x" "fits32 (t + x)" using Cons.prems(1) by (simp_all split: if_splits)
  then have s: "sint (word_of_int t + word_of_int x :: u32) = t + x" "sint (word_of_int x :: u32) = x"
    "sint (word_of_int p :: u32) = p"
    using sint_fits32 [of "t + x"] sint_fits32 [of x] sint_fits32 [of p] Cons.prems(3) by simp_all
  show ?case
  proof (cases "sint clip < t + x")
    case True
    then have "matrix_sum_step clip (word_of_int x) (word_of_int t, word_of_int p, of_nat r)
        = (word_of_int 0, word_of_int x, of_nat (r + 10))"
      by (simp add: matrix_sum_step_def Let_def s)
    moreover have "sum_cells (sint clip) xs 0 x (r + 10) = Some r'" "fits32 0"
      using Cons.prems(1) f True by (simp_all add: fits32_def)
    ultimately show ?thesis using Cons.IH [of 0 x "r + 10"] f by simp
  next
    case False
    let ?r = "if p < x then r + 1 else r"
    have "matrix_sum_step clip (word_of_int x) (word_of_int t, word_of_int p, of_nat r)
        = (word_of_int (t + x), word_of_int x, of_nat ?r)"
      using False by (simp add: matrix_sum_step_def Let_def s)
    moreover have "sum_cells (sint clip) xs (t + x) x ?r = Some r'"
      using Cons.prems(1) f False by simp
    ultimately show ?thesis using Cons.IH [of "t + x" x ?r] f by simp
  qed
qed simp

lemma matrix_sum_cells:
  assumes "sum_cells (sint clip) xs 0 0 0 = Some r" "length xs = N * N"
  shows "matrix_sum N (map word_of_int xs) clip = Inr (of_nat r)"
proof -
  have "fits32 0" by (simp add: fits32_def)
  then obtain tmp prev where "fold (matrix_sum_step clip) (map word_of_int xs) (0, 0, 0) = (tmp, prev, of_nat r)"
    using sum_cells_fold [OF assms(1)] by auto
  then show ?thesis using assms(2) by (simp add: matrix_sum_eq)
qed

section \<open>Rows and columns\<close>

lemma filled_rows:
  assumes "length xs = N * N"
  shows "filled N (\<lambda>i j _. f i j) (N * N) xs = concat (map (\<lambda>i. map (f i) [0..<N]) [0..<N])"
proof (cases "N = 0")
  case False
  have "map (\<lambda>k. f (k div N) (k mod N)) [0..<M * N] = concat (map (\<lambda>i. map (f i) [0..<N]) [0..<M])" for M
  proof (induction M)
    case (Suc M)
    have "[0..<Suc M * N] = [0..<M * N] @ [0 + M * N..<N + M * N]"
      using upt_add_eq_append [of 0 "M * N" N] by (simp add: add.commute)
    also have "\<dots> = [0..<M * N] @ map (\<lambda>k. k + M * N) [0..<N]" by (simp only: map_add_upt add_0)
    finally show ?case using Suc.IH False by simp
  qed simp
  moreover have "filled N (\<lambda>i j _. f i j) (N * N) xs = map (\<lambda>k. f (k div N) (k mod N)) [0..<N * N]"
    by (rule nth_equalityI) (simp_all add: assms)
  ultimately show ?thesis by simp
qed (use assms in \<open>simp add: filled_def\<close>)

lemma concat_rows_nth:
  "\<forall>xs \<in> set xss. length xs = N \<Longrightarrow> i < length xss \<Longrightarrow> k < N \<Longrightarrow> concat xss ! (i * N + k) = xss ! i ! k"
proof (induction xss arbitrary: i)
  case (Cons xs xss)
  then show ?case by (cases i) (simp_all add: nth_append add.assoc)
qed simp

lemma concat_rows_length: "\<forall>xs \<in> set xss. length xs = N \<Longrightarrow> length (concat xss) = length xss * N"
  by (induction xss) auto

definition rows_of :: "nat \<Rightarrow> 'a list list \<Rightarrow> bool" where
  "rows_of N xss \<longleftrightarrow> length xss = N \<and> (\<forall>xs \<in> set xss. length xs = N)"

fun dot :: "(int \<Rightarrow> int) \<Rightarrow> int list \<Rightarrow> int list \<Rightarrow> int" where
  "dot g (x # xs) (y # ys) = g (x * y) + dot g xs ys"
| "dot g _ _ = 0"

lemma dot_sum: "length xs = N \<Longrightarrow> length ys = N \<Longrightarrow> dot g xs ys = (\<Sum>k<N. g (xs ! k * ys ! k))"
proof (induction g xs ys arbitrary: N rule: dot.induct)
  case (1 g x xs y ys)
  then show ?case by (cases N) (simp_all add: sum.lessThan_Suc_shift del: sum.lessThan_Suc)
qed simp_all

definition column :: "int list list \<Rightarrow> nat \<Rightarrow> int list" where
  "column xss j = map (\<lambda>xs. xs ! j) xss"

definition products :: "(int \<Rightarrow> int) \<Rightarrow> int list list \<Rightarrow> int list list \<Rightarrow> int list" where
  "products g xss yss = concat (map (\<lambda>xs. map (dot g xs) yss) xss)"

definition fits16 :: "int \<Rightarrow> bool" where
  "fits16 x \<longleftrightarrow> - 32768 \<le> x \<and> x < 32768"

lemma sx_fits16: "fits16 x \<Longrightarrow> sx (word_of_int x) = word_of_int x"
proof -
  assume "fits16 x"
  then have "sint (word_of_int x :: u16) = x" by (intro sint_word_of_int_eq_self) (simp_all add: fits16_def)
  then show ?thesis by (simp add: sx_def scast_eq)
qed

lemma rows_of_length: "rows_of N xss \<Longrightarrow> length (concat xss) = N * N"
  using concat_rows_length [of xss N] by (simp add: rows_of_def)

lemma rows_of_nth:
  assumes "rows_of N xss" "i < N" "k < N"
  shows "concat xss ! (i * N + k) = xss ! i ! k" "i * N + k < length (concat xss)"
  using assms concat_rows_nth [of xss N i k] cell_bound [OF assms(2,3)] rows_of_length [OF assms(1)]
  by (simp_all add: rows_of_def)

text \<open>Matrices as rows of integers that are stored in 16 bits.\<close>

definition rows16 :: "nat \<Rightarrow> int list list \<Rightarrow> bool" where
  "rows16 N xss \<longleftrightarrow> rows_of N xss \<and> (\<forall>xs \<in> set xss. \<forall>x \<in> set xs. fits16 x)"

lemma rows16_nth: "rows16 N xss \<Longrightarrow> i < N \<Longrightarrow> k < N \<Longrightarrow> fits16 (xss ! i ! k)"
proof -
  assume xss: "rows16 N xss" "i < N" "k < N"
  then have i: "xss ! i \<in> set xss" by (simp add: rows16_def rows_of_def)
  then have "xss ! i ! k \<in> set (xss ! i)" using xss by (simp add: rows16_def rows_of_def)
  then show ?thesis using xss(1) i by (simp add: rows16_def)
qed

lemma rows16_sx:
  assumes "rows16 N xss" "i < N" "k < N"
  shows "sx (map word_of_int (concat xss) ! (i * N + k)) = word_of_int (xss ! i ! k)"
  using rows_of_nth [of N xss i k] rows16_nth [OF assms] assms by (simp add: rows16_def sx_fits16)

lemma rows16_length: "rows16 N xss \<Longrightarrow> length (concat xss) = N * N"
  by (simp add: rows16_def rows_of_length)

lemma dot_word:
  assumes "\<And>k. k < N \<Longrightarrow> f k = word_of_int (g (xs ! k * ys ! k))" "length xs = N" "length ys = N"
  shows "(\<Sum>k<N. f k) = (word_of_int (dot g xs ys) :: u32)"
proof -
  have "(\<Sum>k<N. f k) = (\<Sum>k<N. word_of_int (g (xs ! k * ys ! k)))" by (rule sum.cong) (use assms(1) in simp_all)
  then show ?thesis by (simp add: dot_sum [OF assms(2,3)])
qed

lemma products_word:
  assumes "rows16 N xss" "rows16 N yss" "length C = N * N"
    "\<And>i j k. i < N \<Longrightarrow> j < N \<Longrightarrow> k < N \<Longrightarrow> f i j k = word_of_int (g (xss ! i ! k * yss ! k ! j))"
  shows "filled N (\<lambda>i j _. \<Sum>k<N. f i j k) (N * N) C
    = (map word_of_int (products g xss (map (column yss) [0..<N])) :: u32 list)"
proof -
  have l: "length xss = N" "length yss = N" "\<And>i. i < N \<Longrightarrow> length (xss ! i) = N"
    using assms(1,2) by (simp_all add: rows16_def rows_of_def)
  have c: "(\<Sum>k<N. f i j k) = word_of_int (dot g (xss ! i) (column yss j))" if "i < N" "j < N" for i j
    by (rule dot_word) (use that l assms(4) in \<open>simp_all add: column_def\<close>)
  have "map (\<lambda>i. map (\<lambda>j. \<Sum>k<N. f i j k) [0..<N]) [0..<N]
      = map (\<lambda>i. map (\<lambda>j. word_of_int (dot g (xss ! i) (column yss j))) [0..<N]) [0..<N]"
    using c by simp
  also have "\<dots> = map (\<lambda>xs. map (\<lambda>j. word_of_int (dot g xs (column yss j))) [0..<N]) xss"
    using l(1) by (intro nth_equalityI) simp_all
  finally show ?thesis
    unfolding filled_rows [OF assms(3)] by (simp add: products_def map_concat o_def)
qed

lemma bit_extract_int:
  assumes "f + t < 32"
  shows "bit_extract (word_of_int v) f t = word_of_int (v div 2 ^ f mod 2 ^ t)"
proof (rule bit_word_eqI)
  fix n assume n: "n < LENGTH(32)"
  have ones: "(0xffffffff :: u32) = - 1" by simp
  have "bit (bit_extract (word_of_int v) f t) n \<longleftrightarrow> bit v (f + n) \<and> n < t"
    using assms n unfolding bit_extract_def ones
    by (auto simp: bit_simps)
  then show "bit (bit_extract (word_of_int v) f t) n = bit (word_of_int (v div 2 ^ f mod 2 ^ t) :: u32) n"
    using n by (auto simp: bit_word_of_int_iff bit_simps simp flip: take_bit_eq_mod drop_bit_eq_div)
qed

definition extracted :: "int \<Rightarrow> int" where
  "extracted v = v div 4 mod 16 * (v div 32 mod 128)"

lemma extract_word:
  "bit_extract (word_of_int v) 2 4 * bit_extract (word_of_int v) 5 7 = word_of_int (extracted v)"
  using bit_extract_int [of 2 4 v] bit_extract_int [of 5 7 v] by (simp add: extracted_def)

text \<open>The four sums of the test, over integers: the columns of \<open>B\<close> and its first row are given.\<close>

definition test_sums :: "nat \<Rightarrow> int \<Rightarrow> int \<Rightarrow> int list list \<Rightarrow> int list \<Rightarrow> int list list \<Rightarrow> nat option list" where
  "test_sums N clip x xss row cols =
     (let scaled = map ((*) x) (concat xss)
      in map (\<lambda>cs. sum_cells clip cs 0 0 0)
           [scaled, map (\<lambda>xs. dot id xs row) xss @ drop N scaled, products id xss cols, products extracted xss cols])"

lemma products_length: "length xss = N \<Longrightarrow> length yss = N \<Longrightarrow> length (products g xss yss) = N * N"
  using concat_rows_length [of "map (\<lambda>xs. map (dot g xs) yss) xss" N] by (simp add: products_def)

lemma matrix_test_phases:
  assumes "matrix_add_const N A val = Inr A1" "matrix_mul_const N C A1 val = Inr C1" "matrix_sum N C1 (matrix_big val) = Inr r1"
    "matrix_mul_vect N C1 A1 B = Inr C2" "matrix_sum N C2 (matrix_big val) = Inr r2"
    "matrix_mul_matrix N C2 A1 B = Inr C3" "matrix_sum N C3 (matrix_big val) = Inr r3"
    "matrix_mul_matrix_bitextract N C3 A1 B = Inr C4" "matrix_sum N C4 (matrix_big val) = Inr r4"
    "matrix_add_const N A1 (- val) = Inr A2"
  shows "matrix_test N C A B val = Inr (crc16 r4 (crc16 r3 (crc16 r2 (crc16 r1 0))), C4, A2)"
  by (simp add: matrix_test_def Let_def assms)

lemma matrix_test_sums:
  assumes "rows16 N xss" "rows16 N yss" "length C = N * N" "length A = N * N" "0 < N"
    "map (\<lambda>a. a + val) A = map word_of_int (concat xss)" "B = map word_of_int (concat yss)"
    "sint val = x" "sint (matrix_big val) = clip"
    "test_sums N clip x xss (hd yss) (map (column yss) [0..<N]) = [Some s1, Some s2, Some s3, Some s4]"
  shows "\<exists>C' A'. matrix_test N C A B val =
    Inr (crc16 (of_nat s4) (crc16 (of_nat s3) (crc16 (of_nat s2) (crc16 (of_nat s1) 0))), C', A')"
proof -
  let ?scaled = "map ((*) x) (concat xss)" and ?cols = "map (column yss) [0..<N]"
  let ?A = "map word_of_int (concat xss) :: u16 list"
  let ?C1 = "map word_of_int ?scaled :: u32 list"
  have l: "length (concat xss) = N * N" "length (concat yss) = N * N" "length xss = N" "length yss = N" "N \<le> N * N"
    using assms(1,2) rows16_length by (simp_all add: rows16_def rows_of_def)
  have len: "length ?A = N * N" "length B = N * N" "length ?C1 = N * N" using l assms(7) by simp_all
  have A: "matrix_add_const N A val = Inr ?A"
  proof -
    have "filled N (\<lambda>i j a. a + val) (N * N) A = map (\<lambda>a. a + val) A"
      by (rule nth_equalityI) (use assms(4) in simp_all)
    then show ?thesis using assms(4,6) by (simp add: matrix_add_const_eq)
  qed
  have sxA: "sx (?A ! (i * N + k)) = word_of_int (xss ! i ! k)" if "i < N" "k < N" for i k
    by (rule rows16_sx [OF assms(1) that])
  have sxB: "sx (B ! (k * N + j)) = word_of_int (yss ! k ! j)" if "k < N" "j < N" for k j
    unfolding assms(7) by (rule rows16_sx [OF assms(2) that])
  have "sx val = word_of_int x" using assms(8) by (simp add: sx_def scast_eq)
  then have C1: "matrix_mul_const N C ?A val = Inr ?C1"
  proof -
    have "sx (?A ! k) * sx val = word_of_int (x * concat xss ! k)" if "k < N * N" for k
    proof -
      have ij: "k div N < N" "k mod N < N" using that assms(5) by (simp_all add: less_mult_imp_div_less)
      have "rows_of N xss" using assms(1) by (simp add: rows16_def)
      then have "concat xss ! k = xss ! (k div N) ! (k mod N)" using rows_of_nth(1) [OF _ ij] by simp
      then show ?thesis using sxA [OF ij] \<open>sx val = word_of_int x\<close> by (simp add: mult.commute)
    qed
    then have "filled N (\<lambda>i j _. sx (?A ! (i * N + j)) * sx val) (N * N) C = ?C1"
      by (intro nth_equalityI) (use l assms(3) in simp_all)
    then show ?thesis using len assms(3) by (simp add: matrix_mul_const_eq)
  qed
  let ?c2 = "map (\<lambda>xs. dot id xs (hd yss)) xss @ drop N ?scaled"
  let ?C2 = "map word_of_int ?c2 :: u32 list"
  have C2: "matrix_mul_vect N ?C1 ?A B = Inr ?C2"
  proof -
    have y: "hd yss = yss ! 0" using l(4) assms(5) by (cases yss) auto
    have "(\<Sum>k<N. sx (?A ! (i * N + k)) * sx (B ! k)) = word_of_int (dot id (xss ! i) (hd yss))" if "i < N" for i
    proof (rule dot_word)
      show "sx (?A ! (i * N + k)) * sx (B ! k) = word_of_int (id (xss ! i ! k * hd yss ! k))" if "k < N" for k
        using sxA [OF \<open>i < N\<close> that] sxB [of 0 k] that assms(5) y by simp
      show "length (xss ! i) = N" "length (hd yss) = N"
        using that assms(1,2,5) l(3,4) y by (simp_all add: rows16_def rows_of_def)
    qed
    then have "map (\<lambda>i. if i < N then \<Sum>k<N. sx (?A ! (i * N + k)) * sx (B ! k) else ?C1 ! i) [0..<length ?C1] = ?C2"
      by (intro nth_equalityI) (use l in \<open>simp_all add: nth_append\<close>)
    moreover have "N * N \<le> length ?A" "N \<le> length B" "N \<le> length ?C1" using len l(5) by simp_all
    ultimately show ?thesis using matrix_mul_vect_eq [of N ?A B ?C1] by (simp only:)
  qed
  have len2: "length ?C2 = N * N" using l by simp
  let ?C3 = "map word_of_int (products id xss ?cols) :: u32 list"
  let ?C4 = "map word_of_int (products extracted xss ?cols) :: u32 list"
  have len3: "length ?C3 = N * N" "length ?C4 = N * N" using products_length [OF l(3)] by simp_all
  have le: "N * N \<le> length ?A" "N * N \<le> length B" "N * N \<le> length ?C2" "N * N \<le> length ?C3"
    using len len2 len3 by simp_all
  have C3: "matrix_mul_matrix N ?C2 ?A B = Inr ?C3"
    unfolding matrix_mul_matrix_eq [OF le(1,2,3)]
    by (subst products_word [OF assms(1,2) len2, of _ id]) (use sxA sxB in simp_all)
  have C4: "matrix_mul_matrix_bitextract N ?C3 ?A B = Inr ?C4"
    unfolding matrix_mul_matrix_bitextract_eq [OF le(1,2,4)]
    by (subst products_word [OF assms(1,2) len3(1), of _ extracted])
      (use sxA sxB in \<open>simp_all add: extract_word flip: of_int_mult\<close>)
  have sums: "sum_cells (sint (matrix_big val)) ?scaled 0 0 0 = Some s1" "sum_cells (sint (matrix_big val)) ?c2 0 0 0 = Some s2"
    "sum_cells (sint (matrix_big val)) (products id xss ?cols) 0 0 0 = Some s3"
    "sum_cells (sint (matrix_big val)) (products extracted xss ?cols) 0 0 0 = Some s4"
    using assms(9,10) by (simp_all add: test_sums_def Let_def)
  have m: "matrix_sum N ?C1 (matrix_big val) = Inr (of_nat s1)" "matrix_sum N ?C2 (matrix_big val) = Inr (of_nat s2)"
    "matrix_sum N ?C3 (matrix_big val) = Inr (of_nat s3)" "matrix_sum N ?C4 (matrix_big val) = Inr (of_nat s4)"
    by (intro matrix_sum_cells sums; use len len2 len3 in simp)+
  obtain A' where "matrix_add_const N ?A (- val) = Inr A'"
    using len by (simp add: matrix_add_const_eq)
  then show ?thesis using matrix_test_phases [OF A C1 m(1) C2 m(2) C3 m(3) C4 m(4)] by blast
qed

text \<open>
  With elements that are not negative, two of the four sums are known: every element is above the
  clip value, which is negative, and counts 10.
\<close>

lemma sum_cells_positive:
  "clip < 0 \<Longrightarrow> \<forall>x \<in> set xs. 0 \<le> x \<and> fits32 x \<Longrightarrow> sum_cells clip xs 0 p r = Some (r + 10 * length xs)"
  by (induction xs arbitrary: p r) auto

lemma extracted_bounds: "0 \<le> extracted v \<and> extracted v \<le> 1905"
proof -
  have "0 \<le> v div 4 mod 16" "v div 4 mod 16 \<le> 15" "0 \<le> v div 32 mod 128" "v div 32 mod 128 \<le> 127" by simp_all
  then have "v div 4 mod 16 * (v div 32 mod 128) \<le> 15 * 127" by (intro mult_mono) simp_all
  then show ?thesis by (simp add: extracted_def)
qed

lemma dot_extracted: "0 \<le> dot extracted xs ys \<and> dot extracted xs ys \<le> 1905 * int (length xs)"
proof (induction extracted xs ys rule: dot.induct)
  case (1 x xs y ys)
  then show ?case using extracted_bounds [of "x * y"] by simp
qed simp_all

lemma matrix_big_small:
  assumes "0 \<le> x" "x < 256"
  shows "sint (matrix_big (word_of_int x)) = x - 4096"
proof -
  have hi: "\<not> bit (word_of_int x :: u16) n" if "8 \<le> n" for n
  proof (cases "n < 16")
    case True
    then have "x < 2 ^ n" using assms(2) power_increasing [OF that, of "2 :: int"] by simp
    then show ?thesis using True assms(1) by (simp add: bit_word_of_int_iff bit_iff_odd [of x n])
  qed (use bit_imp_le_length in force)
  have "0xf000 AND (word_of_int x :: u16) = 0"
  proof (rule bit_word_eqI)
    fix n assume "n < LENGTH(16)"
    then have "n \<in> set [0..<16]" by simp
    then show "bit (0xf000 AND (word_of_int x :: u16)) n = bit 0 n"
      using hi [of n] by (auto simp: bit_and_iff upt_rec bit_numeral_rec)
  qed
  then have "0xf000 OR (word_of_int x :: u16) = 0xf000 + word_of_int x" by (simp add: disjunctive_add_eq_or)
  also have "\<dots> = word_of_int (x - 4096)" by (simp add: of_int_diff)
  finally show ?thesis
    using assms sint_word_of_int_eq_self [of "x - 4096", where 'a = 16] by (simp add: matrix_big_def)
qed

section \<open>The value of the matrix benchmark\<close>

definition signed16 :: "nat \<Rightarrow> int" where
  "signed16 b = (if b < 32768 then int b else int b - 65536)"

lemma signed16_word: "word_of_int (signed16 b) = (of_nat b :: u16)"
  by (simp add: signed16_def)

lemma signed16_fits: "b < 65536 \<Longrightarrow> fits16 (signed16 b)"
  by (simp add: signed16_def fits16_def)

lemma element_pairs_bounds: "p \<in> set (element_pairs n order seed) \<Longrightarrow> fst p < 256 \<and> snd p < 65536"
  by (induction n arbitrary: order seed) (auto split: if_splits)

definition rows_A :: "int \<Rightarrow> (nat \<times> nat) list list \<Rightarrow> int list list" where
  "rows_A x = map (map (\<lambda>p. int (fst p) + x))"

definition rows_B :: "(nat \<times> nat) list list \<Rightarrow> int list list" where
  "rows_B = map (map (\<lambda>p. signed16 (snd p)))"

lemma rows_rows16:
  assumes "concat R = element_pairs (N * N) 1 seed" "rows_of N R" "0 \<le> x" "x < 256"
  shows "rows16 N (rows_A x R)" "rows16 N (rows_B R)"
    "map word_of_int (concat (rows_A x R)) = map (\<lambda>a. a + word_of_int x) (map (\<lambda>p. of_nat (fst p) :: u16) (concat R))"
    "map word_of_int (concat (rows_B R)) = map (\<lambda>p. of_nat (snd p) :: u16) (concat R)"
    "\<forall>y \<in> set (concat (rows_A x R)). 0 \<le> y \<and> y < 512"
proof -
  have b: "fst p < 256" "snd p < 65536" if "ps \<in> set R" "p \<in> set ps" for p ps
  proof -
    have "p \<in> set (element_pairs (N * N) 1 seed)" unfolding assms(1) [symmetric] using that by auto
    then show "fst p < 256" "snd p < 65536" using element_pairs_bounds by blast+
  qed
  show "rows16 N (rows_A x R)" using b assms(2-4) by (force simp: rows16_def rows_of_def rows_A_def fits16_def)
  show "rows16 N (rows_B R)" using b assms(2) by (auto simp: rows16_def rows_of_def rows_B_def signed16_fits)
  show "map word_of_int (concat (rows_A x R)) = map (\<lambda>a. a + word_of_int x) (map (\<lambda>p. of_nat (fst p) :: u16) (concat R))"
    by (simp add: rows_A_def map_concat o_def)
  show "map word_of_int (concat (rows_B R)) = map (\<lambda>p. of_nat (snd p) :: u16) (concat R)"
    by (simp add: rows_B_def map_concat o_def signed16_word)
  show "\<forall>y \<in> set (concat (rows_A x R)). 0 \<le> y \<and> y < 512" using b assms(3,4) by (force simp: rows_A_def)
qed

text \<open>The two sums that have to be evaluated.\<close>

definition open_sums :: "nat \<Rightarrow> int \<Rightarrow> (nat \<times> nat) list list \<Rightarrow> nat option \<times> nat option" where
  "open_sums N x R =
     (sum_cells (x - 4096) (map (\<lambda>xs. dot id xs (hd (rows_B R))) (rows_A x R) @ drop N (map ((*) x) (concat (rows_A x R)))) 0 0 0,
      sum_cells (x - 4096) (products id (rows_A x R) (map (column (rows_B R)) [0..<N])) 0 0 0)"

lemma rows_test:
  assumes "concat R = element_pairs (N * N) 1 seed" "rows_of N R" "0 \<le> x" "x < 256" "0 < N" "N < 1000"
    "A = map (\<lambda>p. of_nat (fst p)) (concat R)" "B = map (\<lambda>p. of_nat (snd p)) (concat R)" "length C = N * N"
    "open_sums N x R = (Some s2, Some s3)"
  shows "\<exists>C' A'. matrix_test N C A B (word_of_int x) =
    Inr (crc16 (of_nat (10 * (N * N))) (crc16 (of_nat s3) (crc16 (of_nat s2) (crc16 (of_nat (10 * (N * N))) 0))), C', A')"
proof -
  note r = rows_rows16 [OF assms(1-4)]
  let ?cols = "map (column (rows_B R)) [0..<N]"
  have clip: "x - 4096 < 0" using assms(4) by simp
  have lA: "length (concat (rows_A x R)) = N * N" "length (rows_A x R) = N" using r(1) rows16_length
    by (simp_all add: rows16_def rows_of_def)
  have "sum_cells (x - 4096) (map ((*) x) (concat (rows_A x R))) 0 0 0 = Some (0 + 10 * length (map ((*) x) (concat (rows_A x R))))"
  proof (rule sum_cells_positive [OF clip], rule ballI)
    fix z assume "z \<in> set (map ((*) x) (concat (rows_A x R)))"
    then obtain y where y: "z = x * y" "0 \<le> y" "y < 512" using r(5) by auto
    then have "x * y \<le> 256 * 512" using assms(3,4) by (intro mult_mono) simp_all
    moreover have "0 \<le> x * y" using y(2) assms(3) by simp
    ultimately show "0 \<le> z \<and> fits32 z" using y(1) by (simp add: fits32_def)
  qed
  moreover have "sum_cells (x - 4096) (products extracted (rows_A x R) ?cols) 0 0 0
      = Some (0 + 10 * length (products extracted (rows_A x R) ?cols))"
  proof (rule sum_cells_positive [OF clip], rule ballI)
    fix z assume "z \<in> set (products extracted (rows_A x R) ?cols)"
    then obtain xs ys where z: "z = dot extracted xs ys" "xs \<in> set (rows_A x R)" by (auto simp: products_def)
    then have "length xs = N" using r(1) by (simp add: rows16_def rows_of_def)
    then show "0 \<le> z \<and> fits32 z" using dot_extracted [of xs ys] z assms(6) by (simp add: fits32_def)
  qed
  ultimately have t: "test_sums N (x - 4096) x (rows_A x R) (hd (rows_B R)) ?cols = [Some (10 * (N * N)), Some s2, Some s3, Some (10 * (N * N))]"
    using assms(10) lA products_length [OF lA(2), of ?cols] by (simp add: test_sums_def open_sums_def Let_def)
  have lR: "length A = N * N" using assms(7) rows_of_length [OF assms(2)] by simp
  have sx: "sint (word_of_int x :: u16) = x" using assms(3,4) by (intro sint_word_of_int_eq_self) simp_all
  have big: "sint (matrix_big (word_of_int x)) = x - 4096" by (rule matrix_big_small [OF assms(3,4)])
  show ?thesis
    by (rule matrix_test_sums [OF r(1,2) assms(9) lR assms(5) _ _ sx big t]) (simp_all only: assms(7,8) r(3,4))
qed

text \<open>The matrices that \<^verbatim>\<open>core_init_matrix\<close> leaves, and the value of the benchmark on them.\<close>

lemma core_init_matrix_rows:
  assumes "core_init_matrix fuel blksize memblk sd oldA oldB oldC = Inr p" "matrix_dim fuel blksize 0 0 = Inr N"
    "length (oldA (N * N)) = N * N" "length (oldB (N * N)) = N * N" "(if sd = 0 then 1 else sint sd) = int seed"
    "concat R = element_pairs (N * N) 1 seed" "N * N \<le> 32768"
  shows "matN p = N \<and> matA p = map (\<lambda>q. of_nat (fst q)) (concat R) \<and> matB p = map (\<lambda>q. of_nat (snd q)) (concat R) \<and>
    matC p = oldC (N * N)"
proof -
  have "elements (N * N) (1, int seed) = map (\<lambda>(a, b). (of_nat a, of_nat b)) (concat R)"
    using elements_pairs [of "N * N" 1 seed] assms(6) by simp
  then have "fill_matrices N (int seed) (oldA (N * N)) (oldB (N * N))
      = Inr (map (\<lambda>q. of_nat (fst q)) (concat R), map (\<lambda>q. of_nat (snd q)) (concat R))"
    using fill_matrices_elements [OF assms(3,4,7), of "int seed"] seed_fits [of sd] assms(5) by (simp add: o_def case_prod_unfold)
  then show ?thesis using assms(1,2,5) by (auto simp: core_init_matrix_def Let_def)
qed

lemma matrix_value_rows:
  assumes "matN (res_mat s) = N" "matA (res_mat s) = map (\<lambda>q. of_nat (fst q)) (concat R)"
    "matB (res_mat s) = map (\<lambda>q. of_nat (snd q)) (concat R)" "length (matC (res_mat s)) = N * N"
    "concat R = element_pairs (N * N) 1 seed" "rows_of N R" "0 \<le> x" "x < 256" "0 < N" "N < 1000"
    "open_sums N x R = (Some s2, Some s3)"
  shows "matrix_value s (word_of_int x) crc =
    crc16 (crc16 (of_nat (10 * (N * N))) (crc16 (of_nat s3) (crc16 (of_nat s2) (crc16 (of_nat (10 * (N * N))) 0)))) crc"
proof -
  obtain C' A' where "matrix_test N (matC (res_mat s)) (matA (res_mat s)) (matB (res_mat s)) (word_of_int x) =
    Inr (crc16 (of_nat (10 * (N * N))) (crc16 (of_nat s3) (crc16 (of_nat s2) (crc16 (of_nat (10 * (N * N))) 0))), C', A')"
    using rows_test [OF assms(5-10,2,3,4,11)] by blast
  then show ?thesis using assms(1) by (simp add: matrix_value_def core_bench_matrix_def)
qed

end
