(* ===== verification/CMTokens.thy ===== *)
theory CMTokens
  imports CMSpec CMMain
begin

text \<open>
  The text of \<^verbatim>\<open>core_state.c\<close> as a sequence of tokens: what the initialisation writes for a seed,
  what a scan counts as a list of events, and the value of the benchmark from these counts.
\<close>

section \<open>What a scan counts\<close>

text \<open>The kinds of characters the scanner tells apart.\<close>

datatype kind = Zero | Comma | Sign | Dot | Digit | Letter | Other

definition kind_of :: "u8 \<Rightarrow> kind" where
  "kind_of c =
     (if c = 0 then Zero else if c = ch_comma then Comma else if c = ch_plus \<or> c = ch_minus then Sign
      else if c = ch_dot then Dot else if ee_isdigit c then Digit
      else if c = ch_E \<or> c = ch_e then Letter else Other)"

text \<open>The next state, and the counters that a step increments.\<close>

fun move :: "CORE_STATE \<Rightarrow> kind \<Rightarrow> CORE_STATE \<times> CORE_STATE list" where
  "move CORE_START k =
     (case k of Digit \<Rightarrow> (CORE_INT, [CORE_START]) | Sign \<Rightarrow> (CORE_S1, [CORE_START]) | Dot \<Rightarrow> (CORE_FLOAT, [CORE_START])
      | _ \<Rightarrow> (CORE_INVALID, [CORE_INVALID, CORE_START]))"
| "move CORE_S1 k =
     (case k of Digit \<Rightarrow> (CORE_INT, [CORE_S1]) | Dot \<Rightarrow> (CORE_FLOAT, [CORE_S1]) | _ \<Rightarrow> (CORE_INVALID, [CORE_S1]))"
| "move CORE_INT k =
     (case k of Dot \<Rightarrow> (CORE_FLOAT, [CORE_INT]) | Digit \<Rightarrow> (CORE_INT, []) | _ \<Rightarrow> (CORE_INVALID, [CORE_INT]))"
| "move CORE_FLOAT k =
     (case k of Letter \<Rightarrow> (CORE_S2, [CORE_FLOAT]) | Digit \<Rightarrow> (CORE_FLOAT, []) | _ \<Rightarrow> (CORE_INVALID, [CORE_FLOAT]))"
| "move CORE_S2 k = (case k of Sign \<Rightarrow> (CORE_EXPONENT, [CORE_S2]) | _ \<Rightarrow> (CORE_INVALID, [CORE_S2]))"
| "move CORE_EXPONENT k =
     (case k of Digit \<Rightarrow> (CORE_SCIENTIFIC, [CORE_EXPONENT]) | _ \<Rightarrow> (CORE_INVALID, [CORE_EXPONENT]))"
| "move CORE_SCIENTIFIC k = (case k of Digit \<Rightarrow> (CORE_SCIENTIFIC, []) | _ \<Rightarrow> (CORE_INVALID, [CORE_INVALID]))"
| "move CORE_INVALID k = (CORE_INVALID, [])"

definition plus_counts :: "counts \<Rightarrow> CORE_STATE list \<Rightarrow> counts" where
  "plus_counts c ss = (\<lambda>s. c s + of_nat (count_list ss s))"

lemma plus_counts_simps:
  "plus_counts c [] = c" "plus_counts c (s # ss) = plus_counts (incr s c) ss"
  "plus_counts (plus_counts c ss) ts = plus_counts c (ss @ ts)"
  by (auto simp: plus_counts_def incr_def fun_eq_iff)

declare plus_counts_simps [simp]

lemma kind_iff:
  "c = 0 \<longleftrightarrow> kind_of c = Zero" "c = ch_comma \<longleftrightarrow> kind_of c = Comma" "c = ch_dot \<longleftrightarrow> kind_of c = Dot"
  "(c = ch_plus \<or> c = ch_minus) \<longleftrightarrow> kind_of c = Sign" "ee_isdigit c \<longleftrightarrow> kind_of c = Digit"
  "(c = ch_E \<or> c = ch_e) \<longleftrightarrow> kind_of c = Letter"
  by (auto simp: kind_of_def ch_comma_def ch_dot_def ch_plus_def ch_minus_def ch_E_def ch_e_def)
    (auto simp: ee_isdigit_def ch_0_def ch_9_def)

lemma fsm_step_move:
  assumes "kind_of c \<noteq> Zero" "kind_of c \<noteq> Comma"
  shows "fsm_step st c cnt = (fst (move st (kind_of c)), plus_counts cnt (snd (move st (kind_of c))))"
  unfolding fsm_step_def kind_iff using assms by (cases st; cases "kind_of c") simp_all

text \<open>
  All that a scan of the whole text counts, in order: the states of the steps and the final states
  of the tokens.  An invalid token ends before the character that follows the one that made it
  invalid.
\<close>

datatype event = Track CORE_STATE | Final CORE_STATE

fun events :: "kind list \<Rightarrow> CORE_STATE \<Rightarrow> event list" where
  "events [] st = []"
| "events (k # ks) st =
     (if k = Zero then (if st = CORE_START then [] else [Final st])
      else (if st = CORE_INVALID then [Final CORE_INVALID] else []) @
        (let st = (if st = CORE_INVALID then CORE_START else st)
         in if k = Comma then Final st # events ks CORE_START
            else map Track (snd (move st k)) @ events ks (fst (move st k))))"

definition finals :: "counts \<Rightarrow> event list \<Rightarrow> counts" where
  "finals c es = (\<lambda>s. c s + of_nat (count_list es (Final s)))"

definition tracks :: "counts \<Rightarrow> event list \<Rightarrow> counts" where
  "tracks c es = (\<lambda>s. c s + of_nat (count_list es (Track s)))"

lemma finals_simps [simp]:
  "finals c [] = c" "finals c (Final s # es) = finals (incr s c) es" "finals c (Track s # es) = finals c es"
  "finals c (map Track ss @ es) = finals c es"
  by (auto simp: finals_def incr_def count_list_append) (induction ss; simp)

lemma tracks_simps [simp]:
  "tracks c [] = c" "tracks c (Track s # es) = tracks (incr s c) es" "tracks c (Final s # es) = tracks c es"
  "tracks c (map Track ss @ es) = tracks (plus_counts c ss) es"
proof -
  show "tracks c [] = c" "tracks c (Track s # es) = tracks (incr s c) es" "tracks c (Final s # es) = tracks c es"
    by (auto simp: tracks_def incr_def)
  show "tracks c (map Track ss @ es) = tracks (plus_counts c ss) es"
  proof -
    have "count_list (map Track ss) (Track s) = count_list ss s" for s by (induction ss) simp_all
    then show ?thesis by (simp add: tracks_def plus_counts_def count_list_append fun_eq_iff)
  qed
qed

definition rest_scan :: "u8 list \<Rightarrow> nat \<Rightarrow> CORE_STATE \<Rightarrow> counts \<Rightarrow> counts \<Rightarrow> kfault + (counts \<times> counts)" where
  "rest_scan m i st final track =
     (case transition_loop m i st track of
        Inl e \<Rightarrow> Inl e
      | Inr (j, st, track) \<Rightarrow> scan_all m j (incr st final) track)"

lemma move_not_start: "fst (move st k) \<noteq> CORE_START" if "st = CORE_START \<longrightarrow> True"
  by (cases st; cases k) simp_all

lemma rest_scan_step:
  assumes "i < length m" "kind_of (m ! i) = k" "st \<noteq> CORE_INVALID" "k \<noteq> Zero"
  shows "rest_scan m i st f t =
    (if k = Comma then scan_all m (i + 1) (incr st f) t
     else rest_scan m (i + 1) (fst (move st k)) f (plus_counts t (snd (move st k))))"
  using assms fsm_step_move [of "m ! i" st t] kind_iff(1,2) [of "m ! i"]
  by (simp add: rest_scan_def transition_loop.simps [of m i])

lemma scan_all_start:
  assumes "i < length m" "m ! i \<noteq> 0"
  shows "scan_all m i f t = rest_scan m i CORE_START f t"
  using assms by (subst scan_all.simps) (simp add: rest_scan_def core_state_transition_def)

lemma scan_events:
  "drop i m = bs \<Longrightarrow> 0 \<in> set bs \<Longrightarrow>
     (st \<noteq> CORE_START \<longrightarrow> rest_scan m i st f t =
        Inr (finals f (events (map kind_of bs) st), tracks t (events (map kind_of bs) st))) \<and>
     scan_all m i f t = Inr (finals f (events (map kind_of bs) CORE_START), tracks t (events (map kind_of bs) CORE_START))"
proof (induction bs arbitrary: i st f t)
  case (Cons b bs)
  have i: "i < length m" using Cons.prems(1) by (cases "i < length m") simp_all
  have b: "m ! i = b" "drop (Suc i) m = bs"
    using Cons_nth_drop_Suc [OF i] Cons.prems(1) by simp_all
  show ?case
  proof (cases "b = 0")
    case True
    then have "kind_of b = Zero" using kind_iff(1) by simp
    then show ?thesis using True i b
      by (simp add: rest_scan_def transition_loop.simps [of m i] scan_all.simps [of m i])
  next
    case False
    let ?k = "kind_of b"
    have k: "?k \<noteq> Zero" using False kind_iff(1) by simp
    have "0 \<in> set bs" using Cons.prems(2) False by simp
    note IH = Cons.IH [of "Suc i", OF b(2) this]
    have live: "rest_scan m i st f t = Inr (finals f (events (?k # map kind_of bs) st), tracks t (events (?k # map kind_of bs) st))"
      if "st \<noteq> CORE_INVALID" for st f t
    proof (cases "?k = Comma")
      case True
      then show ?thesis using rest_scan_step [OF i _ that k] IH b(1) that by simp
    next
      case False
      then show ?thesis
        using rest_scan_step [OF i _ that k, of f t] IH [of "fst (move st ?k)" f "plus_counts t (snd (move st ?k))"]
          move_not_start b(1) that k by simp
    qed
    have start: "scan_all m i f t = Inr (finals f (events (?k # map kind_of bs) CORE_START), tracks t (events (?k # map kind_of bs) CORE_START))" for f t
      using live [of CORE_START f t] scan_all_start [OF i, of f t] b(1) False by simp
    have "rest_scan m i CORE_INVALID f t = scan_all m i (incr CORE_INVALID f) t"
      using i b(1) False by (simp add: rest_scan_def transition_loop.simps [of m i])
    then have "rest_scan m i CORE_INVALID f t
        = Inr (finals f (events (?k # map kind_of bs) CORE_INVALID), tracks t (events (?k # map kind_of bs) CORE_INVALID))"
      using start [of "incr CORE_INVALID f" t] k by simp
    then show ?thesis using live [of st f t] start by (cases "st = CORE_INVALID") simp_all
  qed
qed simp

lemma scan_all_events:
  assumes "0 \<in> set m"
  shows "scan_all m 0 f t = Inr (finals f (events (map kind_of m) CORE_START), tracks t (events (map kind_of m) CORE_START))"
  using scan_events [of 0 m m CORE_START f t] assms by simp

section \<open>The initial text\<close>

fun tokens :: "nat \<Rightarrow> nat \<Rightarrow> u16 \<Rightarrow> u8 list list" where
  "tokens 0 room seed = []"
| "tokens (Suc k) room seed =
     (case pick_pattern seed of (buf, n) \<Rightarrow> if n + 1 < room then buf # tokens k (room - (n + 1)) (seed + 1) else [])"

lemma fill_loop_tokens:
  "pick_pattern seed = (buf, n) \<Longrightarrow> sz \<le> length p \<Longrightarrow> length p < 2 ^ 32 - 16 \<Longrightarrow> tot \<le> sz \<Longrightarrow> sz - tot \<le> k \<Longrightarrow>
     fill_loop sz tot n buf seed p =
       (let T = text_of (tokens k (sz - tot) seed) in Inr (tot + length T, take tot p @ T @ drop (tot + length T) p))"
proof (induction k arbitrary: seed buf n tot p)
  case 0
  then have "\<not> (tot + n + 1) mod 2 ^ 32 < sz" using pick_pattern_in [OF 0(1)] by simp
  then show ?case using 0 by (subst fill_loop.simps) simp
next
  case (Suc k)
  note pk = pick_pattern_in [OF Suc.prems(1)]
  show ?case
  proof (cases "tot + n + 1 < sz")
    case False
    then have "\<not> (tot + n + 1) mod 2 ^ 32 < sz" using Suc.prems pk by simp
    moreover have "\<not> n + 1 < sz - tot" using False by simp
    ultimately show ?thesis using Suc.prems(1) by (subst fill_loop.simps) (simp add: Let_def)
  next
    case True
    obtain buf' n' where pick: "pick_pattern (seed + 1) = (buf', n')" by (rule prod.exhaust)
    have n: "0 < n" by (rule pick_pattern_pos [OF Suc.prems(1)])
    let ?p = "take tot p @ (buf @ [ch_comma]) @ drop (tot + n + 1) p"
    have put: "put_bytes tot (take n buf @ [ch_comma]) p = Inr ?p"
      using True Suc.prems pk by (simp add: put_bytes_def)
    let ?T = "text_of (tokens k (sz - (tot + n + 1)) (seed + 1))"
    have e: "fill_loop sz tot n buf seed p = fill_loop sz (tot + n + 1) n' buf' (seed + 1) ?p"
      using True Suc.prems pick put n by (subst fill_loop.simps) simp
    have len: "length ?p = length p" using put_bytes_length [OF put] .
    have r: "fill_loop sz (tot + n + 1) n' buf' (seed + 1) ?p
        = Inr (tot + n + 1 + length ?T, take (tot + n + 1) ?p @ ?T @ drop (tot + n + 1 + length ?T) ?p)"
      using Suc.IH [OF pick, of ?p "tot + n + 1"] len Suc.prems True by (simp add: Let_def)
    have "take (tot + n + 1) ?p = take tot p @ buf @ [ch_comma]"
      "drop (tot + n + 1 + length ?T) ?p = drop (tot + n + 1 + length ?T) p"
      using True Suc.prems pk by (simp_all add: ac_simps)
    moreover have "text_of (tokens (Suc k) (sz - tot) seed) = buf @ [ch_comma] @ ?T"
      using True Suc.prems(1) by (simp add: text_of_def)
    ultimately show ?thesis using e r pk by (simp add: Let_def ac_simps)
  qed
qed

lemma core_init_state_tokens:
  assumes "2 \<le> sz" "sz \<le> length p" "length p < 2 ^ 32 - 16" "T = text_of (tokens (sz - 1) (sz - 1) (seed + 1))" "length T \<le> sz"
  shows "core_init_state sz seed p = Inr (T @ replicate (sz - length T) 0 @ drop sz p)"
proof -
  obtain buf n where pick: "pick_pattern (seed + 1) = (buf, n)" by (rule prod.exhaust)
  note n = pick_pattern_in [OF pick] pick_pattern_pos [OF pick]
  have m: "(sz + 2 ^ 32 - 1) mod 2 ^ 32 = sz - 1" using mod_add_self2 [of "sz - 1" "2 ^ 32"] assms(1-3) by simp
  have "fill_loop (sz - 1) 0 0 [] seed p = fill_loop (sz - 1) 0 n buf (seed + 1) p"
  proof (cases "sz = 2")
    case True
    have "fill_loop 1 0 0 [] seed p = Inr (0, p)" by (subst fill_loop.simps) simp
    moreover have "fill_loop 1 0 n buf (seed + 1) p = Inr (0, p)"
      using n by (subst fill_loop.simps) simp
    ultimately show ?thesis using True by simp
  next
    case False
    then have "1 < sz - 1" using assms(1) by simp
    then show ?thesis using pick by (subst fill_loop.simps) simp
  qed
  also have "\<dots> = Inr (length T, T @ drop (length T) p)"
    using fill_loop_tokens [OF pick, of "sz - 1" p 0 "sz - 1"] assms by (simp add: Let_def)
  finally show ?thesis
    using assms m by (simp add: core_init_state_def put_bytes_def)
qed

section \<open>The tokens by their numbers\<close>

definition pattern_no :: "nat \<Rightarrow> nat" where
  "pattern_no m = (let k = m div 8 mod 4; s = m mod 8
     in if s < 3 then k else if s < 5 then 4 + k else if s < 7 then 8 + k else 12 + k)"

definition token_size :: "nat \<Rightarrow> nat" where
  "token_size i = (if i < 4 then 5 else 9)"

fun token_nos :: "nat \<Rightarrow> nat \<Rightarrow> nat \<Rightarrow> nat list" where
  "token_nos 0 room m = []"
| "token_nos (Suc k) room m =
     (case pattern_no m of i \<Rightarrow> if token_size i < room then i # token_nos k (room - token_size i) (m + 1) else [])"

lemma pick_pattern_no:
  "m < 65536 \<Longrightarrow> pick_pattern (of_nat m) = (patterns ! pattern_no m, token_size (pattern_no m) - 1)"
proof -
  assume "m < 65536"
  then have u: "unat (of_nat m :: u16) = m" by (simp add: unat_of_nat)
  have "unat (take_bit 3 w) = unat w mod 8" "unat (take_bit 2 w) = unat w mod 4" for w :: u16
    by (simp_all only: unsigned_take_bit_eq) (simp_all add: take_bit_eq_mod)
  moreover have "take_bit 3 w = w AND 7" "take_bit 2 w = w AND 3" for w :: u16
    by (simp_all only: take_bit_eq_mask) (simp_all add: mask_eq_exp_minus_1)
  ultimately have l: "unat (w AND 7) = unat w mod 8" "unat (w AND 3) = unat w mod 4" for w :: u16 by simp_all
  have d: "unat (drop_bit 3 (of_nat m :: u16)) = m div 8"
    by (simp only: unsigned_drop_bit_eq u) (use \<open>m < 65536\<close> in \<open>simp add: drop_bit_eq_div take_bit_eq_mod\<close>)
  have k: "unat (drop_bit 3 (of_nat m :: u16) AND 3) = m div 8 mod 4" by (simp only: l d)
  have s: "(of_nat m :: u16) AND 7 = of_nat (m mod 8)"
    by (rule word_unat_eq_iff [THEN iffD2]) (use \<open>m < 65536\<close> in \<open>simp add: l u unat_of_nat\<close>)
  have e: "(of_nat (m mod 8) :: u16) = of_nat j \<longleftrightarrow> m mod 8 = j" if "j < 8" for j
    using that by (simp add: word_unat_eq_iff unat_of_nat)
  have e': "of_nat (m mod 8) = (0 :: u16) \<longleftrightarrow> m mod 8 = 0" "of_nat (m mod 8) = (1 :: u16) \<longleftrightarrow> m mod 8 = 1"
    "of_nat (m mod 8) = (2 :: u16) \<longleftrightarrow> m mod 8 = 2" "of_nat (m mod 8) = (3 :: u16) \<longleftrightarrow> m mod 8 = 3"
    "of_nat (m mod 8) = (4 :: u16) \<longleftrightarrow> m mod 8 = 4" "of_nat (m mod 8) = (5 :: u16) \<longleftrightarrow> m mod 8 = 5"
    "of_nat (m mod 8) = (6 :: u16) \<longleftrightarrow> m mod 8 = 6"
    using e [of 0] e [of 1] e [of 2] e [of 3] e [of 4] e [of 5] e [of 6] by simp_all
  have l4: "length intpat = 4" "length floatpat = 4" "length scipat = 4"
    by (simp_all add: intpat_def floatpat_def scipat_def)
  have p: "patterns ! i = intpat ! i" "patterns ! (4 + i) = floatpat ! i" "patterns ! (8 + i) = scipat ! i"
    "patterns ! (12 + i) = errpat ! i" if "i < 4" for i
    using that by (simp_all add: patterns_def nth_append l4)
  have k4: "m div 8 mod 4 < 4" by simp
  show ?thesis
    using p [OF k4] k4 unfolding pick_pattern_def Let_def k s e' pattern_no_def
    by (simp add: token_size_def)
qed

lemma tokens_nos:
  "m + k \<le> 65536 \<Longrightarrow> tokens k room (of_nat m) = map ((!) patterns) (token_nos k room m)"
proof (induction k arbitrary: room m)
  case (Suc k)
  have "of_nat m + 1 = (of_nat (m + 1) :: u16)" by (simp add: add.commute)
  moreover have "0 < token_size i" "Suc (token_size i - 1) = token_size i" for i by (simp_all add: token_size_def)
  ultimately show ?case
    using Suc.IH [of "m + 1"] Suc.prems pick_pattern_no [of m] by (simp add: add.commute)
qed simp

section \<open>The corrupted text\<close>

text \<open>Every \<open>step\<close>-th byte from the \<open>j\<close>-th on is combined with the seed, unless it is a comma.\<close>

fun corrupt_walk :: "nat \<Rightarrow> u8 \<Rightarrow> nat \<Rightarrow> u8 list \<Rightarrow> u8 list" where
  "corrupt_walk step seed j [] = []"
| "corrupt_walk step seed j (b # bs) =
     (if j = 0 then (if b = ch_comma then b else b XOR seed) # corrupt_walk step seed (step - 1) bs
      else b # corrupt_walk step seed (j - 1) bs)"

lemma corrupt_walk_length [simp]: "length (corrupt_walk step seed j bs) = length bs"
  by (induction step seed j bs rule: corrupt_walk.induct) simp_all

lemma corrupt_walk_nth:
  "0 < step \<Longrightarrow> j < step \<Longrightarrow> k < length bs \<Longrightarrow> i + j = n * step \<Longrightarrow>
     corrupt_walk step seed j bs ! k = (if step dvd i + k \<and> bs ! k \<noteq> ch_comma then bs ! k XOR seed else bs ! k)"
proof (induction bs arbitrary: j k i n)
  case (Cons b bs)
  show ?case
  proof (cases k)
    case 0
    have "step dvd i \<longleftrightarrow> j = 0"
    proof
      assume "step dvd i"
      then have "step dvd (n * step - i)" by simp
      then show "j = 0" using Cons.prems(2,4) by (metis add_diff_cancel_left' dvd_imp_le not_gr_zero not_le)
    qed (use Cons.prems(4) in simp)
    then show ?thesis using 0 by simp
  next
    case (Suc l)
    show ?thesis
    proof (cases "j = 0")
      case True
      have "i + 1 + (step - 1) = (n + 1) * step" using True Cons.prems(1,4) by simp
      then show ?thesis
        using Cons.IH [of "step - 1" l "i + 1" "n + 1"] Cons.prems(1,3) True Suc by simp
    next
      case False
      then have "i + 1 + (j - 1) = n * step" using Cons.prems(4) by simp
      then show ?thesis using Cons.IH [of "j - 1" l "i + 1" n] Cons.prems(1-3) False Suc by simp
    qed
  qed
qed simp

lemma corrupt_walks:
  assumes "sint step = int n" "0 < n"
  shows "corrupt (length m) seed step m = Inr (corrupt_walk n (ucast seed) 0 m)"
proof -
  obtain m' where m': "corrupt (length m) seed step m = Inr m'" "length m' = length m"
    "\<forall>k < length m. m' ! k = corrupted (length m) n (ucast seed) m k"
    using corrupt_nth [of step "length m" m seed] assms by auto
  have "m' = corrupt_walk n (ucast seed) 0 m"
    by (rule nth_equalityI) (use m' corrupt_walk_nth [of n 0 _ m 0 0] assms in \<open>auto simp: corrupted_def\<close>)
  then show ?thesis using m' by simp
qed

section \<open>The value of the text benchmark\<close>

definition counts_crc :: "nat list \<Rightarrow> nat list \<Rightarrow> u16 \<Rightarrow> u16" where
  "counts_crc fs ts crc = foldl (\<lambda>crc (f, t). crcu32 (of_nat t) (crcu32 (of_nat f) crc)) crc (zip fs ts)"

definition final_counts :: "event list \<Rightarrow> nat list" where
  "final_counts es = map (\<lambda>st. count_list es (Final st)) all_states"

definition track_counts :: "event list \<Rightarrow> nat list" where
  "track_counts es = map (\<lambda>st. count_list es (Track st)) all_states"

definition text_events :: "u8 list \<Rightarrow> event list" where
  "text_events m = events (map kind_of m) CORE_START"

lemma text_value_counts:
  assumes "res_size s = length m" "res_text s = m" "sint step = int n" "0 < n"
    "m' = corrupt_walk n (ucast (res_seed1 s)) 0 m" "0 \<in> set m" "0 \<in> set m'"
  shows "text_value s step crc =
    counts_crc (final_counts (text_events m @ text_events m')) (track_counts (text_events m @ text_events m')) crc"
proof -
  have l: "length m' = length m" by (simp add: assms(5))
  have c: "corrupt (length m) (res_seed1 s) step m = Inr m'"
    "\<exists>m''. corrupt (length m) (res_seed2 s) step m' = Inr m''"
    using corrupt_walks [OF assms(3,4), of m] corrupt_walks [OF assms(3,4), of m'] assms(5) l by simp_all
  have e: "finals (finals (\<lambda>_. 0) es) es' = (\<lambda>st. of_nat (count_list (es @ es') (Final st)))"
    "tracks (tracks (\<lambda>_. 0) es) es' = (\<lambda>st. of_nat (count_list (es @ es') (Track st)))" for es es'
    by (simp_all add: finals_def tracks_def count_list_append)
  have z: "zip (map f xs) (map g xs) = map (\<lambda>x. (f x, g x)) xs" for f g and xs :: "CORE_STATE list"
    by (simp add: zip_map_map zip_same_conv_map)
  obtain m'' where "corrupt (length m) (res_seed2 s) step m' = Inr m''" using c(2) ..
  then show ?thesis
    using c(1) by (simp add: text_value_def core_bench_state_def assms(1,2) scan_all_events assms(6,7) e
        flip: text_events_def) (simp add: counts_crc_def final_counts_def track_counts_def z foldl_map)
qed

lemma counts_crc_simps:
  "counts_crc [] [] crc = crc"
  "f < 65536 \<Longrightarrow> t < 65536 \<Longrightarrow> counts_crc (f # fs) (t # ts) crc =
     counts_crc fs ts (crcu16 0 (crcu16 (of_nat t) (crcu16 0 (crcu16 (of_nat f) crc))))"
proof -
  have c: "crcu32 (of_nat n) c = crcu16 0 (crcu16 (of_nat n) c)" if "n < 65536" for n c
  proof -
    have "drop_bit 16 (of_nat n :: u32) = 0"
    proof -
      have "unat (of_nat n :: u32) = n" using that by (simp add: unat_of_nat)
      then have "unat (drop_bit 16 (of_nat n :: u32)) = drop_bit 16 (take_bit 32 n)"
        by (simp only: unsigned_drop_bit_eq) simp
      also have "\<dots> = 0" using that by (simp add: drop_bit_eq_div take_bit_eq_mod)
      finally show ?thesis by (simp only: unat_eq_0)
    qed
    moreover have "ucast (of_nat n :: u32) = (of_nat n :: u16)" using that by (simp add: word_unat_eq_iff unat_of_nat unsigned_ucast_eq take_bit_eq_mod)
    ultimately show ?thesis by (simp add: crcu32_def crc16_def)
  qed
  show "counts_crc [] [] crc = crc" by (simp add: counts_crc_def)
  show "counts_crc (f # fs) (t # ts) crc =
     counts_crc fs ts (crcu16 0 (crcu16 (of_nat t) (crcu16 0 (crcu16 (of_nat f) crc))))" if "f < 65536" "t < 65536"
    using that by (simp add: counts_crc_def c)
qed

end
