(* ===== verification/CMRun.thy ===== *)
theory CMRun
  imports CMFast CMCells CMTokens
begin

text \<open>
  The performance run and the validation run of \<^verbatim>\<open>core_portme.c\<close>, evaluated: the items of the
  list, the text and the matrices that their seeds give, the two searches, the evaluation of the
  items, and the checksums of one round.  The explicit values were computed outside and are proved
  here by rewriting; the theorem that rests on them is in \<open>CMKnown\<close>.
\<close>

section \<open>Rules for the evaluation\<close>

lemmas bool_eval = if_True if_False not_True_eq_False not_False_eq_True refl simp_thms prod.case list.case option.case

lemmas num_eval = pred_numeral_simps arith_simps rel_simps numeral_One one_add_one numeral_plus_one one_plus_numeral
  add_num_simps add_0_left add_0_right

lemma pattern_table:
  "patterns ! 0 = [53, 48, 49, 50]" "patterns ! 1 = [49, 50, 51, 52]" "patterns ! 2 = [45, 56, 55, 52]"
  "patterns ! 3 = [43, 49, 50, 50]" "patterns ! 4 = [51, 53, 46, 53, 52, 52, 48, 48]"
  "patterns ! 5 = [46, 49, 50, 51, 52, 53, 48, 48]" "patterns ! 6 = [45, 49, 49, 48, 46, 55, 48, 48]"
  "patterns ! 7 = [43, 48, 46, 54, 52, 52, 48, 48]" "patterns ! 8 = [53, 46, 53, 48, 48, 101, 43, 51]"
  "patterns ! 9 = [45, 46, 49, 50, 51, 101, 45, 50]" "patterns ! 10 = [45, 56, 55, 101, 43, 56, 51, 50]"
  "patterns ! 11 = [43, 48, 46, 54, 101, 45, 49, 50]" "patterns ! 12 = [84, 48, 46, 51, 101, 45, 49, 70]"
  "patterns ! 13 = [45, 84, 46, 84, 43, 43, 84, 113]" "patterns ! 14 = [49, 84, 51, 46, 52, 101, 52, 122]"
  "patterns ! 15 = [51, 52, 46, 48, 101, 45, 84, 94]"
  by (simp_all add: patterns_def intpat_def floatpat_def scipat_def errpat_def bytes_def)

lemma kind_table:
  "kind_of 0 = Zero" "kind_of 21 = Other" "kind_of 32 = Other" "kind_of 33 = Other" "kind_of 34 = Other"
  "kind_of 35 = Other" "kind_of 36 = Other" "kind_of 37 = Other" "kind_of 38 = Other" "kind_of 39 = Other"
  "kind_of 43 = Sign" "kind_of 44 = Comma" "kind_of 45 = Sign" "kind_of 46 = Dot" "kind_of 48 = Digit"
  "kind_of 49 = Digit" "kind_of 50 = Digit" "kind_of 51 = Digit" "kind_of 52 = Digit" "kind_of 53 = Digit"
  "kind_of 54 = Digit" "kind_of 55 = Digit" "kind_of 56 = Digit" "kind_of 59 = Other" "kind_of 62 = Other"
  "kind_of 65 = Other" "kind_of 70 = Other" "kind_of 75 = Other" "kind_of 83 = Other" "kind_of 84 = Other"
  "kind_of 94 = Other" "kind_of 100 = Other" "kind_of 101 = Letter" "kind_of 111 = Other" "kind_of 112 = Other"
  "kind_of 113 = Other" "kind_of 122 = Other"
  by (simp_all add: kind_of_def ch_defs ee_isdigit_def)

lemma comma_table:
  "(0 :: u8) = 44 \<longleftrightarrow> False" "(43 :: u8) = 44 \<longleftrightarrow> False"
  "(45 :: u8) = 44 \<longleftrightarrow> False" "(46 :: u8) = 44 \<longleftrightarrow> False"
  "(48 :: u8) = 44 \<longleftrightarrow> False" "(49 :: u8) = 44 \<longleftrightarrow> False"
  "(50 :: u8) = 44 \<longleftrightarrow> False" "(51 :: u8) = 44 \<longleftrightarrow> False"
  "(52 :: u8) = 44 \<longleftrightarrow> False" "(53 :: u8) = 44 \<longleftrightarrow> False"
  "(54 :: u8) = 44 \<longleftrightarrow> False" "(55 :: u8) = 44 \<longleftrightarrow> False"
  "(56 :: u8) = 44 \<longleftrightarrow> False" "(70 :: u8) = 44 \<longleftrightarrow> False"
  "(84 :: u8) = 44 \<longleftrightarrow> False" "(94 :: u8) = 44 \<longleftrightarrow> False"
  "(101 :: u8) = 44 \<longleftrightarrow> False" "(113 :: u8) = 44 \<longleftrightarrow> False"
  "(122 :: u8) = 44 \<longleftrightarrow> False"
  by simp_all

lemma events_table:
  "events (Digit # ks) CORE_START = Track CORE_START # events ks CORE_INT"
  "events (Sign # ks) CORE_START = Track CORE_START # events ks CORE_S1"
  "events (Dot # ks) CORE_START = Track CORE_START # events ks CORE_FLOAT"
  "events (Letter # ks) CORE_START = Track CORE_INVALID # Track CORE_START # events ks CORE_INVALID"
  "events (Other # ks) CORE_START = Track CORE_INVALID # Track CORE_START # events ks CORE_INVALID"
  "events (Comma # ks) CORE_START = Final CORE_START # events ks CORE_START" "events (Zero # ks) CORE_START = []"
  "events (Digit # ks) CORE_INVALID = Final CORE_INVALID # Track CORE_START # events ks CORE_INT"
  "events (Sign # ks) CORE_INVALID = Final CORE_INVALID # Track CORE_START # events ks CORE_S1"
  "events (Dot # ks) CORE_INVALID = Final CORE_INVALID # Track CORE_START # events ks CORE_FLOAT"
  "events (Letter # ks) CORE_INVALID = Final CORE_INVALID # Track CORE_INVALID # Track CORE_START # events ks CORE_INVALID"
  "events (Other # ks) CORE_INVALID = Final CORE_INVALID # Track CORE_INVALID # Track CORE_START # events ks CORE_INVALID"
  "events (Comma # ks) CORE_INVALID = Final CORE_INVALID # Final CORE_START # events ks CORE_START"
  "events (Zero # ks) CORE_INVALID = [Final CORE_INVALID]"
  "events (Digit # ks) CORE_S1 = Track CORE_S1 # events ks CORE_INT"
  "events (Sign # ks) CORE_S1 = Track CORE_S1 # events ks CORE_INVALID"
  "events (Dot # ks) CORE_S1 = Track CORE_S1 # events ks CORE_FLOAT"
  "events (Letter # ks) CORE_S1 = Track CORE_S1 # events ks CORE_INVALID"
  "events (Other # ks) CORE_S1 = Track CORE_S1 # events ks CORE_INVALID"
  "events (Comma # ks) CORE_S1 = Final CORE_S1 # events ks CORE_START" "events (Zero # ks) CORE_S1 = [Final CORE_S1]"
  "events (Digit # ks) CORE_S2 = Track CORE_S2 # events ks CORE_INVALID"
  "events (Sign # ks) CORE_S2 = Track CORE_S2 # events ks CORE_EXPONENT"
  "events (Dot # ks) CORE_S2 = Track CORE_S2 # events ks CORE_INVALID"
  "events (Letter # ks) CORE_S2 = Track CORE_S2 # events ks CORE_INVALID"
  "events (Other # ks) CORE_S2 = Track CORE_S2 # events ks CORE_INVALID"
  "events (Comma # ks) CORE_S2 = Final CORE_S2 # events ks CORE_START" "events (Zero # ks) CORE_S2 = [Final CORE_S2]"
  "events (Digit # ks) CORE_INT = events ks CORE_INT"
  "events (Sign # ks) CORE_INT = Track CORE_INT # events ks CORE_INVALID"
  "events (Dot # ks) CORE_INT = Track CORE_INT # events ks CORE_FLOAT"
  "events (Letter # ks) CORE_INT = Track CORE_INT # events ks CORE_INVALID"
  "events (Other # ks) CORE_INT = Track CORE_INT # events ks CORE_INVALID"
  "events (Comma # ks) CORE_INT = Final CORE_INT # events ks CORE_START"
  "events (Zero # ks) CORE_INT = [Final CORE_INT]" "events (Digit # ks) CORE_FLOAT = events ks CORE_FLOAT"
  "events (Sign # ks) CORE_FLOAT = Track CORE_FLOAT # events ks CORE_INVALID"
  "events (Dot # ks) CORE_FLOAT = Track CORE_FLOAT # events ks CORE_INVALID"
  "events (Letter # ks) CORE_FLOAT = Track CORE_FLOAT # events ks CORE_S2"
  "events (Other # ks) CORE_FLOAT = Track CORE_FLOAT # events ks CORE_INVALID"
  "events (Comma # ks) CORE_FLOAT = Final CORE_FLOAT # events ks CORE_START"
  "events (Zero # ks) CORE_FLOAT = [Final CORE_FLOAT]"
  "events (Digit # ks) CORE_EXPONENT = Track CORE_EXPONENT # events ks CORE_SCIENTIFIC"
  "events (Sign # ks) CORE_EXPONENT = Track CORE_EXPONENT # events ks CORE_INVALID"
  "events (Dot # ks) CORE_EXPONENT = Track CORE_EXPONENT # events ks CORE_INVALID"
  "events (Letter # ks) CORE_EXPONENT = Track CORE_EXPONENT # events ks CORE_INVALID"
  "events (Other # ks) CORE_EXPONENT = Track CORE_EXPONENT # events ks CORE_INVALID"
  "events (Comma # ks) CORE_EXPONENT = Final CORE_EXPONENT # events ks CORE_START"
  "events (Zero # ks) CORE_EXPONENT = [Final CORE_EXPONENT]"
  "events (Digit # ks) CORE_SCIENTIFIC = events ks CORE_SCIENTIFIC"
  "events (Sign # ks) CORE_SCIENTIFIC = Track CORE_INVALID # events ks CORE_INVALID"
  "events (Dot # ks) CORE_SCIENTIFIC = Track CORE_INVALID # events ks CORE_INVALID"
  "events (Letter # ks) CORE_SCIENTIFIC = Track CORE_INVALID # events ks CORE_INVALID"
  "events (Other # ks) CORE_SCIENTIFIC = Track CORE_INVALID # events ks CORE_INVALID"
  "events (Comma # ks) CORE_SCIENTIFIC = Final CORE_SCIENTIFIC # events ks CORE_START"
  "events (Zero # ks) CORE_SCIENTIFIC = [Final CORE_SCIENTIFIC]"
  by simp_all

lemma count_table:
  "count_list [] e = 0" "count_list (e # es) e = count_list es e + 1"
  "st \<noteq> st' \<Longrightarrow> count_list (Final st # es) (Final st') = count_list es (Final st')"
  "st \<noteq> st' \<Longrightarrow> count_list (Track st # es) (Track st') = count_list es (Track st')"
  "count_list (Final st # es) (Track st') = count_list es (Track st')"
  "count_list (Track st # es) (Final st') = count_list es (Final st')"
  by simp_all

lemma token_nos_numeral:
  "token_nos (numeral k) room m =
     (case pattern_no m of i \<Rightarrow> if token_size i < room then i # token_nos (pred_numeral k) (room - token_size i) (m + 1) else [])"
  by (simp add: numeral_eq_Suc)

lemma element_pairs_numeral:
  "element_pairs (numeral n) order seed =
     (case order * seed mod 65536 of seed \<Rightarrow>
        ((seed + 2 * order) mod 256, (seed + order) mod 65536) # element_pairs (pred_numeral n) (order + 1) seed)"
  by (simp only: numeral_eq_Suc [of n] element_pairs.simps)

lemma corrupt_walk_numeral:
  "corrupt_walk (numeral n) seed 0 (b # bs) = (if b = 44 then b else b XOR seed) # corrupt_walk (numeral n) seed (pred_numeral n) bs"
  "corrupt_walk step seed (numeral j) (b # bs) = b # corrupt_walk step seed (pred_numeral j) bs"
  "corrupt_walk step seed 1 (b # bs) = b # corrupt_walk step seed 0 bs"
  by (simp_all only: corrupt_walk.simps ch_comma_def pred_numeral_def refl if_True if_False rel_simps
    diff_self_eq_0 one_neq_zero)

definition run_text :: "nat list \<Rightarrow> nat \<Rightarrow> u8 list" where
  "run_text is n = text_of (map ((!) patterns) is) @ replicate n 0"

lemma replicate_eval: "replicate (numeral n) x = x # replicate (pred_numeral n) x" "replicate 1 x = [x]"
  by (simp_all only: numeral_eq_Suc One_nat_def replicate.simps)

lemmas text_eval = comma_table run_text_def replicate_eval count_list_append text_of_def list.map concat.simps append.simps pattern_table ch_comma_def corrupt_walk_numeral
  corrupt_walk.simps(1) text_events_def kind_table events_table final_counts_def track_counts_def all_states_def
  count_table event.inject event.distinct CORE_STATE.distinct bool_eval num_eval

lemmas sum_eval = open_sums_def rows_A_def rows_B_def column_def products_def extracted_def fits32_def signed16_def

lemma upto_30:
  "[0..<30] = [0, 1, 2, 3, 4, 5, 6, 7, 8, 9, 10, 11, 12, 13, 14, 15, 16, 17, 18, 19, 20, 21, 22, 23, 24, 25, 26, 27,
     28, 29]"
  by (simp add: upt_rec)

lemma run_text_value:
  assumes "res_size s = 666" "res_text s = run_text is 6" "length (run_text is 6) = 666" "sint step = int k" "0 < k" "\<not> k dvd 665"
    "ucast (res_seed1 s) = sd"
    "final_counts (text_events (run_text is 6) @ text_events (corrupt_walk k sd 0 (run_text is 6))) = fs"
    "track_counts (text_events (run_text is 6) @ text_events (corrupt_walk k sd 0 (run_text is 6))) = ts"
  shows "text_value s step crc = counts_crc fs ts crc"
proof -
  let ?m = "run_text is 6"
  have "?m ! 665 = last ?m" using last_conv_nth [of ?m] assms(3) by (cases "?m = []") simp_all
  also have "\<dots> = 0" by (simp add: run_text_def numeral_eq_Suc)
  finally have l: "?m ! 665 = 0" .
  then have "corrupt_walk k sd 0 ?m ! 665 = 0" using corrupt_walk_nth [of k 0 665 ?m 0 0 sd] assms(3,5,6) by simp
  then have "0 \<in> set ?m" "0 \<in> set (corrupt_walk k sd 0 ?m)"
    using l assms(3) nth_mem [of 665 ?m] nth_mem [of 665 "corrupt_walk k sd 0 ?m"] by simp_all
  then show ?thesis
    using text_value_counts [of s ?m step k "corrupt_walk k sd 0 ?m" crc] assms by simp
qed

lemma init_run_text:
  assumes "core_init_state 666 seed p = Inr t" "length p = 666" "seed + 1 = of_nat m" "m \<le> 60000" "token_nos 665 665 m = is"
    "length (run_text is 6) = 666"
  shows "t = run_text is 6"
proof -
  let ?T = "text_of (map ((!) patterns) is)"
  have T: "text_of (tokens 665 665 (seed + 1)) = ?T" using tokens_nos [of m 665 665] assms(3-5) by simp
  have "length ?T = 660" using assms(6) by (simp add: run_text_def)
  then have "core_init_state 666 seed p = Inr (?T @ replicate 6 0 @ drop 666 p)"
    using core_init_state_tokens [of 666 p ?T seed] assms(2) T by simp
  then show ?thesis using assms(1,2) by (simp add: run_text_def)
qed

lemma spec_bench_parts:
  assumes "spec_find id 102 0 \<lparr>data16 = 0, idx = i\<rparr> its (0, 0, 0) = (dinfo, ms, r, f, m)"
    "(if 0 < sint i then (case spec_eval tv mv ms cr of (ms, cr) \<Rightarrow> (sort_key (\<lambda>v. sint (data16 v AND 0x7f)) ms, cr))
      else (ms, cr)) = (d0 # d1 # ds, cr')"
    "walked dinfo (d0 # ds) = w" "(crc16 (data16 d0) ^^ w) (r + (f * 4 - m)) = v1"
    "(crc16 (data16 (hd its)) ^^ (length its - 1)) v1 = v"
  shows "spec_bench tv mv 102 i its cr = (v, cr')"
  using assms by (simp add: spec_bench_def)

lemma run_find:
  assumes "seeks by_idx n k 0 dinfo" "distinct (map snd ps)" "length ps = 30" "\<forall>p \<in> set ps. snd p < 65536"
    "seek_loop ps by_idx n k [0..<30] (0, 0, 0) = (ns', r, f, m)"
  shows "spec_find id n 0 dinfo (map (item_at ps) [0..<30]) (0, 0, 0) =
    (sought n 0 dinfo, map (item_at ps) ns', of_nat r, of_nat f, of_nat m)"
proof (rule spec_find_seek [OF assms(1) _ _ _ _ assms(5)])
  show "inj_on (\<lambda>e. snd (ps ! e)) (set [0..<30])"
  proof (rule inj_onI)
    fix x y assume "x \<in> set [0..<30]" "y \<in> set [0..<30]" "snd (ps ! x) = snd (ps ! y)"
    then have "map snd ps ! x = map snd ps ! y" "x < length (map snd ps)" "y < length (map snd ps)" using assms(3) by simp_all
    then show "x = y" using nth_eq_iff_index_eq [OF assms(2)] by blast
  qed
  show "\<forall>e \<in> set [0..<30]. snd (ps ! e) < 65536" using assms(3,4) by simp
qed simp_all

lemma funpow_1: "((f :: 'a \<Rightarrow> 'a) ^^ 1) x = f x"
  by simp

lemma funpow_numeral: "(f ^^ numeral k) x = (f ^^ pred_numeral k) (f x)"
  by (simp add: numeral_eq_Suc funpow_Suc_right del: funpow.simps)

section \<open>The performance run\<close>

definition performance_pairs :: "(nat \<times> nat) list" where
  "performance_pairs = [(32896, 0), (23387, 1), (21074, 2), (18761, 3), (16448, 4), (16191, 5), (11565, 7), (28013, 15),
     (11565, 23), (9252, 264), (25700, 272), (9252, 280), (6939, 521), (23387, 529), (6939, 537),
     (4626, 778), (21074, 786), (4626, 794), (2313, 1035), (18761, 1043), (2313, 1051), (0, 1292),
     (16448, 1300), (0, 1308), (32639, 1549), (16191, 1557), (13878, 1798), (30326, 1806),
     (13878, 1814), (65535, 32767)]"

lemma performance_key_at_idx:
  "key_at performance_pairs True 0 = 0" "key_at performance_pairs True 1 = 1"
  "key_at performance_pairs True 2 = 2" "key_at performance_pairs True 3 = 3"
  "key_at performance_pairs True 4 = 4" "key_at performance_pairs True 5 = 5"
  "key_at performance_pairs True 6 = 7" "key_at performance_pairs True 7 = 15"
  "key_at performance_pairs True 8 = 23" "key_at performance_pairs True 9 = 264"
  "key_at performance_pairs True 10 = 272" "key_at performance_pairs True 11 = 280"
  "key_at performance_pairs True 12 = 521" "key_at performance_pairs True 13 = 529"
  "key_at performance_pairs True 14 = 537" "key_at performance_pairs True 15 = 778"
  "key_at performance_pairs True 16 = 786" "key_at performance_pairs True 17 = 794"
  "key_at performance_pairs True 18 = 1035" "key_at performance_pairs True 19 = 1043"
  "key_at performance_pairs True 20 = 1051" "key_at performance_pairs True 21 = 1292"
  "key_at performance_pairs True 22 = 1300" "key_at performance_pairs True 23 = 1308"
  "key_at performance_pairs True 24 = 1549" "key_at performance_pairs True 25 = 1557"
  "key_at performance_pairs True 26 = 1798" "key_at performance_pairs True 27 = 1806"
  "key_at performance_pairs True 28 = 1814" "key_at performance_pairs True 29 = 32767"
  by (simp_all add: performance_pairs_def key_at_def)

lemma performance_key_at_data:
  "key_at performance_pairs False 0 = 128" "key_at performance_pairs False 1 = 91"
  "key_at performance_pairs False 2 = 82" "key_at performance_pairs False 3 = 73"
  "key_at performance_pairs False 4 = 64" "key_at performance_pairs False 5 = 63"
  "key_at performance_pairs False 6 = 45" "key_at performance_pairs False 7 = 109"
  "key_at performance_pairs False 8 = 45" "key_at performance_pairs False 9 = 36"
  "key_at performance_pairs False 10 = 100" "key_at performance_pairs False 11 = 36"
  "key_at performance_pairs False 12 = 27" "key_at performance_pairs False 13 = 91"
  "key_at performance_pairs False 14 = 27" "key_at performance_pairs False 15 = 18"
  "key_at performance_pairs False 16 = 82" "key_at performance_pairs False 17 = 18"
  "key_at performance_pairs False 18 = 9" "key_at performance_pairs False 19 = 73"
  "key_at performance_pairs False 20 = 9" "key_at performance_pairs False 21 = 0"
  "key_at performance_pairs False 22 = 64" "key_at performance_pairs False 23 = 0"
  "key_at performance_pairs False 24 = 127" "key_at performance_pairs False 25 = 63"
  "key_at performance_pairs False 26 = 54" "key_at performance_pairs False 27 = 118"
  "key_at performance_pairs False 28 = 54" "key_at performance_pairs False 29 = 255"
  by (simp_all add: performance_pairs_def key_at_def)

lemma performance_data_bit:
  "data_bit performance_pairs 0 = 0" "data_bit performance_pairs 1 = 1" "data_bit performance_pairs 2 = 0"
  "data_bit performance_pairs 3 = 1" "data_bit performance_pairs 4 = 0" "data_bit performance_pairs 5 = 1"
  "data_bit performance_pairs 6 = 1" "data_bit performance_pairs 7 = 1" "data_bit performance_pairs 8 = 1"
  "data_bit performance_pairs 9 = 0" "data_bit performance_pairs 10 = 0" "data_bit performance_pairs 11 = 0"
  "data_bit performance_pairs 12 = 1" "data_bit performance_pairs 13 = 1" "data_bit performance_pairs 14 = 1"
  "data_bit performance_pairs 15 = 0" "data_bit performance_pairs 16 = 0" "data_bit performance_pairs 17 = 0"
  "data_bit performance_pairs 18 = 1" "data_bit performance_pairs 19 = 1" "data_bit performance_pairs 20 = 1"
  "data_bit performance_pairs 21 = 0" "data_bit performance_pairs 22 = 0" "data_bit performance_pairs 23 = 0"
  "data_bit performance_pairs 24 = 1" "data_bit performance_pairs 25 = 1" "data_bit performance_pairs 26 = 0"
  "data_bit performance_pairs 27 = 0" "data_bit performance_pairs 28 = 0" "data_bit performance_pairs 29 = 1"
  by (simp_all add: performance_pairs_def data_bit_def)

lemma performance_found_bit:
  "found_bit performance_pairs 0 = 0" "found_bit performance_pairs 1 = 1" "found_bit performance_pairs 2 = 0"
  "found_bit performance_pairs 3 = 0" "found_bit performance_pairs 4 = 0" "found_bit performance_pairs 5 = 1"
  "found_bit performance_pairs 6 = 0" "found_bit performance_pairs 7 = 0" "found_bit performance_pairs 8 = 0"
  "found_bit performance_pairs 9 = 0" "found_bit performance_pairs 10 = 0" "found_bit performance_pairs 11 = 0"
  "found_bit performance_pairs 12 = 1" "found_bit performance_pairs 13 = 1"
  "found_bit performance_pairs 14 = 1" "found_bit performance_pairs 15 = 0"
  "found_bit performance_pairs 16 = 0" "found_bit performance_pairs 17 = 0"
  "found_bit performance_pairs 18 = 0" "found_bit performance_pairs 19 = 0"
  "found_bit performance_pairs 20 = 0" "found_bit performance_pairs 21 = 0"
  "found_bit performance_pairs 22 = 0" "found_bit performance_pairs 23 = 0"
  "found_bit performance_pairs 24 = 1" "found_bit performance_pairs 25 = 1"
  "found_bit performance_pairs 26 = 0" "found_bit performance_pairs 27 = 0"
  "found_bit performance_pairs 28 = 0" "found_bit performance_pairs 29 = 1"
  by (simp_all add: performance_pairs_def found_bit_def)

lemmas performance_tables = performance_key_at_idx performance_key_at_data performance_data_bit performance_found_bit

lemma performance_item:
  "item_at performance_pairs 0 = \<lparr>data16 = 32896, idx = 0\<rparr>"
  "item_at performance_pairs 1 = \<lparr>data16 = 23387, idx = 1\<rparr>"
  "item_at performance_pairs 2 = \<lparr>data16 = 21074, idx = 2\<rparr>"
  "item_at performance_pairs 3 = \<lparr>data16 = 18761, idx = 3\<rparr>"
  "item_at performance_pairs 4 = \<lparr>data16 = 16448, idx = 4\<rparr>"
  "item_at performance_pairs 5 = \<lparr>data16 = 16191, idx = 5\<rparr>"
  "item_at performance_pairs 6 = \<lparr>data16 = 11565, idx = 7\<rparr>"
  "item_at performance_pairs 7 = \<lparr>data16 = 28013, idx = 15\<rparr>"
  "item_at performance_pairs 8 = \<lparr>data16 = 11565, idx = 23\<rparr>"
  "item_at performance_pairs 9 = \<lparr>data16 = 9252, idx = 264\<rparr>"
  "item_at performance_pairs 10 = \<lparr>data16 = 25700, idx = 272\<rparr>"
  "item_at performance_pairs 11 = \<lparr>data16 = 9252, idx = 280\<rparr>"
  "item_at performance_pairs 12 = \<lparr>data16 = 6939, idx = 521\<rparr>"
  "item_at performance_pairs 13 = \<lparr>data16 = 23387, idx = 529\<rparr>"
  "item_at performance_pairs 14 = \<lparr>data16 = 6939, idx = 537\<rparr>"
  "item_at performance_pairs 15 = \<lparr>data16 = 4626, idx = 778\<rparr>"
  "item_at performance_pairs 16 = \<lparr>data16 = 21074, idx = 786\<rparr>"
  "item_at performance_pairs 17 = \<lparr>data16 = 4626, idx = 794\<rparr>"
  "item_at performance_pairs 18 = \<lparr>data16 = 2313, idx = 1035\<rparr>"
  "item_at performance_pairs 19 = \<lparr>data16 = 18761, idx = 1043\<rparr>"
  "item_at performance_pairs 20 = \<lparr>data16 = 2313, idx = 1051\<rparr>"
  "item_at performance_pairs 21 = \<lparr>data16 = 0, idx = 1292\<rparr>"
  "item_at performance_pairs 22 = \<lparr>data16 = 16448, idx = 1300\<rparr>"
  "item_at performance_pairs 23 = \<lparr>data16 = 0, idx = 1308\<rparr>"
  "item_at performance_pairs 24 = \<lparr>data16 = 32639, idx = 1549\<rparr>"
  "item_at performance_pairs 25 = \<lparr>data16 = 16191, idx = 1557\<rparr>"
  "item_at performance_pairs 26 = \<lparr>data16 = 13878, idx = 1798\<rparr>"
  "item_at performance_pairs 27 = \<lparr>data16 = 30326, idx = 1806\<rparr>"
  "item_at performance_pairs 28 = \<lparr>data16 = 13878, idx = 1814\<rparr>"
  "item_at performance_pairs 29 = \<lparr>data16 = 65535, idx = 32767\<rparr>"
  by (simp_all add: performance_pairs_def item_at_def)

lemma performance_items: "sort_key (\<lambda>v. sint (idx v)) (init_items 0 31) = map (item_at performance_pairs) [0..<30]"
  unfolding upto_30 list.map performance_item by (simp add: init_items_def init_data_def init_idx_def Let_def upt_rec)

lemma performance_search_idx:
  "seek_loop performance_pairs True 102 1 [0, 1, 2, 3, 4, 5, 6, 7, 8, 9, 10, 11, 12, 13, 14, 15, 16, 17, 18, 19, 20, 21, 22, 23, 24, 25, 26,
     27, 28, 29] (0, 0, 0) =
     ([5, 2, 8, 9, 10, 11, 12, 13, 14, 15, 16, 17, 18, 19, 20, 21, 22, 23, 24, 25, 26, 27, 28, 0, 1, 3, 4,
     6, 7, 29], 44, 8, 94)"
  by (simp only: seek_eval performance_tables)

lemma performance_search_data:
  "seek_loop performance_pairs False 102 0 [0, 1, 2, 3, 4, 5, 6, 7, 8, 9, 10, 11, 12, 13, 14, 15, 16, 17, 18, 19, 20, 21, 22, 23, 24, 25, 26,
     27, 28, 29] (0, 0, 0) =
     ([0, 3, 25, 8, 14, 20, 29, 2, 4, 5, 6, 7, 10, 11, 12, 13, 15, 16, 17, 18, 19, 21, 22, 23, 24, 26, 27,
     28, 9, 1], 72, 13, 89)"
  by (simp only: seek_eval performance_tables)

definition performance_nos :: "nat list" where
  "performance_nos = [0, 0, 4, 4, 8, 8, 12, 1, 1, 1, 5, 5, 9, 9, 13, 2, 2, 2, 6, 6, 10, 10, 14, 3, 3, 3, 7, 7, 11, 11, 15, 0,
     0, 0, 4, 4, 8, 8, 12, 1, 1, 1, 5, 5, 9, 9, 13, 2, 2, 2, 6, 6, 10, 10, 14, 3, 3, 3, 7, 7, 11, 11, 15, 0,
     0, 0, 4, 4, 8, 8, 12, 1, 1, 1, 5, 5, 9, 9, 13, 2, 2, 2, 6, 6, 10, 10, 14, 3]"

lemma performance_tokens: "token_nos 665 665 1 = performance_nos"
  by (simp add: token_nos_numeral pattern_no_def token_size_def Let_def performance_nos_def)

lemma performance_length: "length (run_text performance_nos 6) = 666"
  unfolding performance_nos_def run_text_def text_of_def list.map pattern_table by simp

lemma performance_finals_34:
  "final_counts (text_events (run_text performance_nos 6) @ text_events (corrupt_walk 34 0 0 (run_text performance_nos 6)))
    = [22, 80, 0, 0, 78, 44, 0, 32]"
  by (simp only: text_eval performance_nos_def xor.right_neutral)

lemma performance_tracks_34:
  "track_counts (text_events (run_text performance_nos 6) @ text_events (corrupt_walk 34 0 0 (run_text performance_nos 6)))
    = [234, 34, 108, 48, 86, 54, 42, 0]"
  by (simp only: text_eval performance_nos_def xor.right_neutral)

lemma performance_finals_136:
  "final_counts (text_events (run_text performance_nos 6) @ text_events (corrupt_walk 136 0 0 (run_text performance_nos 6)))
    = [22, 80, 0, 0, 78, 44, 0, 32]"
  by (simp only: text_eval performance_nos_def xor.right_neutral)

lemma performance_tracks_136:
  "track_counts (text_events (run_text performance_nos 6) @ text_events (corrupt_walk 136 0 0 (run_text performance_nos 6)))
    = [234, 34, 108, 48, 86, 54, 42, 0]"
  by (simp only: text_eval performance_nos_def xor.right_neutral)

definition performance_rows :: "(nat \<times> nat) list list" where
  "performance_rows =
    [[(3, 2), (6, 4), (12, 9), (32, 28), (130, 125), (220, 726), (190, 5047), (144, 40328), (146, 35209)],
     [(20, 24330), (22, 5387), (24, 64524), (26, 52237), (28, 10254), (30, 22543), (32, 32784),
      (34, 32785), (36, 18)],
     [(38, 19), (40, 20), (42, 21), (44, 22), (46, 23), (48, 24), (50, 25), (52, 26), (54, 27)],
     [(56, 28), (58, 29), (60, 30), (62, 31), (64, 32), (66, 33), (68, 34), (70, 35), (72, 36)],
     [(74, 37), (76, 38), (78, 39), (80, 40), (82, 41), (84, 42), (86, 43), (88, 44), (90, 45)],
     [(92, 46), (94, 47), (96, 48), (98, 49), (100, 50), (102, 51), (104, 52), (106, 53), (108, 54)],
     [(110, 55), (112, 56), (114, 57), (116, 58), (118, 59), (120, 60), (122, 61), (124, 62), (126, 63)],
     [(128, 64), (130, 65), (132, 66), (134, 67), (136, 68), (138, 69), (140, 70), (142, 71), (144, 72)],
     [(146, 73), (148, 74), (150, 75), (152, 76), (154, 77), (156, 78), (158, 79), (160, 80), (162, 81)]]"

lemma performance_elements: "concat performance_rows = element_pairs (9 * 9) 1 1"
  by (simp add: element_pairs_numeral performance_rows_def)

lemma performance_sums_17: "open_sums 9 17 performance_rows = (Some 73, Some 83)"
  by (simp add: sum_eval performance_rows_def upt_rec)

lemma performance_sums_153: "open_sums 9 153 performance_rows = (Some 73, Some 64)"
  by (simp add: sum_eval performance_rows_def upt_rec)

lemma performance_text_crcs:
  "counts_crc [22, 80, 0, 0, 78, 44, 0, 32] [234, 34, 108, 48, 86, 54, 42, 0] 19181 = 36410"
  "counts_crc [22, 80, 0, 0, 78, 44, 0, 32] [234, 34, 108, 48, 86, 54, 42, 0] 25438 = 24894"
  "counts_crc [22, 80, 0, 0, 78, 44, 0, 32] [234, 34, 108, 48, 86, 54, 42, 0] 49577 = 40800"
  "counts_crc [22, 80, 0, 0, 78, 44, 0, 32] [234, 34, 108, 48, 86, 54, 42, 0] 40095 = 65264"
  by (simp_all add: counts_crc_simps crc_fast)

lemma performance_matrix_17: "crc16 810 (crc16 83 (crc16 73 (crc16 810 0))) = 7153"
  by (simp add: crc_fast)

lemma performance_matrix_153: "crc16 810 (crc16 64 (crc16 73 (crc16 810 0))) = 40949"
  by (simp add: crc_fast)

lemma performance_calcs:
  assumes "\<And>crc. tv 136 crc = counts_crc [22, 80, 0, 0, 78, 44, 0, 32] [234, 34, 108, 48, 86, 54, 42, 0] crc"
    "\<And>crc. tv 34 crc = counts_crc [22, 80, 0, 0, 78, 44, 0, 32] [234, 34, 108, 48, 86, 54, 42, 0] crc"
    "\<And>crc. mv 17 crc = crc16 7153 crc"
    "\<And>crc. mv 153 crc = crc16 40949 crc"
  shows "spec_calc tv mv 16191 (0, 0, 0) = (16319, 57425, 0, 0)"
    "spec_calc tv mv 21074 (57425, 0, 0) = (21202, 34176, 0, 0)"
    "spec_calc tv mv 11565 (34176, 0, 0) = (11693, 11901, 0, 0)"
    "spec_calc tv mv 9252 (11901, 0, 0) = (9380, 22458, 0, 0)"
    "spec_calc tv mv 25700 (22458, 0, 0) = (25828, 46361, 0, 0)"
    "spec_calc tv mv 9252 (46361, 0, 0) = (9380, 15569, 0, 0)"
    "spec_calc tv mv 6939 (15569, 0, 0) = (7067, 47638, 0, 0)"
    "spec_calc tv mv 23387 (47638, 0, 0) = (23515, 6389, 0, 0)"
    "spec_calc tv mv 6939 (6389, 0, 0) = (7067, 41229, 0, 0)"
    "spec_calc tv mv 4626 (41229, 0, 0) = (4754, 34121, 0, 0)"
    "spec_calc tv mv 21074 (34121, 0, 0) = (21202, 44618, 0, 0)"
    "spec_calc tv mv 4626 (44618, 0, 0) = (4754, 28986, 0, 0)"
    "spec_calc tv mv 2313 (28986, 0, 0) = (2519, 48332, 8151, 0)"
    "spec_calc tv mv 18761 (48332, 8151, 0) = (18899, 59305, 8151, 0)"
    "spec_calc tv mv 2313 (59305, 8151, 0) = (2491, 19181, 8151, 0)"
    "spec_calc tv mv 0 (19181, 8151, 0) = (186, 25438, 8151, 36410)"
    "spec_calc tv mv 16448 (25438, 8151, 36410) = (16574, 49577, 8151, 36410)"
    "spec_calc tv mv 0 (49577, 8151, 36410) = (224, 43223, 8151, 36410)"
    "spec_calc tv mv 32639 (43223, 8151, 36410) = (32767, 40511, 8151, 36410)"
    "spec_calc tv mv 16191 (40511, 8151, 36410) = (16319, 47297, 8151, 36410)"
    "spec_calc tv mv 13878 (47297, 8151, 36410) = (14006, 21702, 8151, 36410)"
    "spec_calc tv mv 30326 (21702, 8151, 36410) = (30454, 55797, 8151, 36410)"
    "spec_calc tv mv 13878 (55797, 8151, 36410) = (14006, 31761, 8151, 36410)"
    "spec_calc tv mv 32896 (31761, 8151, 36410) = (32896, 31761, 8151, 36410)"
    "spec_calc tv mv 23387 (31761, 8151, 36410) = (23515, 31351, 8151, 36410)"
    "spec_calc tv mv 18761 (31351, 8151, 36410) = (18849, 40095, 8151, 36410)"
    "spec_calc tv mv 16448 (40095, 8151, 36410) = (16624, 6572, 8151, 36410)"
    "spec_calc tv mv 11565 (6572, 8151, 36410) = (11693, 34657, 8151, 36410)"
    "spec_calc tv mv 28013 (34657, 8151, 36410) = (28141, 36740, 8151, 36410)"
    "spec_calc tv mv 65535 (36740, 8151, 36410) = (65535, 36740, 8151, 36410)"
  by (simp_all add: spec_calc_def record_first_def cache_def Let_def assms performance_text_crcs crc_fast)

lemma performance_eval:
  assumes "\<And>crc. tv 136 crc = counts_crc [22, 80, 0, 0, 78, 44, 0, 32] [234, 34, 108, 48, 86, 54, 42, 0] crc"
    "\<And>crc. tv 34 crc = counts_crc [22, 80, 0, 0, 78, 44, 0, 32] [234, 34, 108, 48, 86, 54, 42, 0] crc"
    "\<And>crc. mv 17 crc = crc16 7153 crc"
    "\<And>crc. mv 153 crc = crc16 40949 crc"
  shows "spec_eval tv mv (map (item_at performance_pairs) [5, 2, 8, 9, 10, 11, 12, 13, 14, 15, 16, 17, 18, 19, 20, 21, 22, 23, 24, 25, 26, 27, 28, 0, 1, 3, 4,
     6, 7, 29]) (0, 0, 0) =
    ([\<lparr>data16 = 16319, idx = 5\<rparr>, \<lparr>data16 = 21202, idx = 2\<rparr>, \<lparr>data16 = 11693, idx = 23\<rparr>,
      \<lparr>data16 = 9380, idx = 264\<rparr>, \<lparr>data16 = 25828, idx = 272\<rparr>, \<lparr>data16 = 9380, idx = 280\<rparr>,
      \<lparr>data16 = 7067, idx = 521\<rparr>, \<lparr>data16 = 23515, idx = 529\<rparr>, \<lparr>data16 = 7067, idx = 537\<rparr>,
      \<lparr>data16 = 4754, idx = 778\<rparr>, \<lparr>data16 = 21202, idx = 786\<rparr>, \<lparr>data16 = 4754, idx = 794\<rparr>,
      \<lparr>data16 = 2519, idx = 1035\<rparr>, \<lparr>data16 = 18899, idx = 1043\<rparr>, \<lparr>data16 = 2491, idx = 1051\<rparr>,
      \<lparr>data16 = 186, idx = 1292\<rparr>, \<lparr>data16 = 16574, idx = 1300\<rparr>, \<lparr>data16 = 224, idx = 1308\<rparr>,
      \<lparr>data16 = 32767, idx = 1549\<rparr>, \<lparr>data16 = 16319, idx = 1557\<rparr>,
      \<lparr>data16 = 14006, idx = 1798\<rparr>, \<lparr>data16 = 30454, idx = 1806\<rparr>,
      \<lparr>data16 = 14006, idx = 1814\<rparr>, \<lparr>data16 = 32896, idx = 0\<rparr>, \<lparr>data16 = 23515, idx = 1\<rparr>,
      \<lparr>data16 = 18849, idx = 3\<rparr>, \<lparr>data16 = 16624, idx = 4\<rparr>, \<lparr>data16 = 11693, idx = 7\<rparr>,
      \<lparr>data16 = 28141, idx = 15\<rparr>, \<lparr>data16 = 65535, idx = 32767\<rparr>],
     36740, 8151, 36410)"
  unfolding list.map performance_item by (simp add: performance_calcs assms)

lemma performance_sorted:
  "sort_key (\<lambda>v. sint (data16 v AND 0x7f))
    [\<lparr>data16 = 16319, idx = 5\<rparr>, \<lparr>data16 = 21202, idx = 2\<rparr>, \<lparr>data16 = 11693, idx = 23\<rparr>,
      \<lparr>data16 = 9380, idx = 264\<rparr>, \<lparr>data16 = 25828, idx = 272\<rparr>, \<lparr>data16 = 9380, idx = 280\<rparr>,
      \<lparr>data16 = 7067, idx = 521\<rparr>, \<lparr>data16 = 23515, idx = 529\<rparr>, \<lparr>data16 = 7067, idx = 537\<rparr>,
      \<lparr>data16 = 4754, idx = 778\<rparr>, \<lparr>data16 = 21202, idx = 786\<rparr>, \<lparr>data16 = 4754, idx = 794\<rparr>,
      \<lparr>data16 = 2519, idx = 1035\<rparr>, \<lparr>data16 = 18899, idx = 1043\<rparr>, \<lparr>data16 = 2491, idx = 1051\<rparr>,
      \<lparr>data16 = 186, idx = 1292\<rparr>, \<lparr>data16 = 16574, idx = 1300\<rparr>, \<lparr>data16 = 224, idx = 1308\<rparr>,
      \<lparr>data16 = 32767, idx = 1549\<rparr>, \<lparr>data16 = 16319, idx = 1557\<rparr>,
      \<lparr>data16 = 14006, idx = 1798\<rparr>, \<lparr>data16 = 30454, idx = 1806\<rparr>,
      \<lparr>data16 = 14006, idx = 1814\<rparr>, \<lparr>data16 = 32896, idx = 0\<rparr>, \<lparr>data16 = 23515, idx = 1\<rparr>,
      \<lparr>data16 = 18849, idx = 3\<rparr>, \<lparr>data16 = 16624, idx = 4\<rparr>, \<lparr>data16 = 11693, idx = 7\<rparr>,
      \<lparr>data16 = 28141, idx = 15\<rparr>, \<lparr>data16 = 65535, idx = 32767\<rparr>] =
    [\<lparr>data16 = 32896, idx = 0\<rparr>, \<lparr>data16 = 4754, idx = 778\<rparr>, \<lparr>data16 = 4754, idx = 794\<rparr>,
      \<lparr>data16 = 7067, idx = 521\<rparr>, \<lparr>data16 = 7067, idx = 537\<rparr>, \<lparr>data16 = 18849, idx = 3\<rparr>,
      \<lparr>data16 = 9380, idx = 264\<rparr>, \<lparr>data16 = 9380, idx = 280\<rparr>, \<lparr>data16 = 11693, idx = 23\<rparr>,
      \<lparr>data16 = 11693, idx = 7\<rparr>, \<lparr>data16 = 14006, idx = 1798\<rparr>, \<lparr>data16 = 14006, idx = 1814\<rparr>,
      \<lparr>data16 = 186, idx = 1292\<rparr>, \<lparr>data16 = 2491, idx = 1051\<rparr>, \<lparr>data16 = 16574, idx = 1300\<rparr>,
      \<lparr>data16 = 16319, idx = 5\<rparr>, \<lparr>data16 = 16319, idx = 1557\<rparr>, \<lparr>data16 = 21202, idx = 2\<rparr>,
      \<lparr>data16 = 21202, idx = 786\<rparr>, \<lparr>data16 = 18899, idx = 1043\<rparr>, \<lparr>data16 = 2519, idx = 1035\<rparr>,
      \<lparr>data16 = 23515, idx = 529\<rparr>, \<lparr>data16 = 23515, idx = 1\<rparr>, \<lparr>data16 = 224, idx = 1308\<rparr>,
      \<lparr>data16 = 25828, idx = 272\<rparr>, \<lparr>data16 = 28141, idx = 15\<rparr>, \<lparr>data16 = 16624, idx = 4\<rparr>,
      \<lparr>data16 = 30454, idx = 1806\<rparr>, \<lparr>data16 = 32767, idx = 1549\<rparr>,
      \<lparr>data16 = 65535, idx = 32767\<rparr>]"
  by simp

lemma performance_walks:
  "(crc16 32896 ^^ 28) (44 + (8 * 4 - 94)) = 8165"
  "(crc16 32896 ^^ 29) 8165 = 49034"
  "(crc16 32896 ^^ 28) (72 + (13 * 4 - 89)) = 44054"
  "(crc16 32896 ^^ 29) 44054 = 32822"
  by (simp_all only: funpow_numeral funpow_1 num_eval) (simp_all add: crc_fast)

lemma performance_find:
  "spec_find id 102 0 \<lparr>data16 = 0, idx = 1\<rparr> (map (item_at performance_pairs) [0..<30]) (0, 0, 0) =
    (\<lparr>data16 = 101, idx = 103\<rparr>, map (item_at performance_pairs) [5, 2, 8, 9, 10, 11, 12, 13, 14, 15, 16, 17, 18, 19, 20, 21, 22, 23, 24, 25, 26, 27, 28, 0, 1, 3, 4,
     6, 7, 29], 44, 8, 94)"
  "spec_find id 102 0 \<lparr>data16 = 0, idx = - 1\<rparr> (map (item_at performance_pairs) [0..<30]) (0, 0, 0) =
    (\<lparr>data16 = 101, idx = - 1\<rparr>, map (item_at performance_pairs) [0, 3, 25, 8, 14, 20, 29, 2, 4, 5, 6, 7, 10, 11, 12, 13, 15, 16, 17, 18, 19, 21, 22, 23, 24, 26, 27,
     28, 9, 1], 72, 13, 89)"
  using run_find [of True 102 1 "\<lparr>data16 = 0, idx = 1\<rparr>" performance_pairs, unfolded upto_30, OF _ _ _ _ performance_search_idx]
    run_find [of False 102 0 "\<lparr>data16 = 0, idx = - 1\<rparr>" performance_pairs, unfolded upto_30, OF _ _ _ _ performance_search_data]
  by (simp_all add: seeks_def sought_def upto_30 performance_pairs_def)

lemma performance_round:
  assumes "\<And>crc. tv 136 crc = counts_crc [22, 80, 0, 0, 78, 44, 0, 32] [234, 34, 108, 48, 86, 54, 42, 0] crc"
    "\<And>crc. tv 34 crc = counts_crc [22, 80, 0, 0, 78, 44, 0, 32] [234, 34, 108, 48, 86, 54, 42, 0] crc"
    "\<And>crc. mv 17 crc = crc16 7153 crc"
    "\<And>crc. mv 153 crc = crc16 40949 crc"
  shows "spec_round tv mv 102 (map (item_at performance_pairs) [0..<30]) (0, 0, 0) = (0xe714, 0x1fd7, 0x8e3a)"
proof -
  let ?its = "map (item_at performance_pairs) [0..<30]"
  have h: "data16 (hd ?its) = 32896" "length ?its - 1 = 29" by (simp_all add: upto_30 performance_item)
  have "spec_bench tv mv 102 1 ?its (0, 0, 0) = (49034, 36740, 8151, 36410)"
  proof (rule spec_bench_parts [OF performance_find(1)])
    have "0 < sint (1 :: u16)" by simp
    then show "(if 0 < sint (1 :: u16) then (case spec_eval tv mv (map (item_at performance_pairs) [5, 2, 8, 9, 10, 11, 12, 13, 14, 15, 16, 17, 18, 19, 20, 21, 22, 23, 24, 25, 26, 27, 28, 0, 1, 3, 4,
     6, 7, 29]) (0, 0, 0) of (ms, cr) \<Rightarrow>
        (sort_key (\<lambda>v. sint (data16 v AND 0x7f)) ms, cr)) else (map (item_at performance_pairs) [5, 2, 8, 9, 10, 11, 12, 13, 14, 15, 16, 17, 18, 19, 20, 21, 22, 23, 24, 25, 26, 27, 28, 0, 1, 3, 4,
     6, 7, 29], (0, 0, 0)))
      = ([\<lparr>data16 = 32896, idx = 0\<rparr>, \<lparr>data16 = 4754, idx = 778\<rparr>, \<lparr>data16 = 4754, idx = 794\<rparr>,
      \<lparr>data16 = 7067, idx = 521\<rparr>, \<lparr>data16 = 7067, idx = 537\<rparr>, \<lparr>data16 = 18849, idx = 3\<rparr>,
      \<lparr>data16 = 9380, idx = 264\<rparr>, \<lparr>data16 = 9380, idx = 280\<rparr>, \<lparr>data16 = 11693, idx = 23\<rparr>,
      \<lparr>data16 = 11693, idx = 7\<rparr>, \<lparr>data16 = 14006, idx = 1798\<rparr>, \<lparr>data16 = 14006, idx = 1814\<rparr>,
      \<lparr>data16 = 186, idx = 1292\<rparr>, \<lparr>data16 = 2491, idx = 1051\<rparr>, \<lparr>data16 = 16574, idx = 1300\<rparr>,
      \<lparr>data16 = 16319, idx = 5\<rparr>, \<lparr>data16 = 16319, idx = 1557\<rparr>, \<lparr>data16 = 21202, idx = 2\<rparr>,
      \<lparr>data16 = 21202, idx = 786\<rparr>, \<lparr>data16 = 18899, idx = 1043\<rparr>, \<lparr>data16 = 2519, idx = 1035\<rparr>,
      \<lparr>data16 = 23515, idx = 529\<rparr>, \<lparr>data16 = 23515, idx = 1\<rparr>, \<lparr>data16 = 224, idx = 1308\<rparr>,
      \<lparr>data16 = 25828, idx = 272\<rparr>, \<lparr>data16 = 28141, idx = 15\<rparr>, \<lparr>data16 = 16624, idx = 4\<rparr>,
      \<lparr>data16 = 30454, idx = 1806\<rparr>, \<lparr>data16 = 32767, idx = 1549\<rparr>,
      \<lparr>data16 = 65535, idx = 32767\<rparr>], 36740, 8151, 36410)"
      by (simp only: performance_eval [OF assms] prod.case performance_sorted if_True)
    show "walked \<lparr>data16 = 101, idx = 103\<rparr>
      [\<lparr>data16 = 32896, idx = 0\<rparr>, \<lparr>data16 = 4754, idx = 794\<rparr>, \<lparr>data16 = 7067, idx = 521\<rparr>,
      \<lparr>data16 = 7067, idx = 537\<rparr>, \<lparr>data16 = 18849, idx = 3\<rparr>, \<lparr>data16 = 9380, idx = 264\<rparr>,
      \<lparr>data16 = 9380, idx = 280\<rparr>, \<lparr>data16 = 11693, idx = 23\<rparr>, \<lparr>data16 = 11693, idx = 7\<rparr>,
      \<lparr>data16 = 14006, idx = 1798\<rparr>, \<lparr>data16 = 14006, idx = 1814\<rparr>, \<lparr>data16 = 186, idx = 1292\<rparr>,
      \<lparr>data16 = 2491, idx = 1051\<rparr>, \<lparr>data16 = 16574, idx = 1300\<rparr>, \<lparr>data16 = 16319, idx = 5\<rparr>,
      \<lparr>data16 = 16319, idx = 1557\<rparr>, \<lparr>data16 = 21202, idx = 2\<rparr>, \<lparr>data16 = 21202, idx = 786\<rparr>,
      \<lparr>data16 = 18899, idx = 1043\<rparr>, \<lparr>data16 = 2519, idx = 1035\<rparr>, \<lparr>data16 = 23515, idx = 529\<rparr>,
      \<lparr>data16 = 23515, idx = 1\<rparr>, \<lparr>data16 = 224, idx = 1308\<rparr>, \<lparr>data16 = 25828, idx = 272\<rparr>,
      \<lparr>data16 = 28141, idx = 15\<rparr>, \<lparr>data16 = 16624, idx = 4\<rparr>, \<lparr>data16 = 30454, idx = 1806\<rparr>,
      \<lparr>data16 = 32767, idx = 1549\<rparr>, \<lparr>data16 = 65535, idx = 32767\<rparr>] = 28"
      by (simp add: walked_def wanted_def)
  qed (unfold h list_data.simps, rule performance_walks(1), rule performance_walks(2))
  moreover have "spec_bench tv mv 102 (- 1) ?its (29700, 8151, 36410) = (32822, 29700, 8151, 36410)"
  proof (rule spec_bench_parts [OF performance_find(2)])
    have "\<not> 0 < sint (- 1 :: u16)" by simp
    then show "(if 0 < sint (- 1 :: u16) then (case spec_eval tv mv (map (item_at performance_pairs) [0, 3, 25, 8, 14, 20, 29, 2, 4, 5, 6, 7, 10, 11, 12, 13, 15, 16, 17, 18, 19, 21, 22, 23, 24, 26, 27,
     28, 9, 1]) (29700, 8151, 36410) of (ms, cr) \<Rightarrow>
        (sort_key (\<lambda>v. sint (data16 v AND 0x7f)) ms, cr)) else (map (item_at performance_pairs) [0, 3, 25, 8, 14, 20, 29, 2, 4, 5, 6, 7, 10, 11, 12, 13, 15, 16, 17, 18, 19, 21, 22, 23, 24, 26, 27,
     28, 9, 1], (29700, 8151, 36410)))
      = ([\<lparr>data16 = 32896, idx = 0\<rparr>, \<lparr>data16 = 18761, idx = 3\<rparr>, \<lparr>data16 = 16191, idx = 1557\<rparr>,
      \<lparr>data16 = 11565, idx = 23\<rparr>, \<lparr>data16 = 6939, idx = 537\<rparr>, \<lparr>data16 = 2313, idx = 1051\<rparr>,
      \<lparr>data16 = 65535, idx = 32767\<rparr>, \<lparr>data16 = 21074, idx = 2\<rparr>, \<lparr>data16 = 16448, idx = 4\<rparr>,
      \<lparr>data16 = 16191, idx = 5\<rparr>, \<lparr>data16 = 11565, idx = 7\<rparr>, \<lparr>data16 = 28013, idx = 15\<rparr>,
      \<lparr>data16 = 25700, idx = 272\<rparr>, \<lparr>data16 = 9252, idx = 280\<rparr>, \<lparr>data16 = 6939, idx = 521\<rparr>,
      \<lparr>data16 = 23387, idx = 529\<rparr>, \<lparr>data16 = 4626, idx = 778\<rparr>, \<lparr>data16 = 21074, idx = 786\<rparr>,
      \<lparr>data16 = 4626, idx = 794\<rparr>, \<lparr>data16 = 2313, idx = 1035\<rparr>, \<lparr>data16 = 18761, idx = 1043\<rparr>,
      \<lparr>data16 = 0, idx = 1292\<rparr>, \<lparr>data16 = 16448, idx = 1300\<rparr>, \<lparr>data16 = 0, idx = 1308\<rparr>,
      \<lparr>data16 = 32639, idx = 1549\<rparr>, \<lparr>data16 = 13878, idx = 1798\<rparr>,
      \<lparr>data16 = 30326, idx = 1806\<rparr>, \<lparr>data16 = 13878, idx = 1814\<rparr>, \<lparr>data16 = 9252, idx = 264\<rparr>,
      \<lparr>data16 = 23387, idx = 1\<rparr>], 29700, 8151, 36410)"
      by (simp only: list.map performance_item if_False)
    show "walked \<lparr>data16 = 101, idx = - 1\<rparr>
      [\<lparr>data16 = 32896, idx = 0\<rparr>, \<lparr>data16 = 16191, idx = 1557\<rparr>, \<lparr>data16 = 11565, idx = 23\<rparr>,
      \<lparr>data16 = 6939, idx = 537\<rparr>, \<lparr>data16 = 2313, idx = 1051\<rparr>, \<lparr>data16 = 65535, idx = 32767\<rparr>,
      \<lparr>data16 = 21074, idx = 2\<rparr>, \<lparr>data16 = 16448, idx = 4\<rparr>, \<lparr>data16 = 16191, idx = 5\<rparr>,
      \<lparr>data16 = 11565, idx = 7\<rparr>, \<lparr>data16 = 28013, idx = 15\<rparr>, \<lparr>data16 = 25700, idx = 272\<rparr>,
      \<lparr>data16 = 9252, idx = 280\<rparr>, \<lparr>data16 = 6939, idx = 521\<rparr>, \<lparr>data16 = 23387, idx = 529\<rparr>,
      \<lparr>data16 = 4626, idx = 778\<rparr>, \<lparr>data16 = 21074, idx = 786\<rparr>, \<lparr>data16 = 4626, idx = 794\<rparr>,
      \<lparr>data16 = 2313, idx = 1035\<rparr>, \<lparr>data16 = 18761, idx = 1043\<rparr>, \<lparr>data16 = 0, idx = 1292\<rparr>,
      \<lparr>data16 = 16448, idx = 1300\<rparr>, \<lparr>data16 = 0, idx = 1308\<rparr>, \<lparr>data16 = 32639, idx = 1549\<rparr>,
      \<lparr>data16 = 13878, idx = 1798\<rparr>, \<lparr>data16 = 30326, idx = 1806\<rparr>,
      \<lparr>data16 = 13878, idx = 1814\<rparr>, \<lparr>data16 = 9252, idx = 264\<rparr>, \<lparr>data16 = 23387, idx = 1\<rparr>] = 28"
      by (simp add: walked_def wanted_def)
  qed (unfold h list_data.simps, rule performance_walks(3), rule performance_walks(4))
  moreover have "crcu16 49034 36740 = 29700" "crcu16 32822 29700 = 59156" by (simp_all add: crc_fast)
  ultimately show ?thesis by (simp add: spec_round_def)
qed

section \<open>The validation run\<close>

definition validation_pairs :: "(nat \<times> nat) list" where
  "validation_pairs = [(32896, 0), (29555, 1), (31354, 2), (24929, 3), (26728, 4), (5911, 5), (1285, 13314),
     (24929, 13318), (8481, 13326), (1285, 13330), (17733, 13338), (8481, 13342), (26728, 13569),
     (19532, 13573), (10280, 13577), (3084, 13581), (10280, 13593), (3084, 13597), (5911, 13824),
     (29555, 13828), (13107, 13836), (22359, 13848), (13107, 13852), (7710, 14083), (31354, 14087),
     (14906, 14095), (7710, 14099), (24158, 14107), (14906, 14111), (65535, 32767)]"

lemma validation_key_at_idx:
  "key_at validation_pairs True 0 = 0" "key_at validation_pairs True 1 = 1"
  "key_at validation_pairs True 2 = 2" "key_at validation_pairs True 3 = 3"
  "key_at validation_pairs True 4 = 4" "key_at validation_pairs True 5 = 5"
  "key_at validation_pairs True 6 = 13314" "key_at validation_pairs True 7 = 13318"
  "key_at validation_pairs True 8 = 13326" "key_at validation_pairs True 9 = 13330"
  "key_at validation_pairs True 10 = 13338" "key_at validation_pairs True 11 = 13342"
  "key_at validation_pairs True 12 = 13569" "key_at validation_pairs True 13 = 13573"
  "key_at validation_pairs True 14 = 13577" "key_at validation_pairs True 15 = 13581"
  "key_at validation_pairs True 16 = 13593" "key_at validation_pairs True 17 = 13597"
  "key_at validation_pairs True 18 = 13824" "key_at validation_pairs True 19 = 13828"
  "key_at validation_pairs True 20 = 13836" "key_at validation_pairs True 21 = 13848"
  "key_at validation_pairs True 22 = 13852" "key_at validation_pairs True 23 = 14083"
  "key_at validation_pairs True 24 = 14087" "key_at validation_pairs True 25 = 14095"
  "key_at validation_pairs True 26 = 14099" "key_at validation_pairs True 27 = 14107"
  "key_at validation_pairs True 28 = 14111" "key_at validation_pairs True 29 = 32767"
  by (simp_all add: validation_pairs_def key_at_def)

lemma validation_key_at_data:
  "key_at validation_pairs False 0 = 128" "key_at validation_pairs False 1 = 115"
  "key_at validation_pairs False 2 = 122" "key_at validation_pairs False 3 = 97"
  "key_at validation_pairs False 4 = 104" "key_at validation_pairs False 5 = 23"
  "key_at validation_pairs False 6 = 5" "key_at validation_pairs False 7 = 97"
  "key_at validation_pairs False 8 = 33" "key_at validation_pairs False 9 = 5"
  "key_at validation_pairs False 10 = 69" "key_at validation_pairs False 11 = 33"
  "key_at validation_pairs False 12 = 104" "key_at validation_pairs False 13 = 76"
  "key_at validation_pairs False 14 = 40" "key_at validation_pairs False 15 = 12"
  "key_at validation_pairs False 16 = 40" "key_at validation_pairs False 17 = 12"
  "key_at validation_pairs False 18 = 23" "key_at validation_pairs False 19 = 115"
  "key_at validation_pairs False 20 = 51" "key_at validation_pairs False 21 = 87"
  "key_at validation_pairs False 22 = 51" "key_at validation_pairs False 23 = 30"
  "key_at validation_pairs False 24 = 122" "key_at validation_pairs False 25 = 58"
  "key_at validation_pairs False 26 = 30" "key_at validation_pairs False 27 = 94"
  "key_at validation_pairs False 28 = 58" "key_at validation_pairs False 29 = 255"
  by (simp_all add: validation_pairs_def key_at_def)

lemma validation_data_bit:
  "data_bit validation_pairs 0 = 0" "data_bit validation_pairs 1 = 1" "data_bit validation_pairs 2 = 0"
  "data_bit validation_pairs 3 = 1" "data_bit validation_pairs 4 = 0" "data_bit validation_pairs 5 = 1"
  "data_bit validation_pairs 6 = 1" "data_bit validation_pairs 7 = 1" "data_bit validation_pairs 8 = 1"
  "data_bit validation_pairs 9 = 1" "data_bit validation_pairs 10 = 1" "data_bit validation_pairs 11 = 1"
  "data_bit validation_pairs 12 = 0" "data_bit validation_pairs 13 = 0" "data_bit validation_pairs 14 = 0"
  "data_bit validation_pairs 15 = 0" "data_bit validation_pairs 16 = 0" "data_bit validation_pairs 17 = 0"
  "data_bit validation_pairs 18 = 1" "data_bit validation_pairs 19 = 1" "data_bit validation_pairs 20 = 1"
  "data_bit validation_pairs 21 = 1" "data_bit validation_pairs 22 = 1" "data_bit validation_pairs 23 = 0"
  "data_bit validation_pairs 24 = 0" "data_bit validation_pairs 25 = 0" "data_bit validation_pairs 26 = 0"
  "data_bit validation_pairs 27 = 0" "data_bit validation_pairs 28 = 0" "data_bit validation_pairs 29 = 1"
  by (simp_all add: validation_pairs_def data_bit_def)

lemma validation_found_bit:
  "found_bit validation_pairs 0 = 0" "found_bit validation_pairs 1 = 1" "found_bit validation_pairs 2 = 0"
  "found_bit validation_pairs 3 = 0" "found_bit validation_pairs 4 = 0" "found_bit validation_pairs 5 = 1"
  "found_bit validation_pairs 6 = 0" "found_bit validation_pairs 7 = 0" "found_bit validation_pairs 8 = 0"
  "found_bit validation_pairs 9 = 0" "found_bit validation_pairs 10 = 0" "found_bit validation_pairs 11 = 0"
  "found_bit validation_pairs 12 = 0" "found_bit validation_pairs 13 = 0" "found_bit validation_pairs 14 = 0"
  "found_bit validation_pairs 15 = 0" "found_bit validation_pairs 16 = 0" "found_bit validation_pairs 17 = 0"
  "found_bit validation_pairs 18 = 1" "found_bit validation_pairs 19 = 1" "found_bit validation_pairs 20 = 1"
  "found_bit validation_pairs 21 = 1" "found_bit validation_pairs 22 = 1" "found_bit validation_pairs 23 = 0"
  "found_bit validation_pairs 24 = 0" "found_bit validation_pairs 25 = 0" "found_bit validation_pairs 26 = 0"
  "found_bit validation_pairs 27 = 0" "found_bit validation_pairs 28 = 0" "found_bit validation_pairs 29 = 1"
  by (simp_all add: validation_pairs_def found_bit_def)

lemmas validation_tables = validation_key_at_idx validation_key_at_data validation_data_bit validation_found_bit

lemma validation_item:
  "item_at validation_pairs 0 = \<lparr>data16 = 32896, idx = 0\<rparr>"
  "item_at validation_pairs 1 = \<lparr>data16 = 29555, idx = 1\<rparr>"
  "item_at validation_pairs 2 = \<lparr>data16 = 31354, idx = 2\<rparr>"
  "item_at validation_pairs 3 = \<lparr>data16 = 24929, idx = 3\<rparr>"
  "item_at validation_pairs 4 = \<lparr>data16 = 26728, idx = 4\<rparr>"
  "item_at validation_pairs 5 = \<lparr>data16 = 5911, idx = 5\<rparr>"
  "item_at validation_pairs 6 = \<lparr>data16 = 1285, idx = 13314\<rparr>"
  "item_at validation_pairs 7 = \<lparr>data16 = 24929, idx = 13318\<rparr>"
  "item_at validation_pairs 8 = \<lparr>data16 = 8481, idx = 13326\<rparr>"
  "item_at validation_pairs 9 = \<lparr>data16 = 1285, idx = 13330\<rparr>"
  "item_at validation_pairs 10 = \<lparr>data16 = 17733, idx = 13338\<rparr>"
  "item_at validation_pairs 11 = \<lparr>data16 = 8481, idx = 13342\<rparr>"
  "item_at validation_pairs 12 = \<lparr>data16 = 26728, idx = 13569\<rparr>"
  "item_at validation_pairs 13 = \<lparr>data16 = 19532, idx = 13573\<rparr>"
  "item_at validation_pairs 14 = \<lparr>data16 = 10280, idx = 13577\<rparr>"
  "item_at validation_pairs 15 = \<lparr>data16 = 3084, idx = 13581\<rparr>"
  "item_at validation_pairs 16 = \<lparr>data16 = 10280, idx = 13593\<rparr>"
  "item_at validation_pairs 17 = \<lparr>data16 = 3084, idx = 13597\<rparr>"
  "item_at validation_pairs 18 = \<lparr>data16 = 5911, idx = 13824\<rparr>"
  "item_at validation_pairs 19 = \<lparr>data16 = 29555, idx = 13828\<rparr>"
  "item_at validation_pairs 20 = \<lparr>data16 = 13107, idx = 13836\<rparr>"
  "item_at validation_pairs 21 = \<lparr>data16 = 22359, idx = 13848\<rparr>"
  "item_at validation_pairs 22 = \<lparr>data16 = 13107, idx = 13852\<rparr>"
  "item_at validation_pairs 23 = \<lparr>data16 = 7710, idx = 14083\<rparr>"
  "item_at validation_pairs 24 = \<lparr>data16 = 31354, idx = 14087\<rparr>"
  "item_at validation_pairs 25 = \<lparr>data16 = 14906, idx = 14095\<rparr>"
  "item_at validation_pairs 26 = \<lparr>data16 = 7710, idx = 14099\<rparr>"
  "item_at validation_pairs 27 = \<lparr>data16 = 24158, idx = 14107\<rparr>"
  "item_at validation_pairs 28 = \<lparr>data16 = 14906, idx = 14111\<rparr>"
  "item_at validation_pairs 29 = \<lparr>data16 = 65535, idx = 32767\<rparr>"
  by (simp_all add: validation_pairs_def item_at_def)

lemma validation_items: "sort_key (\<lambda>v. sint (idx v)) (init_items 0x3415 31) = map (item_at validation_pairs) [0..<30]"
  unfolding upto_30 list.map validation_item by (simp add: init_items_def init_data_def init_idx_def Let_def upt_rec)

lemma validation_search_idx:
  "seek_loop validation_pairs True 102 1 [0, 1, 2, 3, 4, 5, 6, 7, 8, 9, 10, 11, 12, 13, 14, 15, 16, 17, 18, 19, 20, 21, 22, 23, 24, 25, 26,
     27, 28, 29] (0, 0, 0) =
     ([5, 2, 4, 6, 7, 8, 9, 10, 11, 12, 13, 14, 15, 16, 17, 18, 19, 20, 21, 22, 23, 24, 25, 26, 27, 28, 0,
     1, 3, 29], 50, 5, 97)"
  by (simp only: seek_eval validation_tables)

lemma validation_search_data:
  "seek_loop validation_pairs False 102 0 [0, 1, 2, 3, 4, 5, 6, 7, 8, 9, 10, 11, 12, 13, 14, 15, 16, 17, 18, 19, 20, 21, 22, 23, 24, 25, 26,
     27, 28, 29] (0, 0, 0) =
     ([0, 8, 23, 1, 15, 12, 19, 10, 2, 3, 4, 5, 6, 7, 9, 13, 16, 17, 18, 20, 21, 25, 27, 28, 14, 22, 24,
     11, 26, 29], 42, 13, 89)"
  by (simp only: seek_eval validation_tables)

definition validation_nos :: "nat list" where
  "validation_nos = [10, 14, 3, 3, 3, 7, 7, 11, 11, 15, 0, 0, 0, 4, 4, 8, 8, 12, 1, 1, 1, 5, 5, 9, 9, 13, 2, 2, 2, 6, 6, 10,
     10, 14, 3, 3, 3, 7, 7, 11, 11, 15, 0, 0, 0, 4, 4, 8, 8, 12, 1, 1, 1, 5, 5, 9, 9, 13, 2, 2, 2, 6, 6, 10,
     10, 14, 3, 3, 3, 7, 7, 11, 11, 15, 0, 0, 0, 4, 4, 8, 8, 12, 1, 1, 1, 5, 5, 9]"

lemma validation_tokens: "token_nos 665 665 13334 = validation_nos"
  by (simp add: token_nos_numeral pattern_no_def token_size_def Let_def validation_nos_def)

lemma validation_xor:
  "0 XOR 21 = (21 :: u8)" "43 XOR 21 = (62 :: u8)" "44 XOR 21 = (57 :: u8)" "45 XOR 21 = (56 :: u8)"
  "46 XOR 21 = (59 :: u8)" "48 XOR 21 = (37 :: u8)" "49 XOR 21 = (36 :: u8)" "50 XOR 21 = (39 :: u8)"
  "51 XOR 21 = (38 :: u8)" "52 XOR 21 = (33 :: u8)" "53 XOR 21 = (32 :: u8)" "54 XOR 21 = (35 :: u8)"
  "55 XOR 21 = (34 :: u8)" "56 XOR 21 = (45 :: u8)" "70 XOR 21 = (83 :: u8)" "84 XOR 21 = (65 :: u8)"
  "94 XOR 21 = (75 :: u8)" "101 XOR 21 = (112 :: u8)" "113 XOR 21 = (100 :: u8)" "122 XOR 21 = (111 :: u8)"
  by simp_all

lemma validation_length: "length (run_text validation_nos 6) = 666"
  unfolding validation_nos_def run_text_def text_of_def list.map pattern_table by simp

lemma validation_finals_85:
  "final_counts (text_events (run_text validation_nos 6) @ text_events (corrupt_walk 85 21 0 (run_text validation_nos 6)))
    = [23, 78, 0, 0, 78, 43, 0, 32]"
  by (simp only: text_eval validation_nos_def validation_xor)

lemma validation_tracks_85:
  "track_counts (text_events (run_text validation_nos 6) @ text_events (corrupt_walk 85 21 0 (run_text validation_nos 6)))
    = [231, 33, 101, 50, 92, 57, 44, 0]"
  by (simp only: text_eval validation_nos_def validation_xor)

lemma validation_finals_221:
  "final_counts (text_events (run_text validation_nos 6) @ text_events (corrupt_walk 221 21 0 (run_text validation_nos 6)))
    = [22, 72, 0, 0, 76, 44, 0, 34]"
  by (simp only: text_eval validation_nos_def validation_xor)

lemma validation_tracks_221:
  "track_counts (text_events (run_text validation_nos 6) @ text_events (corrupt_walk 221 21 0 (run_text validation_nos 6)))
    = [226, 32, 99, 52, 90, 56, 46, 0]"
  by (simp only: text_eval validation_nos_def validation_xor)

definition validation_rows :: "(nat \<times> nat) list list" where
  "validation_rows =
    [[(23, 13334), (46, 26668), (132, 14465), (0, 57852), (226, 27101), (28, 31510), (126, 23927),
      (144, 60296), (146, 18313)],
     [(20, 51978), (22, 47371), (24, 44044), (26, 48141), (28, 18446), (30, 14351), (32, 32784),
      (34, 32785), (36, 18)],
     [(38, 19), (40, 20), (42, 21), (44, 22), (46, 23), (48, 24), (50, 25), (52, 26), (54, 27)],
     [(56, 28), (58, 29), (60, 30), (62, 31), (64, 32), (66, 33), (68, 34), (70, 35), (72, 36)],
     [(74, 37), (76, 38), (78, 39), (80, 40), (82, 41), (84, 42), (86, 43), (88, 44), (90, 45)],
     [(92, 46), (94, 47), (96, 48), (98, 49), (100, 50), (102, 51), (104, 52), (106, 53), (108, 54)],
     [(110, 55), (112, 56), (114, 57), (116, 58), (118, 59), (120, 60), (122, 61), (124, 62), (126, 63)],
     [(128, 64), (130, 65), (132, 66), (134, 67), (136, 68), (138, 69), (140, 70), (142, 71), (144, 72)],
     [(146, 73), (148, 74), (150, 75), (152, 76), (154, 77), (156, 78), (158, 79), (160, 80), (162, 81)]]"

lemma validation_elements: "concat validation_rows = element_pairs (9 * 9) 1 873804821"
  by (simp add: element_pairs_numeral validation_rows_def)

lemma validation_sums_68: "open_sums 9 68 validation_rows = (Some 810, Some 135)"
  by (simp add: sum_eval validation_rows_def upt_rec)

lemma validation_sums_204: "open_sums 9 204 validation_rows = (Some 810, Some 135)"
  by (simp add: sum_eval validation_rows_def upt_rec)

lemma validation_text_crcs:
  "counts_crc [22, 72, 0, 0, 76, 44, 0, 34] [226, 32, 99, 52, 90, 56, 46, 0] 13079 = 36228"
  "counts_crc [22, 72, 0, 0, 76, 44, 0, 34] [226, 32, 99, 52, 90, 56, 46, 0] 47769 = 44014"
  "counts_crc [23, 78, 0, 0, 78, 43, 0, 32] [231, 33, 101, 50, 92, 57, 44, 0] 33918 = 20129"
  "counts_crc [23, 78, 0, 0, 78, 43, 0, 32] [231, 33, 101, 50, 92, 57, 44, 0] 61214 = 48147"
  by (simp_all add: counts_crc_simps crc_fast)

lemma validation_matrix_204: "crc16 810 (crc16 135 (crc16 810 (crc16 810 0))) = 30853"
  by (simp add: crc_fast)

lemma validation_matrix_68: "crc16 810 (crc16 135 (crc16 810 (crc16 810 0))) = 30853"
  by (simp add: crc_fast)

lemma validation_calcs:
  assumes "\<And>crc. tv 221 crc = counts_crc [22, 72, 0, 0, 76, 44, 0, 34] [226, 32, 99, 52, 90, 56, 46, 0] crc"
    "\<And>crc. tv 85 crc = counts_crc [23, 78, 0, 0, 78, 43, 0, 32] [231, 33, 101, 50, 92, 57, 44, 0] crc"
    "\<And>crc. mv 204 crc = crc16 30853 crc"
    "\<And>crc. mv 68 crc = crc16 30853 crc"
  shows "spec_calc tv mv 5911 (0, 0, 0) = (6039, 65103, 0, 0)"
    "spec_calc tv mv 31354 (65103, 0, 0) = (31482, 13079, 0, 0)"
    "spec_calc tv mv 26728 (13079, 0, 0) = (26756, 33004, 0, 36228)"
    "spec_calc tv mv 1285 (33004, 0, 36228) = (1413, 13198, 0, 36228)"
    "spec_calc tv mv 24929 (13198, 0, 36228) = (25031, 34647, 1863, 36228)"
    "spec_calc tv mv 8481 (34647, 1863, 36228) = (8604, 6775, 1863, 36228)"
    "spec_calc tv mv 1285 (6775, 1863, 36228) = (1413, 26725, 1863, 36228)"
    "spec_calc tv mv 17733 (26725, 1863, 36228) = (17861, 56793, 1863, 36228)"
    "spec_calc tv mv 8481 (56793, 1863, 36228) = (8697, 47769, 1863, 36228)"
    "spec_calc tv mv 26728 (47769, 1863, 36228) = (26862, 64743, 1863, 36228)"
    "spec_calc tv mv 19532 (64743, 1863, 36228) = (19660, 33918, 1863, 36228)"
    "spec_calc tv mv 10280 (33918, 1863, 36228) = (10401, 26584, 1863, 36228)"
    "spec_calc tv mv 3084 (26584, 1863, 36228) = (3212, 61214, 1863, 36228)"
    "spec_calc tv mv 10280 (61214, 1863, 36228) = (10387, 44356, 1863, 36228)"
    "spec_calc tv mv 3084 (44356, 1863, 36228) = (3212, 47351, 1863, 36228)"
    "spec_calc tv mv 5911 (47351, 1863, 36228) = (6039, 48137, 1863, 36228)"
    "spec_calc tv mv 29555 (48137, 1863, 36228) = (29683, 13411, 1863, 36228)"
    "spec_calc tv mv 13107 (13411, 1863, 36228) = (13235, 49789, 1863, 36228)"
    "spec_calc tv mv 22359 (49789, 1863, 36228) = (22487, 4063, 1863, 36228)"
    "spec_calc tv mv 13107 (4063, 1863, 36228) = (13235, 53580, 1863, 36228)"
    "spec_calc tv mv 7710 (53580, 1863, 36228) = (7838, 13437, 1863, 36228)"
    "spec_calc tv mv 31354 (13437, 1863, 36228) = (31482, 1154, 1863, 36228)"
    "spec_calc tv mv 14906 (1154, 1863, 36228) = (15034, 53491, 1863, 36228)"
    "spec_calc tv mv 7710 (53491, 1863, 36228) = (7838, 50380, 1863, 36228)"
    "spec_calc tv mv 24158 (50380, 1863, 36228) = (24286, 3053, 1863, 36228)"
    "spec_calc tv mv 14906 (3053, 1863, 36228) = (15034, 9374, 1863, 36228)"
    "spec_calc tv mv 32896 (9374, 1863, 36228) = (32896, 9374, 1863, 36228)"
    "spec_calc tv mv 29555 (9374, 1863, 36228) = (29683, 44556, 1863, 36228)"
    "spec_calc tv mv 24929 (44556, 1863, 36228) = (25062, 6223, 1863, 36228)"
    "spec_calc tv mv 65535 (6223, 1863, 36228) = (65535, 6223, 1863, 36228)"
  by (simp_all add: spec_calc_def record_first_def cache_def Let_def assms validation_text_crcs crc_fast)

lemma validation_eval:
  assumes "\<And>crc. tv 221 crc = counts_crc [22, 72, 0, 0, 76, 44, 0, 34] [226, 32, 99, 52, 90, 56, 46, 0] crc"
    "\<And>crc. tv 85 crc = counts_crc [23, 78, 0, 0, 78, 43, 0, 32] [231, 33, 101, 50, 92, 57, 44, 0] crc"
    "\<And>crc. mv 204 crc = crc16 30853 crc"
    "\<And>crc. mv 68 crc = crc16 30853 crc"
  shows "spec_eval tv mv (map (item_at validation_pairs) [5, 2, 4, 6, 7, 8, 9, 10, 11, 12, 13, 14, 15, 16, 17, 18, 19, 20, 21, 22, 23, 24, 25, 26, 27, 28, 0,
     1, 3, 29]) (0, 0, 0) =
    ([\<lparr>data16 = 6039, idx = 5\<rparr>, \<lparr>data16 = 31482, idx = 2\<rparr>, \<lparr>data16 = 26756, idx = 4\<rparr>,
      \<lparr>data16 = 1413, idx = 13314\<rparr>, \<lparr>data16 = 25031, idx = 13318\<rparr>,
      \<lparr>data16 = 8604, idx = 13326\<rparr>, \<lparr>data16 = 1413, idx = 13330\<rparr>,
      \<lparr>data16 = 17861, idx = 13338\<rparr>, \<lparr>data16 = 8697, idx = 13342\<rparr>,
      \<lparr>data16 = 26862, idx = 13569\<rparr>, \<lparr>data16 = 19660, idx = 13573\<rparr>,
      \<lparr>data16 = 10401, idx = 13577\<rparr>, \<lparr>data16 = 3212, idx = 13581\<rparr>,
      \<lparr>data16 = 10387, idx = 13593\<rparr>, \<lparr>data16 = 3212, idx = 13597\<rparr>,
      \<lparr>data16 = 6039, idx = 13824\<rparr>, \<lparr>data16 = 29683, idx = 13828\<rparr>,
      \<lparr>data16 = 13235, idx = 13836\<rparr>, \<lparr>data16 = 22487, idx = 13848\<rparr>,
      \<lparr>data16 = 13235, idx = 13852\<rparr>, \<lparr>data16 = 7838, idx = 14083\<rparr>,
      \<lparr>data16 = 31482, idx = 14087\<rparr>, \<lparr>data16 = 15034, idx = 14095\<rparr>,
      \<lparr>data16 = 7838, idx = 14099\<rparr>, \<lparr>data16 = 24286, idx = 14107\<rparr>,
      \<lparr>data16 = 15034, idx = 14111\<rparr>, \<lparr>data16 = 32896, idx = 0\<rparr>, \<lparr>data16 = 29683, idx = 1\<rparr>,
      \<lparr>data16 = 25062, idx = 3\<rparr>, \<lparr>data16 = 65535, idx = 32767\<rparr>],
     6223, 1863, 36228)"
  unfolding list.map validation_item by (simp add: validation_calcs assms)

lemma validation_sorted:
  "sort_key (\<lambda>v. sint (data16 v AND 0x7f))
    [\<lparr>data16 = 6039, idx = 5\<rparr>, \<lparr>data16 = 31482, idx = 2\<rparr>, \<lparr>data16 = 26756, idx = 4\<rparr>,
      \<lparr>data16 = 1413, idx = 13314\<rparr>, \<lparr>data16 = 25031, idx = 13318\<rparr>,
      \<lparr>data16 = 8604, idx = 13326\<rparr>, \<lparr>data16 = 1413, idx = 13330\<rparr>,
      \<lparr>data16 = 17861, idx = 13338\<rparr>, \<lparr>data16 = 8697, idx = 13342\<rparr>,
      \<lparr>data16 = 26862, idx = 13569\<rparr>, \<lparr>data16 = 19660, idx = 13573\<rparr>,
      \<lparr>data16 = 10401, idx = 13577\<rparr>, \<lparr>data16 = 3212, idx = 13581\<rparr>,
      \<lparr>data16 = 10387, idx = 13593\<rparr>, \<lparr>data16 = 3212, idx = 13597\<rparr>,
      \<lparr>data16 = 6039, idx = 13824\<rparr>, \<lparr>data16 = 29683, idx = 13828\<rparr>,
      \<lparr>data16 = 13235, idx = 13836\<rparr>, \<lparr>data16 = 22487, idx = 13848\<rparr>,
      \<lparr>data16 = 13235, idx = 13852\<rparr>, \<lparr>data16 = 7838, idx = 14083\<rparr>,
      \<lparr>data16 = 31482, idx = 14087\<rparr>, \<lparr>data16 = 15034, idx = 14095\<rparr>,
      \<lparr>data16 = 7838, idx = 14099\<rparr>, \<lparr>data16 = 24286, idx = 14107\<rparr>,
      \<lparr>data16 = 15034, idx = 14111\<rparr>, \<lparr>data16 = 32896, idx = 0\<rparr>, \<lparr>data16 = 29683, idx = 1\<rparr>,
      \<lparr>data16 = 25062, idx = 3\<rparr>, \<lparr>data16 = 65535, idx = 32767\<rparr>] =
    [\<lparr>data16 = 32896, idx = 0\<rparr>, \<lparr>data16 = 26756, idx = 4\<rparr>, \<lparr>data16 = 1413, idx = 13314\<rparr>,
      \<lparr>data16 = 1413, idx = 13330\<rparr>, \<lparr>data16 = 3212, idx = 13581\<rparr>,
      \<lparr>data16 = 3212, idx = 13597\<rparr>, \<lparr>data16 = 10387, idx = 13593\<rparr>, \<lparr>data16 = 6039, idx = 5\<rparr>,
      \<lparr>data16 = 6039, idx = 13824\<rparr>, \<lparr>data16 = 8604, idx = 13326\<rparr>,
      \<lparr>data16 = 7838, idx = 14083\<rparr>, \<lparr>data16 = 7838, idx = 14099\<rparr>,
      \<lparr>data16 = 10401, idx = 13577\<rparr>, \<lparr>data16 = 13235, idx = 13836\<rparr>,
      \<lparr>data16 = 13235, idx = 13852\<rparr>, \<lparr>data16 = 15034, idx = 14095\<rparr>,
      \<lparr>data16 = 15034, idx = 14111\<rparr>, \<lparr>data16 = 17861, idx = 13338\<rparr>,
      \<lparr>data16 = 25031, idx = 13318\<rparr>, \<lparr>data16 = 19660, idx = 13573\<rparr>,
      \<lparr>data16 = 22487, idx = 13848\<rparr>, \<lparr>data16 = 24286, idx = 14107\<rparr>,
      \<lparr>data16 = 25062, idx = 3\<rparr>, \<lparr>data16 = 26862, idx = 13569\<rparr>,
      \<lparr>data16 = 29683, idx = 13828\<rparr>, \<lparr>data16 = 29683, idx = 1\<rparr>, \<lparr>data16 = 8697, idx = 13342\<rparr>,
      \<lparr>data16 = 31482, idx = 2\<rparr>, \<lparr>data16 = 31482, idx = 14087\<rparr>, \<lparr>data16 = 65535, idx = 32767\<rparr>]"
  by simp

lemma validation_walks:
  "(crc16 32896 ^^ 28) (50 + (5 * 4 - 97)) = 24628"
  "(crc16 32896 ^^ 29) 24628 = 9557"
  "(crc16 32896 ^^ 28) (42 + (13 * 4 - 89)) = 54138"
  "(crc16 32896 ^^ 29) 54138 = 35637"
  by (simp_all only: funpow_numeral funpow_1 num_eval) (simp_all add: crc_fast)

lemma validation_find:
  "spec_find id 102 0 \<lparr>data16 = 0, idx = 1\<rparr> (map (item_at validation_pairs) [0..<30]) (0, 0, 0) =
    (\<lparr>data16 = 101, idx = 103\<rparr>, map (item_at validation_pairs) [5, 2, 4, 6, 7, 8, 9, 10, 11, 12, 13, 14, 15, 16, 17, 18, 19, 20, 21, 22, 23, 24, 25, 26, 27, 28, 0,
     1, 3, 29], 50, 5, 97)"
  "spec_find id 102 0 \<lparr>data16 = 0, idx = - 1\<rparr> (map (item_at validation_pairs) [0..<30]) (0, 0, 0) =
    (\<lparr>data16 = 101, idx = - 1\<rparr>, map (item_at validation_pairs) [0, 8, 23, 1, 15, 12, 19, 10, 2, 3, 4, 5, 6, 7, 9, 13, 16, 17, 18, 20, 21, 25, 27, 28, 14, 22, 24,
     11, 26, 29], 42, 13, 89)"
  using run_find [of True 102 1 "\<lparr>data16 = 0, idx = 1\<rparr>" validation_pairs, unfolded upto_30, OF _ _ _ _ validation_search_idx]
    run_find [of False 102 0 "\<lparr>data16 = 0, idx = - 1\<rparr>" validation_pairs, unfolded upto_30, OF _ _ _ _ validation_search_data]
  by (simp_all add: seeks_def sought_def upto_30 validation_pairs_def)

lemma validation_round:
  assumes "\<And>crc. tv 221 crc = counts_crc [22, 72, 0, 0, 76, 44, 0, 34] [226, 32, 99, 52, 90, 56, 46, 0] crc"
    "\<And>crc. tv 85 crc = counts_crc [23, 78, 0, 0, 78, 43, 0, 32] [231, 33, 101, 50, 92, 57, 44, 0] crc"
    "\<And>crc. mv 204 crc = crc16 30853 crc"
    "\<And>crc. mv 68 crc = crc16 30853 crc"
  shows "spec_round tv mv 102 (map (item_at validation_pairs) [0..<30]) (0, 0, 0) = (0xe3c1, 0x747, 0x8d84)"
proof -
  let ?its = "map (item_at validation_pairs) [0..<30]"
  have h: "data16 (hd ?its) = 32896" "length ?its - 1 = 29" by (simp_all add: upto_30 validation_item)
  have "spec_bench tv mv 102 1 ?its (0, 0, 0) = (9557, 6223, 1863, 36228)"
  proof (rule spec_bench_parts [OF validation_find(1)])
    have "0 < sint (1 :: u16)" by simp
    then show "(if 0 < sint (1 :: u16) then (case spec_eval tv mv (map (item_at validation_pairs) [5, 2, 4, 6, 7, 8, 9, 10, 11, 12, 13, 14, 15, 16, 17, 18, 19, 20, 21, 22, 23, 24, 25, 26, 27, 28, 0,
     1, 3, 29]) (0, 0, 0) of (ms, cr) \<Rightarrow>
        (sort_key (\<lambda>v. sint (data16 v AND 0x7f)) ms, cr)) else (map (item_at validation_pairs) [5, 2, 4, 6, 7, 8, 9, 10, 11, 12, 13, 14, 15, 16, 17, 18, 19, 20, 21, 22, 23, 24, 25, 26, 27, 28, 0,
     1, 3, 29], (0, 0, 0)))
      = ([\<lparr>data16 = 32896, idx = 0\<rparr>, \<lparr>data16 = 26756, idx = 4\<rparr>, \<lparr>data16 = 1413, idx = 13314\<rparr>,
      \<lparr>data16 = 1413, idx = 13330\<rparr>, \<lparr>data16 = 3212, idx = 13581\<rparr>,
      \<lparr>data16 = 3212, idx = 13597\<rparr>, \<lparr>data16 = 10387, idx = 13593\<rparr>, \<lparr>data16 = 6039, idx = 5\<rparr>,
      \<lparr>data16 = 6039, idx = 13824\<rparr>, \<lparr>data16 = 8604, idx = 13326\<rparr>,
      \<lparr>data16 = 7838, idx = 14083\<rparr>, \<lparr>data16 = 7838, idx = 14099\<rparr>,
      \<lparr>data16 = 10401, idx = 13577\<rparr>, \<lparr>data16 = 13235, idx = 13836\<rparr>,
      \<lparr>data16 = 13235, idx = 13852\<rparr>, \<lparr>data16 = 15034, idx = 14095\<rparr>,
      \<lparr>data16 = 15034, idx = 14111\<rparr>, \<lparr>data16 = 17861, idx = 13338\<rparr>,
      \<lparr>data16 = 25031, idx = 13318\<rparr>, \<lparr>data16 = 19660, idx = 13573\<rparr>,
      \<lparr>data16 = 22487, idx = 13848\<rparr>, \<lparr>data16 = 24286, idx = 14107\<rparr>,
      \<lparr>data16 = 25062, idx = 3\<rparr>, \<lparr>data16 = 26862, idx = 13569\<rparr>,
      \<lparr>data16 = 29683, idx = 13828\<rparr>, \<lparr>data16 = 29683, idx = 1\<rparr>, \<lparr>data16 = 8697, idx = 13342\<rparr>,
      \<lparr>data16 = 31482, idx = 2\<rparr>, \<lparr>data16 = 31482, idx = 14087\<rparr>, \<lparr>data16 = 65535, idx = 32767\<rparr>], 6223, 1863, 36228)"
      by (simp only: validation_eval [OF assms] prod.case validation_sorted if_True)
    show "walked \<lparr>data16 = 101, idx = 103\<rparr>
      [\<lparr>data16 = 32896, idx = 0\<rparr>, \<lparr>data16 = 1413, idx = 13314\<rparr>, \<lparr>data16 = 1413, idx = 13330\<rparr>,
      \<lparr>data16 = 3212, idx = 13581\<rparr>, \<lparr>data16 = 3212, idx = 13597\<rparr>,
      \<lparr>data16 = 10387, idx = 13593\<rparr>, \<lparr>data16 = 6039, idx = 5\<rparr>, \<lparr>data16 = 6039, idx = 13824\<rparr>,
      \<lparr>data16 = 8604, idx = 13326\<rparr>, \<lparr>data16 = 7838, idx = 14083\<rparr>,
      \<lparr>data16 = 7838, idx = 14099\<rparr>, \<lparr>data16 = 10401, idx = 13577\<rparr>,
      \<lparr>data16 = 13235, idx = 13836\<rparr>, \<lparr>data16 = 13235, idx = 13852\<rparr>,
      \<lparr>data16 = 15034, idx = 14095\<rparr>, \<lparr>data16 = 15034, idx = 14111\<rparr>,
      \<lparr>data16 = 17861, idx = 13338\<rparr>, \<lparr>data16 = 25031, idx = 13318\<rparr>,
      \<lparr>data16 = 19660, idx = 13573\<rparr>, \<lparr>data16 = 22487, idx = 13848\<rparr>,
      \<lparr>data16 = 24286, idx = 14107\<rparr>, \<lparr>data16 = 25062, idx = 3\<rparr>,
      \<lparr>data16 = 26862, idx = 13569\<rparr>, \<lparr>data16 = 29683, idx = 13828\<rparr>,
      \<lparr>data16 = 29683, idx = 1\<rparr>, \<lparr>data16 = 8697, idx = 13342\<rparr>, \<lparr>data16 = 31482, idx = 2\<rparr>,
      \<lparr>data16 = 31482, idx = 14087\<rparr>, \<lparr>data16 = 65535, idx = 32767\<rparr>] = 28"
      by (simp add: walked_def wanted_def)
  qed (unfold h list_data.simps, rule validation_walks(1), rule validation_walks(2))
  moreover have "spec_bench tv mv 102 (- 1) ?its (45514, 1863, 36228) = (35637, 45514, 1863, 36228)"
  proof (rule spec_bench_parts [OF validation_find(2)])
    have "\<not> 0 < sint (- 1 :: u16)" by simp
    then show "(if 0 < sint (- 1 :: u16) then (case spec_eval tv mv (map (item_at validation_pairs) [0, 8, 23, 1, 15, 12, 19, 10, 2, 3, 4, 5, 6, 7, 9, 13, 16, 17, 18, 20, 21, 25, 27, 28, 14, 22, 24,
     11, 26, 29]) (45514, 1863, 36228) of (ms, cr) \<Rightarrow>
        (sort_key (\<lambda>v. sint (data16 v AND 0x7f)) ms, cr)) else (map (item_at validation_pairs) [0, 8, 23, 1, 15, 12, 19, 10, 2, 3, 4, 5, 6, 7, 9, 13, 16, 17, 18, 20, 21, 25, 27, 28, 14, 22, 24,
     11, 26, 29], (45514, 1863, 36228)))
      = ([\<lparr>data16 = 32896, idx = 0\<rparr>, \<lparr>data16 = 8481, idx = 13326\<rparr>, \<lparr>data16 = 7710, idx = 14083\<rparr>,
      \<lparr>data16 = 29555, idx = 1\<rparr>, \<lparr>data16 = 3084, idx = 13581\<rparr>, \<lparr>data16 = 26728, idx = 13569\<rparr>,
      \<lparr>data16 = 29555, idx = 13828\<rparr>, \<lparr>data16 = 17733, idx = 13338\<rparr>,
      \<lparr>data16 = 31354, idx = 2\<rparr>, \<lparr>data16 = 24929, idx = 3\<rparr>, \<lparr>data16 = 26728, idx = 4\<rparr>,
      \<lparr>data16 = 5911, idx = 5\<rparr>, \<lparr>data16 = 1285, idx = 13314\<rparr>, \<lparr>data16 = 24929, idx = 13318\<rparr>,
      \<lparr>data16 = 1285, idx = 13330\<rparr>, \<lparr>data16 = 19532, idx = 13573\<rparr>,
      \<lparr>data16 = 10280, idx = 13593\<rparr>, \<lparr>data16 = 3084, idx = 13597\<rparr>,
      \<lparr>data16 = 5911, idx = 13824\<rparr>, \<lparr>data16 = 13107, idx = 13836\<rparr>,
      \<lparr>data16 = 22359, idx = 13848\<rparr>, \<lparr>data16 = 14906, idx = 14095\<rparr>,
      \<lparr>data16 = 24158, idx = 14107\<rparr>, \<lparr>data16 = 14906, idx = 14111\<rparr>,
      \<lparr>data16 = 10280, idx = 13577\<rparr>, \<lparr>data16 = 13107, idx = 13852\<rparr>,
      \<lparr>data16 = 31354, idx = 14087\<rparr>, \<lparr>data16 = 8481, idx = 13342\<rparr>,
      \<lparr>data16 = 7710, idx = 14099\<rparr>, \<lparr>data16 = 65535, idx = 32767\<rparr>], 45514, 1863, 36228)"
      by (simp only: list.map validation_item if_False)
    show "walked \<lparr>data16 = 101, idx = - 1\<rparr>
      [\<lparr>data16 = 32896, idx = 0\<rparr>, \<lparr>data16 = 7710, idx = 14083\<rparr>, \<lparr>data16 = 29555, idx = 1\<rparr>,
      \<lparr>data16 = 3084, idx = 13581\<rparr>, \<lparr>data16 = 26728, idx = 13569\<rparr>,
      \<lparr>data16 = 29555, idx = 13828\<rparr>, \<lparr>data16 = 17733, idx = 13338\<rparr>,
      \<lparr>data16 = 31354, idx = 2\<rparr>, \<lparr>data16 = 24929, idx = 3\<rparr>, \<lparr>data16 = 26728, idx = 4\<rparr>,
      \<lparr>data16 = 5911, idx = 5\<rparr>, \<lparr>data16 = 1285, idx = 13314\<rparr>, \<lparr>data16 = 24929, idx = 13318\<rparr>,
      \<lparr>data16 = 1285, idx = 13330\<rparr>, \<lparr>data16 = 19532, idx = 13573\<rparr>,
      \<lparr>data16 = 10280, idx = 13593\<rparr>, \<lparr>data16 = 3084, idx = 13597\<rparr>,
      \<lparr>data16 = 5911, idx = 13824\<rparr>, \<lparr>data16 = 13107, idx = 13836\<rparr>,
      \<lparr>data16 = 22359, idx = 13848\<rparr>, \<lparr>data16 = 14906, idx = 14095\<rparr>,
      \<lparr>data16 = 24158, idx = 14107\<rparr>, \<lparr>data16 = 14906, idx = 14111\<rparr>,
      \<lparr>data16 = 10280, idx = 13577\<rparr>, \<lparr>data16 = 13107, idx = 13852\<rparr>,
      \<lparr>data16 = 31354, idx = 14087\<rparr>, \<lparr>data16 = 8481, idx = 13342\<rparr>,
      \<lparr>data16 = 7710, idx = 14099\<rparr>, \<lparr>data16 = 65535, idx = 32767\<rparr>] = 28"
      by (simp add: walked_def wanted_def)
  qed (unfold h list_data.simps, rule validation_walks(3), rule validation_walks(4))
  moreover have "crcu16 9557 6223 = 45514" "crcu16 35637 45514 = 58305" by (simp_all add: crc_fast)
  ultimately show ?thesis by (simp add: spec_round_def)
qed

end
