(* ===== verification/CMKnown.thy ===== *)
theory CMKnown
  imports CMRun
begin

text \<open>
  The published CoreMark checksums: a performance or validation run of the whole program ends with
  them.  The state after the initialisation has the data of \<open>CMRun\<close>, every round computes the same
  checksums from it, and \<open>CMSpec\<close> carries the round over to the code's model.
\<close>

section \<open>The state after the initialisation\<close>

definition initialised :: "run_type \<Rightarrow> core_results \<Rightarrow> nat list \<Rightarrow> bool" where
  "initialised run s ns \<longleftrightarrow> res_size s = 666 \<and> res_seed1 s = run_seed run \<and> res_seed3 s = run_seed3 run \<and>
     (\<exists>p. length p = 666 \<and> core_init_state 666 (run_seed run) p = Inr (res_text s)) \<and>
     map (item s) ns = sort_key (\<lambda>v. sint (idx v)) (init_items (run_seed run) 31) \<and>
     (\<exists>fuel blk A B C. 16385 \<le> fuel \<and> length (A 81) = 81 \<and> length (B 81) = 81 \<and> length (C 81) = 81 \<and>
       core_init_matrix fuel 666 blk (scast (run_seed run) OR push_bit 16 (scast (run_seed run))) A B C = Inr (res_mat s))"

lemma dim_666:
  assumes "16385 \<le> fuel"
  shows "matrix_dim fuel 666 0 0 = Inr 9"
proof -
  obtain N where N: "matrix_dim fuel 666 0 0 = Inr N" "8 * (N * N) < 666" "666 \<le> 8 * ((N + 1) * (N + 1))"
    using matrix_dim_found [of 666 fuel] assms by auto
  have "N < 10"
  proof (rule ccontr)
    assume "\<not> N < 10"
    then have "10 * 10 \<le> N * N" by (intro mult_le_mono) simp_all
    then show False using N(2) by simp
  qed
  moreover have "\<not> N < 9"
  proof
    assume "N < 9"
    then have "(N + 1) * (N + 1) \<le> 9 * 9" by (intro mult_le_mono) simp_all
    then show False using N(3) by simp
  qed
  ultimately have "N = 9" by simp
  then show ?thesis using N(1) by simp
qed

lemma initialised_matrix:
  assumes "initialised run s ns" "(if (scast (run_seed run) OR push_bit 16 (scast (run_seed run)) :: u32) = 0 then 1
      else sint (scast (run_seed run) OR push_bit 16 (scast (run_seed run)) :: u32)) = int seed"
    "concat R = element_pairs (9 * 9) 1 seed" "rows_of 9 R" "0 \<le> x" "x < 256" "open_sums 9 x R = (Some s2, Some s3)"
  shows "matrix_value s (word_of_int x) crc = crc16 (crc16 810 (crc16 (of_nat s3) (crc16 (of_nat s2) (crc16 810 0)))) crc"
proof -
  obtain fuel blk A B C where i: "16385 \<le> fuel" "length (A 81) = 81" "length (B 81) = 81" "length (C 81) = 81"
    "core_init_matrix fuel 666 blk (scast (run_seed run) OR push_bit 16 (scast (run_seed run))) A B C = Inr (res_mat s)"
    using assms(1) by (auto simp: initialised_def)
  have "matN (res_mat s) = 9 \<and> matA (res_mat s) = map (\<lambda>q. of_nat (fst q)) (concat R) \<and>
      matB (res_mat s) = map (\<lambda>q. of_nat (snd q)) (concat R) \<and> matC (res_mat s) = C (9 * 9)"
    using core_init_matrix_rows [OF i(5) dim_666 [OF i(1)] _ _ assms(2,3)] i(2,3) by simp
  then show ?thesis
    using matrix_value_rows [of s 9 R seed x s2 s3 crc] assms(3-7) i(4) by simp
qed

lemma initialised_text:
  assumes "initialised run s ns" "run_seed run + 1 = of_nat m" "m \<le> 60000" "token_nos 665 665 m = is"
    "length (run_text is 6) = 666"
  shows "res_text s = run_text is 6"
proof -
  obtain p where "length p = 666" "core_init_state 666 (run_seed run) p = Inr (res_text s)"
    using assms(1) by (auto simp: initialised_def)
  then show ?thesis using init_run_text [OF _ _ assms(2-5)] by blast
qed

section \<open>The checksums of a round\<close>

lemma performance_values:
  assumes "initialised PERFORMANCE_RUN s ns"
  shows "spec_round (text_value s) (matrix_value s) (res_seed3 s) (map (item s) ns) (0, 0, 0) = (0xe714, 0x1fd7, 0x8e3a)"
proof -
  have i: "res_size s = 666" "res_seed1 s = 0" "res_seed3 s = 102"
    "map (item s) ns = map (item_at performance_pairs) [0..<30]"
    using assms performance_items by (simp_all add: initialised_def run_seed_def run_seed3_def)
  have t: "res_text s = run_text performance_nos 6"
    by (rule initialised_text [OF assms _ _ performance_tokens performance_length]) (simp_all add: run_seed_def)
  have rows: "rows_of 9 performance_rows" by (simp add: rows_of_def performance_rows_def)
  have sd: "(if (scast (run_seed PERFORMANCE_RUN) OR push_bit 16 (scast (run_seed PERFORMANCE_RUN)) :: u32) = 0 then 1
      else sint (scast (run_seed PERFORMANCE_RUN) OR push_bit 16 (scast (run_seed PERFORMANCE_RUN)) :: u32)) = int 1"
    by (simp add: run_seed_def)
  have tv: "text_value s 34 crc = counts_crc [22, 80, 0, 0, 78, 44, 0, 32] [234, 34, 108, 48, 86, 54, 42, 0] crc"
    "text_value s 136 crc = counts_crc [22, 80, 0, 0, 78, 44, 0, 32] [234, 34, 108, 48, 86, 54, 42, 0] crc" for crc
    by (rule run_text_value [OF i(1) t performance_length _ _ _ _ performance_finals_34 performance_tracks_34];
        simp add: i(2))
      (rule run_text_value [OF i(1) t performance_length _ _ _ _ performance_finals_136 performance_tracks_136];
        simp add: i(2))
  have mv: "matrix_value s 17 crc = crc16 7153 crc" "matrix_value s 153 crc = crc16 40949 crc" for crc
    using initialised_matrix [OF assms sd performance_elements rows _ _ performance_sums_17]
      initialised_matrix [OF assms sd performance_elements rows _ _ performance_sums_153]
    by (simp_all add: performance_matrix_17 performance_matrix_153)
  show ?thesis
    unfolding i(3,4) by (rule performance_round) (rule tv mv)+
qed

lemma validation_values:
  assumes "initialised VALIDATION_RUN s ns"
  shows "spec_round (text_value s) (matrix_value s) (res_seed3 s) (map (item s) ns) (0, 0, 0) = (0xe3c1, 0x0747, 0x8d84)"
proof -
  have i: "res_size s = 666" "res_seed1 s = 0x3415" "res_seed3 s = 102"
    "map (item s) ns = map (item_at validation_pairs) [0..<30]"
    using assms validation_items by (simp_all add: initialised_def run_seed_def run_seed3_def)
  have t: "res_text s = run_text validation_nos 6"
    by (rule initialised_text [OF assms _ _ validation_tokens validation_length]) (simp_all add: run_seed_def)
  have rows: "rows_of 9 validation_rows" by (simp add: rows_of_def validation_rows_def)
  have sd: "(if (scast (run_seed VALIDATION_RUN) OR push_bit 16 (scast (run_seed VALIDATION_RUN)) :: u32) = 0 then 1
      else sint (scast (run_seed VALIDATION_RUN) OR push_bit 16 (scast (run_seed VALIDATION_RUN)) :: u32)) = int 873804821"
    by (simp add: run_seed_def)
  have tv: "text_value s 85 crc = counts_crc [23, 78, 0, 0, 78, 43, 0, 32] [231, 33, 101, 50, 92, 57, 44, 0] crc"
    "text_value s 221 crc = counts_crc [22, 72, 0, 0, 76, 44, 0, 34] [226, 32, 99, 52, 90, 56, 46, 0] crc" for crc
    by (rule run_text_value [OF i(1) t validation_length _ _ _ _ validation_finals_85 validation_tracks_85];
        simp add: i(2))
      (rule run_text_value [OF i(1) t validation_length _ _ _ _ validation_finals_221 validation_tracks_221];
        simp add: i(2))
  have mv: "matrix_value s 68 crc = crc16 30853 crc" "matrix_value s 204 crc = crc16 30853 crc" for crc
    using initialised_matrix [OF assms sd validation_elements rows _ _ validation_sums_68]
      initialised_matrix [OF assms sd validation_elements rows _ _ validation_sums_204]
    by (simp_all add: validation_matrix_68 validation_matrix_204)
  show ?thesis
    unfolding i(3,4) by (rule validation_round) (rule tv mv)+
qed

section \<open>The published checksums\<close>

text \<open>The three checksums, for lists, matrices and the text, that a run of one iteration or more leaves.\<close>

definition published :: "run_type \<Rightarrow> u16 \<times> u16 \<times> u16" where
  "published run = (if run = VALIDATION_RUN then (0xe3c1, 0x0747, 0x8d84) else (0xe714, 0x1fd7, 0x8e3a))"

lemma initialised_round:
  assumes "initialised run s ns" "run \<noteq> PROFILE_RUN"
  shows "spec_round (text_value s) (matrix_value s) (res_seed3 s) (map (item s) ns) (0, 0, 0) = published run"
  using assms performance_values validation_values by (cases run) (simp_all add: published_def)

lemma published_nonzero: "published run = (c, cm, cs) \<Longrightarrow> cm \<noteq> 0 \<and> cs \<noteq> 0"
  by (auto simp: published_def split: if_splits)

lemma init_matrix_lengths:
  assumes "core_init_matrix fuel blksize blk sd A B C = Inr p" "\<And>n. length (C n) = n"
  shows "length (matC p) = matN p * matN p"
  using assms by (auto simp: core_init_matrix_def Let_def bindE_Inr_iff)

lemma inits_initialised:
  assumes "res_execs s = 7" "res_size s = 666" "res_seed1 s = run_seed run" "res_seed2 s = run_seed run"
    "res_seed3 s = run_seed3 run" "25000 \<le> fuel" "old_sized old"
  shows "\<exists>s' ns. call_inits fuel base old s = Inr s' \<and> list_wf s' ns \<and> length ns = 30 \<and> spec_ready s' \<and>
    initialised run s' ns \<and> res_seed2 s' = run_seed run \<and> res_execs s' = 7 \<and> res_iterations s' = res_iterations s"
proof -
  obtain s' ns where i: "call_inits fuel base old s = Inr s'" "list_wf s' ns" "calc_ready s'" "length ns = 30"
    "res_seed1 s' = run_seed run" "res_seed2 s' = run_seed run" "res_seed3 s' = run_seed3 run" "res_size s' = 666"
    "res_execs s' = 7" "res_iterations s' = res_iterations s"
    "core_init_state 666 (run_seed run) (old_text old 666) = Inr (res_text s')"
    "map (item s') ns = sort_key (\<lambda>v. sint (idx v)) (init_items (run_seed run) 31)"
    "core_init_matrix fuel 666 (base + memblock_offset 7 666 1) (scast (run_seed run) OR push_bit 16 (scast (run_seed run)))
       (old_A old) (old_B old) (old_C old) = Inr (res_mat s')"
    using call_inits_run [of s fuel old base] assms run_keys_distinct [of run] by auto
  have old: "length (old_text old 666) = 666" "length (old_A old 81) = 81" "length (old_B old 81) = 81"
    "length (old_C old 81) = 81" "\<And>n. length (old_C old n) = n"
    using assms(7) by (simp_all add: old_sized_def)
  have "repairing_seed (run_seed run)" using run_seeds_repair by (cases run) (simp_all add: run_seed_def)
  then have "safe_text (run_seed run) 666 (res_text s')"
    using init_safe_text [OF _ _ _ _ i(11)] old(1) by simp
  then have ready: "spec_ready s'"
    using i(3,5,6,8) init_matrix_lengths [OF i(13) old(5)] by (simp add: spec_ready_def repairable_def)
  moreover have "initialised run s' ns"
    unfolding initialised_def using i(5,7,8,11-13) old(1-4) assms(6) by (intro conjI exI) auto
  ultimately show ?thesis using i by blast
qed

lemma report_crcs:
  "res_crclist (snd (report sizes measured s)) = res_crclist s" "res_crcmatrix (snd (report sizes measured s)) = res_crcmatrix s"
  "res_crcstate (snd (report sizes measured s)) = res_crcstate s"
  by (simp_all add: report_def Let_def check_results_eq split: option.split)

lemma published_run:
  assumes "run \<noteq> PROFILE_RUN" "it \<noteq> 0" "25000 \<le> fuel" "old_sized old"
  shows "\<exists>v s'. coremark_main fuel (seed_volatile run it) base old sizes secs measured s = Inr (v, s') \<and>
    (res_crclist s', res_crcmatrix s', res_crcstate s') = published run \<and>
    v = (if wrong_sizes sizes = 0 \<and> 10 \<le> secs_between measured then Validated else ErrorsDetected)"
proof -
  let ?r = "read_seeds (seed_volatile run it) s"
  note rs = read_run_seeds [of run it s]
  obtain s1 ns where s1: "call_inits fuel base old (?r\<lparr>res_size := 666, res_err := 0\<rparr>) = Inr s1" "list_wf s1 ns" "length ns = 30"
    "spec_ready s1" "initialised run s1 ns" "res_seed2 s1 = run_seed run" "res_execs s1 = 7" "res_iterations s1 = unat it"
    using inits_initialised [of "?r\<lparr>res_size := 666, res_err := 0\<rparr>" run fuel old base] rs assms(3,4) by auto
  have pos: "0 < res_iterations s1" using assms(2) s1(8) by (simp add: unat_gt_0)
  then have cal: "set_iterations fuel secs s1 = Inr s1" by (simp add: set_iterations_def)
  obtain crc cm cs where p: "published run = (crc, cm, cs)" by (rule prod_cases3)
  have seeds: "res_size s1 = 666" "res_seed1 s1 = run_seed run" "res_seed3 s1 = run_seed3 run"
    using s1(5) by (simp_all add: initialised_def)
  have "length ns < fuel" "even (length ns)" "0 < sint (res_seed3 s1)" using s1(3) assms(3) seeds(3) run_seed3_pos by simp_all
  then obtain s2 where s2: "iterate fuel s1 = Inr s2" "res_crclist s2 = crc" "res_crcmatrix s2 = cm" "res_crcstate s2 = cs"
    "same_values s1 s2 ns"
    using iterate_spec [OF s1(2,4) _ _ _ initialised_round [OF s1(5) assms(1), unfolded p]] published_nonzero [OF p] pos by blast
  have same: "res_seed1 s2 = run_seed run" "res_seed2 s2 = run_seed run" "res_seed3 s2 = run_seed3 run" "res_size s2 = 666"
    "res_execs s2 = 7"
    using s2(5) seeds s1(6,7) by (simp_all add: same_values_def same_inputs_def)
  have main: "coremark_main fuel (seed_volatile run it) base old sizes secs measured s = Inr (report sizes measured s2)"
    using rs(4) share_all s1(1) cal s2(1) by (simp add: coremark_main_def Let_def)
  obtain k where k: "run_known run = Some k" "crcs_match k s2"
    using assms(1) p s2(2-4) same(5)
    by (cases run) (auto simp: run_known_def crcs_match_def published_def list_known_crc_def matrix_known_crc_def state_known_crc_def
        ID_LIST_def ID_MATRIX_def ID_STATE_def)
  have "known_id (seed_crc s2) = Some k" using run_known_crc [of run] same k(1) by (simp add: seed_crc_def)
  then have "fst (report sizes measured s2) = (if wrong_sizes sizes = 0 \<and> 10 \<le> secs_between measured then Validated else ErrorsDetected)"
    using report_known [of s2 k sizes measured] k(2) wrong_crcs_0 [of k s2] by (simp add: problems_def not_less)
  moreover obtain v s' where "report sizes measured s2 = (v, s')" by (rule prod.exhaust)
  ultimately show ?thesis
    using main p s2(2-4) report_crcs [of sizes measured s2] by (intro exI [of _ v] exI [of _ s']) simp
qed

text \<open>
  C7: A performance run and a validation run of any number of iterations but zero end with the
  checksums that CoreMark publishes for them, whatever was in memory before; the program reports
  ``correct operation validated'' exactly if the types have their sizes and the clock shows at
  least 10 seconds.
\<close>

theorem known_runs_validate:
  assumes "run \<noteq> PROFILE_RUN" "it \<noteq> 0" "25000 \<le> fuel" "old_sized old"
  shows "\<exists>v s'. coremark_main fuel (seed_volatile run it) base old sizes secs measured s = Inr (v, s') \<and>
    (res_crclist s', res_crcmatrix s', res_crcstate s') = published run \<and>
    v = (if wrong_sizes sizes = 0 \<and> 10 \<le> secs_between measured then Validated else ErrorsDetected)"
  by (rule published_run [OF assms])

lemma known_runs_validate_witness:
  "\<forall>s. \<exists>s'. coremark_main 25000 (seed_volatile VALIDATION_RUN 400) 0 zero_memory rv32_sizes []
     ((0, 0, 0), (0, 0, 1000000000)) s = Inr (Validated, s') \<and>
     (res_crclist s', res_crcmatrix s', res_crcstate s') = (0xe3c1, 0x0747, 0x8d84)" (is "\<forall>s. ?P s")
proof
  fix s
  let ?m = "((0, 0, 0), (0, 0, 1000000000)) :: timing"
  have "(25000 :: nat) \<le> 25000" "(400 :: u32) \<noteq> 0" "VALIDATION_RUN \<noteq> PROFILE_RUN" by simp_all
  moreover have "10 \<le> secs_between ?m"
    by (simp add: secs_between_def measured_secs_def start_time_def stop_time_def get_time_def timer_ticks_def unat_time_in_secs)
  moreover have "wrong_sizes rv32_sizes = 0" by (simp add: wrong_sizes_def rv32_sizes_def)
  ultimately show "?P s"
    using known_runs_validate [OF _ _ _ zero_memory_sized, of VALIDATION_RUN 400 25000 0 rv32_sizes "[]" ?m s]
    by (simp add: published_def)
qed

end
