(* ===== verification/Spec2Isabelle.thy ===== *)
theory Spec2Isabelle
  imports Rendezvous Trap FAT32 SDLoad TTY FS CH375 Drivers Newlib Misc Boot CMSeeds CMSpec CMMain CMKnown
begin

text \<open>
  pseudOS is the small operating system of pComputer, a computer built around the RISC-V
  processor pCPU.  It boots from an SD card, schedules up to 63 processes preemptively, lets them
  exchange messages by rendezvous, and serves files and terminals through daemons.  This
  development models its C sources and states what makes each part correct.  Where the code does
  not do what it means to, the theorem says what it does.

  \<^bold>\<open>The program and its theories.\<close>  All paths are under \<^verbatim>\<open>src/pseudOS\<close>.

  \<^item> \<open>Prelude\<close>: machine words, faults as a sum type (\<open>bindE\<close>), byte addressed memory with the loads,
    stores and copies that the compiled code performs.
  \<^item> \<open>KTypes\<close>: \<^verbatim>\<open>kernel/process.h\<close>, \<^verbatim>\<open>kernel/global.h\<close>: stack frames, messages, processes, the process
    manager, and the machine state \<open>kstate\<close> (tables, memory, CSRs).
  \<^item> \<open>Sched\<close>: the scheduler of \<^verbatim>\<open>kernel/process.c\<close>: \<^verbatim>\<open>_proc_getnext\<close>, \<^verbatim>\<open>_proc_schedule\<close> with the
    context switch through \<^verbatim>\<open>REGS_SAVE_ADDR\<close>, \<^verbatim>\<open>_getavailpid\<close>, \<^verbatim>\<open>ProcManagerInit\<close>.
  \<^item> \<open>IPC\<close>, \<open>Rendezvous\<close>: \<^verbatim>\<open>_msg_send\<close>, \<^verbatim>\<open>_msg_receive\<close>, \<^verbatim>\<open>sendrec\<close>, \<^verbatim>\<open>sendrec_nonblock\<close>; the first theory
    has the code and the invariant of the process table, the second what sends and receives do.
  \<^item> \<open>Trap\<close>: \<^verbatim>\<open>kernel/syscall.c\<close>, \<^verbatim>\<open>kernel/isr.c\<close>; the step relation of the kernel under arbitrary traps
    and its reachable states.
  \<^item> \<open>IOQ\<close>: \<^verbatim>\<open>fs/ioqueue.c\<close>, the ring of pending requests, refining a bounded FIFO.
  \<^item> \<open>Blk\<close>, \<open>SDBlk\<close>, \<open>SDLoad\<close>: \<^verbatim>\<open>kernel/blk.c\<close>, \<^verbatim>\<open>mmio_drivers/sdcard_blk.c\<close>, \<^verbatim>\<open>host/fd_blk.c\<close>, and the
    loading routines of \<^verbatim>\<open>sdboot.c\<close>.  Two locales state what is relied on: \<open>block_device\<close> for the
    layer that does not wait, \<open>waiting_device\<close> for the loaders that poll.
  \<^item> \<open>FAT32\<close>: \<^verbatim>\<open>fs/fat32.c\<close>, \<^verbatim>\<open>fs/fat32.h\<close>: mounting, path lookup, cluster chains and reading.
  \<^item> \<open>Uart\<close>, \<open>TTY\<close>, \<open>FS\<close>: \<^verbatim>\<open>mmio_drivers/uart_chr.c\<close>, the terminal daemon \<^verbatim>\<open>fs/tty.c\<close> and the file
    daemon \<^verbatim>\<open>fs/fs.c\<close>; \<open>FS\<close> also follows the notification it sends through the trap handler.
  \<^item> \<open>Elf\<close>: \<^verbatim>\<open>kernel/elf.c\<close>, \<^verbatim>\<open>kernel/elf.h\<close>: the dynamic loader.
  \<^item> \<open>CH375\<close>, \<open>Drivers\<close>: the USB disk driver, the timer, the network chip, the key table, the text screen.
  \<^item> \<open>Newlib\<close>: \<^verbatim>\<open>newlib/syscall.c\<close>, the C library's system calls.
  \<^item> \<open>Misc\<close>: \<^verbatim>\<open>kernel/misc.c\<close>: messages, panic and failed assertions.
  \<^item> \<open>Boot\<close>: \<^verbatim>\<open>sdboot.c\<close> and the boot loaders under \<^verbatim>\<open>boot/\<close>, composing the parts above.

  \<^bold>\<open>CoreMark and its theories.\<close>  The paths of this part are under \<^verbatim>\<open>src/pCPU/coremark\<close>.

  \<^item> \<open>CMUtil\<close>: \<^verbatim>\<open>core_util.c\<close>, the checksum through which every algorithm reports, shown to be the remainder
    of a division of binary polynomials; the seeds and the check of the integer types.  \<open>CMSeeds\<close>: the
    reader of seeds given as text, which reads back what a printer writes.
  \<^item> \<open>CMState\<close>: \<^verbatim>\<open>core_state.c\<close>, the scanner of numbers, equal to a grammar; the text it scans; the
    benchmark that corrupts the text and repairs it.
  \<^item> \<open>CMMatrix\<close>: \<^verbatim>\<open>core_matrix.c\<close>, the operations as sums over entries, the test that restores its
    matrix, the layout that the initialisation chooses.
  \<^item> \<open>CMList\<close>, \<open>CMSort\<close>, \<open>CMBench\<close>: \<^verbatim>\<open>core_list_join.c\<close>, lists in a heap of cells and items.  \<open>CMList\<close> has
    insertion, removal, search and reversal; \<open>CMSort\<close> the merge sort, proved stable for every
    comparison that satisfies the locale \<open>list_order\<close>; \<open>CMBench\<close> the two comparisons, which interpret the
    locale, the benchmark, and \<^verbatim>\<open>iterate\<close> of \<^verbatim>\<open>core_main.c\<close>.
  \<^item> \<open>CMSpec\<close>: the list benchmark and its iterations as functions on the sequence of the items
    (\<open>spec_bench\<close>, \<open>spec_round\<close>), which the code is proved to refine.
  \<^item> \<open>CMPort\<close>: \<^verbatim>\<open>mmio_basic.c\<close>, \<^verbatim>\<open>timer.c\<close>, the clock of \<^verbatim>\<open>core_portme.c\<close>, \<^verbatim>\<open>newlib/syscall.c\<close>.
  \<^item> \<open>CMMain\<close>: \<^verbatim>\<open>core_list_init\<close> and \<^verbatim>\<open>main\<close> of \<^verbatim>\<open>core_main.c\<close>, composing all of them up to the verdict.
  \<^item> \<open>CMFast\<close>, \<open>CMCells\<close>, \<open>CMTokens\<close>: checksum and search, matrices and text in forms that are quick to
    evaluate by rewriting, each proved equal to the definitions above; \<open>CMRun\<close>: the performance and the
    validation run evaluated with them; \<open>CMKnown\<close>: these runs end with the published checksums.

  The interplay: \<^verbatim>\<open>main\<close> divides a block of 2000 bytes among list, matrices and text and calls the three
  initialisations; \<^verbatim>\<open>iterate\<close> runs the list benchmark, whose comparison \<^verbatim>\<open>cmp_complex\<close> evaluates the data of
  the list by running the text and the matrix benchmark and caching the result in the item; sorting
  by index regenerates the items.  The state of all is the record \<open>core_results\<close>, with the contents
  of the text and the matrices as lists.

  \<^bold>\<open>State and faults.\<close>  State is passed explicitly.  Operations that can stop without returning
  have a result type \<open>kfault + 'a\<close>: a failed assertion, a panic, an access outside an array or
  through null, the use of an unset variable, a division by zero, and a loop that does not end are
  its values.  Pointers to processes are indices of the process table; messages and strings
  live in memory.  Device registers are records with the environment's inputs (bytes that will
  arrive, interrupt levels, latency) as fields, and the outputs as traces.

  \<^bold>\<open>Interfaces.\<close>  \<open>bounded_queue\<close> (IOQ), \<open>block_device\<close> (Blk), \<open>waiting_device\<close> (SDLoad) and
  \<open>char_device\<close> (Uart) are locales; the SD card, the disk image, the ring buffer and the UART
  interpret them, and the clients' properties rest on the interpretations.  \<open>list_order\<close> (CMSort) is
  the contract between the merge sort and its comparisons, which may change the state.

  \<^bold>\<open>What the lemmas show.\<close>  Sched: exactly one process runs, round robin order, no starvation, the
  context switch restores registers and pc.  Rendezvous: delivery, FIFO order of senders, and the
  cases in which the list of senders is corrupted.  Trap: the invariant of the process table in
  every reachable state, preemption by the timer, delivery of file system calls.  IOQ: refinement of
  a FIFO.  Blk/SDBlk/SDLoad/FAT32: bytes read are the bytes of the disk, resp. of the file.
  TTY/FS: requests are carried out and answered, a request wakes a terminal that waits, and the race in
  which the wakeup is lost.  Elf: the second LOAD
  segment; the string comparison.  Boot: what is loaded where, and the new process.  CMList to CMMain:
  the sort returns the stable order, the benchmark and any number of iterations put list, items,
  matrices and text back, every run with the seeds of the port ends with a verdict, and the verdict
  is ``validated'' exactly if the checksums, types and time are right, but for unknown seeds.  CMKnown:
  for the performance and the validation run the checksums are right (\<open>known_runs_validate\<close>).

  \<^bold>\<open>Bounds.\<close>  Polling loops take the number of polls as fuel; one more than the latency of the device
  suffices (\<open>sd2mem_loads\<close>, \<open>bootrom_loads_kernel\<close>).  The directory scan takes the number of records as
  fuel; the number of the record in question suffices (\<open>fat32_read_correct\<close>).  The walks along lists
  of processes take more steps than there are processes, so running out of them means a cycle.
  Loops along a list of CoreMark cells take more rounds than the list has cells (\<open>core_bench_list_restores\<close>),
  the search for the dimension of the matrices no more than 16385 (\<open>core_init_matrix_total\<close>), so that
  25000 rounds are enough for a whole run (\<open>coremark_runs\<close>).

  \<^bold>\<open>Assumptions about the hardware.\<close>  The block layer, and with it \<open>FAT32\<close>, is proved for a card whose
  transfers end before the next register access, which the controller of the board never does;
  \<open>sd_read_stale\<close> shows the effect.  The loaders are proved for every latency.  The receiver of the UART
  never loses a byte in the model.  Signed arithmetic is checked for overflow where \<open>CMMatrix\<close>
  initialises the matrices; in the benchmark on them and in \<open>CMSeeds\<close> it wraps, as the compiled code does.

  \<^bold>\<open>Not modelled.\<close>  \<^verbatim>\<open>cli\<close> and \<^verbatim>\<open>sti\<close> around the queue operations of the two daemons: each pass of a daemon is one
  step, with no preemption inside.  The hardware description (\<^verbatim>\<open>pCPU/src\<close>) and the assembly (\<^verbatim>\<open>sdboot.S\<close>, \<^verbatim>\<open>isr_asm\<close>) are
  not C; of the trap entry only its contract is used, that the registers are at
  \<^verbatim>\<open>REGS_SAVE_ADDR\<close>.  Messages only print: the formatting of \<^verbatim>\<open>vprintf\<close> is library code, and the lines of the CoreMark
  report before the verdict are left out.  The RISC-V test macros are third party.  \<^verbatim>\<open>fs/fss.c\<close> is empty of statements,
  \<^verbatim>\<open>ps2_decode\<close> of \<^verbatim>\<open>ps2.c\<close> has no statement that does anything, the C++ test and the floating point
  test of \<^verbatim>\<open>sdboot.c\<close> compute values that are only printed.  The branches of CoreMark that this port does
  not compile (several contexts, memory from the heap or the stack, debug
  output) have no definitions.
\<close>

end
